(* ===== verification/Prelude.thy ===== *)
theory Prelude
  imports Main "HOL-Library.Word"
begin

text \<open>
  Shared by every theory of the development: the machine integer types, the outcome of a Rust
  computation, the state-and-error monad the model is written in, and the generic lemmas about
  them.

  \<^item> A Rust \<open>Result\<close> is \<open>Ok\<close> or \<open>Err\<close>; a panic (failed bounds check, failed \<open>assert!\<close>,
    \<open>unreachable!\<close>) is \<open>Panic\<close> with its reason.  \<open>OutOfFuel\<close> is no behaviour of the code: a loop
    whose end depends on the input stream is given fuel, and a theorem shows that the fuel is never
    used up.
  \<^item> The model is of the release build (no profile of the workspace changes it): integer
    arithmetic wraps at its width, \<open>debug_assert!\<close> is not compiled in, and \<open>usize\<close> has 64 bits.
  \<^item> A reader that fails still has a state, since callers may ignore the error: every operation
    returns the outcome and the new state.
\<close>

unbundle bit_operations_syntax

type_synonym u8 = "8 word"
type_synonym u16 = "16 word"
type_synonym u32 = "32 word"
type_synonym u64 = "64 word"
type_synonym i32 = "32 word"
type_synonym i64 = "64 word"
type_synonym usize = "64 word"

datatype panic =
    IndexOutOfBounds | AssertFailed | UnreachableCode | Unimplemented | ExplicitPanic

datatype ('e, 'a) outcome =
    Ok 'a | Err 'e | Panic panic | OutOfFuel

type_synonym ('s, 'e, 'a) rm = "'s \<Rightarrow> ('e, 'a) outcome \<times> 's"

named_theorems rm_simps "how the operations of the monad run"

fun map_err :: "('e \<Rightarrow> 'f) \<Rightarrow> ('e, 'a) outcome \<Rightarrow> ('f, 'a) outcome" where
  "map_err f (Ok x) = Ok x"
| "map_err f (Err e) = Err (f e)"
| "map_err f (Panic p) = Panic p"
| "map_err f OutOfFuel = OutOfFuel"

fun map_ok :: "('a \<Rightarrow> 'b) \<Rightarrow> ('e, 'a) outcome \<Rightarrow> ('e, 'b) outcome" where
  "map_ok f (Ok x) = Ok (f x)"
| "map_ok f (Err e) = Err e"
| "map_ok f (Panic p) = Panic p"
| "map_ok f OutOfFuel = OutOfFuel"

fun bindO :: "('e, 'a) outcome \<Rightarrow> ('a \<Rightarrow> ('e, 'b) outcome) \<Rightarrow> ('e, 'b) outcome" where
  "bindO (Ok x) f = f x"
| "bindO (Err e) f = Err e"
| "bindO (Panic p) f = Panic p"
| "bindO OutOfFuel f = OutOfFuel"

definition retM :: "'a \<Rightarrow> ('s, 'e, 'a) rm" where
  "retM x = (\<lambda>s. (Ok x, s))"

definition errM :: "'e \<Rightarrow> ('s, 'e, 'a) rm" where
  "errM e = (\<lambda>s. (Err e, s))"

definition liftO :: "('e, 'a) outcome \<Rightarrow> ('s, 'e, 'a) rm" where
  "liftO r = (\<lambda>s. (r, s))"

text \<open>The operator \<open>?\<close>: go on with the value, or return the failure to the caller.\<close>

definition bindM :: "('s, 'e, 'a) rm \<Rightarrow> ('a \<Rightarrow> ('s, 'e, 'b) rm) \<Rightarrow> ('s, 'e, 'b) rm" where
  "bindM m f = (\<lambda>s. case m s of
     (Ok x, s') \<Rightarrow> f x s'
   | (Err e, s') \<Rightarrow> (Err e, s')
   | (Panic p, s') \<Rightarrow> (Panic p, s')
   | (OutOfFuel, s') \<Rightarrow> (OutOfFuel, s'))"

abbreviation seqM :: "('s, 'e, 'a) rm \<Rightarrow> ('s, 'e, 'b) rm \<Rightarrow> ('s, 'e, 'b) rm" where
  "seqM m n \<equiv> bindM m (\<lambda>_. n)"

text \<open>The error conversion of \<open>?\<close> through \<open>From\<close>, and of \<open>map_err\<close>.\<close>

definition map_errM :: "('e \<Rightarrow> 'f) \<Rightarrow> ('s, 'e, 'a) rm \<Rightarrow> ('s, 'f, 'a) rm" where
  "map_errM f m = (\<lambda>s. case m s of (r, s') \<Rightarrow> (map_err f r, s'))"

text \<open>A call whose \<open>Result\<close> is bound to an unused name: an error is dropped, a panic is not.\<close>

definition ignoreM :: "('s, 'e, 'a) rm \<Rightarrow> ('s, 'f, unit) rm" where
  "ignoreM m = (\<lambda>s. case m s of
     (Ok _, s') \<Rightarrow> (Ok (), s')
   | (Err _, s') \<Rightarrow> (Ok (), s')
   | (Panic p, s') \<Rightarrow> (Panic p, s')
   | (OutOfFuel, s') \<Rightarrow> (OutOfFuel, s'))"

text \<open>A call on a part of the state.\<close>

definition zoomM :: "('s \<Rightarrow> 't) \<Rightarrow> ('t \<Rightarrow> 's \<Rightarrow> 's) \<Rightarrow> ('t, 'e, 'a) rm \<Rightarrow> ('s, 'e, 'a) rm" where
  "zoomM get put m = (\<lambda>s. case m (get s) of (r, t) \<Rightarrow> (r, put t s))"

subsection \<open>Running the monad\<close>

lemma retM_run [rm_simps]: "retM x s = (Ok x, s)"
  by (simp add: retM_def)

lemma errM_run [rm_simps]: "errM e s = (Err e, s)"
  by (simp add: errM_def)

lemma liftO_run [rm_simps]: "liftO r s = (r, s)"
  by (simp add: liftO_def)

lemma retM_eq_iff [simp]: "retM x s = (r, s') \<longleftrightarrow> r = Ok x \<and> s' = s"
  by (auto simp: retM_def)

lemma errM_eq_iff [simp]: "errM e s = (r, s') \<longleftrightarrow> r = Err e \<and> s' = s"
  by (auto simp: errM_def)

lemma liftO_eq_iff [simp]: "liftO r s = (r', s') \<longleftrightarrow> r' = r \<and> s' = s"
  by (auto simp: liftO_def)

lemma bindM_run [rm_simps]:
  "m s = (Ok x, s') \<Longrightarrow> bindM m f s = f x s'"
  "m s = (Err e, s') \<Longrightarrow> bindM m f s = (Err e, s')"
  "m s = (Panic p, s') \<Longrightarrow> bindM m f s = (Panic p, s')"
  "m s = (OutOfFuel, s') \<Longrightarrow> bindM m f s = (OutOfFuel, s')"
  by (simp_all add: bindM_def)

lemma bindM_retM [simp]: "bindM (retM x) f = f x"
  by (simp add: bindM_def retM_def)

lemma bindM_errM [simp]: "bindM (errM e) f = errM e"
  by (simp add: bindM_def errM_def)

lemma bindM_liftO_Ok [simp]: "bindM (liftO (Ok x)) f = f x"
  by (simp add: bindM_def liftO_def)

lemma liftO_Ok [simp]: "liftO (Ok x) = retM x"
  by (simp add: liftO_def retM_def)

lemma bindM_Ok_iff:
  "bindM m f s = (Ok y, s'') \<longleftrightarrow> (\<exists>x s'. m s = (Ok x, s') \<and> f x s' = (Ok y, s''))"
  by (auto simp: bindM_def split: prod.splits outcome.splits)

lemma bindM_OkE:
  assumes "bindM m f s = (Ok y, s'')"
  obtains x s' where "m s = (Ok x, s')" and "f x s' = (Ok y, s'')"
  using assms by (auto simp: bindM_Ok_iff)

lemma bindM_OutOfFuelE:
  assumes "bindM m f s = (OutOfFuel, s'')"
  obtains "m s = (OutOfFuel, s'')"
    | x s' where "m s = (Ok x, s')" and "f x s' = (OutOfFuel, s'')"
  using assms by (auto simp: bindM_def split: prod.splits outcome.splits)

lemma bindM_assoc: "bindM (bindM m f) g = bindM m (\<lambda>x. bindM (f x) g)"
  by (auto simp: bindM_def fun_eq_iff split: prod.splits outcome.splits)

lemma map_err_Ok_iff [simp]: "map_err f r = Ok x \<longleftrightarrow> r = Ok x"
  by (cases r) auto

lemma map_err_OutOfFuel_iff [simp]: "map_err f r = OutOfFuel \<longleftrightarrow> r = OutOfFuel"
  by (cases r) auto

lemma map_errM_Ok_iff [simp]: "map_errM f m s = (Ok x, s') \<longleftrightarrow> m s = (Ok x, s')"
  by (auto simp: map_errM_def split: prod.splits)

lemma map_errM_OutOfFuel_iff [simp]:
  "map_errM f m s = (OutOfFuel, s') \<longleftrightarrow> m s = (OutOfFuel, s')"
  by (auto simp: map_errM_def split: prod.splits)

lemma zoomM_Ok_iff:
  "zoomM get put m s = (Ok x, s') \<longleftrightarrow> (\<exists>t. m (get s) = (Ok x, t) \<and> s' = put t s)"
  by (auto simp: zoomM_def split: prod.splits)

lemma bindO_Ok_iff: "bindO r f = Ok y \<longleftrightarrow> (\<exists>x. r = Ok x \<and> f x = Ok y)"
  by (cases r) auto

lemma map_ok_Panic_iff [simp]: "map_ok f r = Panic p \<longleftrightarrow> r = Panic p"
  by (cases r) auto

lemma map_err_Panic_iff [simp]: "map_err f r = Panic p \<longleftrightarrow> r = Panic p"
  by (cases r) auto

lemma bindO_Panic_iff: "bindO r f = Panic p \<longleftrightarrow> r = Panic p \<or> (\<exists>x. r = Ok x \<and> f x = Panic p)"
  by (cases r) auto

lemma map_ok_Ok_iff: "map_ok f r = Ok y \<longleftrightarrow> (\<exists>x. r = Ok x \<and> y = f x)"
  by (cases r) auto

lemma map_ok_OutOfFuel_iff [simp]: "map_ok f r = OutOfFuel \<longleftrightarrow> r = OutOfFuel"
  by (cases r) auto

lemmas rm_Ok = bindM_Ok_iff zoomM_Ok_iff bindO_Ok_iff

subsection \<open>Slices and little-endian bytes\<close>

text \<open>Indexing a slice, and storing into it, panics out of bounds.\<close>

definition index_slice :: "'a list \<Rightarrow> nat \<Rightarrow> ('e, 'a) outcome" where
  "index_slice xs i = (if i < length xs then Ok (xs ! i) else Panic IndexOutOfBounds)"

definition store_slice :: "'a list \<Rightarrow> nat \<Rightarrow> 'a \<Rightarrow> ('e, 'a list) outcome" where
  "store_slice xs i x = (if i < length xs then Ok (xs[i := x]) else Panic IndexOutOfBounds)"

text \<open>\<open>&xs[..n]\<close> and \<open>&xs[a..b]\<close>.\<close>

definition slice_to :: "'a list \<Rightarrow> nat \<Rightarrow> ('e, 'a list) outcome" where
  "slice_to xs n = (if n \<le> length xs then Ok (take n xs) else Panic IndexOutOfBounds)"

definition slice_range :: "'a list \<Rightarrow> nat \<Rightarrow> nat \<Rightarrow> ('e, 'a list) outcome" where
  "slice_range xs a b =
     (if a \<le> b \<and> b \<le> length xs then Ok (take (b - a) (drop a xs)) else Panic IndexOutOfBounds)"

lemma index_slice_Ok_iff: "index_slice xs i = Ok x \<longleftrightarrow> i < length xs \<and> x = xs ! i"
  by (auto simp: index_slice_def)

lemma store_slice_Ok_iff: "store_slice xs i x = Ok ys \<longleftrightarrow> i < length xs \<and> ys = xs[i := x]"
  by (auto simp: store_slice_def)

lemma slice_to_Ok_iff: "slice_to xs n = Ok ys \<longleftrightarrow> n \<le> length xs \<and> ys = take n xs"
  by (auto simp: slice_to_def)

text \<open>\<open>from_le_bytes\<close>: the first byte is the least significant.\<close>

fun from_le_bytes :: "u8 list \<Rightarrow> 'a::len word" where
  "from_le_bytes [] = 0"
| "from_le_bytes (b # bs) = (ucast b OR push_bit 8 (from_le_bytes bs))"

end
