(* ===== verification/FxHash.thy ===== *)
theory FxHash
  imports Prelude
begin

text \<open>
  \<open>haste_core/src/fxhash.rs\<close> and \<open>fkey_from_path\<close> of \<open>entities.rs\<close>: the hash by which field names,
  serializer names and field keys are compared.  The lemmas show that one hashing step is a
  bijection in the running hash and in the value, so two inputs that differ in one place never
  collide, and that the key of a path is built up component by component.
\<close>

definition GOLDEN_RATIO :: u64 where
  "GOLDEN_RATIO = 0x517cc1b727220a95"

definition ROTATION_LENGTH :: nat where
  "ROTATION_LENGTH = 5"

definition add_u64_to_hash :: "u64 \<Rightarrow> u64 \<Rightarrow> u64" where
  "add_u64_to_hash hash value = (word_rotl ROTATION_LENGTH hash XOR value) * GOLDEN_RATIO"

text \<open>The loop over the index is a recursion on the bytes that are left.\<close>

fun hash_bytes_loop :: "u64 \<Rightarrow> u8 list \<Rightarrow> u64" where
  "hash_bytes_loop hash [] = hash"
| "hash_bytes_loop hash (b # bytes) = hash_bytes_loop (add_u64_to_hash hash (ucast b)) bytes"

definition hash_bytes :: "u8 list \<Rightarrow> u64" where
  "hash_bytes bytes = hash_bytes_loop 0 bytes"

text \<open>
  \<open>fkey_from_path\<close>: the first part seeds the key (indexing an empty path panics), every further
  part is hashed on its own and added.
\<close>

fun fkey_parts :: "u64 \<Rightarrow> u8 list list \<Rightarrow> u64" where
  "fkey_parts hash [] = hash"
| "fkey_parts hash (part # parts) = fkey_parts (add_u64_to_hash hash (hash_bytes part)) parts"

definition fkey_from_path :: "u8 list list \<Rightarrow> ('e, u64) outcome" where
  "fkey_from_path path =
     bindO (index_slice path 0) (\<lambda>first. Ok (fkey_parts (hash_bytes first) (tl path)))"

subsection \<open>One step is a bijection in each argument\<close>

text \<open>The inverse of the golden ratio modulo \<open>2^64\<close>.\<close>

definition GOLDEN_RATIO_INVERSE :: u64 where
  "GOLDEN_RATIO_INVERSE = 0x2040003d780970bd"

lemma golden_ratio_inverse: "GOLDEN_RATIO * GOLDEN_RATIO_INVERSE = 1"
  by (simp add: GOLDEN_RATIO_def GOLDEN_RATIO_INVERSE_def)

lemma add_u64_to_hash_unmul:
  "add_u64_to_hash h v * GOLDEN_RATIO_INVERSE = word_rotl ROTATION_LENGTH h XOR v"
  by (simp add: add_u64_to_hash_def mult.assoc golden_ratio_inverse)

lemma add_u64_to_hash_value_inj:
  "add_u64_to_hash h v = add_u64_to_hash h w \<longleftrightarrow> v = w"
proof
  assume "add_u64_to_hash h v = add_u64_to_hash h w"
  then have "word_rotl ROTATION_LENGTH h XOR v = word_rotl ROTATION_LENGTH h XOR w"
    by (simp flip: add_u64_to_hash_unmul)
  then have "word_rotl ROTATION_LENGTH h XOR (word_rotl ROTATION_LENGTH h XOR v)
      = word_rotl ROTATION_LENGTH h XOR (word_rotl ROTATION_LENGTH h XOR w)"
    by simp
  then show "v = w" by (simp flip: xor.assoc)
qed simp

lemma add_u64_to_hash_hash_inj:
  "add_u64_to_hash h v = add_u64_to_hash k v \<longleftrightarrow> h = k"
proof
  assume "add_u64_to_hash h v = add_u64_to_hash k v"
  then have "word_rotl ROTATION_LENGTH h XOR v = word_rotl ROTATION_LENGTH k XOR v"
    by (simp flip: add_u64_to_hash_unmul)
  then have "(word_rotl ROTATION_LENGTH h XOR v) XOR v = (word_rotl ROTATION_LENGTH k XOR v) XOR v"
    by (rule arg_cong)
  then have "word_rotl ROTATION_LENGTH h = word_rotl ROTATION_LENGTH k"
    by (simp only: xor.assoc xor_self_eq xor.right_neutral)
  then have "word_rotr ROTATION_LENGTH (word_rotl ROTATION_LENGTH h)
      = word_rotr ROTATION_LENGTH (word_rotl ROTATION_LENGTH k)"
    by simp
  then show "h = k" by simp
qed simp

lemma hash_bytes_loop_append:
  "hash_bytes_loop h (xs @ ys) = hash_bytes_loop (hash_bytes_loop h xs) ys"
  by (induction xs arbitrary: h) auto

lemma hash_bytes_loop_inj: "hash_bytes_loop h xs = hash_bytes_loop k xs \<longleftrightarrow> h = k"
  by (induction xs arbitrary: h k) (auto simp: add_u64_to_hash_hash_inj)

lemma fkey_parts_append: "fkey_parts h (xs @ ys) = fkey_parts (fkey_parts h xs) ys"
  by (induction xs arbitrary: h) auto

lemma fkey_from_path_snoc:
  "fkey_from_path path = Ok k \<Longrightarrow>
   fkey_from_path (path @ [part]) = Ok (add_u64_to_hash k (hash_bytes part))"
  by (auto simp: fkey_from_path_def index_slice_def fkey_parts_append nth_append hd_conv_nth
      neq_Nil_conv)

lemma ucast_u64_u8 [simp]: "(ucast (ucast (b::u8) :: u64) :: u8) = b"
  by (simp add: ucast_up_ucast is_up ucast_id)

lemma ucast_u8_u64_inj: "(ucast (b::u8) :: u64) = ucast c \<longleftrightarrow> b = c"
  by (metis ucast_u64_u8)

subsection \<open>What the hashes tell apart\<close>

text \<open>Two byte strings that differ in exactly one place have different hashes.\<close>

theorem hash_bytes_one_byte:
  "hash_bytes (xs @ b # ys) = hash_bytes (xs @ c # ys) \<longleftrightarrow> b = c"
  by (simp add: hash_bytes_def hash_bytes_loop_append hash_bytes_loop_inj add_u64_to_hash_value_inj
      ucast_u8_u64_inj)

text \<open>Field keys of paths that differ in one part collide exactly when the hashes of the two parts
  do; and a path that is not empty always has a key.\<close>

theorem fkey_one_part:
  "fkey_from_path (xs @ p # ys) = (fkey_from_path (xs @ q # ys) :: ('e, u64) outcome)
     \<longleftrightarrow> hash_bytes p = hash_bytes q"
proof -
  have inj: "fkey_parts h ps = fkey_parts k ps \<longleftrightarrow> h = k" for h k ps
    by (induction ps arbitrary: h k) (auto simp: add_u64_to_hash_hash_inj)
  show ?thesis
    by (cases xs) (simp_all add: fkey_from_path_def index_slice_def fkey_parts_append inj
      add_u64_to_hash_value_inj)
qed

end
