(* ===== verification/Bitbuf.thy ===== *)
theory Bitbuf
  imports Prelude
begin

text \<open>
  The interface of the crate \<open>dungers\<close> (module \<open>bitbuf\<close>), which is not part of the repository.
  Its reader is a parameter of the model: a state type and the record of the operations the program
  calls.  What the program relies on is stated as two predicates on that record, \<open>cursor_laws\<close> (a
  successful read moves the read position forward by the bits it read, seeking forward by as many
  bits ends in the same place, the counters follow the position) and \<open>value_laws\<close> (a read returns
  the next bits, least significant first).  \<open>ref_bitbuf\<close> is a concrete reader that satisfies both; it
  is used in witnesses only and is not a model of the crate.
\<close>

datatype bit_error =
    BufferTooSmall | TryFromIntError | MalformedVarint | OtherBitError nat

record 's bitbuf =
  bb_new :: "u8 list \<Rightarrow> 's"
  bb_num_bits_left :: "'s \<Rightarrow> nat"
  bb_num_bits_read :: "'s \<Rightarrow> nat"
  bb_read_ubit64 :: "nat \<Rightarrow> ('s, bit_error, u64) rm"
  bb_read_bool :: "('s, bit_error, bool) rm"
  bb_read_byte :: "('s, bit_error, u8) rm"
  bb_read_bits :: "u8 list \<Rightarrow> nat \<Rightarrow> ('s, bit_error, u8 list) rm"
  bb_read_bytes :: "u8 list \<Rightarrow> ('s, bit_error, u8 list) rm"
  bb_is_overflowed :: "('s, bit_error, unit) rm"
  bb_seek_relative :: "int \<Rightarrow> ('s, bit_error, unit) rm"
  bb_read_uvarint32 :: "('s, bit_error, u32) rm"
  bb_read_uvarint :: "('s, bit_error, u64) rm"
  bb_read_varint32 :: "('s, bit_error, i32) rm"
  bb_read_varint64 :: "('s, bit_error, i64) rm"
  bb_get_bit_for_bit_num :: "nat \<Rightarrow> int"

subsection \<open>What the program relies on\<close>

text \<open>A successful \<open>m\<close> ends where seeking forward by \<open>k\<close> bits ends.\<close>

definition advances :: "'s bitbuf \<Rightarrow> ('s, 'e, 'a) rm \<Rightarrow> nat \<Rightarrow> bool" where
  "advances B m k \<longleftrightarrow>
     (\<forall>s x s'. m s = (Ok x, s') \<longrightarrow> bb_seek_relative B (int k) s = (Ok (), s'))"

definition advances_some :: "'s bitbuf \<Rightarrow> ('s, 'e, 'a) rm \<Rightarrow> bool" where
  "advances_some B m \<longleftrightarrow>
     (\<forall>s x s'. m s = (Ok x, s') \<longrightarrow> (\<exists>k>0. bb_seek_relative B (int k) s = (Ok (), s')))"

definition no_fuel :: "('s, 'e, 'a) rm \<Rightarrow> bool" where
  "no_fuel m \<longleftrightarrow> (\<forall>s. fst (m s) \<noteq> OutOfFuel)"

definition seek_laws :: "'s bitbuf \<Rightarrow> bool" where
  "seek_laws B \<longleftrightarrow>
     (\<forall>s. bb_seek_relative B 0 s = (Ok (), s)) \<and>
     (\<forall>m n s s' s''. bb_seek_relative B (int m) s = (Ok (), s') \<longrightarrow>
        bb_seek_relative B (int n) s' = (Ok (), s'') \<longrightarrow>
        bb_seek_relative B (int (m + n)) s = (Ok (), s'')) \<and>
     (\<forall>k s s'. bb_seek_relative B (int k) s = (Ok (), s') \<longrightarrow>
        bb_num_bits_read B s' = bb_num_bits_read B s + k \<and>
        bb_num_bits_left B s = bb_num_bits_left B s' + k) \<and>
     (\<forall>s. bb_num_bits_left B s < 2 ^ 64)"

definition read_laws :: "'s bitbuf \<Rightarrow> bool" where
  "read_laws B \<longleftrightarrow>
     (\<forall>n. advances B (bb_read_ubit64 B n) n) \<and>
     advances B (bb_read_bool B) 1 \<and>
     advances B (bb_read_byte B) 8 \<and>
     (\<forall>buf n. advances B (bb_read_bits B buf n) n) \<and>
     (\<forall>buf. advances B (bb_read_bytes B buf) (8 * length buf)) \<and>
     advances_some B (bb_read_uvarint32 B) \<and>
     advances_some B (bb_read_uvarint B) \<and>
     advances_some B (bb_read_varint32 B) \<and>
     advances_some B (bb_read_varint64 B) \<and>
     (\<forall>n s v s'. bb_read_ubit64 B n s = (Ok v, s') \<longrightarrow> n \<le> 64 \<and> unat v < 2 ^ n)"

definition fuel_laws :: "'s bitbuf \<Rightarrow> bool" where
  "fuel_laws B \<longleftrightarrow>
     (\<forall>n. no_fuel (bb_read_ubit64 B n)) \<and> no_fuel (bb_read_bool B) \<and> no_fuel (bb_read_byte B) \<and>
     (\<forall>buf n. no_fuel (bb_read_bits B buf n)) \<and> (\<forall>buf. no_fuel (bb_read_bytes B buf)) \<and>
     no_fuel (bb_is_overflowed B) \<and> (\<forall>i. no_fuel (bb_seek_relative B i)) \<and>
     no_fuel (bb_read_uvarint32 B) \<and> no_fuel (bb_read_uvarint B) \<and>
     no_fuel (bb_read_varint32 B) \<and> no_fuel (bb_read_varint64 B)"

definition cursor_laws :: "'s bitbuf \<Rightarrow> bool" where
  "cursor_laws B \<longleftrightarrow> seek_laws B \<and> read_laws B \<and> fuel_laws B"

text \<open>\<open>bits s\<close> are the bits still to be read in the state \<open>s\<close>.\<close>

definition word_of_bits :: "bool list \<Rightarrow> 'a::len word" where
  "word_of_bits bs = horner_sum of_bool 2 bs"

definition value_laws :: "'s bitbuf \<Rightarrow> ('s \<Rightarrow> bool list) \<Rightarrow> bool" where
  "value_laws B bits \<longleftrightarrow>
     (\<forall>s bs r. bits s = bs @ r \<longrightarrow> bs \<noteq> [] \<longrightarrow> length bs \<le> 64 \<longrightarrow>
        (\<exists>s'. bb_read_ubit64 B (length bs) s = (Ok (word_of_bits bs), s') \<and> bits s' = r)) \<and>
     (\<forall>s b r. bits s = b # r \<longrightarrow> (\<exists>s'. bb_read_bool B s = (Ok b, s') \<and> bits s' = r)) \<and>
     (\<forall>s bs r. bits s = bs @ r \<longrightarrow> length bs = 8 \<longrightarrow>
        (\<exists>s'. bb_read_byte B s = (Ok (word_of_bits bs), s') \<and> bits s' = r))"

subsection \<open>The laws as rules\<close>

lemma cursor_laws_seek_add:
  assumes "cursor_laws B" "bb_seek_relative B (int m) s = (Ok (), s')"
    "bb_seek_relative B (int n) s' = (Ok (), s'')"
  shows "bb_seek_relative B (int (m + n)) s = (Ok (), s'')"
  using assms unfolding cursor_laws_def seek_laws_def by blast

lemma cursor_laws_seek_0: "cursor_laws B \<Longrightarrow> bb_seek_relative B 0 s = (Ok (), s)"
  by (simp add: cursor_laws_def seek_laws_def)

lemma cursor_laws_read:
  assumes "cursor_laws B" "bb_seek_relative B (int k) s = (Ok (), s')"
  shows "bb_num_bits_read B s' = bb_num_bits_read B s + k"
  using assms unfolding cursor_laws_def seek_laws_def by blast

lemma cursor_laws_left:
  assumes "cursor_laws B" "bb_seek_relative B (int k) s = (Ok (), s')"
  shows "bb_num_bits_left B s = bb_num_bits_left B s' + k"
  using assms unfolding cursor_laws_def seek_laws_def by blast

lemma cursor_laws_usize: "cursor_laws B \<Longrightarrow> bb_num_bits_left B s < 2 ^ 64"
  by (simp add: cursor_laws_def seek_laws_def)

lemma cursor_laws_advances:
  assumes "cursor_laws B"
  shows "advances B (bb_read_ubit64 B n) n" "advances B (bb_read_bool B) 1"
    "advances B (bb_read_byte B) 8" "advances B (bb_read_bits B buf n) n"
    "advances B (bb_read_bytes B buf) (8 * length buf)"
    "advances_some B (bb_read_uvarint32 B)" "advances_some B (bb_read_uvarint B)"
    "advances_some B (bb_read_varint32 B)" "advances_some B (bb_read_varint64 B)"
  using assms by (auto simp: cursor_laws_def read_laws_def)

lemma cursor_laws_ubit64_bound:
  assumes "cursor_laws B" "bb_read_ubit64 B n s = (Ok v, s')"
  shows "unat v < 2 ^ n" and "n \<le> 64"
  using assms unfolding cursor_laws_def read_laws_def by blast+

lemma cursor_laws_fuel:
  assumes "cursor_laws B"
  shows "bb_read_ubit64 B n s \<noteq> (OutOfFuel, s')" "bb_read_bool B s \<noteq> (OutOfFuel, s')"
    "bb_read_byte B s \<noteq> (OutOfFuel, s')" "bb_read_bits B buf n s \<noteq> (OutOfFuel, s')"
    "bb_read_bytes B buf s \<noteq> (OutOfFuel, s')" "bb_is_overflowed B s \<noteq> (OutOfFuel, s')"
    "bb_seek_relative B i s \<noteq> (OutOfFuel, s')" "bb_read_uvarint32 B s \<noteq> (OutOfFuel, s')"
    "bb_read_uvarint B s \<noteq> (OutOfFuel, s')" "bb_read_varint32 B s \<noteq> (OutOfFuel, s')"
    "bb_read_varint64 B s \<noteq> (OutOfFuel, s')"
  using assms by (auto simp: cursor_laws_def fuel_laws_def no_fuel_def) (metis fst_conv)+

lemma advancesD: "advances B m k \<Longrightarrow> m s = (Ok x, s') \<Longrightarrow> bb_seek_relative B (int k) s = (Ok (), s')"
  by (auto simp: advances_def)

lemma advances_someE:
  assumes "advances_some B m" "m s = (Ok x, s')"
  obtains k where "0 < k" "bb_seek_relative B (int k) s = (Ok (), s')"
  using assms unfolding advances_some_def by blast

subsection \<open>A reader that satisfies the laws\<close>

definition bits_of_bytes :: "u8 list \<Rightarrow> bool list" where
  "bits_of_bytes data = concat (map (\<lambda>b. map (bit b) [0..<8]) data)"

type_synonym ref_reader = "bool list \<times> nat"

definition ref_room :: "ref_reader \<Rightarrow> nat \<Rightarrow> bool" where
  "ref_room s n \<longleftrightarrow> snd s + n \<le> length (fst s) \<and> length (fst s) < 2 ^ 64"

definition ref_take :: "nat \<Rightarrow> (ref_reader, bit_error, bool list) rm" where
  "ref_take n = (\<lambda>s. if ref_room s n then (Ok (take n (drop (snd s) (fst s))), (fst s, snd s + n))
     else (Err (OtherBitError 0), s))"

fun ref_uvarint :: "nat \<Rightarrow> nat \<Rightarrow> u64 \<Rightarrow> (ref_reader, bit_error, u64) rm" where
  "ref_uvarint 0 i acc = errM MalformedVarint"
| "ref_uvarint (Suc fuel) i acc = bindM (ref_take 8) (\<lambda>bs.
     let v = acc OR push_bit (7 * i) (word_of_bits (take 7 bs)) in
     if bs ! 7 then ref_uvarint fuel (Suc i) v else retM v)"

definition zigzag :: "'a::len word \<Rightarrow> 'a word" where
  "zigzag v = (drop_bit 1 v XOR (0 - (v AND 1)))"

fun bytes_of_bits :: "nat \<Rightarrow> bool list \<Rightarrow> u8 list" where
  "bytes_of_bits 0 bs = []"
| "bytes_of_bits (Suc k) bs = word_of_bits (take 8 bs) # bytes_of_bits k (drop 8 bs)"

definition ref_bitbuf :: "ref_reader bitbuf" where
  "ref_bitbuf = \<lparr>
     bb_new = (\<lambda>data. (bits_of_bytes data, 0)),
     bb_num_bits_left = (\<lambda>s. if ref_room s 0 then length (fst s) - snd s else 0),
     bb_num_bits_read = snd,
     bb_read_ubit64 = (\<lambda>n. if n \<le> 64 then bindM (ref_take n) (\<lambda>bs. retM (word_of_bits bs))
                           else errM (OtherBitError 1)),
     bb_read_bool = bindM (ref_take 1) (\<lambda>bs. retM (hd bs)),
     bb_read_byte = bindM (ref_take 8) (\<lambda>bs. retM (word_of_bits bs)),
     bb_read_bits = (\<lambda>buf n. if n \<le> 8 * length buf
        then bindM (ref_take n) (\<lambda>bs. retM (bytes_of_bits ((n + 7) div 8) bs @ drop ((n + 7) div 8) buf))
        else errM BufferTooSmall),
     bb_read_bytes = (\<lambda>buf. bindM (ref_take (8 * length buf)) (\<lambda>bs. retM (bytes_of_bits (length buf) bs))),
     bb_is_overflowed = (\<lambda>s. (if snd s \<le> length (fst s) then Ok () else Err (OtherBitError 0), s)),
     bb_seek_relative = (\<lambda>i s. if i = 0 then (Ok (), s)
        else if 0 < i then bindM (ref_take (nat i)) (\<lambda>_. retM ()) s
        else if nat (- i) \<le> snd s then (Ok (), (fst s, snd s - nat (- i)))
        else (Err (OtherBitError 0), s)),
     bb_read_uvarint32 = bindM (ref_uvarint 5 0 0) (\<lambda>v. retM (ucast v)),
     bb_read_uvarint = ref_uvarint 10 0 0,
     bb_read_varint32 = bindM (ref_uvarint 5 0 0) (\<lambda>v. retM (zigzag (ucast v))),
     bb_read_varint64 = bindM (ref_uvarint 10 0 0) (\<lambda>v. retM (zigzag v)),
     bb_get_bit_for_bit_num = (\<lambda>n. 2 ^ (n mod 32)) \<rparr>"

definition ref_bits :: "ref_reader \<Rightarrow> bool list" where
  "ref_bits s = (if length (fst s) < 2 ^ 64 then drop (snd s) (fst s) else [])"

lemma ref_take_Ok_iff:
  "ref_take n s = (Ok bs, s') \<longleftrightarrow>
   ref_room s n \<and> bs = take n (drop (snd s) (fst s)) \<and> s' = (fst s, snd s + n)"
  by (auto simp: ref_take_def)

lemma ref_take_no_fuel [simp]: "ref_take n s \<noteq> (OutOfFuel, s')"
  by (simp add: ref_take_def)

lemma ref_seek_iff:
  "bb_seek_relative ref_bitbuf (int k) s = (Ok (), s') \<longleftrightarrow>
   (if k = 0 then s' = s else ref_room s k \<and> s' = (fst s, snd s + k))"
  by (auto simp: ref_bitbuf_def bindM_Ok_iff ref_take_Ok_iff)

lemma ref_uvarint_Ok:
  "ref_uvarint fuel i acc s = (Ok v, s') \<Longrightarrow>
   \<exists>k>0. ref_room s k \<and> s' = (fst s, snd s + k)"
proof (induction fuel arbitrary: i acc s)
  case (Suc fuel)
  from Suc.prems obtain bs s1 where t: "ref_take 8 s = (Ok bs, s1)"
    and r: "(if bs ! 7 then ref_uvarint fuel (Suc i) (acc OR push_bit (7 * i) (word_of_bits (take 7 bs)))
       else retM (acc OR push_bit (7 * i) (word_of_bits (take 7 bs)))) s1 = (Ok v, s')"
    by (auto simp: bindM_Ok_iff Let_def)
  show ?case
  proof (cases "bs ! 7")
    case True
    with r have "ref_uvarint fuel (Suc i)
        (acc OR push_bit (7 * i) (word_of_bits (take 7 bs))) s1 = (Ok v, s')" by simp
    from Suc.IH [OF this] obtain k where "k > 0" "ref_room s1 k" "s' = (fst s1, snd s1 + k)"
      by blast
    with t show ?thesis
      by (intro exI [of _ "8 + k"]) (auto simp: ref_take_Ok_iff ref_room_def)
  next
    case False
    with r t show ?thesis
      by (intro exI [of _ 8]) (auto simp: ref_take_Ok_iff)
  qed
qed simp

lemma ref_uvarint_no_fuel: "ref_uvarint fuel i acc s \<noteq> (OutOfFuel, s')"
  by (induction fuel arbitrary: i acc s)
    (auto simp: Let_def errM_def elim!: bindM_OutOfFuelE split: if_splits)

lemma unat_word_of_bits: "length bs \<le> LENGTH('a::len) \<Longrightarrow> unat (word_of_bits bs :: 'a word) < 2 ^ length bs"
proof -
  assume "length bs \<le> LENGTH('a)"
  have w: "(word_of_bits bs :: 'a word) = of_nat (horner_sum of_bool 2 bs)"
    by (induction bs) (auto simp: word_of_bits_def)
  have "(horner_sum of_bool 2 bs :: nat) < 2 ^ length bs"
    by (rule horner_sum_of_bool_2_less)
  then show ?thesis
    unfolding w by (metis le_less_trans unat_of_nat mod_less_eq_dividend)
qed

lemma bytes_of_bits_length [simp]: "length (bytes_of_bits k bs) = k"
  by (induction k arbitrary: bs) auto

lemma ref_room_add: "ref_room s m \<Longrightarrow> ref_room (fst s, snd s + m) n \<Longrightarrow> ref_room s (m + n)"
  by (simp add: ref_room_def)

lemma ref_seek_laws: "seek_laws ref_bitbuf"
  unfolding seek_laws_def
proof (intro conjI allI impI)
  fix s show "bb_seek_relative ref_bitbuf 0 s = (Ok (), s)" by (simp add: ref_bitbuf_def)
next
  fix m n s s' s''
  assume "bb_seek_relative ref_bitbuf (int m) s = (Ok (), s')"
    and "bb_seek_relative ref_bitbuf (int n) s' = (Ok (), s'')"
  then show "bb_seek_relative ref_bitbuf (int (m + n)) s = (Ok (), s'')"
    by (auto simp: ref_seek_iff ref_room_add simp del: of_nat_add split: if_splits)
next
  fix k s s' assume "bb_seek_relative ref_bitbuf (int k) s = (Ok (), s')"
  then have s': "s' = s \<and> k = 0 \<or> ref_room s k \<and> s' = (fst s, snd s + k)"
    by (auto simp: ref_seek_iff split: if_splits)
  then show "bb_num_bits_read ref_bitbuf s' = bb_num_bits_read ref_bitbuf s + k"
    by (auto simp: ref_bitbuf_def)
  from s' show "bb_num_bits_left ref_bitbuf s = bb_num_bits_left ref_bitbuf s' + k"
    by (auto simp: ref_bitbuf_def ref_room_def)
next
  fix s show "bb_num_bits_left ref_bitbuf s < 2 ^ 64"
    by (auto simp: ref_bitbuf_def ref_room_def)
qed

lemma ref_advances:
  assumes "\<And>s x s'. m s = (Ok x, s') \<Longrightarrow> ref_room s k \<and> s' = (fst s, snd s + k)"
  shows "advances ref_bitbuf m k"
  using assms by (fastforce simp: advances_def ref_seek_iff)

lemma ref_advances_some:
  assumes "\<And>s x s'. m s = (Ok x, s') \<Longrightarrow> \<exists>k>0. ref_room s k \<and> s' = (fst s, snd s + k)"
  shows "advances_some ref_bitbuf m"
  unfolding advances_some_def
proof (intro allI impI)
  fix s x s' assume "m s = (Ok x, s')"
  from assms [OF this] obtain k where "0 < k" "ref_room s k" "s' = (fst s, snd s + k)" by blast
  then show "\<exists>k>0. bb_seek_relative ref_bitbuf (int k) s = (Ok (), s')"
    by (intro exI [of _ k]) (simp add: ref_seek_iff)
qed

lemma ref_read_laws: "read_laws ref_bitbuf"
  unfolding read_laws_def
proof (intro conjI allI)
  fix n show "advances ref_bitbuf (bb_read_ubit64 ref_bitbuf n) n"
    by (rule ref_advances)
      (auto simp: ref_bitbuf_def bindM_Ok_iff ref_take_Ok_iff errM_def split: if_splits)
next
  show "advances ref_bitbuf (bb_read_bool ref_bitbuf) 1"
    by (rule ref_advances) (auto simp: ref_bitbuf_def bindM_Ok_iff ref_take_Ok_iff)
next
  show "advances ref_bitbuf (bb_read_byte ref_bitbuf) 8"
    by (rule ref_advances) (auto simp: ref_bitbuf_def bindM_Ok_iff ref_take_Ok_iff)
next
  fix buf n show "advances ref_bitbuf (bb_read_bits ref_bitbuf buf n) n"
    by (rule ref_advances)
      (auto simp: ref_bitbuf_def bindM_Ok_iff ref_take_Ok_iff errM_def split: if_splits)
next
  fix buf show "advances ref_bitbuf (bb_read_bytes ref_bitbuf buf) (8 * length buf)"
    by (rule ref_advances) (auto simp: ref_bitbuf_def bindM_Ok_iff ref_take_Ok_iff)
next
  show "advances_some ref_bitbuf (bb_read_uvarint32 ref_bitbuf)"
    by (rule ref_advances_some) (force simp: ref_bitbuf_def bindM_Ok_iff dest: ref_uvarint_Ok)
next
  show "advances_some ref_bitbuf (bb_read_uvarint ref_bitbuf)"
    by (rule ref_advances_some) (force simp: ref_bitbuf_def dest: ref_uvarint_Ok)
next
  show "advances_some ref_bitbuf (bb_read_varint32 ref_bitbuf)"
    by (rule ref_advances_some) (force simp: ref_bitbuf_def bindM_Ok_iff dest: ref_uvarint_Ok)
next
  show "advances_some ref_bitbuf (bb_read_varint64 ref_bitbuf)"
    by (rule ref_advances_some) (force simp: ref_bitbuf_def bindM_Ok_iff dest: ref_uvarint_Ok)
next
  fix n s v s'
  show "bb_read_ubit64 ref_bitbuf n s = (Ok v, s') \<longrightarrow> n \<le> 64 \<and> unat v < 2 ^ n"
  proof
    assume "bb_read_ubit64 ref_bitbuf n s = (Ok v, s')"
    then have n: "n \<le> 64" "ref_room s n" "v = word_of_bits (take n (drop (snd s) (fst s)))"
      by (auto simp: ref_bitbuf_def bindM_Ok_iff ref_take_Ok_iff errM_def split: if_splits)
    then have "length (take n (drop (snd s) (fst s))) = n" by (auto simp: ref_room_def)
    with n unat_word_of_bits [of "take n (drop (snd s) (fst s))", where 'a = 64]
    show "n \<le> 64 \<and> unat v < 2 ^ n" by simp
  qed
qed

lemma no_fuelI: "(\<And>s s'. m s \<noteq> (OutOfFuel, s')) \<Longrightarrow> no_fuel m"
  unfolding no_fuel_def by (metis prod.collapse)

lemma bindM_no_fuel:
  assumes "\<And>s s'. m s \<noteq> (OutOfFuel, s')" "\<And>x s s'. f x s \<noteq> (OutOfFuel, s')"
  shows "bindM m f s \<noteq> (OutOfFuel, s')"
  using assms by (auto elim!: bindM_OutOfFuelE)

lemma ref_fuel_laws: "fuel_laws ref_bitbuf"
  unfolding fuel_laws_def
  by (intro conjI allI no_fuelI)
    (simp_all add: ref_bitbuf_def bindM_no_fuel ref_uvarint_no_fuel errM_def)

lemma ref_cursor_laws: "cursor_laws ref_bitbuf"
  by (simp add: cursor_laws_def ref_seek_laws ref_read_laws ref_fuel_laws)

lemma ref_take_bits:
  assumes "ref_bits s = bs @ r" "bs \<noteq> []"
  shows "ref_take (length bs) s = (Ok bs, (fst s, snd s + length bs)) \<and> ref_bits (fst s, snd s + length bs) = r"
proof -
  have d: "drop (snd s) (fst s) = bs @ r" "length (fst s) < 2 ^ 64"
    using assms by (auto simp: ref_bits_def split: if_splits)
  have "length bs + length r = length (fst s) - snd s" using arg_cong [OF d(1), of length] by simp
  moreover have "0 < length bs" using assms(2) by simp
  ultimately have "ref_room s (length bs)" using d(2) unfolding ref_room_def by linarith
  moreover have "ref_bits (fst s, snd s + length bs) = r"
    using d by (simp add: ref_bits_def add.commute [of "snd s"] flip: drop_drop)
  ultimately show ?thesis using d by (simp add: ref_take_def)
qed

lemma ref_value_laws: "value_laws ref_bitbuf ref_bits"
  unfolding value_laws_def
proof (intro conjI allI impI)
  fix s bs r assume b: "ref_bits s = bs @ r" "bs \<noteq> []" "length bs \<le> 64"
  then show "\<exists>s'. bb_read_ubit64 ref_bitbuf (length bs) s = (Ok (word_of_bits bs), s') \<and> ref_bits s' = r"
    using ref_take_bits [OF b(1,2)] by (auto simp: ref_bitbuf_def bindM_def retM_def)
next
  fix s b r assume "ref_bits s = b # r"
  then show "\<exists>s'. bb_read_bool ref_bitbuf s = (Ok b, s') \<and> ref_bits s' = r"
    using ref_take_bits [of s "[b]" r] by (auto simp: ref_bitbuf_def bindM_def retM_def)
next
  fix s bs r assume b: "ref_bits s = bs @ r" "length bs = 8"
  then show "\<exists>s'. bb_read_byte ref_bitbuf s = (Ok (word_of_bits bs), s') \<and> ref_bits s' = r"
    using ref_take_bits [OF b(1)] by (cases "bs = []") (auto simp: ref_bitbuf_def bindM_def retM_def)
qed

end
