(* ===== verification/Floats.thy ===== *)
theory Floats
  imports Complex_Main Prelude
begin

text \<open>
  The floating-point numbers of the language: IEEE 754 binary32 (\<open>f32\<close>) and binary64 (\<open>f64\<close>)
  with round to nearest, ties to even, as far as the program uses them.  A finite number is its
  sign, its significand and the exponent of its last place; every operation computes the exact
  result as a ratio of integers times a power of two and rounds it once.  All NaNs are one value:
  the program never looks at their payload.
\<close>

record float_fmt =
  prec :: nat
  emin :: int
  emax :: int

definition binary32 :: float_fmt where
  "binary32 = \<lparr>prec = 24, emin = -149, emax = 104\<rparr>"

definition binary64 :: float_fmt where
  "binary64 = \<lparr>prec = 53, emin = -1074, emax = 971\<rparr>"

datatype flt = NaN | Inf bool | Fin bool nat int

type_synonym f32 = flt
type_synonym f64 = flt

definition f_zero :: flt where
  "f_zero = Fin False 0 (-149)"

text \<open>The real number a finite float stands for.\<close>

definition signed_real :: "bool \<Rightarrow> real \<Rightarrow> real" where
  "signed_real s x = (if s then - x else x)"

fun flt_val :: "flt \<Rightarrow> real" where
  "flt_val (Fin s m e) = signed_real s (of_nat m * 2 powi e)"
| "flt_val _ = 0"

fun is_fin :: "flt \<Rightarrow> bool" where
  "is_fin (Fin s m e) = True"
| "is_fin _ = False"

subsection \<open>Rounding\<close>

fun bitlen :: "nat \<Rightarrow> nat" where
  "bitlen n = (if n = 0 then 0 else Suc (bitlen (n div 2)))"

declare bitlen.simps [simp del]

text \<open>The exponent \<open>k\<close> with \<open>2^k \<le> n / d < 2^(k+1)\<close>.\<close>

definition ilog2_ratio :: "nat \<Rightarrow> nat \<Rightarrow> int" where
  "ilog2_ratio n d =
     (let k = int (bitlen n) - int (bitlen d) in
      if (if 0 \<le> k then d * 2 ^ nat k \<le> n else d \<le> n * 2 ^ nat (- k)) then k else k - 1)"

text \<open>The integer nearest to \<open>n / d\<close>, the even one of two.\<close>

definition round_div :: "nat \<Rightarrow> nat \<Rightarrow> nat" where
  "round_div n d =
     (let q = n div d; r = n mod d in
      if 2 * r < d then q
      else if d < 2 * r then Suc q
      else if even q then q else Suc q)"

text \<open>\<open>(-1)^s * n / d * 2^E\<close> in the format \<open>F\<close>.\<close>

definition round_flt :: "float_fmt \<Rightarrow> bool \<Rightarrow> nat \<Rightarrow> nat \<Rightarrow> int \<Rightarrow> flt" where
  "round_flt F s n d E =
     (if n = 0 then Fin s 0 (emin F)
      else
        let e = max (emin F) (ilog2_ratio n d + E - int (prec F) + 1);
            m = (if e \<le> E then round_div (n * 2 ^ nat (E - e)) d
                 else round_div n (d * 2 ^ nat (e - E)));
            m' = (if m = 2 ^ prec F then 2 ^ (prec F - 1) else m);
            e' = (if m = 2 ^ prec F then e + 1 else e)
        in if emax F < e' then Inf s else Fin s m' e')"

subsection \<open>Operations\<close>

definition signed_int :: "bool \<Rightarrow> nat \<Rightarrow> int" where
  "signed_int s m = (if s then - int m else int m)"

fun fl_neg :: "flt \<Rightarrow> flt" where
  "fl_neg (Fin s m e) = Fin (\<not> s) m e"
| "fl_neg (Inf s) = Inf (\<not> s)"
| "fl_neg NaN = NaN"

fun fl_abs :: "flt \<Rightarrow> flt" where
  "fl_abs (Fin s m e) = Fin False m e"
| "fl_abs (Inf s) = Inf False"
| "fl_abs NaN = NaN"

fun fl_add :: "float_fmt \<Rightarrow> flt \<Rightarrow> flt \<Rightarrow> flt" where
  "fl_add F (Fin s1 m1 e1) (Fin s2 m2 e2) =
     (let e = min e1 e2;
          c = signed_int s1 (m1 * 2 ^ nat (e1 - e)) + signed_int s2 (m2 * 2 ^ nat (e2 - e))
      in if c = 0 then Fin (s1 \<and> s2) 0 (emin F)
         else round_flt F (c < 0) (nat \<bar>c\<bar>) 1 e)"
| "fl_add F (Inf s1) (Inf s2) = (if s1 = s2 then Inf s1 else NaN)"
| "fl_add F (Inf s1) (Fin s2 m2 e2) = Inf s1"
| "fl_add F (Fin s1 m1 e1) (Inf s2) = Inf s2"
| "fl_add F NaN y = NaN"
| "fl_add F x NaN = NaN"

definition fl_sub :: "float_fmt \<Rightarrow> flt \<Rightarrow> flt \<Rightarrow> flt" where
  "fl_sub F x y = fl_add F x (fl_neg y)"

fun fl_mul :: "float_fmt \<Rightarrow> flt \<Rightarrow> flt \<Rightarrow> flt" where
  "fl_mul F (Fin s1 m1 e1) (Fin s2 m2 e2) = round_flt F (s1 \<noteq> s2) (m1 * m2) 1 (e1 + e2)"
| "fl_mul F (Inf s1) (Inf s2) = Inf (s1 \<noteq> s2)"
| "fl_mul F (Inf s1) (Fin s2 m2 e2) = (if m2 = 0 then NaN else Inf (s1 \<noteq> s2))"
| "fl_mul F (Fin s1 m1 e1) (Inf s2) = (if m1 = 0 then NaN else Inf (s1 \<noteq> s2))"
| "fl_mul F NaN y = NaN"
| "fl_mul F x NaN = NaN"

fun fl_div :: "float_fmt \<Rightarrow> flt \<Rightarrow> flt \<Rightarrow> flt" where
  "fl_div F (Fin s1 m1 e1) (Fin s2 m2 e2) =
     (if m2 = 0 then (if m1 = 0 then NaN else Inf (s1 \<noteq> s2))
      else round_flt F (s1 \<noteq> s2) m1 m2 (e1 - e2))"
| "fl_div F (Inf s1) (Inf s2) = NaN"
| "fl_div F (Inf s1) (Fin s2 m2 e2) = Inf (s1 \<noteq> s2)"
| "fl_div F (Fin s1 m1 e1) (Inf s2) = Fin (s1 \<noteq> s2) 0 (emin F)"
| "fl_div F NaN y = NaN"
| "fl_div F x NaN = NaN"

text \<open>Integer square root by bisection on the bits, from the highest possible one down.\<close>

fun isqrt_from :: "nat \<Rightarrow> nat \<Rightarrow> nat \<Rightarrow> nat" where
  "isqrt_from 0 r n = r"
| "isqrt_from (Suc k) r n =
     (let r' = r + 2 ^ k in if r' * r' \<le> n then isqrt_from k r' n else isqrt_from k r n)"

definition isqrt :: "nat \<Rightarrow> nat" where
  "isqrt n = isqrt_from (bitlen n) 0 n"

text \<open>
  The root of \<open>m * 2^e\<close>: scale \<open>m\<close> so that the exponent is even and the integer root has more
  bits than the format keeps, and append one bit that says whether the integer root is inexact.
\<close>

fun fl_sqrt :: "float_fmt \<Rightarrow> flt \<Rightarrow> flt" where
  "fl_sqrt F (Fin s m e) =
     (if m = 0 then Fin s 0 (emin F)
      else if s then NaN
      else
        let k = 2 * prec F + 2 + (if even e then 0 else 1);
            n = m * 2 ^ k;
            r = isqrt n
        in round_flt F False (2 * r + (if r * r = n then 0 else 1)) 1 ((e - int k) div 2 - 1))"
| "fl_sqrt F (Inf s) = (if s then NaN else Inf False)"
| "fl_sqrt F NaN = NaN"

fun fl_lt :: "flt \<Rightarrow> flt \<Rightarrow> bool" where
  "fl_lt (Fin s1 m1 e1) (Fin s2 m2 e2) =
     (let e = min e1 e2 in
      signed_int s1 (m1 * 2 ^ nat (e1 - e)) < signed_int s2 (m2 * 2 ^ nat (e2 - e)))"
| "fl_lt (Inf s1) (Inf s2) = (s1 \<and> \<not> s2)"
| "fl_lt (Inf s1) (Fin s2 m2 e2) = s1"
| "fl_lt (Fin s1 m1 e1) (Inf s2) = (\<not> s2)"
| "fl_lt NaN y = False"
| "fl_lt x NaN = False"

fun fl_eq :: "flt \<Rightarrow> flt \<Rightarrow> bool" where
  "fl_eq (Fin s1 m1 e1) (Fin s2 m2 e2) =
     (let e = min e1 e2 in
      signed_int s1 (m1 * 2 ^ nat (e1 - e)) = signed_int s2 (m2 * 2 ^ nat (e2 - e)))"
| "fl_eq (Inf s1) (Inf s2) = (s1 = s2)"
| "fl_eq x y = False"

definition fl_le :: "flt \<Rightarrow> flt \<Rightarrow> bool" where
  "fl_le x y = (fl_lt x y \<or> fl_eq x y)"

subsection \<open>Conversions\<close>

text \<open>An integer \<open>as f32\<close> or \<open>as f64\<close>.\<close>

definition fl_of_int :: "float_fmt \<Rightarrow> int \<Rightarrow> flt" where
  "fl_of_int F i = round_flt F (i < 0) (nat \<bar>i\<bar>) 1 0"

text \<open>\<open>f64::from(f32)\<close> and \<open>as f32\<close> between the formats.\<close>

fun fl_cast :: "float_fmt \<Rightarrow> flt \<Rightarrow> flt" where
  "fl_cast F (Fin s m e) = round_flt F s m 1 e"
| "fl_cast F x = x"

text \<open>A float cast to an integer type truncates and saturates; NaN becomes 0.\<close>

fun fl_to_int :: "int \<Rightarrow> int \<Rightarrow> flt \<Rightarrow> int" where
  "fl_to_int lo hi (Fin s m e) =
     max lo (min hi (signed_int s (if 0 \<le> e then m * 2 ^ nat e else m div 2 ^ nat (- e))))"
| "fl_to_int lo hi (Inf s) = (if s then lo else hi)"
| "fl_to_int lo hi NaN = 0"

definition fl_to_i32 :: "flt \<Rightarrow> i32" where
  "fl_to_i32 x = word_of_int (fl_to_int (- (2 ^ 31)) (2 ^ 31 - 1) x)"

definition fl_to_u32 :: "flt \<Rightarrow> u32" where
  "fl_to_u32 x = word_of_int (fl_to_int 0 (2 ^ 32 - 1) x)"

text \<open>\<open>f32::from_bits\<close>.\<close>

definition f32_from_bits :: "u32 \<Rightarrow> f32" where
  "f32_from_bits w =
     (let s = bit w 31;
          ex = unat (drop_bit 23 w AND 255);
          fr = unat (w AND 8388607)
      in if ex = 255 then (if fr = 0 then Inf s else NaN)
         else if ex = 0 then Fin s fr (-149)
         else Fin s (fr + 8388608) (int ex - 150))"

definition f32_of_u64 :: "u64 \<Rightarrow> f32" where
  "f32_of_u64 w = fl_of_int binary32 (uint w)"

definition f32_of_i32 :: "i32 \<Rightarrow> f32" where
  "f32_of_i32 w = fl_of_int binary32 (sint w)"

subsection \<open>Exact results\<close>

lemma bitlen_0 [simp]: "bitlen 0 = 0"
  by (subst bitlen.simps) simp

lemma bitlen_pos: "0 < n \<Longrightarrow> bitlen n = Suc (bitlen (n div 2))"
  by (subst bitlen.simps) simp

lemma bitlen_1 [simp]: "bitlen (Suc 0) = Suc 0"
  by (simp add: bitlen_pos)

lemma bitlen_less: "n < 2 ^ bitlen n"
proof (induction n rule: bitlen.induct)
  case (1 n)
  show ?case
  proof (cases "n = 0")
    case False
    with 1 have "n div 2 < 2 ^ bitlen (n div 2)" by simp
    then have "n < 2 * 2 ^ bitlen (n div 2)" by linarith
    with False show ?thesis by (simp add: bitlen_pos)
  qed simp
qed

lemma bitlen_le: "n < 2 ^ p \<Longrightarrow> bitlen n \<le> p"
proof (induction n arbitrary: p rule: bitlen.induct)
  case (1 n)
  show ?case
  proof (cases "n = 0")
    case False
    with "1.prems" obtain q where p: "p = Suc q" by (cases p) auto
    with "1.prems" have "n div 2 < 2 ^ q" by auto
    with 1 False p show ?thesis by (simp add: bitlen_pos)
  qed simp
qed

lemma ilog2_ratio_1:
  assumes "0 < n"
  shows "ilog2_ratio n (Suc 0) = int (bitlen n) - 1"
proof -
  have "0 \<le> int (bitlen (n div 2))" by simp
  moreover have "2 ^ bitlen (n div 2) \<le> n"
    using assms
  proof (induction n rule: bitlen.induct)
    case (1 n)
    show ?case
    proof (cases "n div 2 = 0")
      case False
      with 1 have "2 ^ bitlen (n div 2 div 2) \<le> n div 2" by simp
      then have "2 * 2 ^ bitlen (n div 2 div 2) \<le> n" by linarith
      with False show ?thesis by (simp add: bitlen_pos)
    qed (use 1 in simp)
  qed
  ultimately show ?thesis
    using assms bitlen_less [of n]
    by (auto simp: ilog2_ratio_def Let_def bitlen_pos not_le)
qed

lemma round_div_exact [simp]: "round_div n (Suc 0) = n"
  by (simp add: round_div_def)

lemma round_flt_0 [simp]: "round_flt F s 0 d E = Fin s 0 (emin F)"
  by (simp add: round_flt_def)

text \<open>A significand that fits the format at a legal exponent is represented exactly.\<close>

lemma round_flt_exact:
  assumes n: "0 < n" "n < 2 ^ prec F" and E: "emin F \<le> E" "E \<le> emax F" and p: "0 < prec F"
  defines "e \<equiv> max (emin F) (int (bitlen n) - 1 + E - int (prec F) + 1)"
  shows "round_flt F s n (Suc 0) E = Fin s (n * 2 ^ nat (E - e)) e"
    and "e \<le> E"
proof -
  have bl: "bitlen n \<le> prec F" using n bitlen_le by blast
  then show eE: "e \<le> E" using E by (auto simp: e_def)
  have "n * 2 ^ nat (E - e) < 2 ^ prec F"
  proof -
    have "nat (E - e) \<le> prec F - bitlen n" using bl E by (auto simp: e_def)
    then have "2 ^ nat (E - e) \<le> (2::nat) ^ (prec F - bitlen n)"
      by (intro power_increasing) auto
    then have "n * 2 ^ nat (E - e) < 2 ^ bitlen n * 2 ^ (prec F - bitlen n)"
      using bitlen_less [of n] by (intro mult_less_le_imp_less) auto
    also have "\<dots> = 2 ^ prec F"
      using bl by (simp flip: power_add)
    finally show ?thesis .
  qed
  then show "round_flt F s n (Suc 0) E = Fin s (n * 2 ^ nat (E - e)) e"
    using n eE E by (auto simp: round_flt_def ilog2_ratio_1 e_def Let_def)
qed

lemma flt_val_round_exact:
  assumes "n < 2 ^ prec F" "emin F \<le> E" "E \<le> emax F" "0 < prec F"
  shows "flt_val (round_flt F s n (Suc 0) E) = signed_real s (of_nat n * 2 powi E)"
    and "is_fin (round_flt F s n (Suc 0) E)"
proof -
  show "is_fin (round_flt F s n (Suc 0) E)"
    using assms round_flt_exact(1) [of n F E s] by (cases "n = 0") auto
  show "flt_val (round_flt F s n (Suc 0) E) = signed_real s (of_nat n * 2 powi E)"
  proof (cases "n = 0")
    case False
    define e where "e = max (emin F) (int (bitlen n) - 1 + E - int (prec F) + 1)"
    have "e \<le> E" and r: "round_flt F s n (Suc 0) E = Fin s (n * 2 ^ nat (E - e)) e"
      using assms False round_flt_exact(1) [of n F E s] round_flt_exact(2) [of n F E]
      by (auto simp: e_def)
    have "(2::real) powi E = 2 powi (E - e) * 2 powi e"
      by (simp flip: power_int_add)
    also have "(2::real) powi (E - e) = 2 ^ nat (E - e)"
      using \<open>e \<le> E\<close> by (simp add: power_int_def)
    finally show ?thesis by (simp add: r mult.assoc)
  qed simp
qed

lemma signed_real_neg [simp]: "signed_real (\<not> s) x = - signed_real s x"
  by (simp add: signed_real_def)

lemma flt_val_neg [simp]: "flt_val (fl_neg x) = - flt_val x"
  by (cases x) auto

lemma is_fin_neg [simp]: "is_fin (fl_neg x) = is_fin x"
  by (cases x) auto

lemma fl_of_int_exact:
  assumes "nat \<bar>i\<bar> < 2 ^ 24"
  shows "flt_val (fl_of_int binary32 i) = of_int i" and "is_fin (fl_of_int binary32 i)"
  using flt_val_round_exact [of "nat \<bar>i\<bar>" binary32 0 "i < 0"] assms
  by (auto simp: fl_of_int_def binary32_def signed_real_def)

subsection \<open>Scaling\<close>

lemma round_div_scale: "0 < c \<Longrightarrow> 0 < d \<Longrightarrow> round_div (n * c) (d * c) = round_div n d"
  by (simp add: round_div_def Let_def flip: mult.assoc)

lemma bitlen_scale: "0 < n \<Longrightarrow> bitlen (n * 2 ^ k) = bitlen n + k"
  by (induction k) (auto simp: bitlen_pos [of "2 * _"] mult.left_commute [of _ 2])

text \<open>Trailing zero bits of the significand move into the exponent.\<close>

lemma round_flt_scale:
  assumes n: "0 < n"
  shows "round_flt F s (n * 2 ^ k) (Suc 0) E = round_flt F s n (Suc 0) (E + int k)"
proof -
  define e where "e = max (emin F) (int (bitlen n) - 1 + (E + int k) - int (prec F) + 1)"
  have e: "max (emin F) (ilog2_ratio (n * 2 ^ k) (Suc 0) + E - int (prec F) + 1) = e"
    "max (emin F) (ilog2_ratio n (Suc 0) + (E + int k) - int (prec F) + 1) = e"
    using n by (simp_all add: e_def ilog2_ratio_1 bitlen_scale algebra_simps)
  have "(if e \<le> E then round_div (n * 2 ^ k * 2 ^ nat (E - e)) (Suc 0)
         else round_div (n * 2 ^ k) (Suc 0 * 2 ^ nat (e - E))) =
    (if e \<le> E + int k then round_div (n * 2 ^ nat (E + int k - e)) (Suc 0)
     else round_div n (Suc 0 * 2 ^ nat (e - (E + int k))))"
  proof -
    consider "e \<le> E" | "E < e" "e \<le> E + int k" | "E + int k < e" by linarith
    then show ?thesis
    proof cases
      case 1
      then have "nat (E + int k - e) = k + nat (E - e)" by simp
      with 1 show ?thesis by (simp add: power_add mult.assoc)
    next
      case 2
      then have k: "k = nat (E + int k - e) + nat (e - E)" by simp
      have "round_div (n * 2 ^ k) (2 ^ nat (e - E))
          = round_div (n * 2 ^ nat (E + int k - e) * 2 ^ nat (e - E)) (Suc 0 * 2 ^ nat (e - E))"
        by (subst k) (simp add: power_add mult.assoc)
      also have "\<dots> = n * 2 ^ nat (E + int k - e)"
        by (subst round_div_scale) simp_all
      finally show ?thesis using 2 by simp
    next
      case 3
      then have "nat (e - E) = nat (e - (E + int k)) + k" by simp
      with 3 show ?thesis by (simp add: power_add round_div_scale)
    qed
  qed
  with n show ?thesis by (simp add: round_flt_def e Let_def)
qed

text \<open>\<open>x\<close> is the number \<open>(-1)^s * n * 2^E\<close>, however its significand is scaled.\<close>

definition represents :: "flt \<Rightarrow> bool \<Rightarrow> nat \<Rightarrow> int \<Rightarrow> bool" where
  "represents x s n E \<longleftrightarrow> (\<exists>k. x = Fin s (n * 2 ^ k) (E - int k))"

lemma represents_val: "represents x s n E \<Longrightarrow> flt_val x = signed_real s (of_nat n * 2 powi E)"
  by (auto simp: represents_def power_int_diff)

lemma represents_round:
  assumes "n < 2 ^ prec F" "emin F \<le> E" "E \<le> emax F" "0 < prec F"
  shows "represents (round_flt F s n (Suc 0) E) s n E"
proof (cases "n = 0")
  case True
  with assms show ?thesis
    by (auto simp: represents_def intro!: exI [of _ "nat (E - emin F)"])
next
  case False
  define e where "e = max (emin F) (int (bitlen n) - 1 + E - int (prec F) + 1)"
  have "e \<le> E" "round_flt F s n (Suc 0) E = Fin s (n * 2 ^ nat (E - e)) e"
    using assms False round_flt_exact(1) [of n F E s] round_flt_exact(2) [of n F E]
    by (auto simp: e_def)
  then show ?thesis
    by (auto simp: represents_def intro!: exI [of _ "nat (E - e)"])
qed

lemma represents_of_int:
  "nat \<bar>i\<bar> < 2 ^ 24 \<Longrightarrow> represents (fl_of_int binary32 i) (i < 0) (nat \<bar>i\<bar>) 0"
  using represents_round [of "nat \<bar>i\<bar>" binary32 0 "i < 0"] by (simp add: fl_of_int_def binary32_def)

lemma fl_mul_represents:
  assumes "represents x s1 n1 E1" "represents y s2 n2 E2"
  shows "fl_mul F x y = round_flt F (s1 \<noteq> s2) (n1 * n2) (Suc 0) (E1 + E2)"
proof -
  from assms obtain k1 k2 where x: "x = Fin s1 (n1 * 2 ^ k1) (E1 - int k1)"
    and y: "y = Fin s2 (n2 * 2 ^ k2) (E2 - int k2)" by (auto simp: represents_def)
  show ?thesis
  proof (cases "n1 * n2 = 0")
    case False
    have mant: "n1 * 2 ^ k1 * (n2 * 2 ^ k2) = n1 * n2 * 2 ^ (k1 + k2)" by (simp add: power_add)
    have expo: "E1 - int k1 + (E2 - int k2) = E1 + E2 - int (k1 + k2)" by simp
    have "fl_mul F x y = round_flt F (s1 \<noteq> s2) (n1 * n2 * 2 ^ (k1 + k2)) (Suc 0) (E1 + E2 - int (k1 + k2))"
      unfolding x y fl_mul.simps mant expo using False by simp
    with False show ?thesis by (simp add: round_flt_scale)
  qed (auto simp: x y round_flt_def)
qed

lemma fl_add_represents:
  assumes "represents x False n1 E1" "represents y False n2 E2" "E2 \<le> E1"
  shows "fl_add F x y = round_flt F False (n1 * 2 ^ nat (E1 - E2) + n2) (Suc 0) E2"
proof -
  from assms obtain k1 k2 where x: "x = Fin False (n1 * 2 ^ k1) (E1 - int k1)"
    and y: "y = Fin False (n2 * 2 ^ k2) (E2 - int k2)" by (auto simp: represents_def)
  define e where "e = min (E1 - int k1) (E2 - int k2)"
  define n where "n = n1 * 2 ^ nat (E1 - E2) + n2"
  have "k1 + nat (E1 - int k1 - e) = nat (E1 - E2) + nat (E2 - e)"
    and "k2 + nat (E2 - int k2 - e) = nat (E2 - e)"
    using assms(3) by (auto simp: e_def min_def)
  then have c: "n1 * 2 ^ k1 * 2 ^ nat (E1 - int k1 - e) + n2 * 2 ^ k2 * 2 ^ nat (E2 - int k2 - e)
      = n * 2 ^ nat (E2 - e)"
    by (simp add: n_def distrib_right mult.assoc flip: power_add)
  have "e \<le> E2" by (simp add: e_def)
  have "fl_add F x y = (if n = 0 then Fin False 0 (emin F)
      else round_flt F False (n * 2 ^ nat (E2 - e)) (Suc 0) e)"
    by (simp add: x y signed_int_def Let_def flip: e_def of_nat_add of_nat_mult of_nat_power c)
      (simp add: c)
  with \<open>e \<le> E2\<close> show ?thesis
    by (cases "n = 0") (simp_all add: round_flt_scale flip: n_def)
qed

end
