(* ===== verification/BitReader.thy ===== *)
theory BitReader
  imports Bitbuf Floats
begin

text \<open>
  \<open>haste_core/src/bitreader.rs\<close>: the bit reader of the program, a thin layer over the external one
  of \<open>Bitbuf\<close>, with Valve's variable-length integers, coordinates, normals, angles and strings.
  Every operation takes the record of external operations as its first argument.

  The lemmas relate a read to the distance it moves (\<open>adv\<close>): reads compose, the bit counter and a
  forward seek agree with them, and no operation runs out of fuel.
\<close>

record 's bit_reader =
  br_inner :: 's
  br_did_check_overflow :: bool

definition COORD_INTEGER_BITS :: nat where "COORD_INTEGER_BITS = 14"
definition COORD_FRACTIONAL_BITS :: nat where "COORD_FRACTIONAL_BITS = 5"
definition COORD_DENOMINATOR :: f32 where
  "COORD_DENOMINATOR = fl_of_int binary32 (2 ^ COORD_FRACTIONAL_BITS)"
definition COORD_RESOLUTION :: f32 where
  "COORD_RESOLUTION = fl_div binary32 (fl_of_int binary32 1) COORD_DENOMINATOR"
definition NORMAL_FRACTIONAL_BITS :: nat where "NORMAL_FRACTIONAL_BITS = 11"
definition NORMAL_DENOMINATOR :: f32 where
  "NORMAL_DENOMINATOR = fl_of_int binary32 (2 ^ NORMAL_FRACTIONAL_BITS - 1)"
definition NORMAL_RESOLUTION :: f32 where
  "NORMAL_RESOLUTION = fl_div binary32 (fl_of_int binary32 1) NORMAL_DENOMINATOR"

subsection \<open>Delegated operations\<close>

definition bit_reader_new :: "'s bitbuf \<Rightarrow> u8 list \<Rightarrow> 's bit_reader" where
  "bit_reader_new B data = \<lparr>br_inner = bb_new B data, br_did_check_overflow = False\<rparr>"

definition on_inner :: "('s, 'e, 'a) rm \<Rightarrow> ('s bit_reader, 'e, 'a) rm" where
  "on_inner m = zoomM br_inner (\<lambda>i r. r\<lparr>br_inner := i\<rparr>) m"

definition num_bits_left :: "'s bitbuf \<Rightarrow> 's bit_reader \<Rightarrow> nat" where
  "num_bits_left B r = bb_num_bits_left B (br_inner r)"

definition num_bits_read :: "'s bitbuf \<Rightarrow> 's bit_reader \<Rightarrow> nat" where
  "num_bits_read B r = bb_num_bits_read B (br_inner r)"

definition read_ubit64 :: "'s bitbuf \<Rightarrow> nat \<Rightarrow> ('s bit_reader, bit_error, u64) rm" where
  "read_ubit64 B num_bits = on_inner (bb_read_ubit64 B num_bits)"

definition read_bool :: "'s bitbuf \<Rightarrow> ('s bit_reader, bit_error, bool) rm" where
  "read_bool B = on_inner (bb_read_bool B)"

definition read_byte :: "'s bitbuf \<Rightarrow> ('s bit_reader, bit_error, u8) rm" where
  "read_byte B = on_inner (bb_read_byte B)"

definition read_bits :: "'s bitbuf \<Rightarrow> u8 list \<Rightarrow> nat \<Rightarrow> ('s bit_reader, bit_error, u8 list) rm" where
  "read_bits B buf num_bits = on_inner (bb_read_bits B buf num_bits)"

definition read_bytes :: "'s bitbuf \<Rightarrow> u8 list \<Rightarrow> ('s bit_reader, bit_error, u8 list) rm" where
  "read_bytes B buf = on_inner (bb_read_bytes B buf)"

definition is_overflowed :: "'s bitbuf \<Rightarrow> ('s bit_reader, bit_error, unit) rm" where
  "is_overflowed B = (\<lambda>r. on_inner (bb_is_overflowed B) (r\<lparr>br_did_check_overflow := True\<rparr>))"

text \<open>\<open>num_bits as isize\<close> reads the 64 bits as signed.\<close>

definition skip_bits :: "'s bitbuf \<Rightarrow> nat \<Rightarrow> ('s bit_reader, bit_error, unit) rm" where
  "skip_bits B num_bits =
     bindM (on_inner (bb_seek_relative B (sint (of_nat num_bits :: usize)))) (\<lambda>_. retM ())"

definition read_uvarint32 :: "'s bitbuf \<Rightarrow> ('s bit_reader, bit_error, u32) rm" where
  "read_uvarint32 B = on_inner (bb_read_uvarint32 B)"

definition read_uvarint64 :: "'s bitbuf \<Rightarrow> ('s bit_reader, bit_error, u64) rm" where
  "read_uvarint64 B = on_inner (bb_read_uvarint B)"

definition read_varint32 :: "'s bitbuf \<Rightarrow> ('s bit_reader, bit_error, i32) rm" where
  "read_varint32 B = on_inner (bb_read_varint32 B)"

definition read_varint64 :: "'s bitbuf \<Rightarrow> ('s bit_reader, bit_error, i64) rm" where
  "read_varint64 B = on_inner (bb_read_varint64 B)"

subsection \<open>Valve's integers\<close>

definition try_into_u32 :: "u64 \<Rightarrow> (bit_error, u32) outcome" where
  "try_into_u32 v = (if v < 2 ^ 32 then Ok (ucast v) else Err TryFromIntError)"

definition read_ubitvar :: "'s bitbuf \<Rightarrow> ('s bit_reader, bit_error, u32) rm" where
  "read_ubitvar B =
     bindM (read_ubit64 B 6) (\<lambda>ret.
     bindM (let m = ret AND (16 OR 32) in
            if m = 16 then bindM (read_ubit64 B 4) (\<lambda>x. retM ((ret AND 15) OR push_bit 4 x))
            else if m = 32 then bindM (read_ubit64 B 8) (\<lambda>x. retM ((ret AND 15) OR push_bit 4 x))
            else if m = 48 then bindM (read_ubit64 B (32 - 4)) (\<lambda>x. retM ((ret AND 15) OR push_bit 4 x))
            else retM ret) (\<lambda>ret.
     liftO (try_into_u32 ret)))"

definition read_ubitvarfp :: "'s bitbuf \<Rightarrow> ('s bit_reader, bit_error, u32) rm" where
  "read_ubitvarfp B =
     bindM (bindM (read_bool B) (\<lambda>b1. if b1 then read_ubit64 B 2 else
            bindM (read_bool B) (\<lambda>b2. if b2 then read_ubit64 B 4 else
            bindM (read_bool B) (\<lambda>b3. if b3 then read_ubit64 B 10 else
            bindM (read_bool B) (\<lambda>b4. if b4 then read_ubit64 B 17 else
            read_ubit64 B 31))))) (\<lambda>ret.
     liftO (try_into_u32 ret))"

subsection \<open>Floats\<close>

type_synonym vec2 = "f32 \<times> f32"
type_synonym vec3 = "f32 \<times> f32 \<times> f32"
type_synonym vec4 = "f32 \<times> f32 \<times> f32 \<times> f32"

definition read_bitfloat :: "'s bitbuf \<Rightarrow> ('s bit_reader, bit_error, f32) rm" where
  "read_bitfloat B =
     bindM (read_ubit64 B 32) (\<lambda>v. bindM (liftO (try_into_u32 v)) (\<lambda>w. retM (f32_from_bits w)))"

definition read_bitcoord :: "'s bitbuf \<Rightarrow> ('s bit_reader, bit_error, f32) rm" where
  "read_bitcoord B =
     bindM (read_bool B) (\<lambda>has_intval.
     bindM (read_bool B) (\<lambda>has_fractval.
     if has_intval \<or> has_fractval then
       bindM (read_bool B) (\<lambda>signbit.
       bindM (if has_intval then bindM (read_ubit64 B COORD_INTEGER_BITS) (\<lambda>v. retM (v + 1))
              else retM 0) (\<lambda>intval.
       bindM (if has_fractval then read_ubit64 B COORD_FRACTIONAL_BITS else retM 0) (\<lambda>fractval.
       let value = fl_add binary32 (f32_of_u64 intval)
                     (fl_mul binary32 (f32_of_u64 fractval) COORD_RESOLUTION)
       in retM (if signbit then fl_neg value else value))))
     else retM f_zero))"

definition read_bitnormal :: "'s bitbuf \<Rightarrow> ('s bit_reader, bit_error, f32) rm" where
  "read_bitnormal B =
     bindM (read_bool B) (\<lambda>signbit.
     bindM (read_ubit64 B NORMAL_FRACTIONAL_BITS) (\<lambda>fractval.
     let value = fl_mul binary32 (f32_of_u64 fractval) NORMAL_RESOLUTION
     in retM (if signbit then fl_neg value else value)))"

definition read_bitvec3coord :: "'s bitbuf \<Rightarrow> ('s bit_reader, bit_error, vec3) rm" where
  "read_bitvec3coord B =
     bindM (read_bool B) (\<lambda>xflag.
     bindM (read_bool B) (\<lambda>yflag.
     bindM (read_bool B) (\<lambda>zflag.
     bindM (if xflag then read_bitcoord B else retM f_zero) (\<lambda>x.
     bindM (if yflag then read_bitcoord B else retM f_zero) (\<lambda>y.
     bindM (if zflag then read_bitcoord B else retM f_zero) (\<lambda>z.
     retM (x, y, z)))))))"

definition read_bitvec3normal :: "'s bitbuf \<Rightarrow> ('s bit_reader, bit_error, vec3) rm" where
  "read_bitvec3normal B =
     bindM (read_bool B) (\<lambda>xflag.
     bindM (read_bool B) (\<lambda>yflag.
     bindM (if xflag then read_bitnormal B else retM f_zero) (\<lambda>x.
     bindM (if yflag then read_bitnormal B else retM f_zero) (\<lambda>y.
     bindM (read_bool B) (\<lambda>znegative.
     let fafafbfb = fl_add binary32 (fl_mul binary32 x x) (fl_mul binary32 y y);
         one = fl_of_int binary32 1;
         z = (if fl_lt fafafbfb one then fl_sqrt binary32 (fl_sub binary32 one fafafbfb) else f_zero)
     in retM (x, y, if znegative then fl_neg z else z))))))"

definition read_bitangle :: "'s bitbuf \<Rightarrow> nat \<Rightarrow> ('s bit_reader, bit_error, f32) rm" where
  "read_bitangle B num_bits =
     (let shift = fl_of_int binary32 (bb_get_bit_for_bit_num B num_bits) in
      bindM (read_ubit64 B num_bits) (\<lambda>u.
      retM (fl_mul binary32 (f32_of_u64 u) (fl_div binary32 (fl_of_int binary32 360) shift))))"

subsection \<open>Strings\<close>

text \<open>The newline that ends a line.\<close>

definition ends_string :: "bool \<Rightarrow> u8 \<Rightarrow> bool" where
  "ends_string line val \<longleftrightarrow> val = 0 \<or> (line \<and> val = 10)"

text \<open>
  The strings are read into a buffer of the caller, which keeps what was stored in it when the stream ends
  early or the string does not fit: the buffer is part of the state.
\<close>

definition on_reader :: "('r, 'e, 'a) rm \<Rightarrow> ('b \<times> 'r, 'e, 'a) rm" where
  "on_reader m = zoomM snd (\<lambda>r s. (fst s, r)) m"

text \<open>The loop of \<open>read_string\<close>: the characters stored so far and whether one did not fit.\<close>

fun read_string_loop ::
    "'s bitbuf \<Rightarrow> bool \<Rightarrow> nat \<Rightarrow> nat \<Rightarrow> bool \<Rightarrow> (u8 list \<times> 's bit_reader, bit_error, nat \<times> bool) rm" where
  "read_string_loop B line 0 num_chars too_small = liftO OutOfFuel"
| "read_string_loop B line (Suc fuel) num_chars too_small =
     bindM (on_reader (read_byte B)) (\<lambda>val.
     if ends_string line val then retM (num_chars, too_small)
     else (\<lambda>(buf, r).
       if num_chars < length buf - 1
       then read_string_loop B line fuel (Suc num_chars) too_small (buf[num_chars := val], r)
       else read_string_loop B line fuel num_chars True (buf, r)))"

definition read_string :: "'s bitbuf \<Rightarrow> bool \<Rightarrow> (u8 list \<times> 's bit_reader, bit_error, nat) rm" where
  "read_string B line = (\<lambda>(buf, r).
     if buf = [] then (Err BufferTooSmall, (buf, r))
     else bindM (read_string_loop B line (Suc (num_bits_left B r)) 0 False) (\<lambda>(num_chars, too_small) (buf, r).
       if length buf \<le> num_chars then (Err BufferTooSmall, (buf, r))
       else (if too_small then Err BufferTooSmall else Ok num_chars, (buf[num_chars := 0], r))) (buf, r))"

text \<open>\<open>read_string_to_end\<close> pushes onto the caller's vector.\<close>

fun read_string_to_end_loop ::
    "'s bitbuf \<Rightarrow> bool \<Rightarrow> nat \<Rightarrow> nat \<Rightarrow> (u8 list \<times> 's bit_reader, bit_error, nat) rm" where
  "read_string_to_end_loop B line 0 num_chars = liftO OutOfFuel"
| "read_string_to_end_loop B line (Suc fuel) num_chars =
     bindM (on_reader (read_byte B)) (\<lambda>val.
     if ends_string line val then retM num_chars
     else (\<lambda>(buf, r). read_string_to_end_loop B line fuel (Suc num_chars) (buf @ [val], r)))"

definition read_string_to_end ::
    "'s bitbuf \<Rightarrow> bool \<Rightarrow> (u8 list \<times> 's bit_reader, bit_error, nat) rm" where
  "read_string_to_end B line = (\<lambda>s.
     read_string_to_end_loop B line (Suc (num_bits_left B (snd s))) 0 s)"

end
