(* ===== verification/BitReaderLaws.thy ===== *)
theory BitReaderLaws
  imports BitReader
begin

text \<open>
  Lemmas about the bit reader: how far a read moves, that loops over the stream end, and that
  Valve's integers, coordinates and strings are read back as they were written.
\<close>

subsection \<open>Distance\<close>

definition adv :: "'s bitbuf \<Rightarrow> nat \<Rightarrow> 's bit_reader \<Rightarrow> 's bit_reader \<Rightarrow> bool" where
  "adv B k s s' \<longleftrightarrow> bb_seek_relative B (int k) (br_inner s) = (Ok (), br_inner s')
     \<and> br_did_check_overflow s' = br_did_check_overflow s"

definition moves :: "'s bitbuf \<Rightarrow> ('s bit_reader, 'e, 'a) rm \<Rightarrow> bool" where
  "moves B m \<longleftrightarrow> (\<forall>s x s'. m s = (Ok x, s') \<longrightarrow> (\<exists>k. adv B k s s'))"

definition moves_on :: "'s bitbuf \<Rightarrow> ('s bit_reader, 'e, 'a) rm \<Rightarrow> bool" where
  "moves_on B m \<longleftrightarrow> (\<forall>s x s'. m s = (Ok x, s') \<longrightarrow> (\<exists>k>0. adv B k s s'))"

named_theorems move_intros "distance covered by an operation of the reader"
named_theorems fuel_intros "operations that never run out of fuel"

lemma on_inner_Ok_iff:
  "on_inner m s = (Ok x, s') \<longleftrightarrow> (\<exists>i. m (br_inner s) = (Ok x, i) \<and> s' = s\<lparr>br_inner := i\<rparr>)"
  by (auto simp: on_inner_def zoomM_Ok_iff)

lemma adv_refl: "cursor_laws B \<Longrightarrow> adv B 0 s s"
  by (simp add: adv_def cursor_laws_seek_0)

lemma adv_trans:
  assumes "cursor_laws B" "adv B m s s'" "adv B n s' s''"
  shows "adv B (m + n) s s''"
  using assms cursor_laws_seek_add unfolding adv_def by metis

lemma adv_left: "cursor_laws B \<Longrightarrow> adv B k s s' \<Longrightarrow> num_bits_left B s = num_bits_left B s' + k"
  by (auto simp: adv_def num_bits_left_def dest: cursor_laws_left)

lemma adv_read: "cursor_laws B \<Longrightarrow> adv B k s s' \<Longrightarrow> num_bits_read B s' = num_bits_read B s + k"
  by (auto simp: adv_def num_bits_read_def dest: cursor_laws_read)

lemma adv_unique: "adv B k s s1 \<Longrightarrow> adv B k s s2 \<Longrightarrow> s1 = s2"
  by (cases s1, cases s2) (simp add: adv_def)

lemma sint_of_nat_usize: "n < 2 ^ 63 \<Longrightarrow> sint (of_nat n :: usize) = int n"
  by (simp add: sint_uint uint_nat signed_take_bit_int_eq_self unat_of_nat)

text \<open>Skipping \<open>k\<close> bits ends where a read of \<open>k\<close> bits ended.\<close>

lemma skip_bits_adv:
  assumes "adv B k s s'" "k < 2 ^ 63"
  shows "skip_bits B k s = (Ok (), s')"
proof -
  have "on_inner (bb_seek_relative B (sint (of_nat k :: usize))) s = (Ok (), s')"
    using assms by (cases s') (auto simp: adv_def on_inner_Ok_iff sint_of_nat_usize)
  then show ?thesis by (simp add: skip_bits_def bindM_Ok_iff)
qed

lemma on_inner_adv: "advances B m k \<Longrightarrow> on_inner m s = (Ok x, s') \<Longrightarrow> adv B k s s'"
  by (auto simp: on_inner_Ok_iff adv_def advances_def)

lemma on_inner_moves_on: "advances_some B m \<Longrightarrow> moves_on B (on_inner m)"
  unfolding moves_on_def on_inner_Ok_iff adv_def advances_some_def by fastforce

lemma moves_on_moves: "moves_on B m \<Longrightarrow> moves B m"
  unfolding moves_on_def moves_def by blast

lemma movesE:
  assumes "moves B m" "m s = (Ok x, s')"
  obtains k where "adv B k s s'"
  using assms unfolding moves_def by blast

lemma moves_onE:
  assumes "moves_on B m" "m s = (Ok x, s')"
  obtains k where "0 < k" "adv B k s s'"
  using assms unfolding moves_on_def by blast

lemma moves_retM [move_intros]: "cursor_laws B \<Longrightarrow> moves B (retM x)"
  unfolding moves_def using adv_refl by fastforce

lemma moves_errM [move_intros]: "moves B (errM e)"
  by (simp add: moves_def)

lemma moves_liftO [move_intros]: "cursor_laws B \<Longrightarrow> moves B (liftO r)"
  unfolding moves_def using adv_refl by fastforce

lemma moves_bindM [move_intros]:
  assumes "cursor_laws B" "moves B m" "\<And>x. moves B (f x)"
  shows "moves B (bindM m f)"
  unfolding moves_def bindM_Ok_iff
  using assms adv_trans unfolding moves_def by metis

lemma moves_on_bindM1 [move_intros]:
  assumes "cursor_laws B" "moves_on B m" "\<And>x. moves B (f x)"
  shows "moves_on B (bindM m f)"
  unfolding moves_on_def bindM_Ok_iff
proof (intro allI impI, elim exE conjE)
  fix s y s'' x s' assume "m s = (Ok x, s')" "f x s' = (Ok y, s'')"
  then obtain k k' where "0 < k" "adv B k s s'" "adv B k' s' s''"
    using assms(2,3) by (metis moves_onE movesE)
  then show "\<exists>k>0. adv B k s s''"
    using adv_trans [OF assms(1)] by (metis add_gr_0)
qed

lemma moves_map_errM [move_intros]: "moves B m \<Longrightarrow> moves B (map_errM f m)"
  by (simp add: moves_def)

lemma moves_if [move_intros]: "moves B m \<Longrightarrow> moves B n \<Longrightarrow> moves B (if b then m else n)"
  by simp

lemma moves_let [move_intros]: "(\<And>x. moves B (f x)) \<Longrightarrow> moves B (let x = a in f x)"
  by simp

lemma read_adv:
  assumes "cursor_laws B"
  shows "read_ubit64 B n s = (Ok v, s') \<Longrightarrow> adv B n s s'"
    and "read_bool B s = (Ok b, s') \<Longrightarrow> adv B 1 s s'"
    and "read_byte B s = (Ok w, s') \<Longrightarrow> adv B 8 s s'"
    and "read_bits B buf n s = (Ok buf', s') \<Longrightarrow> adv B n s s'"
    and "read_bytes B buf s = (Ok buf', s') \<Longrightarrow> adv B (8 * length buf) s s'"
  unfolding read_ubit64_def read_bool_def read_byte_def read_bits_def read_bytes_def
  using cursor_laws_advances(1-5) [OF assms, THEN on_inner_adv] by blast+

lemma read_ubit64_bound:
  assumes "cursor_laws B" "read_ubit64 B n s = (Ok v, s')"
  shows "unat v < 2 ^ n" and "n \<le> 64"
  using assms cursor_laws_ubit64_bound by (auto simp: read_ubit64_def on_inner_Ok_iff)

lemma read_moves [move_intros]:
  assumes "cursor_laws B"
  shows "moves B (read_ubit64 B n)" "moves_on B (read_bool B)" "moves_on B (read_byte B)"
    "moves B (read_bits B buf n)" "moves B (read_bytes B buf)"
    "moves_on B (read_uvarint32 B)" "moves_on B (read_uvarint64 B)"
    "moves_on B (read_varint32 B)" "moves_on B (read_varint64 B)"
proof -
  show "moves B (read_ubit64 B n)" "moves B (read_bits B buf n)" "moves B (read_bytes B buf)"
    unfolding moves_def using read_adv [OF assms] by blast+
  show "moves_on B (read_bool B)" "moves_on B (read_byte B)"
    unfolding moves_on_def using read_adv(2,3) [OF assms]
    by (metis zero_less_one, metis zero_less_numeral)
  show "moves_on B (read_uvarint32 B)" "moves_on B (read_uvarint64 B)"
    "moves_on B (read_varint32 B)" "moves_on B (read_varint64 B)"
    unfolding read_uvarint32_def read_uvarint64_def read_varint32_def read_varint64_def
    using cursor_laws_advances(6-9) [OF assms] by (blast intro: on_inner_moves_on)+
qed

lemmas read_moves' [move_intros] = read_moves(2,3,6-9) [THEN moves_on_moves]

lemma skip_bits_moves [move_intros]:
  assumes "n < 2 ^ 63"
  shows "moves B (skip_bits B n)"
  using assms by (auto simp: moves_def skip_bits_def bindM_Ok_iff on_inner_Ok_iff adv_def
      sint_of_nat_usize)

lemma read_ubitvar_moves [move_intros]: "cursor_laws B \<Longrightarrow> moves B (read_ubitvar B)"
  unfolding read_ubitvar_def Let_def by (intro move_intros | assumption)+

lemma read_ubitvarfp_moves_on [move_intros]: "cursor_laws B \<Longrightarrow> moves_on B (read_ubitvarfp B)"
  unfolding read_ubitvarfp_def
  by (intro moves_on_bindM1 | intro move_intros | assumption)+

lemmas read_ubitvarfp_moves [move_intros] = read_ubitvarfp_moves_on [THEN moves_on_moves]

lemma read_bitfloat_moves [move_intros]: "cursor_laws B \<Longrightarrow> moves B (read_bitfloat B)"
  unfolding read_bitfloat_def by (intro move_intros | assumption)+

lemma read_bitcoord_moves [move_intros]: "cursor_laws B \<Longrightarrow> moves B (read_bitcoord B)"
  unfolding read_bitcoord_def Let_def by (intro move_intros | assumption)+

lemma read_bitnormal_moves [move_intros]: "cursor_laws B \<Longrightarrow> moves B (read_bitnormal B)"
  unfolding read_bitnormal_def Let_def by (intro move_intros | assumption)+

lemma read_bitvec3coord_moves [move_intros]: "cursor_laws B \<Longrightarrow> moves B (read_bitvec3coord B)"
  unfolding read_bitvec3coord_def by (intro move_intros | assumption)+

lemma read_bitvec3normal_moves [move_intros]: "cursor_laws B \<Longrightarrow> moves B (read_bitvec3normal B)"
  unfolding read_bitvec3normal_def Let_def by (intro move_intros | assumption)+

lemma read_bitangle_moves [move_intros]: "cursor_laws B \<Longrightarrow> moves B (read_bitangle B n)"
  unfolding read_bitangle_def Let_def by (intro move_intros | assumption)+

subsection \<open>No operation runs out of fuel\<close>

lemma no_fuelD: "no_fuel m \<Longrightarrow> m s \<noteq> (OutOfFuel, s')"
  by (auto simp: no_fuel_def) (metis fst_conv)

lemma no_fuel_retM [fuel_intros]: "no_fuel (retM x)"
  by (simp add: no_fuel_def rm_simps)

lemma no_fuel_errM [fuel_intros]: "no_fuel (errM e)"
  by (simp add: no_fuel_def rm_simps)

lemma no_fuel_liftO [fuel_intros]: "r \<noteq> OutOfFuel \<Longrightarrow> no_fuel (liftO r)"
  by (simp add: no_fuel_def rm_simps)

lemma no_fuel_bindM [fuel_intros]:
  assumes "no_fuel m" "\<And>x. no_fuel (f x)"
  shows "no_fuel (bindM m f)"
  using assms by (intro no_fuelI bindM_no_fuel) (auto dest: no_fuelD)

lemma no_fuel_map_errM [fuel_intros]: "no_fuel m \<Longrightarrow> no_fuel (map_errM f m)"
  by (intro no_fuelI) (auto dest: no_fuelD)

lemma no_fuel_zoomM [fuel_intros]: "no_fuel m \<Longrightarrow> no_fuel (zoomM get put m)"
  by (intro no_fuelI) (auto simp: zoomM_def dest: no_fuelD split: prod.splits)

lemma no_fuel_on_inner [fuel_intros]: "no_fuel m \<Longrightarrow> no_fuel (on_inner m)"
  unfolding on_inner_def by (rule no_fuel_zoomM)

lemma no_fuel_on_reader [fuel_intros]: "no_fuel m \<Longrightarrow> no_fuel (on_reader m)"
  unfolding on_reader_def by (rule no_fuel_zoomM)

lemma no_fuel_if [fuel_intros]: "no_fuel m \<Longrightarrow> no_fuel n \<Longrightarrow> no_fuel (if b then m else n)"
  by simp

lemma no_fuel_let [fuel_intros]: "(\<And>x. no_fuel (f x)) \<Longrightarrow> no_fuel (let x = a in f x)"
  by simp

lemma try_into_u32_fuel [fuel_intros]: "try_into_u32 v \<noteq> OutOfFuel"
  by (simp add: try_into_u32_def)

lemma bb_no_fuel [fuel_intros]:
  assumes "cursor_laws B"
  shows "no_fuel (bb_read_ubit64 B n)" "no_fuel (bb_read_bool B)" "no_fuel (bb_read_byte B)"
    "no_fuel (bb_read_bits B buf n)" "no_fuel (bb_read_bytes B buf)" "no_fuel (bb_is_overflowed B)"
    "no_fuel (bb_seek_relative B i)" "no_fuel (bb_read_uvarint32 B)" "no_fuel (bb_read_uvarint B)"
    "no_fuel (bb_read_varint32 B)" "no_fuel (bb_read_varint64 B)"
  using assms by (auto simp: cursor_laws_def fuel_laws_def)

lemma read_no_fuel [fuel_intros]:
  assumes "cursor_laws B"
  shows "no_fuel (read_ubit64 B n)" "no_fuel (read_bool B)" "no_fuel (read_byte B)"
    "no_fuel (read_bits B buf n)" "no_fuel (read_bytes B buf)" "no_fuel (skip_bits B n)"
    "no_fuel (read_uvarint32 B)" "no_fuel (read_uvarint64 B)"
    "no_fuel (read_varint32 B)" "no_fuel (read_varint64 B)"
  unfolding read_ubit64_def read_bool_def read_byte_def read_bits_def read_bytes_def skip_bits_def
    read_uvarint32_def read_uvarint64_def read_varint32_def read_varint64_def
  using assms by (intro fuel_intros | assumption)+

lemma read_valve_no_fuel [fuel_intros]:
  assumes "cursor_laws B"
  shows "no_fuel (read_ubitvar B)" "no_fuel (read_ubitvarfp B)" "no_fuel (read_bitfloat B)"
    "no_fuel (read_bitcoord B)" "no_fuel (read_bitnormal B)" "no_fuel (read_bitangle B n)"
  unfolding read_ubitvar_def read_ubitvarfp_def read_bitfloat_def read_bitcoord_def
    read_bitnormal_def read_bitangle_def Let_def
  using assms by (intro fuel_intros | assumption)+

lemma read_vec_no_fuel [fuel_intros]:
  assumes "cursor_laws B"
  shows "no_fuel (read_bitvec3coord B)" "no_fuel (read_bitvec3normal B)"
  unfolding read_bitvec3coord_def read_bitvec3normal_def Let_def
  using assms by (intro fuel_intros | assumption)+

text \<open>A byte costs eight bits, so a loop over bytes has fuel to spare.\<close>

lemma read_byte_left: "cursor_laws B \<Longrightarrow> read_byte B s = (Ok v, s') \<Longrightarrow> num_bits_left B s' < num_bits_left B s"
  using adv_left read_adv(3) by fastforce

lemma read_bool_left: "cursor_laws B \<Longrightarrow> read_bool B s = (Ok v, s') \<Longrightarrow> num_bits_left B s' < num_bits_left B s"
  using adv_left read_adv(2) by fastforce

lemma read_string_loop_fuel:
  assumes "cursor_laws B"
  shows "num_bits_left B (snd s) < fuel \<Longrightarrow> read_string_loop B line fuel n ts s \<noteq> (OutOfFuel, s')"
proof (induction fuel arbitrary: n ts s)
  case (Suc fuel)
  show ?case
  proof
    assume run: "read_string_loop B line (Suc fuel) n ts s = (OutOfFuel, s')"
    then obtain val buf r where b: "on_reader (read_byte B) s = (Ok val, (buf, r))" "\<not> ends_string line val"
      and rest: "read_string_loop B line fuel (Suc n) ts (buf[n := val], r) = (OutOfFuel, s')
        \<or> read_string_loop B line fuel n True (buf, r) = (OutOfFuel, s')"
      using read_no_fuel(3) [OF assms, THEN no_fuel_on_reader, THEN no_fuelD, of s s']
      by (fastforce elim!: bindM_OutOfFuelE split: if_splits)
    then have "num_bits_left B r < fuel"
      using read_byte_left [OF assms] Suc.prems by (fastforce simp: on_reader_def zoomM_Ok_iff)
    with Suc.IH rest show False by (metis snd_conv)
  qed
qed simp

lemma read_string_no_fuel [fuel_intros]:
  assumes "cursor_laws B"
  shows "no_fuel (read_string B line)"
proof (rule no_fuelI)
  fix s s' show "read_string B line s \<noteq> (OutOfFuel, s')"
    using read_string_loop_fuel [OF assms, of s "Suc (num_bits_left B (snd s))" line 0 False s']
    by (cases s) (auto simp: read_string_def elim!: bindM_OutOfFuelE split: if_splits)
qed

lemma read_string_to_end_loop_fuel:
  assumes "cursor_laws B"
  shows "num_bits_left B (snd s) < fuel \<Longrightarrow>
    read_string_to_end_loop B line fuel n s \<noteq> (OutOfFuel, s')"
proof (induction fuel arbitrary: n s)
  case (Suc fuel)
  then show ?case
    using read_no_fuel(3) [OF assms, THEN no_fuel_on_reader, THEN no_fuelD, of s s']
      read_byte_left [OF assms]
    by (fastforce simp: on_reader_def zoomM_Ok_iff elim!: bindM_OutOfFuelE split: if_splits)
qed simp

lemma read_string_to_end_no_fuel [fuel_intros]: "cursor_laws B \<Longrightarrow> no_fuel (read_string_to_end B line)"
  unfolding read_string_to_end_def
  by (rule no_fuelI) (rule read_string_to_end_loop_fuel, simp_all)

subsection \<open>Reading back what was written\<close>

text \<open>The bits of \<open>v\<close> from \<open>a\<close> up to, not including, \<open>b\<close>, least significant first.\<close>

definition bits_from_to :: "'a::len word \<Rightarrow> nat \<Rightarrow> nat \<Rightarrow> bool list" where
  "bits_from_to v a b = map (bit v) [a..<b]"

definition bits_ahead :: "('s \<Rightarrow> bool list) \<Rightarrow> 's bit_reader \<Rightarrow> bool list" where
  "bits_ahead bits s = bits (br_inner s)"

lemma length_bits_from_to [simp]: "length (bits_from_to v a b) = b - a"
  by (simp add: bits_from_to_def)

lemma bit_word_of_bits:
  "bit (word_of_bits bs :: 'a::len word) i \<longleftrightarrow> i < length bs \<and> i < LENGTH('a) \<and> bs ! i"
  by (auto simp: word_of_bits_def bit_horner_sum_bit_word_iff possible_bit_word)

lemma bit_word_of_bits_from_to:
  "bit (word_of_bits (bits_from_to (v :: 'a::len word) a b) :: 'b::len word) i \<longleftrightarrow>
   i < b - a \<and> i < LENGTH('b) \<and> bit v (a + i)"
  by (auto simp: bit_word_of_bits bits_from_to_def)

lemma read_ubit64_value:
  assumes "value_laws B bits" "bits_ahead bits s = bs @ r" "length bs = n" "0 < n" "n \<le> 64"
  obtains s' where "read_ubit64 B n s = (Ok (word_of_bits bs), s')" "bits_ahead bits s' = r"
proof -
  from assms obtain i where "bb_read_ubit64 B n (br_inner s) = (Ok (word_of_bits bs), i)" "bits i = r"
    unfolding value_laws_def bits_ahead_def by (metis length_greater_0_conv)
  with that [of "s\<lparr>br_inner := i\<rparr>"] show ?thesis
    by (auto simp: read_ubit64_def on_inner_Ok_iff bits_ahead_def)
qed

lemma read_bool_value:
  assumes "value_laws B bits" "bits_ahead bits s = b # r"
  obtains s' where "read_bool B s = (Ok b, s')" "bits_ahead bits s' = r"
proof -
  from assms obtain i where "bb_read_bool B (br_inner s) = (Ok b, i)" "bits i = r"
    unfolding value_laws_def bits_ahead_def by metis
  with that [of "s\<lparr>br_inner := i\<rparr>"] show ?thesis
    by (auto simp: read_bool_def on_inner_Ok_iff bits_ahead_def)
qed

lemma read_byte_value:
  assumes "value_laws B bits" "bits_ahead bits s = bits_from_to (v::u8) 0 8 @ r"
  obtains s' where "read_byte B s = (Ok v, s')" "bits_ahead bits s' = r"
proof -
  have v: "word_of_bits (bits_from_to v 0 8) = v"
    by (rule bit_word_eqI) (simp add: bit_word_of_bits_from_to)
  from assms obtain i where "bb_read_byte B (br_inner s) = (Ok (word_of_bits (bits_from_to v 0 8)), i)"
    "bits i = r"
    unfolding value_laws_def bits_ahead_def by (metis length_bits_from_to diff_zero)
  with that [of "s\<lparr>br_inner := i\<rparr>"] v show ?thesis
    by (auto simp: read_byte_def on_inner_Ok_iff bits_ahead_def)
qed

text \<open>
  \<open>m\<close> reads the bits \<open>bs\<close> and returns \<open>x\<close>, whatever follows them.
\<close>

definition reads :: "('s \<Rightarrow> bool list) \<Rightarrow> ('s bit_reader, 'e, 'a) rm \<Rightarrow> bool list \<Rightarrow> 'a \<Rightarrow> bool" where
  "reads bits m bs x \<longleftrightarrow>
     (\<forall>s r. bits_ahead bits s = bs @ r \<longrightarrow> (\<exists>s'. m s = (Ok x, s') \<and> bits_ahead bits s' = r))"

named_theorems reads_intros "what an operation reads"

lemma readsD:
  assumes "reads bits m bs x" "bits_ahead bits s = bs @ r"
  shows "\<exists>s'. m s = (Ok x, s') \<and> bits_ahead bits s' = r"
  using assms unfolding reads_def by blast

lemma reads_retM [reads_intros]: "reads bits (retM x) [] x"
  by (simp add: reads_def)

lemma reads_bindM:
  assumes "reads bits m bs x" "reads bits (f x) bs' y"
  shows "reads bits (bindM m f) (bs @ bs') y"
  unfolding reads_def
proof (intro allI impI)
  fix s r assume "bits_ahead bits s = (bs @ bs') @ r"
  then obtain s1 where s1: "m s = (Ok x, s1)" "bits_ahead bits s1 = bs' @ r"
    using readsD [OF assms(1), of s "bs' @ r"] by auto
  with readsD [OF assms(2), of s1 r]
  show "\<exists>s'. bindM m f s = (Ok y, s') \<and> bits_ahead bits s' = r"
    by (auto simp: bindM_Ok_iff)
qed

lemma reads_bindM_nil:
  "reads bits m [] x \<Longrightarrow> reads bits (f x) bs' y \<Longrightarrow> reads bits (bindM m f) bs' y"
  using reads_bindM [of bits m "[]" x f bs' y] by simp

lemma reads_bindM_last:
  "reads bits m bs x \<Longrightarrow> f x = retM y \<Longrightarrow> reads bits (bindM m f) bs y"
  using reads_bindM [of bits m bs x f "[]" y] by (simp add: reads_retM)

lemma reads_ubit64:
  assumes "value_laws B bits" "length bs = n" "0 < n" "n \<le> 64"
  shows "reads bits (read_ubit64 B n) bs (word_of_bits bs)"
  unfolding reads_def using read_ubit64_value [OF assms(1) _ assms(2-4)] by metis

lemma reads_bool: "value_laws B bits \<Longrightarrow> reads bits (read_bool B) [b] b"
  unfolding reads_def using read_bool_value by (metis append_Cons append_Nil)

lemma reads_byte: "value_laws B bits \<Longrightarrow> reads bits (read_byte B) (bits_from_to v 0 8) v"
  unfolding reads_def using read_byte_value by metis

text \<open>The usual shape of the code: a flag decides how to go on.\<close>

lemma reads_bindM_bool:
  assumes "value_laws B bits" "reads bits (f b) bs y"
  shows "reads bits (bindM (read_bool B) f) (b # bs) y"
  using reads_bindM [where f = f, OF reads_bool [OF assms(1), of b] assms(2)] by simp

text \<open>
  The encodings that \<open>read_ubitvar\<close> and \<open>read_ubitvarfp\<close> decode, shortest form first: the low four
  bits, a two-bit size class and the rest; and a unary size class followed by the whole value.
\<close>

definition encode_ubitvar :: "u32 \<Rightarrow> bool list" where
  "encode_ubitvar v = bits_from_to v 0 4 @
     (if v < 16 then [False, False]
      else if v < 256 then [True, False] @ bits_from_to v 4 8
      else if v < 4096 then [False, True] @ bits_from_to v 4 12
      else [True, True] @ bits_from_to v 4 32)"

definition encode_ubitvarfp :: "u32 \<Rightarrow> bool list" where
  "encode_ubitvarfp v =
     (if v < 2 ^ 2 then [True] @ bits_from_to v 0 2
      else if v < 2 ^ 4 then [False, True] @ bits_from_to v 0 4
      else if v < 2 ^ 10 then [False, False, True] @ bits_from_to v 0 10
      else if v < 2 ^ 17 then [False, False, False, True] @ bits_from_to v 0 17
      else [False, False, False, False] @ bits_from_to v 0 31)"

lemma uint_less_2p: "(v::'a::len word) < 2 ^ n \<Longrightarrow> n < LENGTH('a) \<Longrightarrow> uint v < 2 ^ n"
  using word_2p_lem [of n v] by (simp add: word_size)

lemma bit_ge_False:
  assumes "(v::'a::len word) < 2 ^ n" "n \<le> i"
  shows "\<not> bit v i"
proof
  assume b: "bit v i"
  then have "i < LENGTH('a)" by (metis bit_imp_le_length)
  with assms have "take_bit n (uint v) = uint v"
    by (intro take_bit_int_eq_self uint_less_2p) auto
  moreover have "bit (uint v) i" using b by (simp add: bit_uint_iff bit_imp_le_length)
  ultimately show False using assms(2) by (metis bit_take_bit_iff not_le)
qed

lemma try_into_u32_ucast: "try_into_u32 (ucast (v::u32)) = Ok v"
proof -
  have "(ucast v :: u64) < 2 ^ 32"
    unfolding word_less_def
    using uint_bounded [of v] by (simp add: unsigned_ucast_eq take_bit_int_eq_self)
  then show ?thesis by (simp add: try_into_u32_def ucast_up_ucast is_up ucast_id)
qed

text \<open>The three extended forms of \<open>read_ubitvar\<close> put the value together the same way.\<close>

lemma bit_15: "bit (15::u64) i \<longleftrightarrow> i < 4"
proof -
  have "(15::u64) = mask 4" by (simp add: mask_eq_exp_minus_1)
  then show ?thesis by (simp only: bit_mask_iff possible_bit_word) auto
qed

lemma ubitvar_join:
  assumes "\<And>i. n \<le> i \<Longrightarrow> \<not> bit (v::u32) i" "4 \<le> n" "n \<le> 32"
  shows "(word_of_bits (bits_from_to v 0 4 @ [a, b]) AND 15)
    OR push_bit 4 (word_of_bits (bits_from_to v 4 n)) = (ucast v :: u64)"
proof -
  define M :: u64 where "M = 15"
  have m: "bit M i \<longleftrightarrow> i < 4" for i by (simp only: M_def bit_15)
  have lo: "i < 4 \<Longrightarrow> bit (word_of_bits (bits_from_to v 0 4 @ [a, b]) :: u64) i = bit v i" for i
    by (simp add: bit_word_of_bits nth_append) (simp add: bits_from_to_def)
  have hi: "bit v i \<Longrightarrow> i < n" for i using assms(1) [of i] by (cases "i < n") auto
  have "(word_of_bits (bits_from_to v 0 4 @ [a, b]) AND M)
    OR push_bit 4 (word_of_bits (bits_from_to v 4 n)) = (ucast v :: u64)" (is "?l = ?r")
  proof (rule bit_word_eqI)
    fix i assume i: "i < LENGTH(64)"
    show "bit ?l i \<longleftrightarrow> bit ?r i"
    proof (cases "i < 4")
      case True
      then show ?thesis
        using i by (auto simp: bit_and_iff bit_or_iff bit_push_bit_iff bit_unsigned_iff m lo)
    next
      case False
      then have "bit v (4 + (i - 4)) = bit v i" by simp
      with False i hi [of i] assms(2,3) show ?thesis
        by (auto simp: bit_and_iff bit_or_iff bit_push_bit_iff bit_unsigned_iff m
            bit_word_of_bits_from_to)
    qed
  qed
  then show ?thesis by (simp only: M_def)
qed

lemma ubitvar_short:
  assumes "\<And>i. 4 \<le> i \<Longrightarrow> \<not> bit (v::u32) i"
  shows "word_of_bits (bits_from_to v 0 4 @ [False, False]) = (ucast v :: u64)" (is "?l = ?r")
proof (rule bit_word_eqI)
  fix i assume i: "i < LENGTH(64)"
  consider "i < 4" | "i = 4" | "i = 5" | "5 < i" by linarith
  then show "bit ?l i \<longleftrightarrow> bit ?r i"
    using i assms
    by cases (auto simp: bit_word_of_bits nth_append bits_from_to_def bit_unsigned_iff)
qed

lemma ubitvar_class:
  "(word_of_bits (bits_from_to (v::u32) 0 4 @ [a, b]) :: u64) AND (16 OR 32)
   = (if a then 16 else 0) + (if b then 32 else 0)"
  unfolding bits_from_to_def word_of_bits_def
  by (cases "bit v 0"; cases "bit v (Suc 0)"; cases "bit v 2"; cases "bit v 3"; cases a; cases b)
    (simp_all add: upt_rec numeral_3_eq_3 numeral_2_eq_2)

lemma encode_ubitvar_split:
  obtains a b n where "encode_ubitvar v = (bits_from_to v 0 4 @ [a, b]) @ bits_from_to v 4 n"
    "\<And>i. n \<le> i \<Longrightarrow> \<not> bit v i"
    "(n = 4 \<and> \<not> a \<and> \<not> b) \<or> (n = 8 \<and> a \<and> \<not> b) \<or> (n = 12 \<and> \<not> a \<and> b) \<or> (n = 32 \<and> a \<and> b)"
proof -
  have top: "32 \<le> i \<Longrightarrow> \<not> bit v i" for i by (auto dest: bit_imp_le_length)
  consider "v < 16" | "\<not> v < 16" "v < 256" | "\<not> v < 16" "\<not> v < 256" "v < 4096"
    | "\<not> v < 16" "\<not> v < 256" "\<not> v < 4096" by blast
  then show thesis
  proof cases
    case 1
    then show ?thesis using bit_ge_False [of v 4]
      by (intro that [of False False 4]) (auto simp: encode_ubitvar_def bits_from_to_def)
  next
    case 2
    then show ?thesis using bit_ge_False [of v 8]
      by (intro that [of True False 8]) (auto simp: encode_ubitvar_def)
  next
    case 3
    then show ?thesis using bit_ge_False [of v 12]
      by (intro that [of False True 12]) (auto simp: encode_ubitvar_def)
  next
    case 4
    then show ?thesis using top
      by (intro that [of True True 32]) (auto simp: encode_ubitvar_def)
  qed
qed

lemma reads_ubitvar:
  assumes laws: "value_laws B bits"
  shows "reads bits (read_ubitvar B) (encode_ubitvar v) v"
proof -
  obtain a b n where enc: "encode_ubitvar v = (bits_from_to v 0 4 @ [a, b]) @ bits_from_to v 4 n"
    and top: "\<And>i. n \<le> i \<Longrightarrow> \<not> bit v i"
    and cls: "(n = 4 \<and> \<not> a \<and> \<not> b) \<or> (n = 8 \<and> a \<and> \<not> b) \<or> (n = 12 \<and> \<not> a \<and> b) \<or> (n = 32 \<and> a \<and> b)"
    using encode_ubitvar_split [of v] by blast
  have head: "reads bits (read_ubit64 B 6) (bits_from_to v 0 4 @ [a, b])
      (word_of_bits (bits_from_to v 0 4 @ [a, b]))"
    by (rule reads_ubit64 [OF laws]) auto
  note vals = ubitvar_class [of v a b] try_into_u32_ucast [of v]
  show ?thesis
  proof (cases "n = 4")
    case True
    with cls top vals ubitvar_short [of v] show ?thesis
      unfolding enc read_ubitvar_def
      by (intro reads_bindM [OF head])
        (auto simp: Let_def bits_from_to_def intro: reads_retM reads_bindM_nil)
  next
    case False
    then have "reads bits (read_ubit64 B (n - 4)) (bits_from_to v 4 n)
        (word_of_bits (bits_from_to v 4 n))"
      using cls by (intro reads_ubit64 [OF laws]) auto
    moreover have "(word_of_bits (bits_from_to v 0 4 @ [a, b]) AND 15)
        OR push_bit 4 (word_of_bits (bits_from_to v 4 n)) = (ucast v :: u64)"
      using ubitvar_join [OF top] False cls by auto
    ultimately show ?thesis
      using False cls vals unfolding enc read_ubitvar_def
      by (intro reads_bindM [OF head]) (auto simp: Let_def intro!: reads_bindM_last)
  qed
qed

text \<open>C13: \<open>read_ubitvar\<close> returns every 32-bit value that was written in Valve's variable-length
  form, consuming exactly the bits of the encoding.\<close>

theorem ubitvar_roundtrip:
  assumes laws: "value_laws B bits"
  shows "reads bits (read_ubitvar B) (encode_ubitvar v) v"
  by (rule reads_ubitvar [OF laws])

theorem ubitvar_roundtrip_witness:
  "reads ref_bits (read_ubitvar ref_bitbuf) (encode_ubitvar 300) 300"
  by (rule ubitvar_roundtrip [OF ref_value_laws])

lemma word_of_bits_whole:
  assumes "\<And>i. n \<le> i \<Longrightarrow> \<not> bit (v::u32) i"
  shows "word_of_bits (bits_from_to v 0 n) = (ucast v :: u64)"
  using assms by (intro bit_word_eqI) (auto simp: bit_word_of_bits_from_to bit_unsigned_iff
      dest: bit_imp_le_length not_le_imp_less)

text \<open>\<open>read_ubitvarfp\<close> returns every value below \<open>2^31\<close> that was written in the unary-class form
  of field paths, consuming exactly the bits of the encoding.\<close>

theorem ubitvarfp_roundtrip:
  assumes laws: "value_laws B bits" and v: "v < 2 ^ 31"
  shows "reads bits (read_ubitvarfp B) (encode_ubitvarfp v) v"
proof -
  have body: "reads bits (read_ubit64 B n) (bits_from_to v 0 n) (ucast v)"
    if "v < 2 ^ n" "0 < n" "n \<le> 32" for n
    using reads_ubit64 [OF laws, of "bits_from_to v 0 n" n] that word_of_bits_whole [of n v]
      bit_ge_False [OF that(1)] by auto
  show ?thesis
    unfolding read_ubitvarfp_def encode_ubitvarfp_def
    using v by (intro reads_bindM_last [where x = "ucast v"])
      (auto simp: try_into_u32_ucast intro!: reads_bindM_bool [OF laws] body)
qed

theorem ubitvarfp_roundtrip_witness:
  "reads ref_bits (read_ubitvarfp ref_bitbuf) (encode_ubitvarfp 70000) 70000"
  by (rule ubitvarfp_roundtrip [OF ref_value_laws]) simp

subsection \<open>Coordinates are exact\<close>

lemma represents_f32_of_u64:
  assumes "unat v < 2 ^ 24"
  shows "represents (f32_of_u64 v) False (unat v) 0"
  using represents_of_int [of "uint v"] assms by (simp add: f32_of_u64_def)

lemma represents_COORD_RESOLUTION: "represents COORD_RESOLUTION False 1 (- 5)"
proof -
  have "COORD_RESOLUTION = Fin False 8388608 (- 28)"
    by (simp add: COORD_RESOLUTION_def COORD_DENOMINATOR_def COORD_FRACTIONAL_BITS_def fl_of_int_def
        round_flt_def binary32_def ilog2_ratio_def bitlen.simps round_div_def Let_def)
  then show ?thesis by (auto simp: represents_def intro!: exI [of _ 23])
qed

text \<open>Integer part plus thirty-seconds: no rounding happens in the sum.\<close>

lemma coord_sum_exact:
  assumes "unat i \<le> 2 ^ 14" "unat f < 32"
  shows "represents (fl_add binary32 (f32_of_u64 i)
    (fl_mul binary32 (f32_of_u64 f) COORD_RESOLUTION)) False (32 * unat i + unat f) (- 5)"
proof -
  have frac: "represents (fl_mul binary32 (f32_of_u64 f) COORD_RESOLUTION) False (unat f) (- 5)"
    using represents_round [of "unat f" binary32 "- 5" False] assms(2)
      fl_mul_represents [OF represents_f32_of_u64 [of f] represents_COORD_RESOLUTION, of binary32]
    by (simp add: binary32_def)
  have "fl_add binary32 (f32_of_u64 i) (fl_mul binary32 (f32_of_u64 f) COORD_RESOLUTION)
      = round_flt binary32 False (32 * unat i + unat f) (Suc 0) (- 5)"
    using fl_add_represents [OF represents_f32_of_u64 frac, of i binary32] assms(1)
    by (simp add: mult.commute)
  moreover have "32 * unat i + unat f < 2 ^ 24" using assms by simp
  ultimately show ?thesis
    using represents_round [of "32 * unat i + unat f" binary32 "- 5" False]
    by (simp add: binary32_def)
qed

definition encode_bitcoord :: "bool \<Rightarrow> u64 \<Rightarrow> u64 \<Rightarrow> bool list" where
  "encode_bitcoord neg i f = [i \<noteq> 0, f \<noteq> 0] @
     (if i \<noteq> 0 \<or> f \<noteq> 0 then [neg] @ (if i \<noteq> 0 then bits_from_to (i - 1) 0 14 else [])
        @ (if f \<noteq> 0 then bits_from_to f 0 5 else [])
      else [])"

lemma word_of_bits_whole64:
  assumes "v < 2 ^ n" "n < 64"
  shows "word_of_bits (bits_from_to v 0 n) = (v :: u64)"
  using bit_ge_False [OF assms(1)] assms(2)
  by (intro bit_word_eqI) (auto simp: bit_word_of_bits_from_to dest: bit_imp_le_length not_le_imp_less)

lemma reads_ubit64_whole:
  "value_laws B bits \<Longrightarrow> v < 2 ^ n \<Longrightarrow> 0 < n \<Longrightarrow> n < 64
   \<Longrightarrow> reads bits (read_ubit64 B n) (bits_from_to v 0 n) v"
  using reads_ubit64 [of B bits "bits_from_to v 0 n" n] by (simp add: word_of_bits_whole64)

definition signed_float :: "bool \<Rightarrow> f32 \<Rightarrow> f32" where
  "signed_float neg x = (if neg then fl_neg x else x)"

text \<open>The float that is made of an integer part and thirty-seconds.\<close>

definition coord_float :: "bool \<Rightarrow> u64 \<Rightarrow> u64 \<Rightarrow> f32" where
  "coord_float neg i f = (if i = 0 \<and> f = 0 then f_zero else signed_float neg
     (fl_add binary32 (f32_of_u64 i) (fl_mul binary32 (f32_of_u64 f) COORD_RESOLUTION)))"

lemma reads_bitcoord:
  assumes laws: "value_laws B bits" and i: "unat i \<le> 2 ^ 14" and f: "unat f < 32"
  shows "reads bits (read_bitcoord B) (encode_bitcoord neg i f) (coord_float neg i f)"
proof (cases "i = 0 \<and> f = 0")
  case True
  then show ?thesis
    by (auto simp: read_bitcoord_def encode_bitcoord_def coord_float_def intro!: reads_bindM_bool [OF laws] reads_retM)
next
  case False
  have int: "reads bits (if i \<noteq> 0 then bindM (read_ubit64 B COORD_INTEGER_BITS) (\<lambda>v. retM (v + 1))
      else retM 0) (if i \<noteq> 0 then bits_from_to (i - 1) 0 14 else []) i"
  proof (cases "i = 0")
    case False
    then have "unat (i - 1) < 2 ^ 14" using i by (simp add: unat_minus_one word_gt_0 [symmetric] unat_gt_0)
    then have "i - 1 < 2 ^ 14" by (simp add: word_less_nat_alt)
    with False show ?thesis
      by (auto simp: COORD_INTEGER_BITS_def intro!: reads_bindM_last reads_ubit64_whole laws)
  qed (simp add: reads_retM)
  have frac: "reads bits (if f \<noteq> 0 then read_ubit64 B COORD_FRACTIONAL_BITS else retM 0)
      (if f \<noteq> 0 then bits_from_to f 0 5 else []) f"
    using f by (auto simp: COORD_FRACTIONAL_BITS_def word_less_nat_alt
        intro!: reads_ubit64_whole [OF laws] reads_retM)
  note tail = reads_bindM [OF int reads_bindM_last [OF frac]]
  show ?thesis
    unfolding read_bitcoord_def encode_bitcoord_def append.simps
    using False
    by (simp only: if_True de_Morgan_conj simp_thms append.simps, intro reads_bindM_bool [OF laws])
      (simp only: if_True de_Morgan_conj simp_thms append.simps,
        intro reads_bindM_bool [OF laws] tail, auto simp: coord_float_def signed_float_def Let_def)
qed

text \<open>C14: a coordinate is read back exactly: for every integer part up to \<open>2^14\<close> and fraction below
  32, the float that \<open>read_bitcoord\<close> returns is \<open>\<plusminus>(i + f/32)\<close>, none of its three float operations
  rounds, and exactly the bits of the encoding are consumed.\<close>

theorem bitcoord_exact:
  assumes laws: "value_laws B bits" and i: "unat i \<le> 2 ^ 14" and f: "unat f < 32"
  shows "\<exists>x. reads bits (read_bitcoord B) (encode_bitcoord neg i f) x \<and> is_fin x
    \<and> flt_val x = (if neg then - 1 else 1) * (of_nat (unat i) + of_nat (unat f) / 32)"
proof -
  have "is_fin (coord_float neg i f) \<and> flt_val (coord_float neg i f)
      = (if neg then - 1 else 1) * (of_nat (unat i) + of_nat (unat f) / 32)"
  proof (cases "i = 0 \<and> f = 0")
    case False
    define v where "v = fl_add binary32 (f32_of_u64 i) (fl_mul binary32 (f32_of_u64 f) COORD_RESOLUTION)"
    have rep: "represents v False (32 * unat i + unat f) (- 5)"
      unfolding v_def by (rule coord_sum_exact [OF i f])
    then have "flt_val v = of_nat (unat i) + of_nat (unat f) / 32" "is_fin v"
      by (auto simp: represents_val signed_real_def power_int_minus field_simps)
        (auto simp: represents_def)
    with False show ?thesis by (auto simp: coord_float_def signed_float_def v_def)
  qed (auto simp: coord_float_def f_zero_def signed_real_def)
  with reads_bitcoord [OF assms] show ?thesis by blast
qed

theorem bitcoord_exact_witness:
  "\<exists>x. reads ref_bits (read_bitcoord ref_bitbuf) (encode_bitcoord True 37 3) x \<and> is_fin x
    \<and> flt_val x = (if True then - 1 else 1) * (of_nat (unat (37::u64)) + of_nat (unat (3::u64)) / 32)"
  by (rule bitcoord_exact [OF ref_value_laws]) simp_all

subsection \<open>Strings\<close>

definition string_bits :: "u8 list \<Rightarrow> bool list" where
  "string_bits cs = concat (map (\<lambda>c. bits_from_to c 0 8) cs)"

lemma read_byte_ahead:
  assumes "value_laws B bits" "bits_ahead bits s = bits_from_to c 0 8 @ r"
  obtains s' where "read_byte B s = (Ok c, s')" "bits_ahead bits s' = r"
  using readsD [OF reads_byte [OF assms(1)] assms(2)] by blast

lemma read_string_loop_value:
  assumes laws: "value_laws B bits"
  shows "\<lbrakk>bits_ahead bits s = string_bits (cs @ [t]) @ r; \<forall>c\<in>set cs. \<not> ends_string line c;
     ends_string line t; n < length buf;
     fst (read_string_loop B line fuel n too_small (buf, s)) \<noteq> OutOfFuel\<rbrakk>
   \<Longrightarrow> \<exists>s'. read_string_loop B line fuel n too_small (buf, s)
     = (Ok (min (n + length cs) (length buf - 1), too_small \<or> length buf - 1 < n + length cs),
        (take n buf @ take (length buf - 1 - n) cs @ drop (n + length (take (length buf - 1 - n) cs)) buf, s'))
       \<and> bits_ahead bits s' = r"
proof (induction cs arbitrary: s fuel buf n too_small)
  case Nil
  then obtain s' where s': "read_byte B s = (Ok t, s')" "bits_ahead bits s' = r"
    using read_byte_ahead [OF laws, of s t r] by (auto simp: string_bits_def)
  from Nil obtain k where "fuel = Suc k" by (cases fuel) (auto simp: rm_simps)
  with Nil s' show ?case by (auto simp: rm_simps on_reader_def zoomM_def)
next
  case (Cons c cs)
  obtain s' where s': "read_byte B s = (Ok c, s')" "bits_ahead bits s' = string_bits (cs @ [t]) @ r"
    using read_byte_ahead [OF laws, of s c "string_bits (cs @ [t]) @ r"] Cons.prems(1)
    by (auto simp: string_bits_def)
  from Cons.prems(5) obtain k where k: "fuel = Suc k" by (cases fuel) (auto simp: rm_simps)
  show ?case
  proof (cases "n < length buf - 1")
    case True
    with k s' Cons.prems Cons.IH [OF s'(2), of "Suc n" "buf[n := c]" k too_small]
    show ?thesis
      by (auto simp: rm_simps on_reader_def zoomM_def take_Suc_conv_app_nth min_def not_less_eq_eq Suc_diff_Suc
          simp flip: Suc_diff_Suc split: if_splits)
  next
    case False
    with k s' Cons.prems Cons.IH [OF s'(2), of n buf k True]
    show ?thesis by (auto simp: rm_simps on_reader_def zoomM_def min_def)
  qed
qed

text \<open>C15: \<open>read_string\<close> on a stream that holds a terminated string: a string that fits the buffer is
  stored with a terminating zero, the rest of the buffer untouched, and its length returned; one that does
  not fit is an error, and the buffer then holds as much of it as fits, terminated; in both cases the
  reader stops right after the terminator.\<close>

theorem read_string_value:
  assumes laws: "cursor_laws B" "value_laws B bits"
    and ahead: "bits_ahead bits s = string_bits (cs @ [t]) @ r"
    and cs: "\<forall>c\<in>set cs. \<not> ends_string line c" "ends_string line t"
    and buf: "buf \<noteq> []"
  shows "\<exists>s'. bits_ahead bits s' = r \<and> read_string B line (buf, s) =
    (if length cs < length buf then (Ok (length cs), (cs @ [0] @ drop (Suc (length cs)) buf, s'))
     else (Err BufferTooSmall, (take (length buf - 1) cs @ [0], s')))"
proof -
  have "fst (read_string_loop B line (Suc (num_bits_left B s)) 0 False (buf, s)) \<noteq> OutOfFuel"
    using read_string_loop_fuel [OF laws(1), of "(buf, s)" "Suc (num_bits_left B s)"] by (metis lessI prod.collapse snd_conv)
  from read_string_loop_value [OF laws(2) ahead cs _ this] buf
  obtain s' where s': "bits_ahead bits s' = r"
    "read_string_loop B line (Suc (num_bits_left B s)) 0 False (buf, s) =
      (Ok (min (length cs) (length buf - 1), length buf - 1 < length cs),
       (take (length buf - 1) cs @ drop (length (take (length buf - 1) cs)) buf, s'))"
    by auto
  show ?thesis
  proof (cases "length cs < length buf")
    case True
    then show ?thesis
      using s' buf by (auto simp del: read_string_loop.simps simp: read_string_def rm_simps min_def list_update_append upd_conv_take_nth_drop intro!: exI [of _ s'])
  next
    case False
    obtain ys y where "buf = ys @ [y]" using buf by (cases buf rule: rev_cases) simp_all
    then show ?thesis using False s'
      by (auto simp del: read_string_loop.simps simp: read_string_def rm_simps min_def list_update_append intro!: exI [of _ s'])
  qed
qed
theorem read_string_value_witness:
  "\<exists>s'. bits_ahead ref_bits s' = [True] \<and> read_string ref_bitbuf True
      ([7, 7, 7, 7], \<lparr>br_inner = (string_bits ([104, 105] @ [10]) @ [True], 0), br_did_check_overflow = False\<rparr>) =
    (Ok 2, ([104, 105, 0, 7], s'))"
proof -
  have "\<exists>s'. bits_ahead ref_bits s' = [True] \<and> read_string ref_bitbuf True
      ([7, 7, 7, 7], \<lparr>br_inner = (string_bits ([104, 105] @ [10]) @ [True], 0), br_did_check_overflow = False\<rparr>) =
    (if length [104, 105 :: u8] < length [7, 7, 7, 7 :: u8]
     then (Ok (length [104, 105 :: u8]), ([104, 105] @ [0] @ drop (Suc (length [104, 105 :: u8])) [7, 7, 7, 7], s'))
     else (Err BufferTooSmall, (take (length [7, 7, 7, 7 :: u8] - 1) [104, 105] @ [0], s')))"
    by (rule read_string_value [OF ref_cursor_laws ref_value_laws])
      (auto simp: bits_ahead_def ref_bits_def ends_string_def string_bits_def)
  then show ?thesis by (simp add: eval_nat_numeral)
qed
subsection \<open>Measuring what an operation reads\<close>

definition skip_agrees ::
    "'s bitbuf \<Rightarrow> ('s bit_reader, 'e, 'a) rm \<Rightarrow> ('s bit_reader, 'f, nat) rm \<Rightarrow> bool" where
  "skip_agrees B dec skp \<longleftrightarrow>
     (\<forall>s x s'. dec s = (Ok x, s') \<longrightarrow> (\<exists>k. adv B k s s' \<and> skp s = (Ok k, s')))"

lemma skip_agreesD:
  assumes "skip_agrees B dec skp" "dec s = (Ok x, s')"
  obtains k where "adv B k s s'" "skp s = (Ok k, s')"
  using assms unfolding skip_agrees_def by blast

lemma skip_agrees_fixed:
  assumes "\<And>s x s'. dec s = (Ok x, s') \<Longrightarrow> adv B n s s'" "n < 2 ^ 63"
  shows "skip_agrees B dec (seqM (skip_bits B n) (retM n))"
  using skip_bits_adv [OF assms(1) assms(2)] assms(1)
  unfolding skip_agrees_def by (fastforce simp: bindM_Ok_iff)

end
