(* ===== verification/FieldPath.thy ===== *)
theory FieldPath
  imports BitReaderLaws
begin

text \<open>
  \<open>haste_core/src/fieldpath.rs\<close>, first half: the field path and the forty operations that edit it.

  A path is seven bytes and the index of its last component.  The components wrap at a byte, the
  index at \<open>usize\<close> (popping the last component of a path leaves it at \<open>2^64 - 1\<close>), and indexing the
  array out of bounds panics.  An operation runs on the path and the reader; the path is local to
  \<open>read_field_paths\<close>, so a panic drops it.
\<close>

record field_path =
  fp_data :: "u8 list"
  fp_last :: usize
  fp_finished :: bool

definition field_path_default :: field_path where
  "field_path_default = \<lparr>fp_data = [255, 0, 0, 0, 0, 0, 0], fp_last = 0, fp_finished = False\<rparr>"

type_synonym 's field_op_fn = "(field_path \<times> 's bit_reader, bit_error, unit) rm"

subsection \<open>Editing a path\<close>

definition inc_at :: "field_path \<Rightarrow> usize \<Rightarrow> i32 \<Rightarrow> (bit_error, field_path) outcome" where
  "inc_at fp i v =
     bindO (index_slice (fp_data fp) (unat i)) (\<lambda>c.
     bindO (store_slice (fp_data fp) (unat i) (ucast ((ucast c + v) AND 0xFF))) (\<lambda>d.
     Ok (fp\<lparr>fp_data := d\<rparr>)))"

definition push_at :: "field_path \<Rightarrow> i32 \<Rightarrow> (bit_error, field_path) outcome" where
  "push_at fp v =
     (let last = fp_last fp + 1 in
      bindO (store_slice (fp_data fp) (unat last) (ucast (v AND 0xFF))) (\<lambda>d.
      Ok (fp\<lparr>fp_data := d, fp_last := last\<rparr>)))"

fun pop_loop :: "field_path \<Rightarrow> nat \<Rightarrow> (bit_error, field_path) outcome" where
  "pop_loop fp 0 = Ok fp"
| "pop_loop fp (Suc n) =
     bindO (store_slice (fp_data fp) (unat (fp_last fp)) 0) (\<lambda>d.
     pop_loop (fp\<lparr>fp_data := d, fp_last := fp_last fp - 1\<rparr>) n)"

definition fp_get :: "field_path \<Rightarrow> nat \<Rightarrow> nat option" where
  "fp_get fp i = (if i < length (fp_data fp) then Some (unat (fp_data fp ! i)) else None)"

definition fp_iter :: "field_path \<Rightarrow> u8 list" where
  "fp_iter fp = take (unat (fp_last fp + 1)) (fp_data fp)"

subsection \<open>The operations\<close>

definition on_path :: "(field_path \<Rightarrow> (bit_error, field_path) outcome) \<Rightarrow> 's field_op_fn" where
  "on_path f = (\<lambda>(fp, r). case f fp of
     Ok fp' \<Rightarrow> (Ok (), (fp', r))
   | Err e \<Rightarrow> (Err e, (fp, r))
   | Panic p \<Rightarrow> (Panic p, (fp, r))
   | OutOfFuel \<Rightarrow> (OutOfFuel, (fp, r)))"

definition inc_last :: "i32 \<Rightarrow> 's field_op_fn" where
  "inc_last v = on_path (\<lambda>fp. inc_at fp (fp_last fp) v)"

definition fp_push :: "i32 \<Rightarrow> 's field_op_fn" where
  "fp_push v = on_path (\<lambda>fp. push_at fp v)"

definition fp_pop :: "nat \<Rightarrow> 's field_op_fn" where
  "fp_pop n = on_path (\<lambda>fp. pop_loop fp n)"

definition pop_last :: "'s field_op_fn" where
  "pop_last = on_path (\<lambda>fp. pop_loop fp (unat (fp_last fp)))"

text \<open>The recurring argument shape \<open>fp.inc_last(br.read_ubitvarfp()? as i32 + 2)\<close>.\<close>

definition inc_last_read ::
    "('s bit_reader, bit_error, 'a::len word) rm \<Rightarrow> ('a word \<Rightarrow> i32) \<Rightarrow> 's field_op_fn" where
  "inc_last_read rd f = bindM (on_reader rd) (\<lambda>v. inc_last (f v))"

definition push_read ::
    "('s bit_reader, bit_error, 'a::len word) rm \<Rightarrow> ('a word \<Rightarrow> i32) \<Rightarrow> 's field_op_fn" where
  "push_read rd f = bindM (on_reader rd) (\<lambda>v. fp_push (f v))"

definition pop_read :: "('s bit_reader, bit_error, u32) rm \<Rightarrow> 's field_op_fn" where
  "pop_read rd = bindM (on_reader rd) (\<lambda>v. fp_pop (unat v))"

fun push_each :: "'s bitbuf \<Rightarrow> nat \<Rightarrow> 's field_op_fn" where
  "push_each B 0 = retM ()"
| "push_each B (Suc n) = seqM (push_read (read_ubitvarfp B) id) (push_each B n)"

text \<open>\<open>for i in 0..=fp.last\<close>: \<open>k\<close> components from \<open>i\<close> on, each preceded by a flag.\<close>

fun inc_each_loop ::
    "('s bit_reader, bit_error, i32) rm \<Rightarrow> 's bitbuf \<Rightarrow> usize \<Rightarrow> nat \<Rightarrow> 's field_op_fn" where
  "inc_each_loop rd B i 0 = retM ()"
| "inc_each_loop rd B i (Suc k) =
     bindM (on_reader (read_bool B)) (\<lambda>b.
     seqM (if b then bindM (on_reader rd) (\<lambda>v. on_path (\<lambda>fp. inc_at fp i v)) else retM ())
       (inc_each_loop rd B (i + 1) k))"

definition inc_each :: "('s bit_reader, bit_error, i32) rm \<Rightarrow> 's bitbuf \<Rightarrow> 's field_op_fn" where
  "inc_each rd B = (\<lambda>(fp, r). inc_each_loop rd B 0 (Suc (unat (fp_last fp))) (fp, r))"

definition plus_one :: "'s bitbuf \<Rightarrow> 's field_op_fn" where
  "plus_one B = inc_last 1"

definition plus_two :: "'s bitbuf \<Rightarrow> 's field_op_fn" where
  "plus_two B = inc_last 2"

definition plus_three :: "'s bitbuf \<Rightarrow> 's field_op_fn" where
  "plus_three B = inc_last 3"

definition plus_four :: "'s bitbuf \<Rightarrow> 's field_op_fn" where
  "plus_four B = inc_last 4"

definition plus_n :: "'s bitbuf \<Rightarrow> 's field_op_fn" where
  "plus_n B = inc_last_read (read_ubitvarfp B) (\<lambda>v. v + 5)"

definition push_one_left_delta_zero_right_zero :: "'s bitbuf \<Rightarrow> 's field_op_fn" where
  "push_one_left_delta_zero_right_zero B = fp_push 0"

definition push_one_left_delta_zero_right_non_zero :: "'s bitbuf \<Rightarrow> 's field_op_fn" where
  "push_one_left_delta_zero_right_non_zero B = push_read (read_ubitvarfp B) id"

definition push_one_left_delta_one_right_zero :: "'s bitbuf \<Rightarrow> 's field_op_fn" where
  "push_one_left_delta_one_right_zero B = seqM (inc_last 1)
     (fp_push 0)"

definition push_one_left_delta_one_right_non_zero :: "'s bitbuf \<Rightarrow> 's field_op_fn" where
  "push_one_left_delta_one_right_non_zero B = seqM (inc_last 1)
     (push_read (read_ubitvarfp B) id)"

definition push_one_left_delta_n_right_zero :: "'s bitbuf \<Rightarrow> 's field_op_fn" where
  "push_one_left_delta_n_right_zero B = seqM (inc_last_read (read_ubitvarfp B) id)
     (fp_push 0)"

definition push_one_left_delta_n_right_non_zero :: "'s bitbuf \<Rightarrow> 's field_op_fn" where
  "push_one_left_delta_n_right_non_zero B = seqM (inc_last_read (read_ubitvarfp B) (\<lambda>v. v + 2))
     (push_read (read_ubitvarfp B) (\<lambda>v. v + 1))"

definition push_one_left_delta_n_right_non_zero_pack6_bits :: "'s bitbuf \<Rightarrow> 's field_op_fn" where
  "push_one_left_delta_n_right_non_zero_pack6_bits B = seqM (inc_last_read (read_ubit64 B 3) (\<lambda>v. ucast v + 2))
     (push_read (read_ubit64 B 3) (\<lambda>v. ucast v + 1))"

definition push_one_left_delta_n_right_non_zero_pack8_bits :: "'s bitbuf \<Rightarrow> 's field_op_fn" where
  "push_one_left_delta_n_right_non_zero_pack8_bits B = seqM (inc_last_read (read_ubit64 B 4) (\<lambda>v. ucast v + 2))
     (push_read (read_ubit64 B 4) (\<lambda>v. ucast v + 1))"

definition push_two_left_delta_zero :: "'s bitbuf \<Rightarrow> 's field_op_fn" where
  "push_two_left_delta_zero B = seqM (push_read (read_ubitvarfp B) id)
     (push_read (read_ubitvarfp B) id)"

definition push_two_pack5_left_delta_zero :: "'s bitbuf \<Rightarrow> 's field_op_fn" where
  "push_two_pack5_left_delta_zero B = seqM (push_read (read_ubit64 B 5) ucast)
     (push_read (read_ubit64 B 5) ucast)"

definition push_three_left_delta_zero :: "'s bitbuf \<Rightarrow> 's field_op_fn" where
  "push_three_left_delta_zero B = seqM (push_read (read_ubitvarfp B) id)
     (seqM (push_read (read_ubitvarfp B) id)
     (push_read (read_ubitvarfp B) id))"

definition push_three_pack5_left_delta_zero :: "'s bitbuf \<Rightarrow> 's field_op_fn" where
  "push_three_pack5_left_delta_zero B = seqM (push_read (read_ubit64 B 5) ucast)
     (seqM (push_read (read_ubit64 B 5) ucast)
     (push_read (read_ubit64 B 5) ucast))"

definition push_two_left_delta_one :: "'s bitbuf \<Rightarrow> 's field_op_fn" where
  "push_two_left_delta_one B = seqM (inc_last 1)
     (seqM (push_read (read_ubitvarfp B) id)
     (push_read (read_ubitvarfp B) id))"

definition push_two_pack5_left_delta_one :: "'s bitbuf \<Rightarrow> 's field_op_fn" where
  "push_two_pack5_left_delta_one B = seqM (inc_last 1)
     (seqM (push_read (read_ubit64 B 5) ucast)
     (push_read (read_ubit64 B 5) ucast))"

definition push_three_left_delta_one :: "'s bitbuf \<Rightarrow> 's field_op_fn" where
  "push_three_left_delta_one B = seqM (inc_last 1)
     (seqM (push_read (read_ubitvarfp B) id)
     (seqM (push_read (read_ubitvarfp B) id)
     (push_read (read_ubitvarfp B) id)))"

definition push_three_pack5_left_delta_one :: "'s bitbuf \<Rightarrow> 's field_op_fn" where
  "push_three_pack5_left_delta_one B = seqM (inc_last 1)
     (seqM (push_read (read_ubit64 B 5) ucast)
     (seqM (push_read (read_ubit64 B 5) ucast)
     (push_read (read_ubit64 B 5) ucast)))"

definition push_two_left_delta_n :: "'s bitbuf \<Rightarrow> 's field_op_fn" where
  "push_two_left_delta_n B = seqM (inc_last_read (read_ubitvar B) (\<lambda>v. v + 2))
     (seqM (push_read (read_ubitvarfp B) id)
     (push_read (read_ubitvarfp B) id))"

definition push_two_pack5_left_delta_n :: "'s bitbuf \<Rightarrow> 's field_op_fn" where
  "push_two_pack5_left_delta_n B = seqM (inc_last_read (read_ubitvar B) (\<lambda>v. v + 2))
     (seqM (push_read (read_ubit64 B 5) ucast)
     (push_read (read_ubit64 B 5) ucast))"

definition push_three_left_delta_n :: "'s bitbuf \<Rightarrow> 's field_op_fn" where
  "push_three_left_delta_n B = seqM (inc_last_read (read_ubitvar B) (\<lambda>v. v + 2))
     (seqM (push_read (read_ubitvarfp B) id)
     (seqM (push_read (read_ubitvarfp B) id)
     (push_read (read_ubitvarfp B) id)))"

definition push_three_pack5_left_delta_n :: "'s bitbuf \<Rightarrow> 's field_op_fn" where
  "push_three_pack5_left_delta_n B = seqM (inc_last_read (read_ubitvar B) (\<lambda>v. v + 2))
     (seqM (push_read (read_ubit64 B 5) ucast)
     (seqM (push_read (read_ubit64 B 5) ucast)
     (push_read (read_ubit64 B 5) ucast)))"

definition push_n :: "'s bitbuf \<Rightarrow> 's field_op_fn" where
  "push_n B = bindM (on_reader (read_ubitvar B)) (\<lambda>n.
     seqM (inc_last_read (read_ubitvar B) id) (push_each B (unat n)))"

definition push_n_and_non_topographical :: "'s bitbuf \<Rightarrow> 's field_op_fn" where
  "push_n_and_non_topographical B = seqM (inc_each (bindM (read_varint32 B) (\<lambda>v. retM (v + 1))) B)
     (bindM (on_reader (read_ubitvar B)) (\<lambda>n. push_each B (unat n)))"

definition pop_one_plus_one :: "'s bitbuf \<Rightarrow> 's field_op_fn" where
  "pop_one_plus_one B = seqM (fp_pop 1)
     (inc_last 1)"

definition pop_one_plus_n :: "'s bitbuf \<Rightarrow> 's field_op_fn" where
  "pop_one_plus_n B = seqM (fp_pop 1)
     (inc_last_read (read_ubitvarfp B) (\<lambda>v. v + 1))"

definition pop_all_but_one_plus_one :: "'s bitbuf \<Rightarrow> 's field_op_fn" where
  "pop_all_but_one_plus_one B = seqM (pop_last)
     (inc_last 1)"

definition pop_all_but_one_plus_n :: "'s bitbuf \<Rightarrow> 's field_op_fn" where
  "pop_all_but_one_plus_n B = seqM (pop_last)
     (inc_last_read (read_ubitvarfp B) (\<lambda>v. v + 1))"

definition pop_all_but_one_plus_n_pack3_bits :: "'s bitbuf \<Rightarrow> 's field_op_fn" where
  "pop_all_but_one_plus_n_pack3_bits B = seqM (pop_last)
     (inc_last_read (read_ubit64 B 3) (\<lambda>v. ucast v + 1))"

definition pop_all_but_one_plus_n_pack6_bits :: "'s bitbuf \<Rightarrow> 's field_op_fn" where
  "pop_all_but_one_plus_n_pack6_bits B = seqM (pop_last)
     (inc_last_read (read_ubit64 B 6) (\<lambda>v. ucast v + 1))"

definition pop_n_plus_one :: "'s bitbuf \<Rightarrow> 's field_op_fn" where
  "pop_n_plus_one B = seqM (pop_read (read_ubitvarfp B))
     (inc_last 1)"

definition pop_n_plus_n :: "'s bitbuf \<Rightarrow> 's field_op_fn" where
  "pop_n_plus_n B = seqM (pop_read (read_ubitvarfp B))
     (inc_last_read (read_varint32 B) id)"

definition pop_n_and_non_topographical :: "'s bitbuf \<Rightarrow> 's field_op_fn" where
  "pop_n_and_non_topographical B = seqM (pop_read (read_ubitvarfp B)) (inc_each (read_varint32 B) B)"

definition non_topo_complex :: "'s bitbuf \<Rightarrow> 's field_op_fn" where
  "non_topo_complex B = inc_each (read_varint32 B) B"

definition non_topo_penultimate_pluse_one :: "'s bitbuf \<Rightarrow> 's field_op_fn" where
  "non_topo_penultimate_pluse_one B = on_path (\<lambda>fp. inc_at fp (fp_last fp - 1) 1)"

definition non_topo_complex_pack4_bits :: "'s bitbuf \<Rightarrow> 's field_op_fn" where
  "non_topo_complex_pack4_bits B = inc_each (bindM (read_ubit64 B 4) (\<lambda>v. retM (ucast v - 7))) B"

definition field_path_encode_finish :: "'s bitbuf \<Rightarrow> 's field_op_fn" where
  "field_path_encode_finish B = on_path (\<lambda>fp. Ok (fp\<lparr>fp_finished := True\<rparr>))"

text \<open>The function pointers of the table, by name, and the call through one.\<close>

datatype field_op =
    PlusOne | PlusTwo | PlusThree
  | PlusFour | PlusN | PushOneLeftDeltaZeroRightZero
  | PushOneLeftDeltaZeroRightNonZero | PushOneLeftDeltaOneRightZero | PushOneLeftDeltaOneRightNonZero
  | PushOneLeftDeltaNRightZero | PushOneLeftDeltaNRightNonZero | PushOneLeftDeltaNRightNonZeroPack6Bits
  | PushOneLeftDeltaNRightNonZeroPack8Bits | PushTwoLeftDeltaZero | PushTwoPack5LeftDeltaZero
  | PushThreeLeftDeltaZero | PushThreePack5LeftDeltaZero | PushTwoLeftDeltaOne
  | PushTwoPack5LeftDeltaOne | PushThreeLeftDeltaOne | PushThreePack5LeftDeltaOne
  | PushTwoLeftDeltaN | PushTwoPack5LeftDeltaN | PushThreeLeftDeltaN
  | PushThreePack5LeftDeltaN | PushN | PushNAndNonTopographical
  | PopOnePlusOne | PopOnePlusN | PopAllButOnePlusOne
  | PopAllButOnePlusN | PopAllButOnePlusNPack3Bits | PopAllButOnePlusNPack6Bits
  | PopNPlusOne | PopNPlusN | PopNAndNonTopographical
  | NonTopoComplex | NonTopoPenultimatePluseOne | NonTopoComplexPack4Bits
  | FieldPathEncodeFinish

fun run_field_op :: "field_op \<Rightarrow> 's bitbuf \<Rightarrow> 's field_op_fn" where
  "run_field_op PlusOne = plus_one"
| "run_field_op PlusTwo = plus_two"
| "run_field_op PlusThree = plus_three"
| "run_field_op PlusFour = plus_four"
| "run_field_op PlusN = plus_n"
| "run_field_op PushOneLeftDeltaZeroRightZero = push_one_left_delta_zero_right_zero"
| "run_field_op PushOneLeftDeltaZeroRightNonZero = push_one_left_delta_zero_right_non_zero"
| "run_field_op PushOneLeftDeltaOneRightZero = push_one_left_delta_one_right_zero"
| "run_field_op PushOneLeftDeltaOneRightNonZero = push_one_left_delta_one_right_non_zero"
| "run_field_op PushOneLeftDeltaNRightZero = push_one_left_delta_n_right_zero"
| "run_field_op PushOneLeftDeltaNRightNonZero = push_one_left_delta_n_right_non_zero"
| "run_field_op PushOneLeftDeltaNRightNonZeroPack6Bits = push_one_left_delta_n_right_non_zero_pack6_bits"
| "run_field_op PushOneLeftDeltaNRightNonZeroPack8Bits = push_one_left_delta_n_right_non_zero_pack8_bits"
| "run_field_op PushTwoLeftDeltaZero = push_two_left_delta_zero"
| "run_field_op PushTwoPack5LeftDeltaZero = push_two_pack5_left_delta_zero"
| "run_field_op PushThreeLeftDeltaZero = push_three_left_delta_zero"
| "run_field_op PushThreePack5LeftDeltaZero = push_three_pack5_left_delta_zero"
| "run_field_op PushTwoLeftDeltaOne = push_two_left_delta_one"
| "run_field_op PushTwoPack5LeftDeltaOne = push_two_pack5_left_delta_one"
| "run_field_op PushThreeLeftDeltaOne = push_three_left_delta_one"
| "run_field_op PushThreePack5LeftDeltaOne = push_three_pack5_left_delta_one"
| "run_field_op PushTwoLeftDeltaN = push_two_left_delta_n"
| "run_field_op PushTwoPack5LeftDeltaN = push_two_pack5_left_delta_n"
| "run_field_op PushThreeLeftDeltaN = push_three_left_delta_n"
| "run_field_op PushThreePack5LeftDeltaN = push_three_pack5_left_delta_n"
| "run_field_op PushN = push_n"
| "run_field_op PushNAndNonTopographical = push_n_and_non_topographical"
| "run_field_op PopOnePlusOne = pop_one_plus_one"
| "run_field_op PopOnePlusN = pop_one_plus_n"
| "run_field_op PopAllButOnePlusOne = pop_all_but_one_plus_one"
| "run_field_op PopAllButOnePlusN = pop_all_but_one_plus_n"
| "run_field_op PopAllButOnePlusNPack3Bits = pop_all_but_one_plus_n_pack3_bits"
| "run_field_op PopAllButOnePlusNPack6Bits = pop_all_but_one_plus_n_pack6_bits"
| "run_field_op PopNPlusOne = pop_n_plus_one"
| "run_field_op PopNPlusN = pop_n_plus_n"
| "run_field_op PopNAndNonTopographical = pop_n_and_non_topographical"
| "run_field_op NonTopoComplex = non_topo_complex"
| "run_field_op NonTopoPenultimatePluseOne = non_topo_penultimate_pluse_one"
| "run_field_op NonTopoComplexPack4Bits = non_topo_complex_pack4_bits"
| "run_field_op FieldPathEncodeFinish = field_path_encode_finish"

text \<open>The table of the operations and the weights they were given.\<close>

definition FIELDOP_DESCRIPTORS :: "(nat \<times> field_op) list" where
  "FIELDOP_DESCRIPTORS = [
     (36271, PlusOne),
     (10334, PlusTwo),
     (1375, PlusThree),
     (646, PlusFour),
     (4128, PlusN),
     (35, PushOneLeftDeltaZeroRightZero),
     (3, PushOneLeftDeltaZeroRightNonZero),
     (521, PushOneLeftDeltaOneRightZero),
     (2942, PushOneLeftDeltaOneRightNonZero),
     (560, PushOneLeftDeltaNRightZero),
     (471, PushOneLeftDeltaNRightNonZero),
     (10530, PushOneLeftDeltaNRightNonZeroPack6Bits),
     (251, PushOneLeftDeltaNRightNonZeroPack8Bits),
     (1, PushTwoLeftDeltaZero),
     (1, PushTwoPack5LeftDeltaZero),
     (1, PushThreeLeftDeltaZero),
     (1, PushThreePack5LeftDeltaZero),
     (1, PushTwoLeftDeltaOne),
     (1, PushTwoPack5LeftDeltaOne),
     (1, PushThreeLeftDeltaOne),
     (1, PushThreePack5LeftDeltaOne),
     (1, PushTwoLeftDeltaN),
     (1, PushTwoPack5LeftDeltaN),
     (1, PushThreeLeftDeltaN),
     (1, PushThreePack5LeftDeltaN),
     (1, PushN),
     (310, PushNAndNonTopographical),
     (2, PopOnePlusOne),
     (1, PopOnePlusN),
     (1837, PopAllButOnePlusOne),
     (149, PopAllButOnePlusN),
     (300, PopAllButOnePlusNPack3Bits),
     (634, PopAllButOnePlusNPack6Bits),
     (1, PopNPlusOne),
     (1, PopNPlusN),
     (1, PopNAndNonTopographical),
     (76, NonTopoComplex),
     (271, NonTopoPenultimatePluseOne),
     (99, NonTopoComplexPack4Bits),
     (25474, FieldPathEncodeFinish)]"

end
