(* ===== verification/FieldPathLaws.thy ===== *)
theory FieldPathLaws
  imports FieldPath
begin

text \<open>
  What the forty operations keep of a path, and that none of them runs out of fuel.  A path between
  two operations has its last component inside the array (\<open>path_ok\<close>); inside an operation that pops
  the only component the index is \<open>2^64 - 1\<close> (\<open>path_slack\<close>) until the next edit panics on it.  A loop
  over \<open>0..=last\<close> with that index would have to read \<open>2^64\<close> flags, more than any stream holds.
\<close>

definition path_ok :: "field_path \<Rightarrow> bool" where
  "path_ok fp \<longleftrightarrow> length (fp_data fp) = 7 \<and> fp_last fp < 7"

definition path_slack :: "field_path \<Rightarrow> bool" where
  "path_slack fp \<longleftrightarrow> length (fp_data fp) = 7 \<and> (fp_last fp < 7 \<or> fp_last fp = - 1)"

definition op_triple ::
    "'s bitbuf \<Rightarrow> (field_path \<Rightarrow> bool) \<Rightarrow> 's field_op_fn \<Rightarrow> (field_path \<Rightarrow> bool) \<Rightarrow> bool" where
  "op_triple B P m Q \<longleftrightarrow> (\<forall>fp r fp' r'. P fp \<longrightarrow> m (fp, r) = (Ok (), (fp', r')) \<longrightarrow>
     Q fp' \<and> (\<exists>k. adv B k r r'))"

named_theorems op_intros "what the operations keep of a path"

lemma op_tripleI:
  assumes "\<And>fp r fp' r'. P fp \<Longrightarrow> m (fp, r) = (Ok (), (fp', r')) \<Longrightarrow> Q fp'"
    "\<And>fp r fp' r'. m (fp, r) = (Ok (), (fp', r')) \<Longrightarrow> \<exists>k. adv B k r r'"
  shows "op_triple B P m Q"
  using assms unfolding op_triple_def by blast

lemma on_reader_Ok_iff:
  "on_reader m s = (Ok x, s') \<longleftrightarrow> fst s' = fst s \<and> m (snd s) = (Ok x, snd s')"
  by (cases s') (auto simp: on_reader_def zoomM_Ok_iff)

lemma on_path_Ok_iff:
  "on_path f s = (Ok (), s') \<longleftrightarrow> f (fst s) = Ok (fst s') \<and> snd s' = snd s"
  by (cases s; cases s') (auto simp: on_path_def split: outcome.splits)

lemma op_triple_seq [op_intros]:
  assumes "cursor_laws B" "op_triple B P m R" "op_triple B R n Q"
  shows "op_triple B P (seqM m n) Q"
  unfolding op_triple_def bindM_Ok_iff
proof (intro allI impI, elim exE conjE)
  fix fp r fp' r' x s assume P: "P fp" and m: "m (fp, r) = (Ok x, s)" and n: "n s = (Ok (), fp', r')"
  obtain fp1 r1 where s: "s = (fp1, r1)" by (cases s)
  from assms(2) P m s have "R fp1" "\<exists>k. adv B k r r1" unfolding op_triple_def by auto
  with assms(3) n s adv_trans [OF assms(1)] show "Q fp' \<and> (\<exists>k. adv B k r r')"
    unfolding op_triple_def by metis
qed

lemma op_triple_read:
  assumes "cursor_laws B" "moves B rd" "\<And>v. op_triple B P (m v) Q"
  shows "op_triple B P (bindM (on_reader rd) m) Q"
  unfolding op_triple_def bindM_Ok_iff on_reader_Ok_iff
proof (intro allI impI, elim exE conjE)
  fix fp r fp' r' v s
  assume P: "P fp" and rd: "fst s = fst (fp, r)" "rd (snd (fp, r)) = (Ok v, snd s)"
    and m: "m v s = (Ok (), fp', r')"
  obtain r1 where s: "s = (fp, r1)" using rd by (cases s) auto
  from rd s obtain k where "adv B k r r1" using assms(2) by (auto elim: movesE)
  moreover have "Q fp' \<and> (\<exists>k. adv B k r1 r')"
    using assms(3) P m s unfolding op_triple_def by blast
  ultimately show "Q fp' \<and> (\<exists>k. adv B k r r')" using adv_trans [OF assms(1)] by metis
qed

lemma op_triple_on_path:
  assumes "cursor_laws B" "\<And>fp fp'. P fp \<Longrightarrow> f fp = Ok fp' \<Longrightarrow> Q fp'"
  shows "op_triple B P (on_path f) Q"
  using assms adv_refl [OF assms(1)] unfolding op_triple_def on_path_Ok_iff by fastforce

lemma op_triple_weaken: "op_triple B path_slack m Q \<Longrightarrow> op_triple B path_ok m Q"
  unfolding op_triple_def path_slack_def path_ok_def by blast

lemma inc_at_Ok_iff:
  "inc_at fp i v = Ok fp' \<longleftrightarrow> unat i < length (fp_data fp) \<and>
     fp' = fp\<lparr>fp_data := (fp_data fp)[unat i := ucast ((ucast (fp_data fp ! unat i) + v) AND 0xFF)]\<rparr>"
  by (auto simp: inc_at_def bindO_Ok_iff index_slice_Ok_iff store_slice_Ok_iff)

lemma push_at_Ok_iff:
  "push_at fp v = Ok fp' \<longleftrightarrow> unat (fp_last fp + 1) < length (fp_data fp) \<and>
     fp' = fp\<lparr>fp_data := (fp_data fp)[unat (fp_last fp + 1) := ucast (v AND 0xFF)],
       fp_last := fp_last fp + 1\<rparr>"
  by (auto simp: push_at_def bindO_Ok_iff store_slice_Ok_iff Let_def)

lemma index7: "unat (i::usize) < 7 \<longleftrightarrow> i < 7"
  by (simp add: word_less_nat_alt)

lemma inc_last_triple [op_intros]: "cursor_laws B \<Longrightarrow> op_triple B path_slack (inc_last v) path_ok"
  unfolding inc_last_def
  by (rule op_triple_on_path) (auto simp: inc_at_Ok_iff path_slack_def path_ok_def index7)

lemma fp_push_triple [op_intros]: "cursor_laws B \<Longrightarrow> op_triple B path_slack (fp_push v) path_ok"
  unfolding fp_push_def
  by (rule op_triple_on_path) (auto simp: push_at_Ok_iff path_slack_def path_ok_def index7)

lemma pred_slack: "(i::usize) < 7 \<Longrightarrow> i - 1 < 7 \<or> i = 0"
  by (cases "i = 0") (simp_all add: word_less_nat_alt unat_minus_one)

lemma pop_loop_slack: "path_slack fp \<Longrightarrow> pop_loop fp n = Ok fp' \<Longrightarrow> path_slack fp'"
proof (induction fp n rule: pop_loop.induct)
  case (2 fp n)
  have l: "fp_last fp < 7"
    using 2(2,3) by (auto simp: path_slack_def bindO_Ok_iff store_slice_Ok_iff index7)
  have "path_slack (fp\<lparr>fp_data := (fp_data fp)[unat (fp_last fp) := 0], fp_last := fp_last fp - 1\<rparr>)"
    using 2(2) l pred_slack [OF l] by (auto simp: path_slack_def)
  with 2 show ?case by (auto simp: bindO_Ok_iff store_slice_Ok_iff)
qed simp

lemma fp_pop_triple [op_intros]: "cursor_laws B \<Longrightarrow> op_triple B path_slack (fp_pop n) path_slack"
  unfolding fp_pop_def by (rule op_triple_on_path) (auto intro: pop_loop_slack)

lemma pop_last_triple [op_intros]: "cursor_laws B \<Longrightarrow> op_triple B path_slack pop_last path_slack"
  unfolding pop_last_def by (rule op_triple_on_path) (auto intro: pop_loop_slack)

lemma arg_triples [op_intros]:
  assumes "cursor_laws B" "moves B rd"
  shows "op_triple B path_slack (inc_last_read rd f) path_ok"
    and "op_triple B path_slack (push_read rd f) path_ok"
  unfolding inc_last_read_def push_read_def
  by (intro op_triple_read op_intros assms)+

lemma pop_read_triple [op_intros]:
  "cursor_laws B \<Longrightarrow> moves B rd \<Longrightarrow> op_triple B path_slack (pop_read rd) path_slack"
  unfolding pop_read_def by (intro op_triple_read op_intros)

lemma push_each_triple [op_intros]:
  assumes "cursor_laws B" shows "op_triple B path_ok (push_each B n) path_ok"
proof (induction n)
  case 0
  show ?case using adv_refl [OF assms] by (auto simp: op_triple_def)
next
  case (Suc n)
  show ?case unfolding push_each.simps
    by (intro op_triple_seq [OF assms _ Suc] op_triple_weaken op_intros move_intros assms)
qed

lemma retM_triple: "cursor_laws B \<Longrightarrow> op_triple B P (retM ()) P"
  using adv_refl [of B] by (auto simp: op_triple_def)

text \<open>The loop over all components reads at least one bit for each.\<close>

lemma inc_each_loop_triple:
  assumes B: "cursor_laws B" "moves B rd"
  shows "op_triple B (\<lambda>fp. length (fp_data fp) = 7 \<and> fp_last fp = l) (inc_each_loop rd B i k)
    (\<lambda>fp. length (fp_data fp) = 7 \<and> fp_last fp = l)"
proof (induction k arbitrary: i)
  case (Suc k)
  show ?case unfolding inc_each_loop.simps
    apply (intro op_triple_read op_triple_seq [OF B(1) _ Suc] B moves_on_moves [OF read_moves(2)])
    subgoal for b
      by (cases b) (auto intro!: op_triple_read B op_triple_on_path retM_triple simp: inc_at_Ok_iff)
    done
qed (simp add: retM_triple B)

lemma inc_each_loop_bits:
  assumes B: "cursor_laws B" "moves B rd"
  shows "inc_each_loop rd B i k (fp, r) = (Ok (), (fp', r')) \<Longrightarrow>
    k + num_bits_left B r' \<le> num_bits_left B r"
proof (induction k arbitrary: i fp r)
  case (Suc k)
  then obtain b s where b: "read_bool B r = (Ok b, s)"
    and rest: "seqM (if b then bindM (on_reader rd) (\<lambda>v. on_path (\<lambda>fp. inc_at fp i v)) else retM ())
       (inc_each_loop rd B (i + 1) k) (fp, s) = (Ok (), (fp', r'))"
    by (auto simp: bindM_Ok_iff on_reader_Ok_iff)
  then obtain fp1 s1 where
    m: "(if b then bindM (on_reader rd) (\<lambda>v. on_path (\<lambda>fp. inc_at fp i v)) else retM ()) (fp, s)
      = (Ok (), (fp1, s1))" and l: "inc_each_loop rd B (i + 1) k (fp1, s1) = (Ok (), (fp', r'))"
    unfolding bindM_Ok_iff by auto
  have "\<exists>k. adv B k s s1"
    using m B adv_refl [OF B(1)] by (cases b)
      (auto simp: bindM_Ok_iff on_reader_Ok_iff on_path_Ok_iff elim: movesE)
  with b adv_left [OF B(1)] read_bool_left [OF B(1) b]
  have "num_bits_left B s1 < num_bits_left B r" by fastforce
  with Suc.IH [OF l] show ?case by simp
qed simp

lemma inc_each_triple [op_intros]:
  assumes B: "cursor_laws B" "moves B rd"
  shows "op_triple B path_slack (inc_each rd B) path_ok"
  unfolding op_triple_def
proof (intro allI impI)
  fix fp r fp' r' assume P: "path_slack fp" and m: "inc_each rd B (fp, r) = (Ok (), fp', r')"
  then have l: "inc_each_loop rd B 0 (Suc (unat (fp_last fp))) (fp, r) = (Ok (), fp', r')"
    by (simp add: inc_each_def)
  from inc_each_loop_bits [OF B l] cursor_laws_usize [OF B(1)]
  have "Suc (unat (fp_last fp)) < 2 ^ 64"
    unfolding num_bits_left_def by (meson le_add1 le_less_trans order_trans)
  then have "fp_last fp \<noteq> - 1" by (auto simp: unsigned_minus_1_eq_mask mask_eq_exp_minus_1)
  with P have "path_ok fp" by (auto simp: path_slack_def path_ok_def)
  then have "length (fp_data fp') = 7 \<and> fp_last fp' = fp_last fp \<and> (\<exists>k. adv B k r r')"
    using inc_each_loop_triple [OF B, of "fp_last fp" 0 "Suc (unat (fp_last fp))"] l
    unfolding op_triple_def path_ok_def by (metis (no_types, lifting))
  with \<open>path_ok fp\<close> show "path_ok fp' \<and> (\<exists>k. adv B k r r')" by (simp add: path_ok_def)
qed

lemmas field_op_defs =
  plus_one_def plus_two_def plus_three_def
  plus_four_def plus_n_def push_one_left_delta_zero_right_zero_def
  push_one_left_delta_zero_right_non_zero_def push_one_left_delta_one_right_zero_def push_one_left_delta_one_right_non_zero_def
  push_one_left_delta_n_right_zero_def push_one_left_delta_n_right_non_zero_def push_one_left_delta_n_right_non_zero_pack6_bits_def
  push_one_left_delta_n_right_non_zero_pack8_bits_def push_two_left_delta_zero_def push_two_pack5_left_delta_zero_def
  push_three_left_delta_zero_def push_three_pack5_left_delta_zero_def push_two_left_delta_one_def
  push_two_pack5_left_delta_one_def push_three_left_delta_one_def push_three_pack5_left_delta_one_def
  push_two_left_delta_n_def push_two_pack5_left_delta_n_def push_three_left_delta_n_def
  push_three_pack5_left_delta_n_def push_n_def push_n_and_non_topographical_def
  pop_one_plus_one_def pop_one_plus_n_def pop_all_but_one_plus_one_def
  pop_all_but_one_plus_n_def pop_all_but_one_plus_n_pack3_bits_def pop_all_but_one_plus_n_pack6_bits_def
  pop_n_plus_one_def pop_n_plus_n_def pop_n_and_non_topographical_def
  non_topo_complex_def non_topo_penultimate_pluse_one_def non_topo_complex_pack4_bits_def
  field_path_encode_finish_def

lemma pos_on_path_triples [op_intros]:
  assumes "cursor_laws B"
  shows "op_triple B path_ok (on_path (\<lambda>fp. inc_at fp (fp_last fp - 1) 1)) path_ok"
    and "op_triple B path_ok (on_path (\<lambda>fp. Ok (fp\<lparr>fp_finished := True\<rparr>))) path_ok"
  by (rule op_triple_on_path [OF assms]; auto simp: inc_at_Ok_iff path_ok_def)+

lemmas op_triples_ok = inc_last_triple [THEN op_triple_weaken] fp_push_triple [THEN op_triple_weaken]
  fp_pop_triple [THEN op_triple_weaken] pop_last_triple [THEN op_triple_weaken]
  arg_triples [THEN op_triple_weaken] pop_read_triple [THEN op_triple_weaken]
  inc_each_triple [THEN op_triple_weaken]

text \<open>Every operation takes a path with a valid last component to one.\<close>

lemma run_field_op_triple:
  assumes "cursor_laws B"
  shows "op_triple B path_ok (run_field_op opr B) path_ok"
  by (cases opr; simp only: run_field_op.simps field_op_defs;
      (rule op_intros op_triples_ok move_intros assms op_triple_read)+)

lemma on_path_no_fuel [fuel_intros]: "(\<And>fp. f fp \<noteq> OutOfFuel) \<Longrightarrow> no_fuel (on_path f)"
  by (auto simp: no_fuel_def on_path_def split: outcome.splits)

lemma slice_no_fuel [simp]: "index_slice xs i \<noteq> OutOfFuel" "store_slice xs i x \<noteq> OutOfFuel"
  by (auto simp: index_slice_def store_slice_def)

lemma bindO_OutOfFuel_iff:
  "bindO r f = OutOfFuel \<longleftrightarrow> r = OutOfFuel \<or> (\<exists>x. r = Ok x \<and> f x = OutOfFuel)"
  by (cases r) auto

lemma edit_no_fuel [fuel_intros]:
  "inc_at fp i v \<noteq> OutOfFuel" "push_at fp v \<noteq> OutOfFuel"
  by (auto simp: inc_at_def push_at_def Let_def bindO_OutOfFuel_iff)

lemma pop_loop_no_fuel [fuel_intros]: "pop_loop fp n \<noteq> OutOfFuel"
  by (induction fp n rule: pop_loop.induct) (auto simp: bindO_OutOfFuel_iff)

lemma inc_each_loop_no_fuel:
  "cursor_laws B \<Longrightarrow> no_fuel rd \<Longrightarrow> no_fuel (inc_each_loop rd B i k)"
  by (induction k arbitrary: i) (auto intro!: fuel_intros)

lemma path_op_no_fuel [fuel_intros]:
  "no_fuel (inc_last v :: 's field_op_fn)" "no_fuel (fp_push v :: 's field_op_fn)"
  "no_fuel (fp_pop n :: 's field_op_fn)" "no_fuel (pop_last :: 's field_op_fn)"
  unfolding inc_last_def fp_push_def fp_pop_def pop_last_def by (intro fuel_intros)+

lemma path_read_no_fuel [fuel_intros]:
  assumes "no_fuel rd"
  shows "no_fuel (inc_last_read rd f)" "no_fuel (push_read rd f)"
  unfolding inc_last_read_def push_read_def by (intro fuel_intros assms)+

lemma pop_read_no_fuel [fuel_intros]: "no_fuel rd \<Longrightarrow> no_fuel (pop_read rd)"
  unfolding pop_read_def by (intro fuel_intros)

lemma push_each_no_fuel [fuel_intros]: "cursor_laws B \<Longrightarrow> no_fuel (push_each B n)"
  by (induction n) (auto intro!: fuel_intros)

lemma inc_each_no_fuel [fuel_intros]:
  "cursor_laws B \<Longrightarrow> no_fuel rd \<Longrightarrow> no_fuel (inc_each rd B)"
  using inc_each_loop_no_fuel [of B rd] unfolding no_fuel_def inc_each_def by (simp split: prod.splits del: inc_each_loop.simps)

lemma run_field_op_no_fuel [fuel_intros]:
  assumes "cursor_laws B"
  shows "no_fuel (run_field_op opr B)"
  by (cases opr; simp only: run_field_op.simps field_op_defs; intro fuel_intros assms; simp)

end
