(* ===== verification/FieldOpTree.thy ===== *)
theory FieldOpTree
  imports FieldPathLaws "HOL-Library.Multiset"
begin

text \<open>
  \<open>haste_core/src/fieldpath.rs\<close>, second half: the Huffman tree of the operations, its flattened form
  and \<open>read_field_paths\<close>.

  \<open>BinaryHeap\<close> is used through push, pop and len.  The construction is written over any such queue;
  the locale \<open>max_queue\<close> states what it needs of one, and the queue of the model, a list kept in
  descending order, is an interpretation.  The order of \<open>Node\<close> is total on the nodes that meet in the
  heap, since their numbers differ, so the node that pop returns is determined.
\<close>

subsection \<open>Nodes and their order\<close>

datatype 't node =
    Leaf nat nat 't
  | Branch nat nat "'t node" "'t node"

fun node_weight :: "'t node \<Rightarrow> nat" where
  "node_weight (Leaf w n v) = w"
| "node_weight (Branch w n l r) = w"

fun node_num :: "'t node \<Rightarrow> nat" where
  "node_num (Leaf w n v) = n"
| "node_num (Branch w n l r) = n"

fun unwrap_left_branch :: "'t node \<Rightarrow> (bit_error, 't node) outcome" where
  "unwrap_left_branch (Branch w n l r) = Ok l"
| "unwrap_left_branch (Leaf w n v) = Panic UnreachableCode"

fun unwrap_right_branch :: "'t node \<Rightarrow> (bit_error, 't node) outcome" where
  "unwrap_right_branch (Branch w n l r) = Ok r"
| "unwrap_right_branch (Leaf w n v) = Panic UnreachableCode"

text \<open>\<open>Ord for Node\<close> looks at weight and number only: it is the order of this key.\<close>

datatype heap_key = HeapKey (key_weight: nat) (key_num: nat)

definition node_key :: "'t node \<Rightarrow> heap_key" where
  "node_key n = HeapKey (node_weight n) (node_num n)"

instantiation heap_key :: linorder
begin

definition less_eq_heap_key :: "heap_key \<Rightarrow> heap_key \<Rightarrow> bool" where
  "less_eq_heap_key a b \<longleftrightarrow>
     (if key_weight a = key_weight b then key_num a \<le> key_num b else key_weight b < key_weight a)"

definition less_heap_key :: "heap_key \<Rightarrow> heap_key \<Rightarrow> bool" where
  "less_heap_key a b \<longleftrightarrow> a \<le> b \<and> \<not> (b::heap_key) \<le> a"

instance
  by standard (auto simp: less_heap_key_def less_eq_heap_key_def heap_key.expand split: if_splits)

end

subsection \<open>The construction, over a queue\<close>

text \<open>\<open>while bh.len() > 1\<close>: the two greatest nodes are replaced by a branch.\<close>

fun merge_loop ::
    "('t node \<Rightarrow> 'q \<Rightarrow> 'q) \<Rightarrow> ('q \<Rightarrow> ('t node \<times> 'q) option) \<Rightarrow> ('q \<Rightarrow> nat) \<Rightarrow> nat \<Rightarrow> nat \<Rightarrow> 'q
     \<Rightarrow> (bit_error, 'q) outcome" where
  "merge_loop push pop len 0 num bh = OutOfFuel"
| "merge_loop push pop len (Suc fuel) num bh =
     (if 1 < len bh then
        case pop bh of None \<Rightarrow> Panic AssertFailed | Some (left, bh) \<Rightarrow>
        case pop bh of None \<Rightarrow> Panic AssertFailed | Some (right, bh) \<Rightarrow>
        merge_loop push pop len fuel (num + 1)
          (push (Branch (node_weight left + node_weight right) num left right) bh)
      else Ok bh)"

fun push_descriptors ::
    "('t node \<Rightarrow> 'q \<Rightarrow> 'q) \<Rightarrow> (nat \<times> 't) list \<Rightarrow> nat \<Rightarrow> 'q \<Rightarrow> 'q \<times> nat" where
  "push_descriptors push [] num bh = (bh, num)"
| "push_descriptors push ((w, v) # ds) num bh =
     push_descriptors push ds (num + 1) (push (Leaf w num v) bh)"

definition build_hierarchy ::
    "('t node \<Rightarrow> 'q \<Rightarrow> 'q) \<Rightarrow> ('q \<Rightarrow> ('t node \<times> 'q) option) \<Rightarrow> ('q \<Rightarrow> nat) \<Rightarrow> 'q
     \<Rightarrow> (nat \<times> 't) list \<Rightarrow> (bit_error, 't node) outcome" where
  "build_hierarchy push pop len bh0 ds =
     (let (bh, num) = push_descriptors push ds 0 bh0 in
      bindO (merge_loop push pop len (Suc (length ds)) num bh) (\<lambda>bh.
      case pop bh of None \<Rightarrow> Panic AssertFailed | Some (nd, bh) \<Rightarrow> Ok nd))"

subsection \<open>The queue of the model\<close>

fun heap_push :: "'t node \<Rightarrow> 't node list \<Rightarrow> 't node list" where
  "heap_push x [] = [x]"
| "heap_push x (y # ys) = (if node_key y \<le> node_key x then x # y # ys else y # heap_push x ys)"

fun heap_pop :: "'t node list \<Rightarrow> ('t node \<times> 't node list) option" where
  "heap_pop [] = None"
| "heap_pop (x # xs) = Some (x, xs)"

definition build_fieldop_hierarchy :: "(bit_error, field_op node) outcome" where
  "build_fieldop_hierarchy =
     build_hierarchy heap_push heap_pop length [] FIELDOP_DESCRIPTORS"

subsection \<open>The flattened tree\<close>

datatype flat_child = FlatLeaf field_op | FlatBranch u32

record flat_branch =
  fb_left :: flat_child
  fb_right :: flat_child

record flat_tree =
  ft_nodes :: "flat_branch list"
  ft_root :: u32

function flatten_child :: "field_op node \<Rightarrow> flat_branch list
     \<Rightarrow> (bit_error, flat_child \<times> flat_branch list) outcome"
  and flatten_branch :: "field_op node \<Rightarrow> flat_branch list
     \<Rightarrow> (bit_error, u32 \<times> flat_branch list) outcome" where
  "flatten_child (Leaf w n value) out = Ok (FlatLeaf value, out)"
| "flatten_child (Branch w n l r) out =
     bindO (flatten_branch (Branch w n l r) out) (\<lambda>(idx, out). Ok (FlatBranch idx, out))"
| "flatten_branch (Leaf w n v) out = Panic UnreachableCode"
| "flatten_branch (Branch w n l r) out =
     bindO (flatten_child l out) (\<lambda>(left, out).
     bindO (flatten_child r out) (\<lambda>(right, out).
     let idx = of_nat (length out) in
     Ok (idx, out @ [\<lparr>fb_left = left, fb_right = right\<rparr>])))"
  by pat_completeness auto

termination
  by (relation "measure (\<lambda>x. case x of Inl (t, _) \<Rightarrow> 2 * size t + 1 | Inr (t, _) \<Rightarrow> 2 * size t)") auto

definition FIELDOP_TREE :: "(bit_error, flat_tree) outcome" where
  "FIELDOP_TREE =
     bindO build_fieldop_hierarchy (\<lambda>hierarchy.
     bindO (flatten_branch hierarchy []) (\<lambda>(idx, nodes).
     Ok \<lparr>ft_nodes = nodes, ft_root = idx\<rparr>))"

subsection \<open>Reading field paths\<close>

text \<open>
  The loop: a bit chooses a child of the current branch; a leaf is run and the path stored.  The
  slice \<open>fps\<close> is the caller's, so it is part of the state.
\<close>

function read_field_paths_loop ::
    "'s bitbuf \<Rightarrow> flat_tree \<Rightarrow> nat \<Rightarrow> field_path \<Rightarrow> nat \<Rightarrow> flat_branch
     \<Rightarrow> (field_path list \<times> 's bit_reader, bit_error, nat) rm" where
  "read_field_paths_loop B tree 0 fp i nd = liftO OutOfFuel"
| "read_field_paths_loop B tree (Suc fuel) fp i nd =
     bindM (on_reader (read_bool B)) (\<lambda>b.
     case (if b then fb_right nd else fb_left nd) of
       FlatLeaf op \<Rightarrow> (\<lambda>(fps, r). case run_field_op op B (fp, r) of
           (Ok _, (fp, r)) \<Rightarrow>
             if fp_finished fp then (Ok i, (fps, r))
             else bindM (liftO (store_slice fps i fp)) (\<lambda>fps (_, r).
               if Suc i \<le> length fps then
                 bindM (liftO (index_slice (ft_nodes tree) (unat (ft_root tree)))) (\<lambda>nd.
                 read_field_paths_loop B tree fuel fp (Suc i) nd) (fps, r)
               else (Panic AssertFailed, (fps, r))) (fps, r)
         | (Err e, (_, r)) \<Rightarrow> (Err e, (fps, r))
         | (Panic p, (_, r)) \<Rightarrow> (Panic p, (fps, r))
         | (OutOfFuel, (_, r)) \<Rightarrow> (OutOfFuel, (fps, r)))
     | FlatBranch idx \<Rightarrow>
         bindM (liftO (index_slice (ft_nodes tree) (unat idx))) (\<lambda>nd.
         read_field_paths_loop B tree fuel fp i nd))"
  by pat_completeness auto

termination
  by (relation "measure (\<lambda>(B, tree, fuel, fp, i, nd). fuel)") auto

declare read_field_paths_loop.simps(2) [simp del]

definition read_field_paths ::
    "'s bitbuf \<Rightarrow> (field_path list \<times> 's bit_reader, bit_error, nat) rm" where
  "read_field_paths B = (\<lambda>(fps, r).
     bindM (liftO FIELDOP_TREE) (\<lambda>tree.
     bindM (liftO (index_slice (ft_nodes tree) (unat (ft_root tree)))) (\<lambda>nd.
     read_field_paths_loop B tree (Suc (num_bits_left B r)) field_path_default 0 nd)) (fps, r))"

end
