(* ===== verification/FieldOpTreeLaws.thy ===== *)
theory FieldOpTreeLaws
  imports FieldOpTree
begin

text \<open>
  Lemmas about the Huffman tree of the operations and the loop over it: the construction keeps every
  operation exactly once and its result does not depend on how the queue is implemented; the
  flattened tree is the tree; \<open>read_field_paths\<close> returns the paths that the operations in the stream
  produce, always ends, and stores only paths whose components can be indexed.
\<close>

subsection \<open>The construction\<close>

lemma node_key_le:
  "node_key a \<le> node_key b \<longleftrightarrow>
     (if node_weight a = node_weight b then node_num a \<le> node_num b else node_weight b < node_weight a)"
  by (simp add: node_key_def less_eq_heap_key_def)

fun leaves :: "'t node \<Rightarrow> (nat \<times> 't) multiset" where
  "leaves (Leaf w n v) = {#(w, v)#}"
| "leaves (Branch w n l r) = leaves l + leaves r"

fun weights_add :: "'t node \<Rightarrow> bool" where
  "weights_add (Leaf w n v) \<longleftrightarrow> True"
| "weights_add (Branch w n l r) \<longleftrightarrow> w = node_weight l + node_weight r \<and> weights_add l \<and> weights_add r"

lemma weights_add_sum: "weights_add t \<Longrightarrow> node_weight t = sum_mset (image_mset fst (leaves t))"
  by (induction t) auto

fun leaf_nodes :: "nat \<Rightarrow> (nat \<times> 't) list \<Rightarrow> 't node list" where
  "leaf_nodes num [] = []"
| "leaf_nodes num ((w, v) # ds) = Leaf w num v # leaf_nodes (num + 1) ds"

lemma leaf_nodes_num:
  "t \<in> set (leaf_nodes num ds) \<Longrightarrow> num \<le> node_num t \<and> node_num t < num + length ds"
  by (induction num ds rule: leaf_nodes.induct) auto

lemma leaf_nodes_distinct: "distinct (map node_num (leaf_nodes num ds))"
  by (induction num ds rule: leaf_nodes.induct) (auto dest: leaf_nodes_num)

lemma leaf_nodes_simps [simp]:
  "length (leaf_nodes num ds) = length ds" "leaf_nodes num ds = [] \<longleftrightarrow> ds = []"
  "t \<in> set (leaf_nodes num ds) \<Longrightarrow> weights_add t"
  "sum_mset (image_mset leaves (mset (leaf_nodes num ds))) = mset ds"
  by (induction num ds rule: leaf_nodes.induct) auto

locale max_queue =
  fixes push :: "'t node \<Rightarrow> 'q \<Rightarrow> 'q"
    and pop :: "'q \<Rightarrow> ('t node \<times> 'q) option"
    and len :: "'q \<Rightarrow> nat"
    and bh0 :: 'q
    and elems :: "'q \<Rightarrow> 't node multiset"
    and invar :: "'q \<Rightarrow> bool"
  assumes elems_new: "invar bh0" "elems bh0 = {#}"
    and elems_push: "invar q \<Longrightarrow> invar (push x q) \<and> elems (push x q) = add_mset x (elems q)"
    and pop_None: "invar q \<Longrightarrow> pop q = None \<longleftrightarrow> elems q = {#}"
    and pop_Some: "invar q \<Longrightarrow> pop q = Some (x, q') \<Longrightarrow>
      invar q' \<and> elems q = add_mset x (elems q') \<and> (\<forall>y \<in># elems q'. node_key y \<le> node_key x)"
    and len_elems: "invar q \<Longrightarrow> len q = size (elems q)"
begin

lemma popE:
  assumes "invar q" "elems q \<noteq> {#}"
  obtains x q' where "pop q = Some (x, q')" "invar q'" "elems q = add_mset x (elems q')"
    "\<forall>y \<in># elems q'. node_key y \<le> node_key x"
  using assms pop_None pop_Some by (cases "pop q") auto

lemma len_2_popE:
  assumes "invar q" "1 < len q"
  obtains x q1 y q2 where "pop q = Some (x, q1)" "pop q1 = Some (y, q2)" "invar q1" "invar q2"
    "elems q = add_mset x (elems q1)" "elems q1 = add_mset y (elems q2)"
proof -
  have "elems q \<noteq> {#}" using assms len_elems [of q] by auto
  then obtain x q1 where x: "pop q = Some (x, q1)" "invar q1" "elems q = add_mset x (elems q1)"
    using popE [OF assms(1)] by blast
  then have "elems q1 \<noteq> {#}" using assms len_elems [of q] by auto
  with x show thesis using popE [of q1] that by metis
qed

text \<open>Enough fuel is the number of nodes in the queue; one node is left, with the same leaves.\<close>

lemma merge_loop_result:
  "\<lbrakk>invar q; elems q \<noteq> {#}; size (elems q) \<le> fuel; \<forall>t \<in># elems q. weights_add t\<rbrakk> \<Longrightarrow>
   \<exists>q' t. merge_loop push pop len fuel num q = Ok q' \<and> invar q' \<and> elems q' = {#t#} \<and> weights_add t
     \<and> leaves t = sum_mset (image_mset leaves (elems q))"
proof (induction fuel arbitrary: num q)
  case (Suc fuel)
  show ?case
  proof (cases "1 < len q")
    case True
    from len_2_popE [OF Suc.prems(1) True] obtain x q1 y q2 where p: "pop q = Some (x, q1)" "pop q1 = Some (y, q2)"
      "invar q1" "invar q2" "elems q = add_mset x (elems q1)" "elems q1 = add_mset y (elems q2)"
      by metis
    define b where "b = Branch (node_weight x + node_weight y) num x y"
    have pb: "invar (push b q2)" "elems (push b q2) = add_mset b (elems q2)"
      using elems_push p by auto
    have "\<exists>q' t. merge_loop push pop len fuel (num + 1) (push b q2) = Ok q' \<and> invar q'
        \<and> elems q' = {#t#} \<and> weights_add t
        \<and> leaves t = sum_mset (image_mset leaves (elems (push b q2)))"
      by (rule Suc.IH) (use pb p Suc.prems in \<open>auto simp: b_def\<close>)
    moreover have "merge_loop push pop len (Suc fuel) num q
        = merge_loop push pop len fuel (num + 1) (push b q2)"
      using True p by (simp add: b_def)
    moreover have "sum_mset (image_mset leaves (elems (push b q2)))
        = sum_mset (image_mset leaves (elems q))"
      using pb p by (simp add: b_def ac_simps)
    ultimately show ?thesis by simp
  next
    case False
    with Suc.prems len_elems have "size (elems q) = 1"
      by (metis One_nat_def less_one linorder_neqE_nat size_eq_0_iff_empty)
    then obtain t where "elems q = {#t#}" using size_1_singleton_mset by blast
    with False Suc.prems show ?thesis by auto
  qed
qed simp

lemma push_descriptors_result:
  assumes "invar q" "push_descriptors push ds num q = (q', num')"
  shows "invar q' \<and> elems q' = elems q + mset (leaf_nodes num ds) \<and> num' = num + length ds"
  using assms
proof (induction ds arbitrary: num q)
  case (Cons d ds)
  obtain w v where d: "d = (w, v)" by (cases d)
  with Cons elems_push [OF Cons.prems(1), of "Leaf w num v"] show ?case by fastforce
qed simp

lemma build_hierarchy_result:
  assumes "ds \<noteq> []"
  shows "\<exists>t. build_hierarchy push pop len bh0 ds = Ok t \<and> leaves t = mset ds \<and> weights_add t"
proof -
  obtain q num where p: "push_descriptors push ds 0 bh0 = (q, num)" by fastforce
  then have q: "invar q" "elems q = mset (leaf_nodes 0 ds)"
    using push_descriptors_result [OF elems_new(1) p] elems_new by auto
  have "\<exists>q' t. merge_loop push pop len (Suc (length ds)) num q = Ok q' \<and> invar q' \<and> elems q' = {#t#}
      \<and> weights_add t \<and> leaves t = sum_mset (image_mset leaves (elems q))"
    by (rule merge_loop_result) (use q assms in \<open>auto simp: leaf_nodes_simps\<close>)
  then obtain q' t where t: "merge_loop push pop len (Suc (length ds)) num q = Ok q'" "invar q'"
    "elems q' = {#t#}" "weights_add t" "leaves t = mset ds" by (auto simp: q leaf_nodes_simps)
  moreover obtain x q'' where "pop q' = Some (x, q'')" "elems q' = add_mset x (elems q'')"
    using t popE [of q'] by auto
  ultimately show ?thesis by (auto simp: build_hierarchy_def p)
qed

end


subsection \<open>The queue of the model is one, and every other gives the same tree\<close>

definition heap_sorted :: "'t node list \<Rightarrow> bool" where
  "heap_sorted = sorted_wrt (\<lambda>a b. node_key b \<le> node_key a)"

lemma mset_heap_push [simp]: "mset (heap_push x xs) = add_mset x (mset xs)"
  by (induction xs) auto

lemma set_heap_push [simp]: "set (heap_push x xs) = insert x (set xs)"
  by (induction xs) auto

lemma distinct_heap_push:
  "distinct (map node_num (heap_push x xs)) \<longleftrightarrow> distinct (map node_num (x # xs))"
  by (rule mset_eq_imp_distinct_iff) simp

lemma heap_sorted_push: "heap_sorted xs \<Longrightarrow> heap_sorted (heap_push x xs)"
  unfolding heap_sorted_def by (induction xs) (auto intro: order_trans)

interpretation list_queue: max_queue heap_push heap_pop length "[]" mset heap_sorted
proof unfold_locales
  fix q :: "'a node list" and x q'
  show "heap_pop q = None \<longleftrightarrow> mset q = {#}" by (cases q) auto
  show "heap_sorted q' \<and> mset q = add_mset x (mset q') \<and> (\<forall>y\<in>#mset q'. node_key y \<le> node_key x)"
    if "heap_sorted q" "heap_pop q = Some (x, q')"
    using that by (cases q) (auto simp: heap_sorted_def)
qed (auto simp: heap_sorted_push, simp add: heap_sorted_def)

lemma node_key_inj: "node_key a = node_key b \<Longrightarrow> node_num a = node_num b"
  by (simp add: node_key_def)

context max_queue begin

lemma pop_agrees:
  assumes "invar q" "elems q = mset (x # xs)" "heap_sorted (x # xs)"
    "distinct (map node_num (x # xs))"
  shows "\<exists>q'. pop q = Some (x, q') \<and> invar q' \<and> elems q' = mset xs"
proof -
  obtain y q' where y: "pop q = Some (y, q')" "invar q'" "elems q = add_mset y (elems q')"
    "\<forall>z \<in># elems q'. node_key z \<le> node_key y"
    using popE [OF assms(1)] assms(2) by auto
  have "y = x"
  proof (rule ccontr)
    assume "y \<noteq> x"
    with y(3) assms(2) have "y \<in> set xs" "x \<in># elems q'"
      by (metis insert_noteq_member mset.simps(2) set_mset_mset union_single_eq_member)
        (metis \<open>y \<noteq> x\<close> assms(2) insert_noteq_member mset.simps(2) y(3) union_single_eq_member)
    then have "node_key y = node_key x"
      using y(4) assms(3) by (auto simp: heap_sorted_def intro: antisym)
    then have "node_num y = node_num x" by (rule node_key_inj)
    with imageI [OF \<open>y \<in> set xs\<close>, of node_num] assms(4) show False by simp
  qed
  with y assms(2) show ?thesis by auto
qed

lemma merge_loop_agrees:
  "\<lbrakk>invar q; elems q = mset xs; heap_sorted xs; distinct (map node_num xs);
    \<forall>t \<in> set xs. node_num t < num; merge_loop push pop len fuel num q = Ok q'\<rbrakk> \<Longrightarrow>
   \<exists>xs'. merge_loop heap_push heap_pop length fuel num xs = Ok xs' \<and> elems q' = mset xs' \<and> invar q'"
proof (induction fuel arbitrary: num q xs)
  case (Suc fuel)
  have len: "len q = length xs" using Suc.prems len_elems by simp
  show ?case
  proof (cases "1 < length xs")
    case True
    then obtain x y zs where xs: "xs = x # y # zs"
      by (cases xs; cases "tl xs") auto
    obtain q1 where q1: "pop q = Some (x, q1)" "invar q1" "elems q1 = mset (y # zs)"
      using pop_agrees [of q x "y # zs"] Suc.prems xs by auto
    obtain q2 where q2: "pop q1 = Some (y, q2)" "invar q2" "elems q2 = mset zs"
      using pop_agrees [of q1 y zs] Suc.prems q1 xs by (auto simp: heap_sorted_def)
    define b where "b = Branch (node_weight x + node_weight y) num x y"
    have num: "node_num b = num" by (simp add: b_def)
    have "\<exists>xs'. merge_loop heap_push heap_pop length fuel (num + 1) (heap_push b zs) = Ok xs'
        \<and> elems q' = mset xs' \<and> invar q'"
    proof (rule Suc.IH)
      show "merge_loop push pop len fuel (num + 1) (push b q2) = Ok q'"
        using Suc.prems(6) q1 q2 True len by (simp add: b_def)
      show "distinct (map node_num (heap_push b zs))"
        using Suc.prems(4,5) xs num by (auto simp: distinct_heap_push)
    qed (use Suc.prems q1 q2 xs num elems_push in \<open>auto simp: heap_sorted_def
        intro: heap_sorted_push [unfolded heap_sorted_def]\<close>)
    with True xs show ?thesis by (simp add: b_def)
  next
    case False
    with Suc.prems len show ?thesis by auto
  qed
qed simp

lemma build_hierarchy_agrees:
  assumes "ds \<noteq> []"
  shows "build_hierarchy push pop len bh0 ds = build_hierarchy heap_push heap_pop length [] ds"
proof -
  obtain q num where p: "push_descriptors push ds 0 bh0 = (q, num)" by fastforce
  obtain xs num' where p': "push_descriptors heap_push ds 0 [] = (xs, num')" by fastforce
  have q: "invar q" "elems q = mset (leaf_nodes 0 ds)" "num = length ds"
    using push_descriptors_result [OF elems_new(1) p] elems_new by auto
  have xs: "heap_sorted xs" "mset xs = mset (leaf_nodes 0 ds)" "num' = length ds"
    using list_queue.push_descriptors_result [OF list_queue.elems_new(1) p'] by auto
  have "\<exists>q' t. merge_loop push pop len (Suc (length ds)) num q = Ok q' \<and> invar q' \<and> elems q' = {#t#}
      \<and> weights_add t \<and> leaves t = sum_mset (image_mset leaves (elems q))"
    by (rule merge_loop_result) (use q assms in auto)
  then obtain q' t where t: "merge_loop push pop len (Suc (length ds)) num q = Ok q'" "invar q'"
    "elems q' = {#t#}" by auto
  have "\<exists>xs'. merge_loop heap_push heap_pop length (Suc (length ds)) num xs = Ok xs'
      \<and> elems q' = mset xs' \<and> invar q'"
  proof (rule merge_loop_agrees [OF q(1) _ xs(1) _ _ t(1)])
    have "set xs = set (leaf_nodes 0 ds)" by (metis xs(2) set_mset_mset)
    then show "\<forall>t\<in>set xs. node_num t < num" using q by (auto dest: leaf_nodes_num)
    have "mset (map node_num xs) = mset (map node_num (leaf_nodes 0 ds))" by (simp add: xs(2))
    then show "distinct (map node_num xs)"
      using leaf_nodes_distinct [of 0 ds] by (metis mset_eq_imp_distinct_iff)
  qed (use q xs in auto)
  then have "merge_loop heap_push heap_pop length (Suc (length ds)) num' xs = Ok [t]"
    using t(3) q(3) xs(3) by auto
  moreover obtain x q'' where "pop q' = Some (x, q'')" "elems q' = add_mset x (elems q'')"
    using t popE [of q'] by auto
  ultimately show ?thesis using t by (simp add: build_hierarchy_def p p')
qed

end

subsection \<open>The flattened tree is the tree\<close>

fun branches :: "'t node \<Rightarrow> nat" where
  "branches (Leaf w n v) = 0"
| "branches (Branch w n l r) = branches l + branches r + 1"

lemma size_leaves: "size (leaves t) = Suc (branches t)"
  by (induction t) auto

fun flat_rep :: "flat_branch list \<Rightarrow> flat_child \<Rightarrow> field_op node \<Rightarrow> bool" where
  "flat_rep nodes c (Leaf w n v) \<longleftrightarrow> c = FlatLeaf v"
| "flat_rep nodes c (Branch w n l r) \<longleftrightarrow>
     (\<exists>i. c = FlatBranch i \<and> unat i < length nodes
       \<and> flat_rep nodes (fb_left (nodes ! unat i)) l \<and> flat_rep nodes (fb_right (nodes ! unat i)) r)"

lemma flat_rep_append: "flat_rep nodes c t \<Longrightarrow> flat_rep (nodes @ ms) c t"
  by (induction t arbitrary: c) (auto simp: nth_append)

lemma unat_of_nat_u32: "n < 2 ^ 32 \<Longrightarrow> unat (of_nat n :: u32) = n"
  by (simp add: unat_of_nat take_bit_nat_eq_self)

lemma flatten_branch_result:
  assumes l: "\<exists>c ns. flatten_child l out = Ok (c, out @ ns) \<and> flat_rep (out @ ns) c l \<and> length ns = branches l"
    and r: "\<And>out. length out + branches r \<le> 2 ^ 32 \<Longrightarrow>
      \<exists>c ns. flatten_child r out = Ok (c, out @ ns) \<and> flat_rep (out @ ns) c r \<and> length ns = branches r"
    and len: "length out + branches l + branches r + 1 \<le> 2 ^ 32"
  shows "\<exists>i ns. flatten_branch (Branch w n l r) out = Ok (i, out @ ns)
    \<and> flat_rep (out @ ns) (FlatBranch i) (Branch w n l r) \<and> length ns = branches l + branches r + 1"
proof -
  obtain cl nl where l: "flatten_child l out = Ok (cl, out @ nl)" "flat_rep (out @ nl) cl l"
    "length nl = branches l" using l by blast
  obtain cr nr where r: "flatten_child r (out @ nl) = Ok (cr, (out @ nl) @ nr)"
    "flat_rep ((out @ nl) @ nr) cr r" "length nr = branches r" using r [of "out @ nl"] l len by auto
  define b where "b = \<lparr>fb_left = cl, fb_right = cr\<rparr>"
  have i: "unat (of_nat (length out + branches l + branches r) :: u32) = length out + branches l + branches r"
    using unat_of_nat_u32 [of "length out + branches l + branches r"] len by simp
  have "flat_rep (out @ nl @ nr @ [b]) cl l" "flat_rep (out @ nl @ nr @ [b]) cr r"
    using flat_rep_append [OF l(2), of "nr @ [b]"] flat_rep_append [OF r(2), of "[b]"] by auto
  then show ?thesis
    using l r i by (auto simp: Let_def nth_append add.assoc simp flip: b_def) (auto simp: b_def)
qed

lemma flatten_child_result:
  "length out + branches t \<le> 2 ^ 32 \<Longrightarrow>
   \<exists>c ns. flatten_child t out = Ok (c, out @ ns) \<and> flat_rep (out @ ns) c t \<and> length ns = branches t"
proof (induction t arbitrary: out)
  case (Branch w n l r)
  then have "\<exists>i ns. flatten_branch (Branch w n l r) out = Ok (i, out @ ns)
    \<and> flat_rep (out @ ns) (FlatBranch i) (Branch w n l r) \<and> length ns = branches l + branches r + 1"
    by (intro flatten_branch_result) auto
  then show ?case by (auto simp del: flatten_branch.simps)
qed simp

lemma FIELDOP_TREE_result:
  obtains t tree where "build_fieldop_hierarchy = Ok t" "FIELDOP_TREE = Ok tree"
    "flat_rep (ft_nodes tree) (FlatBranch (ft_root tree)) t" "leaves t = mset FIELDOP_DESCRIPTORS"
    "weights_add t"
proof -
  obtain t where t: "build_fieldop_hierarchy = Ok t" "leaves t = mset FIELDOP_DESCRIPTORS" "weights_add t"
    using list_queue.build_hierarchy_result [of FIELDOP_DESCRIPTORS]
    by (auto simp: build_fieldop_hierarchy_def FIELDOP_DESCRIPTORS_def)
  have "size (leaves t) = 40" by (simp add: t FIELDOP_DESCRIPTORS_def)
  then have b: "branches t = 39" by (simp add: size_leaves)
  then obtain w n l r where tb: "t = Branch w n l r" by (cases t) auto
  have "\<exists>i ns. flatten_branch t [] = Ok (i, [] @ ns) \<and> flat_rep ([] @ ns) (FlatBranch i) t
      \<and> length ns = branches l + branches r + 1"
    unfolding tb using b tb by (intro flatten_branch_result flatten_child_result) auto
  then obtain i ns where f: "flatten_branch t [] = Ok (i, ns)" "flat_rep ns (FlatBranch i) t"
    by auto
  show thesis
    by (rule that [of t "\<lparr>ft_nodes = ns, ft_root = i\<rparr>"]) (simp_all only: FIELDOP_TREE_def t f bindO.simps
      prod.case flat_tree.simps)
qed

subsection \<open>Code words\<close>

fun leaf_paths :: "'t node \<Rightarrow> ('t \<times> bool list) list" where
  "leaf_paths (Leaf w n v) = [(v, [])]"
| "leaf_paths (Branch w n l r) =
     map (\<lambda>(v, p). (v, False # p)) (leaf_paths l) @ map (\<lambda>(v, p). (v, True # p)) (leaf_paths r)"

definition op_code :: "field_op \<Rightarrow> bool list" where
  "op_code op = (case build_fieldop_hierarchy of
     Ok t \<Rightarrow> (case map_of (leaf_paths t) op of Some p \<Rightarrow> p | None \<Rightarrow> []) | _ \<Rightarrow> [])"

lemma mset_leaf_paths: "image_mset fst (mset (leaf_paths t)) = image_mset snd (leaves t)"
  by (induction t) (auto simp: multiset.map_comp comp_def case_prod_beta)

lemma set_leaf_paths: "fst ` set (leaf_paths t) = snd ` set_mset (leaves t)"
  using arg_cong [OF mset_leaf_paths [of t], of set_mset] by simp

lemma UNIV_field_op: "op \<in> snd ` set FIELDOP_DESCRIPTORS"
  by (cases op) (simp_all add: FIELDOP_DESCRIPTORS_def)

lemma op_code_path:
  assumes "build_fieldop_hierarchy = Ok t" "leaves t = mset FIELDOP_DESCRIPTORS"
  shows "(op, op_code op) \<in> set (leaf_paths t)"
proof -
  have "op \<in> fst ` set (leaf_paths t)"
    using UNIV_field_op [of op] assms(2) by (simp add: set_leaf_paths)
  then obtain p where "map_of (leaf_paths t) op = Some p"
    by (metis map_of_eq_None_iff not_None_eq)
  then show ?thesis by (simp add: op_code_def assms(1) map_of_SomeD)
qed

subsection \<open>The loop\<close>

text \<open>What the loop does with the operation of a leaf.\<close>

definition after_leaf ::
    "'s bitbuf \<Rightarrow> flat_tree \<Rightarrow> nat \<Rightarrow> field_op \<Rightarrow> field_path \<Rightarrow> nat
     \<Rightarrow> (field_path list \<times> 's bit_reader, bit_error, nat) rm" where
  "after_leaf B tree fuel op fp i = (\<lambda>(fps, r). case run_field_op op B (fp, r) of
       (Ok _, (fp, r)) \<Rightarrow>
         if fp_finished fp then (Ok i, (fps, r))
         else bindM (liftO (store_slice fps i fp)) (\<lambda>fps (_, r).
           if Suc i \<le> length fps then
             bindM (liftO (index_slice (ft_nodes tree) (unat (ft_root tree)))) (\<lambda>nd.
             read_field_paths_loop B tree fuel fp (Suc i) nd) (fps, r)
           else (Panic AssertFailed, (fps, r))) (fps, r)
     | (Err e, (_, r)) \<Rightarrow> (Err e, (fps, r))
     | (Panic p, (_, r)) \<Rightarrow> (Panic p, (fps, r))
     | (OutOfFuel, (_, r)) \<Rightarrow> (OutOfFuel, (fps, r)))"

lemma read_field_paths_loop_Suc:
  "read_field_paths_loop B tree (Suc fuel) fp i nd =
     bindM (on_reader (read_bool B)) (\<lambda>b. case (if b then fb_right nd else fb_left nd) of
       FlatLeaf op \<Rightarrow> after_leaf B tree fuel op fp i
     | FlatBranch idx \<Rightarrow> bindM (liftO (index_slice (ft_nodes tree) (unat idx))) (\<lambda>nd.
         read_field_paths_loop B tree fuel fp i nd))"
  unfolding read_field_paths_loop.simps after_leaf_def ..

lemma on_reader_bool_value:
  assumes "value_laws B bits" "bits_ahead bits s = b # r"
  shows "\<exists>s'. on_reader (read_bool B) (x, s) = (Ok b, (x, s')) \<and> bits_ahead bits s' = r"
  using readsD [OF reads_bool [OF assms(1), of b], of s r] assms(2) by (auto simp: on_reader_Ok_iff)

lemma loop_follows_code:
  assumes laws: "value_laws B bits"
  shows "\<lbrakk>flat_rep (ft_nodes tree) (FlatBranch idx) t; (op, p) \<in> set (leaf_paths t);
      bits_ahead bits s = p @ r;
      fst (read_field_paths_loop B tree fuel fp i (ft_nodes tree ! unat idx) (fps, s)) \<noteq> OutOfFuel\<rbrakk> \<Longrightarrow>
    \<exists>s' n. bits_ahead bits s' = r \<and>
      read_field_paths_loop B tree fuel fp i (ft_nodes tree ! unat idx) (fps, s)
      = after_leaf B tree n op fp i (fps, s')"
proof (induction p arbitrary: t idx s fuel)
  case Nil
  then show ?case by (cases t) auto
next
  case (Cons b p)
  from Cons.prems(3) obtain s' where
    s': "on_reader (read_bool B) (fps, s) = (Ok b, (fps, s'))" "bits_ahead bits s' = p @ r"
    using on_reader_bool_value [OF laws] by fastforce
  obtain w m l r' where t: "t = Branch w m l r'" using Cons.prems(1) by (cases t) auto
  obtain k where k: "fuel = Suc k" using Cons.prems(4) by (cases fuel) (auto simp: rm_simps)
  define c where "c = (if b then r' else l)"
  define ch where "ch = (if b then fb_right (ft_nodes tree ! unat idx) else fb_left (ft_nodes tree ! unat idx))"
  have c: "flat_rep (ft_nodes tree) ch c" "(op, p) \<in> set (leaf_paths c)"
    using Cons.prems(1,2) by (auto simp: t c_def ch_def split: if_splits)
  have loop_run: "read_field_paths_loop B tree fuel fp i (ft_nodes tree ! unat idx) (fps, s)
    = (case ch of FlatLeaf op \<Rightarrow> after_leaf B tree k op fp i
       | FlatBranch idx \<Rightarrow> bindM (liftO (index_slice (ft_nodes tree) (unat idx))) (\<lambda>nd.
           read_field_paths_loop B tree k fp i nd)) (fps, s')"
    by (simp only: k read_field_paths_loop_Suc bindM_run(1) [where m = "on_reader (read_bool B)", OF s'(1)] ch_def)
  show ?case
  proof (cases c)
    case (Leaf w' n' v)
    with c s'(2) loop_run show ?thesis by auto
  next
    case (Branch w' n' l2 r2)
    with c obtain j where j: "ch = FlatBranch j" "unat j < length (ft_nodes tree)" by auto
    then have "read_field_paths_loop B tree fuel fp i (ft_nodes tree ! unat idx) (fps, s)
        = read_field_paths_loop B tree k fp i (ft_nodes tree ! unat j) (fps, s')"
      by (simp add: loop_run index_slice_def)
    with Cons.IH [OF _ c(2) s'(2), of j] c(1) j Cons.prems(4) show ?thesis by simp
  qed
qed

text \<open>
  A stream of operations: the code word of the operation, then the operands it reads.  The
  operation \<open>op\<close> reads \<open>bs\<close> when it takes the path \<open>fp\<close> to \<open>fp'\<close> and consumes exactly \<open>bs\<close>.
\<close>

definition op_reads ::
    "('s \<Rightarrow> bool list) \<Rightarrow> 's bitbuf \<Rightarrow> field_op \<Rightarrow> bool list \<Rightarrow> field_path \<Rightarrow> field_path \<Rightarrow> bool" where
  "op_reads bits B op bs fp fp' \<longleftrightarrow> (\<forall>s r. bits_ahead bits s = bs @ r \<longrightarrow>
     (\<exists>s'. run_field_op op B (fp, s) = (Ok (), (fp', s')) \<and> bits_ahead bits s' = r))"

inductive path_stream ::
    "('s \<Rightarrow> bool list) \<Rightarrow> 's bitbuf \<Rightarrow> field_path \<Rightarrow> bool list \<Rightarrow> field_path list \<Rightarrow> bool"
  for bits B where
  finish: "path_stream bits B fp (op_code FieldPathEncodeFinish) []"
| step: "op_reads bits B op bs fp fp' \<Longrightarrow> \<not> fp_finished fp' \<Longrightarrow> path_stream bits B fp' cs ps
    \<Longrightarrow> path_stream bits B fp (op_code op @ bs @ cs) (fp' # ps)"

lemma store_next:
  "i < length fps \<Longrightarrow> take (Suc i) (fps[i := x]) = take i fps @ [x]"
  "drop (Suc i + k) (fps[i := x]) = drop (Suc i + k) fps"
  by (simp_all add: take_Suc_conv_app_nth)

lemma read_field_paths_loop_value:
  assumes laws: "value_laws B bits"
    and t: "build_fieldop_hierarchy = Ok t" "flat_rep (ft_nodes tree) (FlatBranch (ft_root tree)) t"
      "leaves t = mset FIELDOP_DESCRIPTORS"
    and nd: "nd = ft_nodes tree ! unat (ft_root tree)" "unat (ft_root tree) < length (ft_nodes tree)"
  shows "path_stream bits B fp cs ps \<Longrightarrow> bits_ahead bits s = cs @ r \<Longrightarrow> i + length ps \<le> length fps \<Longrightarrow>
    fst (read_field_paths_loop B tree fuel fp i nd (fps, s)) \<noteq> OutOfFuel \<Longrightarrow>
    \<exists>s'. read_field_paths_loop B tree fuel fp i nd (fps, s)
      = (Ok (i + length ps), (take i fps @ ps @ drop (i + length ps) fps, s')) \<and> bits_ahead bits s' = r"
proof (induction arbitrary: s i fps fuel rule: path_stream.induct)
  case (finish fp)
  from loop_follows_code [OF laws t(2) op_code_path [OF t(1,3)] finish(1) finish(3) [unfolded nd]] nd
  obtain s' n where s': "bits_ahead bits s' = r"
    "read_field_paths_loop B tree fuel fp i nd (fps, s) = after_leaf B tree n FieldPathEncodeFinish fp i (fps, s')"
    by auto
  then show ?case
    by (simp add: after_leaf_def field_path_encode_finish_def on_path_def)
next
  case (step op bs fp fp' cs ps)
  have "bits_ahead bits s = op_code op @ (bs @ cs @ r)" using step.prems(1) by simp
  from loop_follows_code [OF laws t(2) op_code_path [OF t(1,3)] this step.prems(3) [unfolded nd]] nd
  obtain s' n where s': "bits_ahead bits s' = bs @ cs @ r"
    "read_field_paths_loop B tree fuel fp i nd (fps, s) = after_leaf B tree n op fp i (fps, s')"
    by auto
  obtain s'' where s'': "run_field_op op B (fp, s') = (Ok (), (fp', s''))" "bits_ahead bits s'' = cs @ r"
    using step.hyps(1) s'(1) unfolding op_reads_def by blast
  have i: "i < length fps" using step.prems(2) by simp
  have run: "read_field_paths_loop B tree fuel fp i nd (fps, s)
      = read_field_paths_loop B tree n fp' (Suc i) nd (fps[i := fp'], s'')"
    using s'(2) s'' step.hyps(2) i nd
    by (simp add: after_leaf_def store_slice_def index_slice_def)
  then show ?case
    using step.IH [OF s''(2), of "Suc i" "fps[i := fp']" n] step.prems i
      store_next(1) [OF i, of fp'] store_next(2) [of i "length ps" fps fp'] by auto
qed

subsection \<open>The loop ends, and what it stores\<close>

definition paths_ok :: "field_path list \<Rightarrow> bool" where
  "paths_ok ps \<longleftrightarrow> (\<forall>p \<in> set ps. path_ok p \<and> \<not> fp_finished p)"

lemma paths_ok_store:
  "\<lbrakk>paths_ok (take i fps); i < length fps; path_ok fp; \<not> fp_finished fp\<rbrakk>
   \<Longrightarrow> paths_ok (take (Suc i) (fps[i := fp]))"
  by (auto simp: paths_ok_def store_next)

lemma after_leaf_Ok:
  assumes B: "cursor_laws B" and fp: "path_ok fp"
    and ok: "after_leaf B tree fuel op fp i (fps, r) = (res, s)"
  obtains (finished) r' k where "res = Ok i" "s = (fps, r')" "adv B k r r'"
    | (stored) fp' r' k nd where "path_ok fp'" "\<not> fp_finished fp'" "i < length fps" "adv B k r r'"
        "read_field_paths_loop B tree fuel fp' (Suc i) nd (fps[i := fp'], r') = (res, s)"
    | (failed) "res \<noteq> OutOfFuel" "\<And>n. res \<noteq> Ok n"
proof -
  obtain x fp' r' where run: "run_field_op op B (fp, r) = (x, (fp', r'))"
    by (metis prod.exhaust)
  show thesis
  proof (cases x)
    case (Ok u)
    then have "run_field_op op B (fp, r) = (Ok (), (fp', r'))" using run by simp
    then obtain k where k: "path_ok fp'" "adv B k r r'"
      using run_field_op_triple [OF B, of op] fp unfolding op_triple_def by blast
    show thesis
    proof (cases "fp_finished fp'")
      case True
      with ok run Ok k finished show thesis by (auto simp: after_leaf_def)
    next
      case False
      then show thesis
        using ok run Ok k stored failed
        by (auto simp: after_leaf_def store_slice_def index_slice_def rm_simps split: if_splits)
    qed
  next
    case OutOfFuel
    then show thesis using run no_fuelD [OF run_field_op_no_fuel [OF B]] by metis
  qed (use ok run failed in \<open>auto simp: after_leaf_def\<close>)
qed

lemma read_field_paths_loop_Ok:
  assumes B: "cursor_laws B"
  shows "\<lbrakk>read_field_paths_loop B tree fuel fp i nd (fps, r) = (Ok n, (fps', r')); path_ok fp;
      paths_ok (take i fps); i \<le> length fps\<rbrakk> \<Longrightarrow>
    i \<le> n \<and> n \<le> length fps' \<and> length fps' = length fps \<and> paths_ok (take n fps') \<and> (\<exists>k. adv B k r r')"
proof (induction fuel arbitrary: fp i nd fps r)
  case 0
  then show ?case by simp
next
  case (Suc fuel)
  obtain b r1 where b: "read_bool B r = (Ok b, r1)"
    using Suc.prems(1) unfolding read_field_paths_loop_Suc by (auto simp: bindM_Ok_iff on_reader_Ok_iff)
  have r1: "adv B 1 r r1" by (rule read_adv(2) [OF B b])
  have "on_reader (read_bool B) (fps, r) = (Ok b, (fps, r1))" using b by (simp add: on_reader_Ok_iff)
  from Suc.prems(1) [unfolded read_field_paths_loop_Suc bindM_run(1) [where m = "on_reader (read_bool B)", OF this]]
  consider (leaf) op where "after_leaf B tree fuel op fp i (fps, r1) = (Ok n, (fps', r'))"
    | (branch) nd' where "read_field_paths_loop B tree fuel fp i nd' (fps, r1) = (Ok n, (fps', r'))"
    by (auto simp: bindM_Ok_iff split: flat_child.splits)
  then show ?case
  proof cases
    case leaf
    from B Suc.prems(2) leaf show ?thesis
    proof (cases rule: after_leaf_Ok)
      case (finished r'' k)
      then show ?thesis using Suc.prems adv_trans [OF B r1] by auto
    next
      case (stored fp' r'' k nd')
      then have "Suc i \<le> n \<and> n \<le> length fps' \<and> length fps' = length (fps[i := fp'])
          \<and> paths_ok (take n fps') \<and> (\<exists>k. adv B k r'' r')"
        using Suc.prems paths_ok_store by (intro Suc.IH [OF stored(5)]) auto
      then show ?thesis using adv_trans [OF B r1] adv_trans [OF B stored(4)] by (metis Suc_leD length_list_update)
    next
      case failed
      then show ?thesis by blast
    qed
  next
    case branch
    then show ?thesis using Suc.IH [OF branch Suc.prems(2-4)] adv_trans [OF B r1] by blast
  qed
qed

lemma read_field_paths_loop_fuel:
  assumes B: "cursor_laws B"
  shows "\<lbrakk>num_bits_left B r < fuel; path_ok fp\<rbrakk> \<Longrightarrow>
    read_field_paths_loop B tree fuel fp i nd (fps, r) \<noteq> (OutOfFuel, s)"
proof (induction fuel arbitrary: fp i nd fps r)
  case (Suc fuel)
  show ?case
  proof
    assume l: "read_field_paths_loop B tree (Suc fuel) fp i nd (fps, r) = (OutOfFuel, s)"
    have nf: "on_reader (read_bool B) (fps, r) \<noteq> (OutOfFuel, s)"
      by (intro no_fuelD fuel_intros B)
    with l [unfolded read_field_paths_loop_Suc] obtain b r1 where
      b: "on_reader (read_bool B) (fps, r) = (Ok b, (fps, r1))"
      by (elim bindM_OutOfFuelE) (auto simp: on_reader_Ok_iff)
    then have left: "num_bits_left B r1 < fuel"
      using read_bool_left [OF B] Suc.prems(1) by (fastforce simp: on_reader_Ok_iff)
    from l [unfolded read_field_paths_loop_Suc bindM_run(1) [where m = "on_reader (read_bool B)", OF b]]
    consider (leaf) op where "after_leaf B tree fuel op fp i (fps, r1) = (OutOfFuel, s)"
      | (branch) nd' where "read_field_paths_loop B tree fuel fp i nd' (fps, r1) = (OutOfFuel, s)"
      by (auto simp: index_slice_def rm_simps split: flat_child.splits if_splits)
    then show False
    proof cases
      case leaf
      from B Suc.prems(2) leaf show False
      proof (cases rule: after_leaf_Ok)
        case (stored fp' r'' k nd')
        then show False using Suc.IH [of r'' fp' "Suc i" nd' "fps[i := fp']"] left adv_left [OF B stored(4)] by auto
      qed auto
    next
      case branch
      with Suc.IH left Suc.prems(2) show False by blast
    qed
  qed
qed simp

subsection \<open>Properties\<close>

lemma read_field_paths_run:
  obtains t tree where "build_fieldop_hierarchy = Ok t"
    "flat_rep (ft_nodes tree) (FlatBranch (ft_root tree)) t" "leaves t = mset FIELDOP_DESCRIPTORS"
    "unat (ft_root tree) < length (ft_nodes tree)"
    "read_field_paths B (fps, r) = read_field_paths_loop B tree (Suc (num_bits_left B r))
       field_path_default 0 (ft_nodes tree ! unat (ft_root tree)) (fps, r)"
proof -
  obtain t tree where t: "build_fieldop_hierarchy = Ok t" "FIELDOP_TREE = Ok tree"
    "flat_rep (ft_nodes tree) (FlatBranch (ft_root tree)) t" "leaves t = mset FIELDOP_DESCRIPTORS"
    by (rule FIELDOP_TREE_result)
  then have i: "unat (ft_root tree) < length (ft_nodes tree)" by (cases t) auto
  show thesis
    by (rule that [OF t(1,3,4) i]) (simp add: read_field_paths_def t(2) index_slice_def i)
qed

lemma path_ok_default: "path_ok field_path_default"
  by (simp add: path_ok_def field_path_default_def)

text \<open>The tree that the code builds holds every operation of the table exactly once with its
  weight, and the weight of every branch is the sum of its children: the construction neither loses
  nor duplicates an operation, never unwraps an empty heap and always ends.\<close>

theorem fieldop_hierarchy_complete:
  "\<exists>t. build_fieldop_hierarchy = Ok t \<and> leaves t = mset FIELDOP_DESCRIPTORS \<and> weights_add t
    \<and> node_weight t = sum_list (map fst FIELDOP_DESCRIPTORS)"
proof -
  obtain t where "build_fieldop_hierarchy = Ok t" "leaves t = mset FIELDOP_DESCRIPTORS" "weights_add t"
    by (rule FIELDOP_TREE_result)
  then show ?thesis by (auto simp: weights_add_sum sum_mset_sum_list simp flip: mset_map)
qed

text \<open>C12: the tree does not depend on how the heap is implemented: every priority queue that meets
  the interface, whatever its order of equal elements, gives the tree of the model.\<close>

theorem fieldop_hierarchy_any_queue:
  assumes "max_queue push pop len bh0 elems invar"
  shows "build_hierarchy push pop len bh0 FIELDOP_DESCRIPTORS = build_fieldop_hierarchy"
  using max_queue.build_hierarchy_agrees [OF assms]
  by (simp add: build_fieldop_hierarchy_def FIELDOP_DESCRIPTORS_def)

theorem fieldop_hierarchy_any_queue_witness:
  "build_hierarchy heap_push heap_pop length [] FIELDOP_DESCRIPTORS = build_fieldop_hierarchy"
  by (rule fieldop_hierarchy_any_queue [OF list_queue.max_queue_axioms])

lemma leaf_paths_prefix:
  "\<lbrakk>(a, p) \<in> set (leaf_paths t); (b, p @ q) \<in> set (leaf_paths t)\<rbrakk> \<Longrightarrow> q = [] \<and> a = b"
  by (induction t arbitrary: p) auto

lemma leaf_paths_value: "map_ok leaf_paths build_fieldop_hierarchy = Ok [
    (PlusOne, [False]), (FieldPathEncodeFinish, [True, False]),
    (PushOneLeftDeltaOneRightNonZero, [True, True, False, False, False]),
    (PlusThree, [True, True, False, False, True, False]),
    (PopAllButOnePlusOne, [True, True, False, False, True, True]),
    (PlusN, [True, True, False, True, False]),
    (PopAllButOnePlusN, [True, True, False, True, True, False, False, False, False]),
    (NonTopoComplexPack4Bits, [True, True, False, True, True, False, False, False, True, False]),
    (PopNAndNonTopographical, [True, True, False, True, True, False, False, False, True, True, False, False, False, False, False, False]),
    (PopNPlusN, [True, True, False, True, True, False, False, False, True, True, False, False, False, False, False, True]),
    (PopOnePlusOne, [True, True, False, True, True, False, False, False, True, True, False, False, False, False, True]),
    (PushN, [True, True, False, True, True, False, False, False, True, True, False, False, False, True, False, False]),
    (PushThreePack5LeftDeltaN, [True, True, False, True, True, False, False, False, True, True, False, False, False, True, False, True]),
    (PopNPlusOne, [True, True, False, True, True, False, False, False, True, True, False, False, False, True, True, False]),
    (PopOnePlusN, [True, True, False, True, True, False, False, False, True, True, False, False, False, True, True, True]),
    (PushTwoLeftDeltaZero, [True, True, False, True, True, False, False, False, True, True, False, False, True, False, False, False]),
    (PushThreeLeftDeltaZero, [True, True, False, True, True, False, False, False, True, True, False, False, True, False, False, True, False]),
    (PushTwoPack5LeftDeltaZero, [True, True, False, True, True, False, False, False, True, True, False, False, True, False, False, True, True]),
    (PushOneLeftDeltaZeroRightNonZero, [True, True, False, True, True, False, False, False, True, True, False, False, True, False, True]),
    (PushTwoLeftDeltaN, [True, True, False, True, True, False, False, False, True, True, False, False, True, True, False, False, False]),
    (PushThreePack5LeftDeltaOne, [True, True, False, True, True, False, False, False, True, True, False, False, True, True, False, False, True]),
    (PushThreeLeftDeltaN, [True, True, False, True, True, False, False, False, True, True, False, False, True, True, False, True, False]),
    (PushTwoPack5LeftDeltaN, [True, True, False, True, True, False, False, False, True, True, False, False, True, True, False, True, True]),
    (PushTwoLeftDeltaOne, [True, True, False, True, True, False, False, False, True, True, False, False, True, True, True, False, False]),
    (PushThreePack5LeftDeltaZero, [True, True, False, True, True, False, False, False, True, True, False, False, True, True, True, False, True]),
    (PushThreeLeftDeltaOne, [True, True, False, True, True, False, False, False, True, True, False, False, True, True, True, True, False]),
    (PushTwoPack5LeftDeltaOne, [True, True, False, True, True, False, False, False, True, True, False, False, True, True, True, True, True]),
    (PushOneLeftDeltaZeroRightZero, [True, True, False, True, True, False, False, False, True, True, False, True]),
    (NonTopoComplex, [True, True, False, True, True, False, False, False, True, True, True]),
    (PushOneLeftDeltaNRightNonZero, [True, True, False, True, True, False, False, True]),
    (PushOneLeftDeltaOneRightZero, [True, True, False, True, True, False, True, False]),
    (PushOneLeftDeltaNRightNonZeroPack8Bits, [True, True, False, True, True, False, True, True, False]),
    (NonTopoPenultimatePluseOne, [True, True, False, True, True, False, True, True, True]),
    (PushOneLeftDeltaNRightZero, [True, True, False, True, True, True, False, False]),
    (PopAllButOnePlusNPack3Bits, [True, True, False, True, True, True, False, True, False]),
    (PushNAndNonTopographical, [True, True, False, True, True, True, False, True, True]),
    (PopAllButOnePlusNPack6Bits, [True, True, False, True, True, True, True, False]),
    (PlusFour, [True, True, False, True, True, True, True, True]),
    (PlusTwo, [True, True, True, False]),
    (PushOneLeftDeltaNRightNonZeroPack6Bits, [True, True, True, True])]"
  unfolding build_fieldop_hierarchy_def build_hierarchy_def FIELDOP_DESCRIPTORS_def
  by (simp add: node_key_le Let_def del: One_nat_def)

lemma op_code_eq: 
   assumes "map_ok leaf_paths build_fieldop_hierarchy = Ok ps"
   shows "op_code op = (case map_of ps op of Some p \<Rightarrow> p | None \<Rightarrow> [])"
proof -
  obtain t where t: "build_fieldop_hierarchy = Ok t" by (rule FIELDOP_TREE_result)
  have "ps = leaf_paths t" using assms unfolding t by simp
  then show ?thesis by (simp add: op_code_def t)
qed

text \<open>The code words that the tree gives to the operations, in the order of the table.\<close>

theorem op_code_table: "map (\<lambda>(w, op). (op, op_code op)) FIELDOP_DESCRIPTORS = [
    (PlusOne, [False]), (PlusTwo, [True, True, True, False]),
    (PlusThree, [True, True, False, False, True, False]),
    (PlusFour, [True, True, False, True, True, True, True, True]),
    (PlusN, [True, True, False, True, False]),
    (PushOneLeftDeltaZeroRightZero, [True, True, False, True, True, False, False, False, True, True, False, True]),
    (PushOneLeftDeltaZeroRightNonZero, [True, True, False, True, True, False, False, False, True, True, False, False, True, False, True]),
    (PushOneLeftDeltaOneRightZero, [True, True, False, True, True, False, True, False]),
    (PushOneLeftDeltaOneRightNonZero, [True, True, False, False, False]),
    (PushOneLeftDeltaNRightZero, [True, True, False, True, True, True, False, False]),
    (PushOneLeftDeltaNRightNonZero, [True, True, False, True, True, False, False, True]),
    (PushOneLeftDeltaNRightNonZeroPack6Bits, [True, True, True, True]),
    (PushOneLeftDeltaNRightNonZeroPack8Bits, [True, True, False, True, True, False, True, True, False]),
    (PushTwoLeftDeltaZero, [True, True, False, True, True, False, False, False, True, True, False, False, True, False, False, False]),
    (PushTwoPack5LeftDeltaZero, [True, True, False, True, True, False, False, False, True, True, False, False, True, False, False, True, True]),
    (PushThreeLeftDeltaZero, [True, True, False, True, True, False, False, False, True, True, False, False, True, False, False, True, False]),
    (PushThreePack5LeftDeltaZero, [True, True, False, True, True, False, False, False, True, True, False, False, True, True, True, False, True]),
    (PushTwoLeftDeltaOne, [True, True, False, True, True, False, False, False, True, True, False, False, True, True, True, False, False]),
    (PushTwoPack5LeftDeltaOne, [True, True, False, True, True, False, False, False, True, True, False, False, True, True, True, True, True]),
    (PushThreeLeftDeltaOne, [True, True, False, True, True, False, False, False, True, True, False, False, True, True, True, True, False]),
    (PushThreePack5LeftDeltaOne, [True, True, False, True, True, False, False, False, True, True, False, False, True, True, False, False, True]),
    (PushTwoLeftDeltaN, [True, True, False, True, True, False, False, False, True, True, False, False, True, True, False, False, False]),
    (PushTwoPack5LeftDeltaN, [True, True, False, True, True, False, False, False, True, True, False, False, True, True, False, True, True]),
    (PushThreeLeftDeltaN, [True, True, False, True, True, False, False, False, True, True, False, False, True, True, False, True, False]),
    (PushThreePack5LeftDeltaN, [True, True, False, True, True, False, False, False, True, True, False, False, False, True, False, True]),
    (PushN, [True, True, False, True, True, False, False, False, True, True, False, False, False, True, False, False]),
    (PushNAndNonTopographical, [True, True, False, True, True, True, False, True, True]),
    (PopOnePlusOne, [True, True, False, True, True, False, False, False, True, True, False, False, False, False, True]),
    (PopOnePlusN, [True, True, False, True, True, False, False, False, True, True, False, False, False, True, True, True]),
    (PopAllButOnePlusOne, [True, True, False, False, True, True]),
    (PopAllButOnePlusN, [True, True, False, True, True, False, False, False, False]),
    (PopAllButOnePlusNPack3Bits, [True, True, False, True, True, True, False, True, False]),
    (PopAllButOnePlusNPack6Bits, [True, True, False, True, True, True, True, False]),
    (PopNPlusOne, [True, True, False, True, True, False, False, False, True, True, False, False, False, True, True, False]),
    (PopNPlusN, [True, True, False, True, True, False, False, False, True, True, False, False, False, False, False, True]),
    (PopNAndNonTopographical, [True, True, False, True, True, False, False, False, True, True, False, False, False, False, False, False]),
    (NonTopoComplex, [True, True, False, True, True, False, False, False, True, True, True]),
    (NonTopoPenultimatePluseOne, [True, True, False, True, True, False, True, True, True]),
    (NonTopoComplexPack4Bits, [True, True, False, True, True, False, False, False, True, False]),
    (FieldPathEncodeFinish, [True, False])]"
  by (simp add: op_code_eq [OF leaf_paths_value] FIELDOP_DESCRIPTORS_def)
text \<open>The code words of the operations are a prefix code: the word of one operation is never the
  beginning of the word of another.\<close>

theorem op_code_prefix_free: "op_code a @ q = op_code b \<longleftrightarrow> q = [] \<and> a = b"
proof -
  obtain t where t: "build_fieldop_hierarchy = Ok t" "leaves t = mset FIELDOP_DESCRIPTORS"
    by (rule FIELDOP_TREE_result)
  show ?thesis
    using leaf_paths_prefix [OF op_code_path [OF t, of a], of b q] op_code_path [OF t, of b] by auto
qed

lemma read_field_paths_stream:
  assumes laws: "cursor_laws B" "value_laws B bits"
    and stream: "path_stream bits B field_path_default cs ps"
    and ahead: "bits_ahead bits s = cs @ r" and room: "length ps \<le> length fps"
  shows "\<exists>s'. read_field_paths B (fps, s) = (Ok (length ps), (ps @ drop (length ps) fps, s'))
    \<and> bits_ahead bits s' = r"
proof -
  obtain t tree where t: "build_fieldop_hierarchy = Ok t"
    "flat_rep (ft_nodes tree) (FlatBranch (ft_root tree)) t" "leaves t = mset FIELDOP_DESCRIPTORS"
    "unat (ft_root tree) < length (ft_nodes tree)"
    and run: "read_field_paths B (fps, s) = read_field_paths_loop B tree (Suc (num_bits_left B s))
       field_path_default 0 (ft_nodes tree ! unat (ft_root tree)) (fps, s)"
    by (rule read_field_paths_run)
  have "fst (read_field_paths B (fps, s)) \<noteq> OutOfFuel"
    unfolding run using read_field_paths_loop_fuel [OF laws(1) _ path_ok_default] by (metis lessI prod.collapse)
  then show ?thesis
    using read_field_paths_loop_value [OF laws(2) t(1-3) refl t(4) stream ahead, of 0 fps] room
    unfolding run by simp
qed

text \<open>C11: reading field paths back: if the stream holds a sequence of operations, each its code word
  followed by its operands, closed by the finish operation, then \<open>read_field_paths\<close> stores the path
  after each operation, in order, leaves the rest of the slice alone, returns their number and stops
  right behind the finish operation.\<close>

theorem read_field_paths_value:
  assumes laws: "cursor_laws B" "value_laws B bits"
    and stream: "path_stream bits B field_path_default cs ps"
    and ahead: "bits_ahead bits s = cs @ r" and room: "length ps \<le> length fps"
  shows "\<exists>s'. read_field_paths B (fps, s) = (Ok (length ps), (ps @ drop (length ps) fps, s'))
    \<and> bits_ahead bits s' = r"
  by (rule read_field_paths_stream [OF assms])

theorem read_field_paths_value_witness:
  "\<exists>s'. read_field_paths ref_bitbuf ([field_path_default, field_path_default],
      \<lparr>br_inner = ((op_code PlusOne @ [] @ op_code FieldPathEncodeFinish) @ [True], 0),
       br_did_check_overflow = False\<rparr>)
    = (Ok (length [field_path_default\<lparr>fp_data := [0, 0, 0, 0, 0, 0, 0]\<rparr>]),
       ([field_path_default\<lparr>fp_data := [0, 0, 0, 0, 0, 0, 0]\<rparr>]
         @ drop (length [field_path_default\<lparr>fp_data := [0, 0, 0, 0, 0, 0, 0]\<rparr>])
           [field_path_default, field_path_default], s'))
    \<and> bits_ahead ref_bits s' = [True]"
proof (rule read_field_paths_value [OF ref_cursor_laws ref_value_laws])
  show "path_stream ref_bits ref_bitbuf field_path_default
      (op_code PlusOne @ [] @ op_code FieldPathEncodeFinish)
      [field_path_default\<lparr>fp_data := [0, 0, 0, 0, 0, 0, 0]\<rparr>]"
    by (intro path_stream.step path_stream.finish)
      (simp_all add: op_reads_def field_path_default_def plus_one_def inc_last_def on_path_def
        inc_at_def index_slice_def store_slice_def)
qed (simp_all add: bits_ahead_def ref_bits_def op_code_eq [OF leaf_paths_value])

lemma read_field_paths_no_fuel [fuel_intros]:
  fixes B :: "'s bitbuf"
  assumes "cursor_laws B"
  shows "no_fuel (read_field_paths B)"
proof (rule no_fuelI)
  fix s :: "field_path list \<times> 's bit_reader" and s'
  obtain fps r where s: "s = (fps, r)" by (cases s)
  obtain tree nd where "read_field_paths B s
      = read_field_paths_loop B tree (Suc (num_bits_left B r)) field_path_default 0 nd (fps, r)"
    unfolding s by (rule read_field_paths_run)
  then show "read_field_paths B s \<noteq> (OutOfFuel, s')"
    using read_field_paths_loop_fuel [OF assms lessI path_ok_default] by metis
qed

text \<open>\<open>read_field_paths\<close> always ends: its loop reads at least one bit a round.\<close>

theorem read_field_paths_ends:
  assumes "cursor_laws B"
  shows "fst (read_field_paths B s) \<noteq> OutOfFuel"
  using read_field_paths_no_fuel [OF assms] unfolding no_fuel_def by blast

theorem read_field_paths_ends_witness:
  "fst (read_field_paths ref_bitbuf ([], \<lparr>br_inner = ([False, True], 0), br_did_check_overflow = False\<rparr>)) \<noteq> OutOfFuel"
  by (rule read_field_paths_ends [OF ref_cursor_laws])

text \<open>On success the number returned is at most the length of the slice, and each of the paths
  stored up to there has seven components and a last component inside them, so every later index
  into a path by its last component is in bounds.\<close>

theorem read_field_paths_safe:
  assumes "cursor_laws B" "read_field_paths B (fps, r) = (Ok n, (fps', r'))"
  shows "n \<le> length fps' \<and> length fps' = length fps \<and> (\<forall>p \<in> set (take n fps'). path_ok p)"
proof -
  obtain tree nd where "read_field_paths B (fps, r)
      = read_field_paths_loop B tree (Suc (num_bits_left B r)) field_path_default 0 nd (fps, r)"
    by (rule read_field_paths_run)
  then have l: "read_field_paths_loop B tree (Suc (num_bits_left B r)) field_path_default 0 nd (fps, r)
      = (Ok n, (fps', r'))" using assms(2) by (simp only:)
  have "paths_ok (take 0 fps)" by (simp add: paths_ok_def)
  from read_field_paths_loop_Ok [OF assms(1) l path_ok_default this]
  show ?thesis by (simp add: paths_ok_def)
qed

theorem read_field_paths_safe_witness:
  "\<exists>n fps' r'. read_field_paths ref_bitbuf ([field_path_default],
      \<lparr>br_inner = (op_code FieldPathEncodeFinish, 0), br_did_check_overflow = False\<rparr>)
      = (Ok n, (fps', r')) \<and> n \<le> length fps' \<and> length fps' = length [field_path_default]
    \<and> (\<forall>p \<in> set (take n fps'). path_ok p)"
proof -
  have "\<exists>s'. read_field_paths ref_bitbuf ([field_path_default],
      \<lparr>br_inner = (op_code FieldPathEncodeFinish, 0), br_did_check_overflow = False\<rparr>)
      = (Ok (length ([] :: field_path list)), ([] @ drop (length ([] :: field_path list)) [field_path_default], s'))
      \<and> bits_ahead ref_bits s' = []"
    by (rule read_field_paths_stream [OF ref_cursor_laws ref_value_laws path_stream.finish])
      (simp_all add: bits_ahead_def ref_bits_def op_code_eq [OF leaf_paths_value])
  then obtain s' where r: "read_field_paths ref_bitbuf ([field_path_default],
      \<lparr>br_inner = (op_code FieldPathEncodeFinish, 0), br_did_check_overflow = False\<rparr>)
      = (Ok 0, ([field_path_default], s'))" by auto
  with read_field_paths_safe [OF ref_cursor_laws r] show ?thesis by blast
qed

end
