(* ===== verification/FieldValue.thy ===== *)
theory FieldValue
  imports BitReader
begin

text \<open>
  \<open>haste_core/src/fieldvalue.rs\<close>: the value of a decoded field and its conversions.  A conversion
  succeeds for the variant it belongs to, and for the narrow integer types only in range.  The
  conversion to \<open>String\<close> depends on the standard library's UTF-8 validation, which is a parameter.
\<close>

datatype field_value =
    FvI64 i64
  | FvU64 u64
  | FvF32 f32
  | FvBool bool
  | FvVector3 vec3
  | FvVector2 vec2
  | FvVector4 vec4
  | FvQAngle vec3
  | FvString "u8 list"

datatype conversion_error = IncompatibleTypeOrOutOfRangeInteger | FromUtf8Error

text \<open>The integer conversions of the macro, at each width.\<close>

definition try_into_signed :: "field_value \<Rightarrow> (conversion_error, 'w::len word) outcome" where
  "try_into_signed v = (case v of
     FvI64 x \<Rightarrow> if - (2 ^ (LENGTH('w) - 1)) \<le> sint x \<and> sint x < 2 ^ (LENGTH('w) - 1)
                 then Ok (word_of_int (sint x)) else Err IncompatibleTypeOrOutOfRangeInteger
   | _ \<Rightarrow> Err IncompatibleTypeOrOutOfRangeInteger)"

definition try_into_unsigned :: "field_value \<Rightarrow> (conversion_error, 'w::len word) outcome" where
  "try_into_unsigned v = (case v of
     FvU64 x \<Rightarrow> if uint x < 2 ^ LENGTH('w)
                 then Ok (word_of_int (uint x)) else Err IncompatibleTypeOrOutOfRangeInteger
   | _ \<Rightarrow> Err IncompatibleTypeOrOutOfRangeInteger)"

definition try_into_f32 :: "field_value \<Rightarrow> (conversion_error, f32) outcome" where
  "try_into_f32 v = (case v of FvF32 x \<Rightarrow> Ok x | _ \<Rightarrow> Err IncompatibleTypeOrOutOfRangeInteger)"

definition try_into_bool :: "field_value \<Rightarrow> (conversion_error, bool) outcome" where
  "try_into_bool v = (case v of FvBool x \<Rightarrow> Ok x | _ \<Rightarrow> Err IncompatibleTypeOrOutOfRangeInteger)"

definition try_into_vec2 :: "field_value \<Rightarrow> (conversion_error, vec2) outcome" where
  "try_into_vec2 v = (case v of FvVector2 x \<Rightarrow> Ok x | _ \<Rightarrow> Err IncompatibleTypeOrOutOfRangeInteger)"

definition try_into_vec4 :: "field_value \<Rightarrow> (conversion_error, vec4) outcome" where
  "try_into_vec4 v = (case v of FvVector4 x \<Rightarrow> Ok x | _ \<Rightarrow> Err IncompatibleTypeOrOutOfRangeInteger)"

definition try_into_vec3 :: "field_value \<Rightarrow> (conversion_error, vec3) outcome" where
  "try_into_vec3 v = (case v of FvVector3 x \<Rightarrow> Ok x | FvQAngle x \<Rightarrow> Ok x
     | _ \<Rightarrow> Err IncompatibleTypeOrOutOfRangeInteger)"

definition try_into_string ::
    "(u8 list \<Rightarrow> 'str option) \<Rightarrow> field_value \<Rightarrow> (conversion_error, 'str) outcome" where
  "try_into_string from_utf8 v = (case v of
     FvString bs \<Rightarrow> (case from_utf8 bs of Some s \<Rightarrow> Ok s | None \<Rightarrow> Err FromUtf8Error)
   | _ \<Rightarrow> Err IncompatibleTypeOrOutOfRangeInteger)"

definition try_into_bytes :: "field_value \<Rightarrow> (conversion_error, u8 list) outcome" where
  "try_into_bytes v = (case v of FvString bs \<Rightarrow> Ok bs | _ \<Rightarrow> Err IncompatibleTypeOrOutOfRangeInteger)"

text \<open>C19: an integer conversion never changes the number: to a width \<open>'w\<close> it succeeds exactly for
  the variant of its signedness with a number that \<open>'w\<close> holds, and the result denotes that number.\<close>

theorem integer_conversion_exact:
  "(try_into_signed v = Ok (a :: 'w::len word) \<longleftrightarrow> (\<exists>x. v = FvI64 x \<and> sint a = sint x))
   \<and> (try_into_unsigned v = Ok (b :: 'w word) \<longleftrightarrow> (\<exists>x. v = FvU64 x \<and> uint b = uint x))"
proof
  have bnd: "- (2 ^ (LENGTH('w) - 1)) \<le> sint a \<and> sint a < 2 ^ (LENGTH('w) - 1)" for a :: "'w word"
    using sint_greater_eq [of a] sint_less [of a] by simp
  have exact: "sint (word_of_int (sint x) :: 'w word) = sint x"
    if "- (2 ^ (LENGTH('w) - 1)) \<le> sint x" "sint x < 2 ^ (LENGTH('w) - 1)" for x :: i64
    using that unfolding sint_sbintrunc' by (simp add: signed_take_bit_int_eq_self)
  have exactu: "uint (word_of_int (uint x) :: 'w word) = uint x" if "uint x < 2 ^ LENGTH('w)" for x :: u64
    using that by (simp only: uint_word_of_int) simp
  show "try_into_signed v = Ok (a :: 'w::len word) \<longleftrightarrow> (\<exists>x. v = FvI64 x \<and> sint a = sint x)"
    using bnd [of a] exact
    by (cases v) (auto simp: try_into_signed_def split: if_splits, metis signed_word_eqI)
  show "try_into_unsigned v = Ok (b :: 'w word) \<longleftrightarrow> (\<exists>x. v = FvU64 x \<and> uint b = uint x)"
    using exactu
    by (cases v) (auto simp: try_into_unsigned_def split: if_splits, metis unsigned_word_eqI, metis uint_bounded)
qed

end
