(* ===== verification/QuantizedFloat.thy ===== *)
theory QuantizedFloat
  imports BitReaderLaws
begin

text \<open>
  \<open>haste_core/src/quantizedfloat.rs\<close>: floats that are sent as an integer of a few bits, scaled into a
  range, with flags for one end of the range, zero or integers to be sent exactly.  Constructing the
  decoder computes its flags, range and multipliers in \<open>f32\<close> and \<open>f64\<close>; decoding reads at most three
  flag bits and the integer.

  The lemmas: which flag combinations survive construction, what a successful
  \<open>assign_range_multiplier\<close> guarantees, that construction ends, and that \<open>skip\<close> and \<open>skip_bits\<close> consume
  what \<open>decode\<close> consumes.
\<close>

datatype quantized_float_error = InvalidEncodeFlags | InvalidRange

definition QFE_ROUNDDOWN :: i32 where "QFE_ROUNDDOWN = 1"
definition QFE_ROUNDUP :: i32 where "QFE_ROUNDUP = 2"
definition QFE_ENCODE_ZERO_EXACTLY :: i32 where "QFE_ENCODE_ZERO_EXACTLY = 4"
definition QFE_ENCODE_INTEGERS_EXACTLY :: i32 where "QFE_ENCODE_INTEGERS_EXACTLY = 8"

definition has_flag :: "i32 \<Rightarrow> i32 \<Rightarrow> bool" where
  "has_flag efs f \<longleftrightarrow> efs AND f \<noteq> 0"

definition clear_flag :: "i32 \<Rightarrow> i32 \<Rightarrow> i32" where
  "clear_flag efs f = efs AND NOT f"

definition compute_encode_flags :: "i32 \<Rightarrow> f32 \<Rightarrow> f32 \<Rightarrow> (quantized_float_error, i32) outcome" where
  "compute_encode_flags encode_flags low_value high_value =
     (let efs = encode_flags in
      if efs = 0 then Ok efs
      else
        let efs = (if fl_eq low_value f_zero \<and> has_flag efs QFE_ROUNDDOWN
                      \<or> fl_eq high_value f_zero \<and> has_flag efs QFE_ROUNDUP
                   then clear_flag efs QFE_ENCODE_ZERO_EXACTLY else efs);
            efs = (if fl_eq low_value f_zero \<and> has_flag efs QFE_ENCODE_ZERO_EXACTLY
                   then clear_flag (efs OR QFE_ROUNDDOWN) QFE_ENCODE_ZERO_EXACTLY else efs);
            efs = (if fl_eq high_value f_zero \<and> has_flag efs QFE_ENCODE_ZERO_EXACTLY
                   then clear_flag (efs OR QFE_ROUNDUP) QFE_ENCODE_ZERO_EXACTLY else efs);
            efs = (if \<not> (fl_lt low_value f_zero \<and> fl_lt f_zero high_value)
                   then clear_flag efs QFE_ENCODE_ZERO_EXACTLY else efs);
            efs = (if has_flag efs QFE_ENCODE_INTEGERS_EXACTLY
                   then clear_flag efs (QFE_ROUNDUP OR QFE_ROUNDDOWN OR QFE_ENCODE_ZERO_EXACTLY)
                   else efs)
        in if efs AND (QFE_ROUNDDOWN OR QFE_ROUNDUP) = (QFE_ROUNDDOWN OR QFE_ROUNDUP)
           then Err InvalidEncodeFlags else Ok efs)"

text \<open>Decimal literals are rounded once.\<close>

definition EQUAL_EPSILON :: f32 where
  "EQUAL_EPSILON = round_flt binary32 False 1 1000 0"

definition close_enough :: "f32 \<Rightarrow> f32 \<Rightarrow> f32 \<Rightarrow> bool" where
  "close_enough a b epsilon \<longleftrightarrow> fl_le (fl_abs (fl_sub binary32 a b)) epsilon"

definition MULTIPLIERS :: "f32 list" where
  "MULTIPLIERS = [round_flt binary32 False 9999 10000 0, round_flt binary32 False 99 100 0,
     round_flt binary32 False 9 10 0, round_flt binary32 False 8 10 0, round_flt binary32 False 7 10 0]"

text \<open>\<open>1 << n\<close> on 32 bits: the shift amount is taken modulo 32.\<close>

definition shl1 :: "i32 \<Rightarrow> 32 word" where
  "shl1 n = push_bit (unat (n AND 31)) 1"

definition f64_of_u32 :: "u32 \<Rightarrow> f64" where
  "f64_of_u32 w = fl_of_int binary64 (uint w)"

text \<open>The condition that the highest value leaves the range of integers.\<close>

definition exceeds_range :: "f32 \<Rightarrow> f64 \<Rightarrow> u32 \<Rightarrow> bool" where
  "exceeds_range high_low_mul rng high_value \<longleftrightarrow>
     high_value < fl_to_u32 (fl_mul binary64 (fl_cast binary64 high_low_mul) rng)
     \<or> fl_lt (f64_of_u32 high_value) (fl_mul binary64 (fl_cast binary64 high_low_mul) rng)"

fun squeeze_loop :: "u32 \<Rightarrow> f64 \<Rightarrow> f32 list \<Rightarrow> (quantized_float_error, f32) outcome" where
  "squeeze_loop high_value rng [] = Err InvalidRange"
| "squeeze_loop high_value rng (m # ms) =
     (let high_low_mul =
            fl_mul binary32 (fl_cast binary32 (fl_div binary64 (f64_of_u32 high_value) rng)) m
      in if exceeds_range high_low_mul rng high_value then squeeze_loop high_value rng ms
         else Ok high_low_mul)"

definition range_high_value :: "i32 \<Rightarrow> u32" where
  "range_high_value bit_count = (if bit_count = 32 then 0xFFFFFFFE else shl1 bit_count - 1)"

definition assign_range_multiplier :: "i32 \<Rightarrow> f64 \<Rightarrow> (quantized_float_error, f32) outcome" where
  "assign_range_multiplier bit_count rng =
     (let high_value = range_high_value bit_count;
          high_low_mul =
            (if close_enough (fl_cast binary32 rng) f_zero EQUAL_EPSILON
             then fl_of_int binary32 (uint high_value)
             else fl_cast binary32 (fl_div binary64 (f64_of_u32 high_value) rng))
      in if exceeds_range high_low_mul rng high_value
         then squeeze_loop high_value rng MULTIPLIERS
         else Ok high_low_mul)"

lemma sint_shift_less: "0 <s (n::i32) \<Longrightarrow> sint (signed_drop_bit 1 n) < sint n"
  by (simp add: word_sless_alt sint_signed_drop_bit_eq drop_bit_eq_div)

text \<open>\<open>while n_max_elements > 0\<close>: an arithmetic shift right makes a positive number smaller.\<close>

function num_bits_loop :: "i32 \<Rightarrow> i32 \<Rightarrow> i32" where
  "num_bits_loop n n_bits =
     (if 0 <s n then num_bits_loop (signed_drop_bit 1 n) (n_bits + 1) else n_bits)"
  by pat_completeness auto

termination
  by (relation "measure (\<lambda>(n, _). nat (sint n))") 
    (auto simp: word_sless_alt sint_signed_drop_bit_eq drop_bit_Suc)

declare num_bits_loop.simps [simp del]

definition num_bits_for_count :: "i32 \<Rightarrow> i32" where
  "num_bits_for_count n_max_elements = num_bits_loop n_max_elements 0"

record quantized_float =
  qf_bit_count :: i32
  qf_encode_flags :: i32
  qf_low_value :: f32
  qf_high_value :: f32
  qf_high_low_mul :: f32
  qf_decode_mul :: f32

definition qf_quantize :: "quantized_float \<Rightarrow> f32 \<Rightarrow> f32" where
  "qf_quantize qf val =
     (if fl_lt val (qf_low_value qf) then qf_low_value qf
      else if fl_lt (qf_high_value qf) val then qf_high_value qf
      else
        let rng = fl_sub binary32 (qf_high_value qf) (qf_low_value qf);
            i = fl_to_i32 (fl_mul binary32 (fl_sub binary32 val (qf_low_value qf)) (qf_high_low_mul qf))
        in fl_add binary32 (qf_low_value qf)
             (fl_mul binary32 rng (fl_mul binary32 (f32_of_i32 i) (qf_decode_mul qf))))"

fun grow_bit_count :: "nat \<Rightarrow> i32 \<Rightarrow> i32 \<Rightarrow> (quantized_float_error, i32) outcome" where
  "grow_bit_count 0 bc rng = OutOfFuel"
| "grow_bit_count (Suc fuel) bc rng =
     (if shl1 bc <s rng then grow_bit_count fuel (bc + 1) rng else Ok bc)"

text \<open>The integer range that replaces the given one, and the number of bits that can hold it.\<close>

definition encode_integers ::
    "quantized_float \<Rightarrow> i32 \<Rightarrow> (quantized_float_error, quantized_float \<times> i32) outcome" where
  "encode_integers qf steps =
     (let d = fl_to_i32 (qf_low_value qf) - fl_to_i32 (qf_high_value qf);
          delta = (if d <s 1 then 1 else d);
          rng = shl1 (num_bits_for_count delta)
      in bindO (grow_bit_count 64 (qf_bit_count qf) rng) (\<lambda>bc.
         let (qf, steps) = (if qf_bit_count qf <s bc then (qf\<lparr>qf_bit_count := bc\<rparr>, shl1 bc) else (qf, steps));
             offset = fl_div binary32 (f32_of_i32 rng) (f32_of_i32 steps)
         in Ok (qf\<lparr>qf_high_value := fl_sub binary32 (fl_add binary32 (qf_low_value qf) (f32_of_i32 rng)) offset\<rparr>,
                steps)))"

definition too_close :: "f32 \<Rightarrow> f32 \<Rightarrow> bool" where
  "too_close a b \<longleftrightarrow> fl_lt (fl_abs (fl_sub binary32 a b)) (round_flt binary32 False 1 10000 0)"

text \<open>\<open>Remove unessecary flags\<close>.\<close>

definition remove_flags :: "quantized_float \<Rightarrow> quantized_float" where
  "remove_flags qf =
     (let qf = (if has_flag (qf_encode_flags qf) QFE_ROUNDDOWN
                  \<and> too_close (qf_quantize qf (qf_low_value qf)) (qf_low_value qf)
                then qf\<lparr>qf_encode_flags := clear_flag (qf_encode_flags qf) QFE_ROUNDDOWN\<rparr> else qf);
          qf = (if has_flag (qf_encode_flags qf) QFE_ROUNDUP
                  \<and> too_close (qf_quantize qf (qf_high_value qf)) (qf_high_value qf)
                then qf\<lparr>qf_encode_flags := clear_flag (qf_encode_flags qf) QFE_ROUNDUP\<rparr> else qf);
          qf = (if has_flag (qf_encode_flags qf) QFE_ENCODE_ZERO_EXACTLY
                  \<and> fl_eq (qf_quantize qf f_zero) f_zero
                then qf\<lparr>qf_encode_flags := clear_flag (qf_encode_flags qf) QFE_ENCODE_ZERO_EXACTLY\<rparr> else qf)
      in qf)"

text \<open>One end of the range moves by a step.\<close>

definition shift_end :: "quantized_float \<Rightarrow> i32 \<Rightarrow> quantized_float" where
  "shift_end qf steps =
     (let rng = fl_sub binary32 (qf_high_value qf) (qf_low_value qf);
          offset = fl_div binary32 rng (f32_of_i32 steps)
      in if has_flag (qf_encode_flags qf) QFE_ROUNDDOWN
         then qf\<lparr>qf_high_value := fl_sub binary32 (qf_high_value qf) offset\<rparr>
         else if has_flag (qf_encode_flags qf) QFE_ROUNDUP
         then qf\<lparr>qf_low_value := fl_add binary32 (qf_low_value qf) offset\<rparr> else qf)"

definition quantized_float_new ::
    "i32 \<Rightarrow> i32 \<Rightarrow> f32 \<Rightarrow> f32 \<Rightarrow> (quantized_float_error, quantized_float) outcome" where
  "quantized_float_new bit_count encode_flags low_value high_value =
     (let qf = \<lparr>qf_bit_count = bit_count, qf_encode_flags = encode_flags, qf_low_value = low_value,
                qf_high_value = high_value, qf_high_low_mul = f_zero, qf_decode_mul = f_zero\<rparr>
      in if \<not> (0 <s bit_count \<and> bit_count <s 32) then Panic AssertFailed
         else
           bindO (compute_encode_flags encode_flags low_value high_value) (\<lambda>efs.
           let steps = shl1 bit_count; qf = shift_end (qf\<lparr>qf_encode_flags := efs\<rparr>) steps
           in bindO (if has_flag (qf_encode_flags qf) QFE_ENCODE_INTEGERS_EXACTLY
                     then encode_integers qf steps else Ok (qf, steps)) (\<lambda>(qf, steps).
           let rng = fl_sub binary32 (qf_high_value qf) (qf_low_value qf)
           in bindO (assign_range_multiplier (qf_bit_count qf) (fl_cast binary64 rng)) (\<lambda>mul.
           Ok (remove_flags (qf\<lparr>qf_high_low_mul := mul,
                 qf_decode_mul := fl_div binary32 (fl_of_int binary32 1) (f32_of_i32 (steps - 1))\<rparr>))))))"

subsection \<open>Decoding\<close>

text \<open>\<open>self.bit_count as usize\<close>.\<close>

definition qf_bits :: "quantized_float \<Rightarrow> nat" where
  "qf_bits qf = unat (scast (qf_bit_count qf) :: usize)"

text \<open>The early return \<open>if flag && br.read_bool()? { return }\<close>.\<close>

definition flag_or ::
    "'s bitbuf \<Rightarrow> bool \<Rightarrow> ('s bit_reader, bit_error, 'a) rm \<Rightarrow> ('s bit_reader, bit_error, 'a) rm
     \<Rightarrow> ('s bit_reader, bit_error, 'a) rm" where
  "flag_or B flag early rest =
     (if flag then bindM (read_bool B) (\<lambda>b. if b then early else rest) else rest)"

definition qf_decode :: "'s bitbuf \<Rightarrow> quantized_float \<Rightarrow> ('s bit_reader, bit_error, f32) rm" where
  "qf_decode B qf =
     flag_or B (has_flag (qf_encode_flags qf) QFE_ROUNDDOWN) (retM (qf_low_value qf))
     (flag_or B (has_flag (qf_encode_flags qf) QFE_ROUNDUP) (retM (qf_high_value qf))
     (flag_or B (has_flag (qf_encode_flags qf) QFE_ENCODE_ZERO_EXACTLY) (retM f_zero)
     (let rng = fl_sub binary32 (qf_high_value qf) (qf_low_value qf) in
      bindM (read_ubit64 B (qf_bits qf)) (\<lambda>v.
      retM (fl_add binary32 (qf_low_value qf)
        (fl_mul binary32 rng (fl_mul binary32 (f32_of_u64 v) (qf_decode_mul qf))))))))"

definition qf_skip :: "'s bitbuf \<Rightarrow> quantized_float \<Rightarrow> ('s bit_reader, bit_error, unit) rm" where
  "qf_skip B qf =
     flag_or B (has_flag (qf_encode_flags qf) QFE_ROUNDDOWN) (retM ())
     (flag_or B (has_flag (qf_encode_flags qf) QFE_ROUNDUP) (retM ())
     (flag_or B (has_flag (qf_encode_flags qf) QFE_ENCODE_ZERO_EXACTLY) (retM ())
     (bindM (read_ubit64 B (qf_bits qf)) (\<lambda>_. retM ()))))"

definition qf_skip_bits :: "'s bitbuf \<Rightarrow> quantized_float \<Rightarrow> ('s bit_reader, bit_error, nat) rm" where
  "qf_skip_bits B qf =
     (let down = has_flag (qf_encode_flags qf) QFE_ROUNDDOWN;
          up = has_flag (qf_encode_flags qf) QFE_ROUNDUP;
          zero = has_flag (qf_encode_flags qf) QFE_ENCODE_ZERO_EXACTLY;
          n1 = (if down then 1 else 0 :: nat);
          n2 = n1 + (if up then 1 else 0);
          n3 = n2 + (if zero then 1 else 0)
      in flag_or B down (retM n1)
         (flag_or B up (retM n2)
         (flag_or B zero (retM n3)
         (seqM (skip_bits B (qf_bits qf)) (retM (n3 + qf_bits qf))))))"

subsection \<open>Encode flags\<close>

lemma has_flag_bit:
  "has_flag efs QFE_ROUNDDOWN \<longleftrightarrow> bit efs 0"
  "has_flag efs QFE_ROUNDUP \<longleftrightarrow> bit efs 1"
  "has_flag efs QFE_ENCODE_ZERO_EXACTLY \<longleftrightarrow> bit efs 2"
  "has_flag efs QFE_ENCODE_INTEGERS_EXACTLY \<longleftrightarrow> bit efs 3"
proof -
  have f: "efs AND 2 ^ n \<noteq> 0 \<longleftrightarrow> bit efs n" for n and efs :: i32
    by (simp add: bit_iff_odd_drop_bit and_exp_eq_0_iff_not_bit)
  show "has_flag efs QFE_ROUNDDOWN \<longleftrightarrow> bit efs 0"
    "has_flag efs QFE_ROUNDUP \<longleftrightarrow> bit efs 1"
    "has_flag efs QFE_ENCODE_ZERO_EXACTLY \<longleftrightarrow> bit efs 2"
    "has_flag efs QFE_ENCODE_INTEGERS_EXACTLY \<longleftrightarrow> bit efs 3"
    using f [of efs 0] f [of efs 1] f [of efs 2] f [of efs 3]
    by (simp_all add: has_flag_def QFE_ROUNDDOWN_def QFE_ROUNDUP_def QFE_ENCODE_ZERO_EXACTLY_def
        QFE_ENCODE_INTEGERS_EXACTLY_def)
qed

lemma bit_QFE:
  "bit QFE_ROUNDDOWN i \<longleftrightarrow> i = 0" "bit QFE_ROUNDUP i \<longleftrightarrow> i = 1"
  "bit QFE_ENCODE_ZERO_EXACTLY i \<longleftrightarrow> i = 2"
proof -
  have f: "bit (2 ^ n :: i32) i \<longleftrightarrow> i = n" if "n < 32" for n
    using that by (auto simp: bit_exp_iff)
  show "bit QFE_ROUNDDOWN i \<longleftrightarrow> i = 0" "bit QFE_ROUNDUP i \<longleftrightarrow> i = 1"
    "bit QFE_ENCODE_ZERO_EXACTLY i \<longleftrightarrow> i = 2"
    using f [of 0] f [of 1] f [of 2]
    by (simp_all add: QFE_ROUNDDOWN_def QFE_ROUNDUP_def QFE_ENCODE_ZERO_EXACTLY_def)
qed

lemma bit_clear_flag: "i < 32 \<Longrightarrow> bit (clear_flag efs f) i \<longleftrightarrow> bit efs i \<and> \<not> bit f i"
  by (simp add: clear_flag_def bit_and_iff bit_not_iff)

lemma both_rounding: "efs AND (QFE_ROUNDDOWN OR QFE_ROUNDUP) = (QFE_ROUNDDOWN OR QFE_ROUNDUP)
    \<longleftrightarrow> bit efs 0 \<and> bit efs 1"
proof -
  have "efs AND (QFE_ROUNDDOWN OR QFE_ROUNDUP) = (QFE_ROUNDDOWN OR QFE_ROUNDUP)
      \<longleftrightarrow> (\<forall>i<32. (i = 0 \<or> i = 1) \<longrightarrow> bit efs i)"
    by (subst bit_eq_iff) (force simp: bit_and_iff bit_or_iff bit_QFE)
  then show ?thesis by (auto dest: spec [of _ 0] spec [of _ 1])
qed

lemma compute_encode_flags_exclusive:
  assumes "compute_encode_flags encode_flags low high = Ok efs"
  shows "\<not> (has_flag efs QFE_ROUNDDOWN \<and> has_flag efs QFE_ROUNDUP)
    \<and> (has_flag efs QFE_ENCODE_ZERO_EXACTLY \<longrightarrow> fl_lt low f_zero \<and> fl_lt f_zero high)
    \<and> (has_flag efs QFE_ENCODE_INTEGERS_EXACTLY \<longrightarrow> \<not> has_flag efs QFE_ROUNDDOWN
         \<and> \<not> has_flag efs QFE_ROUNDUP \<and> \<not> has_flag efs QFE_ENCODE_ZERO_EXACTLY)"
proof (cases "encode_flags = 0")
  case True
  with assms show ?thesis by (auto simp: compute_encode_flags_def has_flag_def)
next
  case False
  have "\<exists>e. compute_encode_flags encode_flags low high =
      (let efs = (if \<not> (fl_lt low f_zero \<and> fl_lt f_zero high)
                  then clear_flag e QFE_ENCODE_ZERO_EXACTLY else e);
           efs = (if has_flag efs QFE_ENCODE_INTEGERS_EXACTLY
                  then clear_flag efs (QFE_ROUNDUP OR QFE_ROUNDDOWN OR QFE_ENCODE_ZERO_EXACTLY) else efs)
       in if efs AND (QFE_ROUNDDOWN OR QFE_ROUNDUP) = (QFE_ROUNDDOWN OR QFE_ROUNDUP)
          then Err InvalidEncodeFlags else Ok efs)"
    unfolding compute_encode_flags_def Let_def if_not_P [OF False] by (rule exI, rule refl)
  then obtain e where e: "(let efs = (if \<not> (fl_lt low f_zero \<and> fl_lt f_zero high)
                  then clear_flag e QFE_ENCODE_ZERO_EXACTLY else e);
           efs = (if has_flag efs QFE_ENCODE_INTEGERS_EXACTLY
                  then clear_flag efs (QFE_ROUNDUP OR QFE_ROUNDDOWN OR QFE_ENCODE_ZERO_EXACTLY) else efs)
       in if efs AND (QFE_ROUNDDOWN OR QFE_ROUNDUP) = (QFE_ROUNDDOWN OR QFE_ROUNDUP)
          then Err InvalidEncodeFlags else Ok efs) = Ok efs"
    using assms by auto
  then show ?thesis
    by (auto simp: Let_def has_flag_bit both_rounding bit_clear_flag bit_or_iff bit_QFE split: if_splits)
qed

text \<open>The flags that survive construction: rounding down and rounding up exclude each other,
  zero is only sent exactly when the range spans it, and sending integers exactly excludes the other
  three.\<close>

theorem encode_flags_exclusive:
  assumes "compute_encode_flags encode_flags low high = Ok efs"
  shows "\<not> (has_flag efs QFE_ROUNDDOWN \<and> has_flag efs QFE_ROUNDUP)
    \<and> (has_flag efs QFE_ENCODE_ZERO_EXACTLY \<longrightarrow> fl_lt low f_zero \<and> fl_lt f_zero high)
    \<and> (has_flag efs QFE_ENCODE_INTEGERS_EXACTLY \<longrightarrow> \<not> has_flag efs QFE_ROUNDDOWN
         \<and> \<not> has_flag efs QFE_ROUNDUP \<and> \<not> has_flag efs QFE_ENCODE_ZERO_EXACTLY)"
  by (rule compute_encode_flags_exclusive [OF assms])

theorem encode_flags_exclusive_witness:
  "compute_encode_flags 4 f_zero (fl_of_int binary32 10) = Ok 1 \<and>
   \<not> (has_flag 1 QFE_ROUNDDOWN \<and> has_flag 1 QFE_ROUNDUP)"
proof -
  have "compute_encode_flags 4 f_zero (fl_of_int binary32 10) = Ok 1"
    by (simp add: compute_encode_flags_def Let_def has_flag_def QFE_ROUNDDOWN_def QFE_ROUNDUP_def
        QFE_ENCODE_ZERO_EXACTLY_def QFE_ENCODE_INTEGERS_EXACTLY_def clear_flag_def f_zero_def
        fl_of_int_def round_flt_def binary32_def ilog2_ratio_def bitlen.simps round_div_def signed_int_def)
  with encode_flags_exclusive [OF this] show ?thesis by blast
qed

subsection \<open>The range multiplier\<close>

lemma squeeze_loop_cases:
  "squeeze_loop high_value r ms = (case find (\<lambda>m. \<not> exceeds_range m r high_value)
     (map (fl_mul binary32 (fl_cast binary32 (fl_div binary64 (f64_of_u32 high_value) r))) ms) of
     Some m \<Rightarrow> Ok m | None \<Rightarrow> Err InvalidRange)"
  by (induction ms) (auto simp: Let_def)

lemma signed_val: "0 \<le> d \<Longrightarrow> real_of_int (signed_int s (m * 2 ^ nat d)) * 2 powi e = flt_val (Fin s m (d + e))"
proof -
  assume "0 \<le> d"
  then have "(2::real) ^ nat d = 2 powi d" by (simp add: power_int_def)
  then have "(2::real) ^ nat d * 2 powi e = 2 powi (d + e)" by (simp add: power_int_add)
  then show ?thesis by (simp add: signed_int_def signed_real_def mult.assoc)
qed

lemma fl_lt_val: "is_fin x \<Longrightarrow> is_fin y \<Longrightarrow> fl_lt x y \<longleftrightarrow> flt_val x < flt_val y"
proof (induction x y rule: fl_lt.induct)
  case (1 s1 m1 e1 s2 m2 e2)
  define e where "e = min e1 e2"
  let ?x = "signed_int s1 (m1 * 2 ^ nat (e1 - e))" and ?y = "signed_int s2 (m2 * 2 ^ nat (e2 - e))"
  have "?x < ?y \<longleftrightarrow> real_of_int ?x * 2 powi e < real_of_int ?y * 2 powi e" by simp
  also have "\<dots> \<longleftrightarrow> flt_val (Fin s1 m1 (e1 - e + e)) < flt_val (Fin s2 m2 (e2 - e + e))"
    by (subst (1 2) signed_val) (simp_all add: e_def)
  finally show ?case by (simp add: e_def Let_def)
qed auto

lemma f64_of_u32_val: "is_fin (f64_of_u32 w) \<and> flt_val (f64_of_u32 w) = real (unat w)"
proof -
  have "unat w < 2 ^ 32" using unsigned_less [of w, where ?'a = nat] by simp
  then have "unat w < 2 ^ prec binary64" by (simp add: binary64_def)
  from flt_val_round_exact [OF this, of 0 False] show ?thesis
    by (simp add: f64_of_u32_def fl_of_int_def binary64_def signed_real_def)
qed

lemma to_u32_less:
  assumes "w < fl_to_u32 p" "p \<noteq> Inf False"
  shows "is_fin p \<and> real (unat w) < flt_val p"
proof (cases p)
  case (Fin s m e)
  define t where "t = (if 0 \<le> e then m * 2 ^ nat e else m div 2 ^ nat (- e))"
  define x where "x = max 0 (min (2 ^ 32 - 1) (signed_int s t))"
  have "0 \<le> x" "x < 2 ^ 32" by (auto simp: x_def)
  then have "uint (word_of_int x :: u32) = x" by (simp add: unsigned_of_int take_bit_int_eq_self)
  moreover have "fl_to_u32 p = word_of_int x" by (simp add: fl_to_u32_def Fin x_def t_def)
  ultimately have "uint w < x" using assms(1) by (simp add: word_less_def)
  moreover have "0 \<le> uint w" by simp
  ultimately have "uint w < signed_int s t" by (auto simp: x_def max_def min_def split: if_splits)
  moreover have "\<not> s"
  proof
    assume s
    with \<open>uint w < signed_int s t\<close> have "uint w < - int t" by (simp add: signed_int_def)
    with \<open>0 \<le> uint w\<close> show False by linarith
  qed
  ultimately have s: "\<not> s" "uint w < int t" by (simp_all add: signed_int_def)
  have "real t \<le> real m * 2 powi e"
  proof (cases "0 \<le> e")
    case False
    define k where "k = nat (- e)"
    have t: "t = m div 2 ^ k" using False by (simp add: t_def k_def)
    have "real m * 2 powi e = real m / real (2 ^ k)"
    proof -
      have "e = - int k" using False by (simp add: k_def)
      then show ?thesis by (simp only: power_int_minus power_int_of_nat of_nat_power of_nat_numeral divide_inverse)
    qed
    then show ?thesis unfolding t by (simp only: of_nat_div_le_of_nat)
  qed (simp add: t_def power_int_def)
  moreover have "int (unat w) = uint w" by (rule of_nat_unat)
  then have "real (unat w) < real t" using s(2) by linarith
  ultimately show ?thesis using s(1) by (simp add: Fin signed_real_def)
qed (use assms in \<open>auto simp: fl_to_u32_def word_less_def\<close>)

text \<open>In real numbers: the product is at most the highest value, or is not a number that could exceed it.\<close>

definition keeps_range :: "u32 \<Rightarrow> f64 \<Rightarrow> f32 \<Rightarrow> bool" where
  "keeps_range high_value r m \<longleftrightarrow> (let p = fl_mul binary64 (fl_cast binary64 m) r in
     p \<noteq> Inf False \<and> (is_fin p \<longrightarrow> flt_val p \<le> real (unat high_value)))"

lemma exceeds_keeps: "exceeds_range m r w \<longleftrightarrow> \<not> keeps_range w r m"
proof -
  define p where "p = fl_mul binary64 (fl_cast binary64 m) r"
  obtain s n e where w: "f64_of_u32 w = Fin s n e" using f64_of_u32_val [of w] by (cases "f64_of_u32 w") auto
  have "fl_lt (f64_of_u32 w) p \<longleftrightarrow> \<not> (p \<noteq> Inf False \<and> (is_fin p \<longrightarrow> flt_val p \<le> real (unat w)))"
  proof (cases "is_fin p")
    case True
    then show ?thesis using fl_lt_val [of "f64_of_u32 w" p] f64_of_u32_val [of w] by auto
  next
    case False
    then show ?thesis by (cases p) (simp_all add: w)
  qed
  moreover have "w < fl_to_u32 p \<Longrightarrow> \<not> (p \<noteq> Inf False \<and> (is_fin p \<longrightarrow> flt_val p \<le> real (unat w)))"
    using to_u32_less [of w p] by auto
  ultimately show ?thesis unfolding exceeds_range_def keeps_range_def Let_def p_def [symmetric] by blast
qed

text \<open>The multipliers that come into question, in order: the quotient of the highest value and the range, or the
  highest value itself when the range is close to zero; then the quotient times each of the constants.\<close>

definition range_candidates :: "u32 \<Rightarrow> f64 \<Rightarrow> f32 list" where
  "range_candidates high_value r = (let quotient = fl_cast binary32 (fl_div binary64 (f64_of_u32 high_value) r) in
     (if close_enough (fl_cast binary32 r) f_zero EQUAL_EPSILON then fl_of_int binary32 (uint high_value) else quotient)
     # map (fl_mul binary32 quotient) MULTIPLIERS)"

lemma range_multiplier_first:
  "assign_range_multiplier bit_count r = (case find (keeps_range (range_high_value bit_count) r)
       (range_candidates (range_high_value bit_count) r) of
     Some m \<Rightarrow> Ok m | None \<Rightarrow> Err InvalidRange)"
  by (simp add: assign_range_multiplier_def squeeze_loop_cases exceeds_keeps range_candidates_def Let_def)

text \<open>C17: \<open>assign_range_multiplier\<close> returns the first candidate, unsqueezed first and then squeezed more and more, whose
  product with the range is, in real numbers, at most the highest value of the bits, and fails exactly when
  every one of the six candidates exceeds it.  What it returns also maps the range to an integer that the bits
  can hold.\<close>

theorem range_multiplier_in_range:
  "assign_range_multiplier bit_count r = (case find (keeps_range (range_high_value bit_count) r)
       (range_candidates (range_high_value bit_count) r) of
     Some m \<Rightarrow> Ok m | None \<Rightarrow> Err InvalidRange)
   \<and> (\<forall>m. assign_range_multiplier bit_count r = Ok m \<longrightarrow>
       fl_to_u32 (fl_mul binary64 (fl_cast binary64 m) r) \<le> range_high_value bit_count
       \<and> (is_fin (fl_mul binary64 (fl_cast binary64 m) r) \<longrightarrow>
          flt_val (fl_mul binary64 (fl_cast binary64 m) r) \<le> real (unat (range_high_value bit_count))))"
proof (intro conjI allI impI)
  fix m assume "assign_range_multiplier bit_count r = Ok m"
  then have keeps: "keeps_range (range_high_value bit_count) r m"
    by (auto simp: range_multiplier_first find_Some_iff split: option.splits)
  then show "is_fin (fl_mul binary64 (fl_cast binary64 m) r) \<Longrightarrow>
      flt_val (fl_mul binary64 (fl_cast binary64 m) r) \<le> real (unat (range_high_value bit_count))"
    by (simp add: keeps_range_def Let_def)
  from keeps have "\<not> exceeds_range m r (range_high_value bit_count)" by (simp add: exceeds_keeps)
  then show "fl_to_u32 (fl_mul binary64 (fl_cast binary64 m) r) \<le> range_high_value bit_count"
    by (simp add: exceeds_range_def not_less)
qed (rule range_multiplier_first)

lemma example_range_multiplier:
  "fl_cast binary32 (fl_div binary64 (f64_of_u32 (range_high_value 8)) (fl_of_int binary64 9)) = Fin False 14854827 (- 19)"
  by (simp add: range_high_value_def shl1_def f64_of_u32_def fl_of_int_def round_flt_def binary32_def binary64_def
    ilog2_ratio_def bitlen.simps round_div_def Let_def)


lemmas float_eval = range_high_value_def shl1_def f64_of_u32_def fl_of_int_def round_flt_def binary32_def binary64_def
    ilog2_ratio_def bitlen.simps round_div_def Let_def

lemma example_squeezed: "fl_mul binary32 (Fin False 14854827 (- 19)) (hd MULTIPLIERS) = Fin False 14853341 (- 19)"
  by (simp add: MULTIPLIERS_def float_eval)

lemma example_keeps:
  "\<not> keeps_range (range_high_value 8) (fl_of_int binary64 9) (Fin False 14854827 (- 19))"
  "keeps_range (range_high_value 8) (fl_of_int binary64 9) (Fin False 14853341 (- 19))"
  by (simp_all add: keeps_range_def float_eval signed_real_def power_int_def power_one_over)

lemma sub_zero: "0 < m \<Longrightarrow> - 149 \<le> e \<Longrightarrow> fl_sub F (Fin s m e) f_zero = round_flt F s m (Suc 0) e"
proof -
  have "\<not> int m * 2 ^ k < 0" for k by (simp add: not_less)
  then show "0 < m \<Longrightarrow> - 149 \<le> e \<Longrightarrow> fl_sub F (Fin s m e) f_zero = round_flt F s m (Suc 0) e"
    using round_flt_scale [of m F s "nat (e + 149)" "- 149"]
    by (auto simp: fl_sub_def f_zero_def Let_def signed_int_def min_def zero_less_mult_iff nat_mult_distrib nat_power_eq)
qed

lemma example_not_close: "\<not> close_enough (fl_cast binary32 (fl_of_int binary64 9)) f_zero EQUAL_EPSILON"
proof -
  have "fl_cast binary32 (fl_of_int binary64 9) = Fin False 9437184 (- 20)" by (simp add: float_eval)
  moreover have "fl_sub binary32 (Fin False 9437184 (- 20)) f_zero = Fin False 9437184 (- 20)"
    by (simp add: sub_zero) (simp add: float_eval)
  ultimately show ?thesis
    by (simp add: close_enough_def fl_le_def EQUAL_EPSILON_def float_eval signed_int_def)
qed

theorem range_multiplier_in_range_witness:
  "assign_range_multiplier 8 (fl_of_int binary64 9) = Ok (Fin False 14853341 (- 19))
   \<and> fl_to_u32 (fl_mul binary64 (fl_cast binary64 (Fin False 14853341 (- 19))) (fl_of_int binary64 9)) \<le> range_high_value 8"
proof -
  have m: "map f MULTIPLIERS = f (hd MULTIPLIERS) # map f (tl MULTIPLIERS)" for f by (simp add: MULTIPLIERS_def)
  have "range_candidates (range_high_value 8) (fl_of_int binary64 9)
      = Fin False 14854827 (- 19) # Fin False 14853341 (- 19) # map (fl_mul binary32 (Fin False 14854827 (- 19))) (tl MULTIPLIERS)"
    by (simp only: range_candidates_def Let_def example_range_multiplier example_not_close if_False m example_squeezed)
  note first = this and result = range_multiplier_in_range [of 8 "fl_of_int binary64 9"]
  have "assign_range_multiplier 8 (fl_of_int binary64 9) = Ok (Fin False 14853341 (- 19))"
    using result [THEN conjunct1] example_keeps unfolding first by simp
  with result show ?thesis by blast
qed
subsection \<open>Construction ends\<close>

lemma grow_bit_count_OutOfFuel:
  "grow_bit_count fuel bc r = OutOfFuel \<Longrightarrow> j < fuel \<Longrightarrow> shl1 (bc + of_nat j) <s r"
proof (induction fuel arbitrary: bc j)
  case (Suc fuel)
  then show ?case
    by (cases j) (auto simp: add.commute [of 1] add.assoc split: if_splits dest!: Suc.IH)
qed simp

lemma and_31: "(n::i32) AND 31 = take_bit 5 n"
  by (simp add: take_bit_eq_mask mask_eq_exp_minus_1)

text \<open>Among 32 consecutive shift amounts one gives the greatest power of two an \<open>i32\<close> holds.\<close>

lemma unat_and_31: "unat ((n::i32) AND 31) = unat n mod 32"
  by (simp add: and_31 unsigned_take_bit_eq take_bit_nat_def)

lemma shl1_max: "\<exists>j<32. shl1 (bc + of_nat j) = 2 ^ 30"
proof -
  define j where "j = (62 - unat bc mod 32) mod 32"
  have "unat (bc + of_nat j) mod 32 = (unat bc + j) mod 32"
    by (simp add: unat_word_ariths unat_of_nat take_bit_nat_def mod_mod_cancel mod_simps)
  also have "\<dots> = (unat bc mod 32 + (62 - unat bc mod 32)) mod 32"
    unfolding j_def by (simp only: mod_simps)
  also have "unat bc mod 32 + (62 - unat bc mod 32) = 62"
    using mod_less_divisor [of 32 "unat bc"] by linarith
  finally have "unat ((bc + of_nat j) AND 31) = 30" by (simp add: unat_and_31)
  moreover have "j < 32" by (simp add: j_def)
  ultimately show ?thesis by (intro exI [of _ j]) (simp add: shl1_def push_bit_eq_mult)
qed

lemma shl1_le: "\<not> 2 ^ 30 <s shl1 n"
proof -
  have "unat (n AND 31) < 32"
    by (simp add: and_31 unsigned_take_bit_eq take_bit_nat_less_exp [of 5, simplified])
  then consider "unat (n AND 31) = 31" | "unat (n AND 31) < 31" by linarith
  then have "sint (shl1 n) \<le> 2 ^ 30"
  proof cases
    case 2
    then have less: "(2 :: int) ^ unat (n AND 31) \<le> 2 ^ 30" by (intro power_increasing) auto
    have w: "shl1 n = word_of_int (2 ^ unat (n AND 31))" by (simp add: shl1_def push_bit_eq_mult)
    have "sint (shl1 n) = signed_take_bit 31 (2 ^ unat (n AND 31))" unfolding w sint_sbintrunc' by simp
    also have "\<dots> = 2 ^ unat (n AND 31)" 
      using less zero_le_power [of "2 :: int" "unat (n AND 31)"] by (intro signed_take_bit_int_eq_self) (simp_all del: zero_le_power)
    finally show ?thesis using less by simp
  qed (simp add: shl1_def)
  then show ?thesis by (simp add: word_sless_alt)
qed

lemma grow_bit_count_ends: "grow_bit_count 64 bc (shl1 n) \<noteq> OutOfFuel"
proof
  assume "grow_bit_count 64 bc (shl1 n) = OutOfFuel"
  moreover obtain j where "j < 32" "shl1 (bc + of_nat j) = 2 ^ 30" using shl1_max by blast
  ultimately have "2 ^ 30 <s shl1 n" using grow_bit_count_OutOfFuel [of 64 bc "shl1 n" j] by simp
  then show False using shl1_le by blast
qed

lemma encode_integers_result:
  "encode_integers qf steps \<noteq> OutOfFuel \<and> encode_integers qf steps \<noteq> Err e
   \<and> (encode_integers qf steps = Ok (qf', steps') \<longrightarrow> qf_encode_flags qf' = qf_encode_flags qf)
   \<and> (\<forall>p. encode_integers qf steps \<noteq> Panic p)"
proof -
  have g: "grow_bit_count fuel bc r = OutOfFuel \<or> (\<exists>b. grow_bit_count fuel bc r = Ok b)" for fuel bc r
    by (induction fuel arbitrary: bc) auto
  define d where "d = fl_to_i32 (qf_low_value qf) - fl_to_i32 (qf_high_value qf)"
  obtain b where "grow_bit_count 64 (qf_bit_count qf) (shl1 (num_bits_for_count (if d <s 1 then 1 else d))) = Ok b"
    using g grow_bit_count_ends by metis
  then show ?thesis by (auto simp: encode_integers_def Let_def simp flip: d_def split: if_splits)
qed

lemma remove_flags_bit: "bit (qf_encode_flags (remove_flags qf)) i \<Longrightarrow> bit (qf_encode_flags qf) i"
  by (auto simp: remove_flags_def Let_def clear_flag_def bit_and_iff split: if_splits)

lemma flags_subset:
  assumes "\<And>i. bit (efs' :: i32) i \<Longrightarrow> bit efs i"
  shows "has_flag efs' QFE_ROUNDDOWN \<Longrightarrow> has_flag efs QFE_ROUNDDOWN"
    "has_flag efs' QFE_ROUNDUP \<Longrightarrow> has_flag efs QFE_ROUNDUP"
    "has_flag efs' QFE_ENCODE_ZERO_EXACTLY \<Longrightarrow> has_flag efs QFE_ENCODE_ZERO_EXACTLY"
  using assms by (auto simp: has_flag_bit)

lemma compute_encode_flags_outcome:
  "compute_encode_flags f lo hi = Err InvalidEncodeFlags \<or> (\<exists>efs. compute_encode_flags f lo hi = Ok efs)"
  unfolding compute_encode_flags_def Let_def by (rule if_split [THEN iffD2]) (metis (full_types))

lemma assign_range_multiplier_outcome:
  "assign_range_multiplier bc r = Err InvalidRange \<or> (\<exists>m. assign_range_multiplier bc r = Ok m)"
  by (auto simp: assign_range_multiplier_def Let_def squeeze_loop_cases split: option.splits)

lemma quantized_float_new_outcome:
  "case quantized_float_new bit_count encode_flags low high of
     Ok qf \<Rightarrow> 0 <s bit_count \<and> bit_count <s 32
       \<and> \<not> (has_flag (qf_encode_flags qf) QFE_ROUNDDOWN \<and> has_flag (qf_encode_flags qf) QFE_ROUNDUP)
   | Err e \<Rightarrow> 0 <s bit_count \<and> bit_count <s 32
   | Panic p \<Rightarrow> p = AssertFailed \<and> \<not> (0 <s bit_count \<and> bit_count <s 32)
   | OutOfFuel \<Rightarrow> False"
proof (cases "0 <s bit_count \<and> bit_count <s 32")
  case True
  consider (err) "compute_encode_flags encode_flags low high = Err InvalidEncodeFlags"
    | (ok) efs where "compute_encode_flags encode_flags low high = Ok efs"
    using compute_encode_flags_outcome by blast
  then show ?thesis
  proof cases
    case err
    with True show ?thesis by (simp add: quantized_float_new_def)
  next
    case ok
    define F where "F = (\<lambda>(qf, steps). let rng = fl_sub binary32 (qf_high_value qf) (qf_low_value qf)
           in bindO (assign_range_multiplier (qf_bit_count qf) (fl_cast binary64 rng)) (\<lambda>mul.
           Ok (remove_flags (qf\<lparr>qf_high_low_mul := mul,
                 qf_decode_mul := fl_div binary32 (fl_of_int binary32 1) (f32_of_i32 (steps - 1))\<rparr>))))"
    define q where "q = shift_end \<lparr>qf_bit_count = bit_count, qf_encode_flags = efs,
        qf_low_value = low, qf_high_value = high, qf_high_low_mul = f_zero, qf_decode_mul = f_zero\<rparr>
      (shl1 bit_count)"
    have q: "qf_encode_flags q = efs" by (simp add: q_def shift_end_def Let_def)
    then have new_q: "quantized_float_new bit_count encode_flags low high =
        bindO (if has_flag efs QFE_ENCODE_INTEGERS_EXACTLY then encode_integers q (shl1 bit_count)
               else Ok (q, shl1 bit_count)) F"
      using True ok by (simp add: quantized_float_new_def Let_def F_def flip: q_def)
    obtain q' st where q': "(if has_flag efs QFE_ENCODE_INTEGERS_EXACTLY then encode_integers q (shl1 bit_count)
               else Ok (q, shl1 bit_count)) = Ok (q', st)" "qf_encode_flags q' = efs"
    proof (cases "has_flag efs QFE_ENCODE_INTEGERS_EXACTLY")
      case True
      obtain q' st where "encode_integers q (shl1 bit_count) = Ok (q', st)"
        using encode_integers_result [of q "shl1 bit_count"]
        by (cases "encode_integers q (shl1 bit_count)") auto
      then show thesis using encode_integers_result [of q "shl1 bit_count"] that q True by auto
    qed (use q that in auto)
    have new: "quantized_float_new bit_count encode_flags low high = F (q', st)"
      unfolding new_q q'(1) by simp
    have excl: "\<not> (has_flag efs QFE_ROUNDDOWN \<and> has_flag efs QFE_ROUNDUP)"
      using compute_encode_flags_exclusive [OF ok] by blast
    consider (range_err) "F (q', st) = Err InvalidRange"
      | (made) q'' where "F (q', st) = Ok (remove_flags q'')" "qf_encode_flags q'' = efs"
      using assign_range_multiplier_outcome [of "qf_bit_count q'"
          "fl_cast binary64 (fl_sub binary32 (qf_high_value q') (qf_low_value q'))"] q'(2)
      by (auto simp: F_def Let_def)
    then show ?thesis
    proof cases
      case made
      with excl new True remove_flags_bit [of q''] show ?thesis
        by (auto simp: has_flag_bit)
    qed (use new True in simp)
  qed
qed (simp add: quantized_float_new_def)

text \<open>C16: constructing the decoder always ends (its loop over the bit count does), panics exactly
  when the bit count is not between 1 and 31, and otherwise fails with one of the two errors or
  returns a decoder that does not have both rounding flags, and has no other flag when it sends
  integers exactly.\<close>

theorem quantized_float_new_result:
  "case quantized_float_new bit_count encode_flags low high of
     Ok qf \<Rightarrow> 0 <s bit_count \<and> bit_count <s 32
       \<and> \<not> (has_flag (qf_encode_flags qf) QFE_ROUNDDOWN \<and> has_flag (qf_encode_flags qf) QFE_ROUNDUP)
   | Err e \<Rightarrow> 0 <s bit_count \<and> bit_count <s 32
   | Panic p \<Rightarrow> p = AssertFailed \<and> \<not> (0 <s bit_count \<and> bit_count <s 32)
   | OutOfFuel \<Rightarrow> False"
  by (rule quantized_float_new_outcome)

subsection \<open>Skipping\<close>

definition skip_from ::
    "'s bitbuf \<Rightarrow> nat \<Rightarrow> ('s bit_reader, 'e, 'a) rm \<Rightarrow> ('s bit_reader, 'f, nat) rm \<Rightarrow> bool" where
  "skip_from B n dec skp \<longleftrightarrow>
     (\<forall>s x s'. dec s = (Ok x, s') \<longrightarrow> (\<exists>k. adv B k s s' \<and> skp s = (Ok (n + k), s')))"

lemma skip_from_flag:
  assumes B: "cursor_laws B" and rest: "skip_from B (n + of_bool f) dec skp"
  shows "skip_from B n (flag_or B f (retM x) dec) (flag_or B f (retM (n + of_bool f)) skp)"
proof (cases f)
  case True
  show ?thesis
    unfolding skip_from_def
  proof (intro allI impI)
    fix s y s' assume "flag_or B f (retM x) dec s = (Ok y, s')"
    with True obtain b s1 where b: "read_bool B s = (Ok b, s1)"
      and r: "(if b then retM x else dec) s1 = (Ok y, s')"
      by (auto simp: flag_or_def bindM_Ok_iff)
    have a: "adv B 1 s s1" by (rule read_adv(2) [OF B b])
    show "\<exists>k. adv B k s s' \<and> flag_or B f (retM (n + of_bool f)) skp s = (Ok (n + k), s')"
    proof (cases b)
      case True
      with r a b \<open>f\<close> show ?thesis by (intro exI [of _ 1]) (auto simp: flag_or_def rm_simps)
    next
      case False
      with r have "dec s1 = (Ok y, s')" by simp
      with rest \<open>f\<close> obtain k where k: "adv B k s1 s'" "skp s1 = (Ok (n + 1 + k), s')"
        unfolding skip_from_def by fastforce
      with adv_trans [OF B a] b False \<open>f\<close> show ?thesis
        by (intro exI [of _ "1 + k"]) (auto simp: flag_or_def rm_simps)
    qed
  qed
qed (use rest in \<open>simp add: flag_or_def\<close>)

lemma skip_from_field:
  assumes B: "cursor_laws B"
  shows "skip_from B n (bindM (read_ubit64 B m) (\<lambda>v. retM (g v))) (seqM (skip_bits B m) (retM (n + m)))"
  unfolding skip_from_def
proof (intro allI impI)
  fix s y s' assume "bindM (read_ubit64 B m) (\<lambda>v. retM (g v)) s = (Ok y, s')"
  then obtain v where v: "read_ubit64 B m s = (Ok v, s')" by (auto simp: bindM_Ok_iff)
  then have "adv B m s s'" using read_adv(1) [OF B v] by simp
  moreover have "m < 2 ^ 63" using read_ubit64_bound(2) [OF B v] by simp
  ultimately show "\<exists>k. adv B k s s' \<and> seqM (skip_bits B m) (retM (n + m)) s = (Ok (n + k), s')"
    using skip_bits_adv [of B m s s'] by (intro exI [of _ m]) (simp add: bindM_Ok_iff)
qed

lemma qf_skip_agrees:
  assumes B: "cursor_laws B"
  shows "skip_agrees B (qf_decode B qf) (qf_skip_bits B qf)"
proof -
  define D where "D = has_flag (qf_encode_flags qf) QFE_ROUNDDOWN"
  define U where "U = has_flag (qf_encode_flags qf) QFE_ROUNDUP"
  define Z where "Z = has_flag (qf_encode_flags qf) QFE_ENCODE_ZERO_EXACTLY"
  have k: "qf_skip_bits B qf = flag_or B D (retM (0 + of_bool D))
    (flag_or B U (retM (0 + of_bool D + of_bool U))
    (flag_or B Z (retM (0 + of_bool D + of_bool U + of_bool Z))
    (seqM (skip_bits B (qf_bits qf)) (retM (0 + of_bool D + of_bool U + of_bool Z + qf_bits qf)))))"
    by (simp add: qf_skip_bits_def Let_def D_def U_def Z_def of_bool_def)
  have "skip_from B 0 (qf_decode B qf) (qf_skip_bits B qf)"
    unfolding k qf_decode_def Let_def D_def [symmetric] U_def [symmetric] Z_def [symmetric]
    by (intro skip_from_flag skip_from_field B)
  then show ?thesis by (simp add: skip_from_def skip_agrees_def)
qed

lemma flag_or_bindM: "bindM (flag_or B f e r) g = flag_or B f (bindM e g) (bindM r g)"
  by (simp add: flag_or_def bindM_assoc if_distrib [where f = "\<lambda>m. bindM m g"] cong: if_cong)

text \<open>\<open>skip\<close> is \<open>decode\<close> without the value, failures included.\<close>

lemma qf_skip_eq: "qf_skip B qf = bindM (qf_decode B qf) (\<lambda>_. retM ())"
  by (simp add: qf_skip_def qf_decode_def flag_or_bindM Let_def bindM_assoc)

text \<open>\<open>skip_bits\<close> of a quantized float returns the number of bits that \<open>decode\<close> reads and leaves
  the reader where \<open>decode\<close> leaves it, and so does \<open>skip\<close>.\<close>

theorem quantized_float_skip:
  assumes "cursor_laws B" "qf_decode B qf s = (Ok x, s')"
  shows "qf_skip_bits B qf s = (Ok (num_bits_read B s' - num_bits_read B s), s')
    \<and> qf_skip B qf s = (Ok (), s')"
proof -
  obtain k where k: "adv B k s s'" "qf_skip_bits B qf s = (Ok k, s')"
    using qf_skip_agrees [OF assms(1), of qf] assms(2) by (rule skip_agreesD)
  with adv_read [OF assms(1) k(1)] assms(2) show ?thesis by (simp add: qf_skip_eq bindM_Ok_iff)
qed

theorem quantized_float_skip_witness:
  "\<exists>x s'. qf_decode ref_bitbuf \<lparr>qf_bit_count = 2, qf_encode_flags = 1, qf_low_value = f_zero,
      qf_high_value = f_zero, qf_high_low_mul = f_zero, qf_decode_mul = f_zero\<rparr>
      \<lparr>br_inner = ([True, False], 0), br_did_check_overflow = False\<rparr> = (Ok x, s') \<and>
    qf_skip_bits ref_bitbuf \<lparr>qf_bit_count = 2, qf_encode_flags = 1, qf_low_value = f_zero,
      qf_high_value = f_zero, qf_high_low_mul = f_zero, qf_decode_mul = f_zero\<rparr>
      \<lparr>br_inner = ([True, False], 0), br_did_check_overflow = False\<rparr>
      = (Ok (num_bits_read ref_bitbuf s' - num_bits_read ref_bitbuf
          \<lparr>br_inner = ([True, False], 0), br_did_check_overflow = False\<rparr>), s')"
proof -
  define qf where "qf = \<lparr>qf_bit_count = 2, qf_encode_flags = 1, qf_low_value = f_zero,
      qf_high_value = f_zero, qf_high_low_mul = f_zero, qf_decode_mul = f_zero\<rparr>"
  define s :: "(bool list \<times> nat) bit_reader" where
    "s = \<lparr>br_inner = ([True, False], 0), br_did_check_overflow = False\<rparr>"
  have "qf_decode ref_bitbuf qf s = (Ok f_zero, \<lparr>br_inner = ([True, False], 1), br_did_check_overflow = False\<rparr>)"
    by (auto simp add: qf_decode_def flag_or_def has_flag_def QFE_ROUNDDOWN_def QFE_ROUNDUP_def
        QFE_ENCODE_ZERO_EXACTLY_def qf_def s_def bindM_Ok_iff
        read_bool_def on_inner_Ok_iff ref_bitbuf_def ref_take_Ok_iff ref_room_def)
  from quantized_float_skip [OF ref_cursor_laws this] this show ?thesis
    unfolding qf_def s_def by blast
qed
end
