(* ===== verification/FieldDecoder.thy ===== *)
theory FieldDecoder
  imports FieldValue QuantizedFloat FxHash
begin

text \<open>
  \<open>haste_core/src/fielddecoder.rs\<close>: the decoders of field values.  The trait objects of the code are
  a datatype whose constructors carry what the decoder structs carry; the wrapper structs that only
  hold a boxed decoder (\<open>InternalF32Decoder\<close>, \<open>F32Decoder\<close>, \<open>U64Decoder\<close>, \<open>Vector3Decoder\<close>,
  \<open>QAngleDecoder\<close>) are the constructor applied to the decoder they hold.  \<open>decode\<close> runs on the context
  (tick interval, scratch buffer for strings) and the reader, \<open>skip_bits\<close> on the reader alone.

  \<open>field_descr\<close> is the part of \<open>FlattenedSerializerField\<close> that comes from the message; a symbol is its
  hash.
\<close>

type_synonym symbol = u64

record field_descr =
  fd_var_type :: symbol
  fd_var_name :: symbol
  fd_bit_count :: "i32 option"
  fd_low_value :: "f32 option"
  fd_high_value :: "f32 option"
  fd_encode_flags :: "i32 option"
  fd_field_serializer_name :: "symbol option"
  fd_send_node :: "symbol option"
  fd_var_encoder :: "symbol option"

definition field_descr_default :: field_descr where
  "field_descr_default = \<lparr>fd_var_type = 0, fd_var_name = 0, fd_bit_count = None, fd_low_value = None,
     fd_high_value = None, fd_encode_flags = None, fd_field_serializer_name = None, fd_send_node = None,
     fd_var_encoder = None\<rparr>"

definition var_encoder_heq :: "field_descr \<Rightarrow> u64 \<Rightarrow> bool" where
  "var_encoder_heq field rhs \<longleftrightarrow> fd_var_encoder field = Some rhs"

text \<open>A byte string literal.\<close>

definition byte_str :: "string \<Rightarrow> u8 list" where
  "byte_str s = map of_char s"

datatype decoder_error =
    DecQuantizedFloat quantized_float_error | DecBit bit_error | DecUTF8

record field_decode_context =
  tick_interval :: f32
  string_buf :: "u8 list"

definition field_decode_context_default :: field_decode_context where
  "field_decode_context_default = \<lparr>tick_interval = f_zero, string_buf = []\<rparr>"

subsection \<open>The decoders\<close>

datatype u64_decoder = U64Varint | U64Fixed64

datatype f32_decoder = F32SimulationTime | F32Coord | F32Normal | F32NoScale | F32Quantized quantized_float

datatype vector3_decoder = Vector3Default f32_decoder | Vector3Normal

datatype qangle_decoder =
    QAnglePitchYaw nat | QAngleNoBitCount | QAnglePrecise | QAngleBitCount nat

datatype field_decoder =
    InvalidDecoder
  | I64Decoder
  | U64Decoder u64_decoder
  | BoolDecoder
  | StringDecoder
  | F32Decoder f32_decoder
  | Vector3Decoder vector3_decoder
  | Vector2Decoder f32_decoder
  | Vector4Decoder f32_decoder
  | QAngleDecoder qangle_decoder

type_synonym ('s, 'a) fd_rm = "(field_decode_context \<times> 's bit_reader, decoder_error, 'a) rm"
type_synonym ('s, 'a) bit_rm = "(field_decode_context \<times> 's bit_reader, bit_error, 'a) rm"

subsection \<open>Construction\<close>

definition u64_decoder_new :: "field_descr \<Rightarrow> u64_decoder" where
  "u64_decoder_new field =
     (if var_encoder_heq field (hash_bytes (byte_str ''fixed64'')) then U64Fixed64 else U64Varint)"

definition default_or :: "'a \<Rightarrow> 'a option \<Rightarrow> 'a" where
  "default_or d x = (case x of Some y \<Rightarrow> y | None \<Rightarrow> d)"

definition quantized_float_decoder_new :: "field_descr \<Rightarrow> (decoder_error, f32_decoder) outcome" where
  "quantized_float_decoder_new field =
     map_ok F32Quantized (map_err DecQuantizedFloat (quantized_float_new
       (default_or 0 (fd_bit_count field)) (default_or 0 (fd_encode_flags field))
       (default_or f_zero (fd_low_value field)) (default_or f_zero (fd_high_value field))))"

definition f32_decoder_new :: "field_descr \<Rightarrow> (decoder_error, f32_decoder) outcome" where
  "f32_decoder_new field =
     (if fd_var_name field = hash_bytes (byte_str ''m_flSimulationTime'')
         \<or> fd_var_name field = hash_bytes (byte_str ''m_flAnimTime'')
      then Ok F32SimulationTime
      else case fd_var_encoder field of
        Some hash \<Rightarrow>
          if hash = hash_bytes (byte_str ''coord'') then Ok F32Coord
          else if hash = hash_bytes (byte_str ''normal'') then Ok F32Normal
          else Panic Unimplemented
      | None \<Rightarrow>
          let bit_count = default_or 0 (fd_bit_count field) in
          if bit_count = 0 \<or> bit_count = 32 then Ok F32NoScale
          else quantized_float_decoder_new field)"

definition vector3_decoder_new :: "field_descr \<Rightarrow> (decoder_error, vector3_decoder) outcome" where
  "vector3_decoder_new field =
     (if var_encoder_heq field (hash_bytes (byte_str ''normal'')) then Ok Vector3Normal
      else map_ok Vector3Default (f32_decoder_new field))"

definition qangle_decoder_new :: "field_descr \<Rightarrow> (decoder_error, qangle_decoder) outcome" where
  "qangle_decoder_new field =
     (let bit_count = unat (scast (default_or 0 (fd_bit_count field)) :: usize);
          by_bit_count = (if bit_count = 0 then Ok QAngleNoBitCount else Ok (QAngleBitCount bit_count))
      in case fd_var_encoder field of
        Some hash \<Rightarrow>
          if hash = hash_bytes (byte_str ''qangle_pitch_yaw'') then Ok (QAnglePitchYaw bit_count)
          else if hash = hash_bytes (byte_str ''qangle_precise'') then Ok QAnglePrecise
          else if hash = hash_bytes (byte_str ''qangle'') then by_bit_count
          else if hash = hash_bytes (byte_str ''QAngle'') then by_bit_count
          else Panic Unimplemented
      | None \<Rightarrow> by_bit_count)"

subsection \<open>Decoding\<close>

text \<open>A reader call inside a decoder: \<open>br.read_..()?\<close> with the error converted.\<close>

definition dec_bits :: "('s bit_reader, bit_error, 'a) rm \<Rightarrow> ('s, 'a) fd_rm" where
  "dec_bits m = map_errM DecBit (on_reader m)"

definition f32_decode :: "'s bitbuf \<Rightarrow> f32_decoder \<Rightarrow> ('s, f32) bit_rm" where
  "f32_decode B d = (case d of
     F32SimulationTime \<Rightarrow> bindM (on_reader (read_uvarint32 B)) (\<lambda>v (ctx, br).
       (Ok (fl_mul binary32 (fl_of_int binary32 (uint v)) (tick_interval ctx)), (ctx, br)))
   | F32Coord \<Rightarrow> on_reader (read_bitcoord B)
   | F32Normal \<Rightarrow> on_reader (read_bitnormal B)
   | F32NoScale \<Rightarrow> on_reader (read_bitfloat B)
   | F32Quantized qf \<Rightarrow> on_reader (qf_decode B qf))"

definition string_decode :: "'s bitbuf \<Rightarrow> ('s, field_value) fd_rm" where
  "string_decode B = (\<lambda>(ctx, br).
     if string_buf ctx \<noteq> [] then (Panic AssertFailed, (ctx, br))
     else case read_string_to_end B False (string_buf ctx, br) of
       (Ok n, (buf, br)) \<Rightarrow>
         (case (slice_to buf n :: (bit_error, u8 list) outcome) of
            Ok bs \<Rightarrow> (Ok (FvString bs), (ctx\<lparr>string_buf := []\<rparr>, br))
          | _ \<Rightarrow> (Panic IndexOutOfBounds, (ctx\<lparr>string_buf := buf\<rparr>, br)))
     | (r, (buf, br)) \<Rightarrow> (map_err DecBit (map_ok (\<lambda>_. FvString []) r), (ctx\<lparr>string_buf := buf\<rparr>, br)))"

definition u64_decode :: "'s bitbuf \<Rightarrow> u64_decoder \<Rightarrow> ('s, field_value) fd_rm" where
  "u64_decode B d = (case d of
     U64Varint \<Rightarrow> bindM (dec_bits (read_uvarint64 B)) (\<lambda>v. retM (FvU64 v))
   | U64Fixed64 \<Rightarrow> bindM (dec_bits (read_bytes B (replicate 8 0))) (\<lambda>buf. retM (FvU64 (from_le_bytes buf))))"

text \<open>The inner decoder of a vector, its error converted by \<open>?\<close>.\<close>

definition dec_f32 :: "'s bitbuf \<Rightarrow> f32_decoder \<Rightarrow> ('s, f32) fd_rm" where
  "dec_f32 B d = map_errM DecBit (f32_decode B d)"

definition vector3_decode :: "'s bitbuf \<Rightarrow> vector3_decoder \<Rightarrow> ('s, field_value) fd_rm" where
  "vector3_decode B d = (case d of
     Vector3Default f \<Rightarrow>
       bindM (dec_f32 B f) (\<lambda>x. bindM (dec_f32 B f) (\<lambda>y. bindM (dec_f32 B f) (\<lambda>z.
       retM (FvVector3 (x, y, z)))))
   | Vector3Normal \<Rightarrow> bindM (dec_bits (read_bitvec3normal B)) (\<lambda>v. retM (FvVector3 v)))"

definition vector2_decode :: "'s bitbuf \<Rightarrow> f32_decoder \<Rightarrow> ('s, field_value) fd_rm" where
  "vector2_decode B f =
     bindM (dec_f32 B f) (\<lambda>x. bindM (dec_f32 B f) (\<lambda>y. retM (FvVector2 (x, y))))"

definition vector4_decode :: "'s bitbuf \<Rightarrow> f32_decoder \<Rightarrow> ('s, field_value) fd_rm" where
  "vector4_decode B f =
     bindM (dec_f32 B f) (\<lambda>x. bindM (dec_f32 B f) (\<lambda>y. bindM (dec_f32 B f) (\<lambda>z.
     bindM (dec_f32 B f) (\<lambda>w. retM (FvVector4 (x, y, z, w))))))"

definition angle_if :: "'s bitbuf \<Rightarrow> bool \<Rightarrow> ('s, f32) fd_rm" where
  "angle_if B b = (if b then dec_bits (read_bitangle B 20) else retM f_zero)"

definition qangle_decode :: "'s bitbuf \<Rightarrow> qangle_decoder \<Rightarrow> ('s, field_value) fd_rm" where
  "qangle_decode B d = (case d of
     QAnglePitchYaw n \<Rightarrow>
       bindM (dec_bits (read_bitangle B n)) (\<lambda>x. bindM (dec_bits (read_bitangle B n)) (\<lambda>y.
       retM (FvQAngle (x, y, f_zero))))
   | QAngleNoBitCount \<Rightarrow> bindM (dec_bits (read_bitvec3coord B)) (\<lambda>v. retM (FvQAngle v))
   | QAnglePrecise \<Rightarrow>
       bindM (dec_bits (read_bool B)) (\<lambda>rx. bindM (dec_bits (read_bool B)) (\<lambda>ry.
       bindM (dec_bits (read_bool B)) (\<lambda>rz.
       bindM (angle_if B rx) (\<lambda>x. bindM (angle_if B ry) (\<lambda>y. bindM (angle_if B rz) (\<lambda>z.
       retM (FvQAngle (x, y, z))))))))
   | QAngleBitCount n \<Rightarrow>
       bindM (dec_bits (read_bitangle B n)) (\<lambda>x. bindM (dec_bits (read_bitangle B n)) (\<lambda>y.
       bindM (dec_bits (read_bitangle B n)) (\<lambda>z. retM (FvQAngle (x, y, z))))))"

definition field_decode :: "'s bitbuf \<Rightarrow> field_decoder \<Rightarrow> ('s, field_value) fd_rm" where
  "field_decode B d = (case d of
     InvalidDecoder \<Rightarrow> liftO (Panic UnreachableCode)
   | I64Decoder \<Rightarrow> bindM (dec_bits (read_varint64 B)) (\<lambda>v. retM (FvI64 v))
   | U64Decoder u \<Rightarrow> u64_decode B u
   | BoolDecoder \<Rightarrow> bindM (dec_bits (read_bool B)) (\<lambda>b. retM (FvBool b))
   | StringDecoder \<Rightarrow> string_decode B
   | F32Decoder f \<Rightarrow> bindM (dec_f32 B f) (\<lambda>x. retM (FvF32 x))
   | Vector3Decoder v \<Rightarrow> vector3_decode B v
   | Vector2Decoder f \<Rightarrow> vector2_decode B f
   | Vector4Decoder f \<Rightarrow> vector4_decode B f
   | QAngleDecoder q \<Rightarrow> qangle_decode B q)"

subsection \<open>Skipping\<close>

text \<open>Read and measure: \<open>br.num_bits_read() - start\<close>.\<close>

definition measure_read :: "'s bitbuf \<Rightarrow> ('s bit_reader, 'e, 'a) rm \<Rightarrow> ('s bit_reader, 'e, nat) rm" where
  "measure_read B m = (\<lambda>br. bindM m (\<lambda>_ br'. (Ok (num_bits_read B br' - num_bits_read B br), br')) br)"

definition skip_exactly :: "'s bitbuf \<Rightarrow> nat \<Rightarrow> ('s bit_reader, bit_error, nat) rm" where
  "skip_exactly B n = seqM (skip_bits B n) (retM n)"

fun skip_string_loop :: "'s bitbuf \<Rightarrow> nat \<Rightarrow> ('s bit_reader, bit_error, unit) rm" where
  "skip_string_loop B 0 = liftO OutOfFuel"
| "skip_string_loop B (Suc fuel) =
     bindM (read_byte B) (\<lambda>val. if val = 0 then retM () else skip_string_loop B fuel)"

definition string_skip_bits :: "'s bitbuf \<Rightarrow> ('s bit_reader, bit_error, nat) rm" where
  "string_skip_bits B = measure_read B (\<lambda>br. skip_string_loop B (Suc (num_bits_left B br)) br)"

definition f32_skip_bits :: "'s bitbuf \<Rightarrow> f32_decoder \<Rightarrow> ('s bit_reader, bit_error, nat) rm" where
  "f32_skip_bits B d = (case d of
     F32SimulationTime \<Rightarrow> measure_read B (read_uvarint32 B)
   | F32Coord \<Rightarrow> measure_read B (read_bitcoord B)
   | F32Normal \<Rightarrow> skip_exactly B 12
   | F32NoScale \<Rightarrow> skip_exactly B 32
   | F32Quantized qf \<Rightarrow> qf_skip_bits B qf)"

definition sum_skips :: "('s bit_reader, 'e, nat) rm list \<Rightarrow> ('s bit_reader, 'e, nat) rm" where
  "sum_skips ms = foldr (\<lambda>m rest total. bindM m (\<lambda>n. rest (total + n))) ms retM 0"

definition vector3_skip_bits :: "'s bitbuf \<Rightarrow> vector3_decoder \<Rightarrow> ('s bit_reader, bit_error, nat) rm" where
  "vector3_skip_bits B d = (case d of
     Vector3Default f \<Rightarrow> sum_skips [f32_skip_bits B f, f32_skip_bits B f, f32_skip_bits B f]
   | Vector3Normal \<Rightarrow> measure_read B (read_bitvec3normal B))"

definition usize_mul :: "nat \<Rightarrow> nat \<Rightarrow> nat" where
  "usize_mul a b = a * b mod 2 ^ 64"

definition qangle_skip_bits :: "'s bitbuf \<Rightarrow> qangle_decoder \<Rightarrow> ('s bit_reader, bit_error, nat) rm" where
  "qangle_skip_bits B d = (case d of
     QAnglePitchYaw n \<Rightarrow> skip_exactly B (usize_mul n 2)
   | QAngleNoBitCount \<Rightarrow> measure_read B (read_bitvec3coord B)
   | QAnglePrecise \<Rightarrow>
       bindM (read_bool B) (\<lambda>rx. bindM (read_bool B) (\<lambda>ry. bindM (read_bool B) (\<lambda>rz.
       let value_bits = 20 * (of_bool rx + of_bool ry + of_bool rz)
       in seqM (skip_bits B value_bits) (retM (3 + value_bits)))))
   | QAngleBitCount n \<Rightarrow> skip_exactly B (usize_mul n 3))"

definition field_skip_bits :: "'s bitbuf \<Rightarrow> field_decoder \<Rightarrow> ('s bit_reader, decoder_error, nat) rm" where
  "field_skip_bits B d = (case d of
     InvalidDecoder \<Rightarrow> liftO (Panic UnreachableCode)
   | I64Decoder \<Rightarrow> map_errM DecBit (measure_read B (read_varint64 B))
   | U64Decoder U64Varint \<Rightarrow> map_errM DecBit (measure_read B (read_uvarint64 B))
   | U64Decoder U64Fixed64 \<Rightarrow> map_errM DecBit (skip_exactly B 64)
   | BoolDecoder \<Rightarrow> map_errM DecBit (skip_exactly B 1)
   | StringDecoder \<Rightarrow> map_errM DecBit (string_skip_bits B)
   | F32Decoder f \<Rightarrow> map_errM DecBit (f32_skip_bits B f)
   | Vector3Decoder v \<Rightarrow> map_errM DecBit (vector3_skip_bits B v)
   | Vector2Decoder f \<Rightarrow> map_errM DecBit (sum_skips [f32_skip_bits B f, f32_skip_bits B f])
   | Vector4Decoder f \<Rightarrow> map_errM DecBit
       (sum_skips [f32_skip_bits B f, f32_skip_bits B f, f32_skip_bits B f, f32_skip_bits B f])
   | QAngleDecoder q \<Rightarrow> map_errM DecBit (qangle_skip_bits B q))"

text \<open>\<open>skip\<close>: the provided method decodes and drops the value; some decoders override it.\<close>

definition discard :: "('s, 'e, 'a) rm \<Rightarrow> ('s, 'e, unit) rm" where
  "discard m = bindM m (\<lambda>_. retM ())"

definition f32_skip :: "'s bitbuf \<Rightarrow> f32_decoder \<Rightarrow> ('s, unit) bit_rm" where
  "f32_skip B d = (case d of F32Quantized qf \<Rightarrow> on_reader (qf_skip B qf) | _ \<Rightarrow> discard (f32_decode B d))"

definition string_skip :: "'s bitbuf \<Rightarrow> ('s, unit) fd_rm" where
  "string_skip B = dec_bits (\<lambda>br. skip_string_loop B (Suc (num_bits_left B br)) br)"

definition skip_if :: "'s bitbuf \<Rightarrow> bool \<Rightarrow> ('s bit_reader, bit_error, unit) rm" where
  "skip_if B b = (if b then discard (read_ubit64 B 20) else retM ())"

definition qangle_skip :: "'s bitbuf \<Rightarrow> qangle_decoder \<Rightarrow> ('s, unit) fd_rm" where
  "qangle_skip B d = (case d of
     QAnglePitchYaw n \<Rightarrow> dec_bits (seqM (read_ubit64 B n) (discard (read_ubit64 B n)))
   | QAngleNoBitCount \<Rightarrow> dec_bits (discard (read_bitvec3coord B))
   | QAnglePrecise \<Rightarrow> dec_bits
       (bindM (read_bool B) (\<lambda>rx. bindM (read_bool B) (\<lambda>ry. bindM (read_bool B) (\<lambda>rz.
        seqM (skip_if B rx) (seqM (skip_if B ry) (skip_if B rz))))))
   | QAngleBitCount n \<Rightarrow>
       dec_bits (seqM (read_ubit64 B n) (seqM (read_ubit64 B n) (discard (read_ubit64 B n)))))"

definition field_skip :: "'s bitbuf \<Rightarrow> field_decoder \<Rightarrow> ('s, unit) fd_rm" where
  "field_skip B d = (case d of
     StringDecoder \<Rightarrow> string_skip B
   | F32Decoder f \<Rightarrow> map_errM DecBit (f32_skip B f)
   | Vector3Decoder (Vector3Default f) \<Rightarrow>
       map_errM DecBit (seqM (f32_skip B f) (seqM (f32_skip B f) (f32_skip B f)))
   | Vector2Decoder f \<Rightarrow> map_errM DecBit (seqM (f32_skip B f) (f32_skip B f))
   | Vector4Decoder f \<Rightarrow> map_errM DecBit
       (seqM (f32_skip B f) (seqM (f32_skip B f) (seqM (f32_skip B f) (f32_skip B f))))
   | QAngleDecoder q \<Rightarrow> qangle_skip B q
   | _ \<Rightarrow> discard (field_decode B d))"

end
