(* ===== verification/FieldDecoderLaws.thy ===== *)
theory FieldDecoderLaws
  imports FieldDecoder
begin

text \<open>
  The contract between \<open>decode\<close> and \<open>skip_bits\<close>, stated as the locale \<open>field_decoding\<close> and
  interpreted for every decoder of the program: \<open>skip_bits\<close> consumes exactly what \<open>decode\<close> consumes.
  Entities that nobody asked for are skipped field by field, so a decoder that breaks the contract
  would lose the position in the stream.
\<close>

subsection \<open>The contract of \<open>FieldDecode\<close>\<close>

locale field_decoding =
  fixes B :: "'s bitbuf"
    and dec :: "(field_decode_context \<times> 's bit_reader, 'e, 'v) rm"
    and skp :: "('s bit_reader, 'f, nat) rm"
  assumes agree: "\<lbrakk>cursor_laws B; dec (ctx, s) = (Ok v, (ctx', s'))\<rbrakk>
    \<Longrightarrow> ctx' = ctx \<and> (\<exists>k. adv B k s s' \<and> skp s = (Ok k, s'))"
begin

text \<open>What the contract gives: the context is kept, and \<open>skip_bits\<close> measures \<open>decode\<close>.\<close>

lemma measured:
  assumes "cursor_laws B" "dec (ctx, s) = (Ok v, (ctx', s'))"
  shows "ctx' = ctx \<and> skp s = (Ok (num_bits_read B s' - num_bits_read B s), s')"
  using agree [OF assms] adv_read [OF assms(1)] by fastforce

lemma mapped: "field_decoding B (bindM dec (\<lambda>v. retM (g v))) skp"
proof
  fix ctx s v ctx' s'
  assume "cursor_laws B" "bindM dec (\<lambda>v. retM (g v)) (ctx, s) = (Ok v, (ctx', s'))"
  then show "ctx' = ctx \<and> (\<exists>k. adv B k s s' \<and> skp s = (Ok k, s'))"
    using agree by (auto simp: bindM_Ok_iff)
qed

lemma skip_mapped: "field_decoding B dec (map_errM h skp)"
  by unfold_locales (simp add: agree)

end

text \<open>A sequence of decoders against the running total of \<open>skip_bits\<close>.\<close>

definition totals ::
    "'s bitbuf \<Rightarrow> (field_decode_context \<times> 's bit_reader, 'e, 'v) rm
     \<Rightarrow> (nat \<Rightarrow> ('s bit_reader, 'f, nat) rm) \<Rightarrow> bool" where
  "totals B dec skp \<longleftrightarrow> (\<forall>n. cursor_laws B \<longrightarrow> (\<forall>ctx s v ctx' s'. dec (ctx, s) = (Ok v, (ctx', s')) \<longrightarrow>
     ctx' = ctx \<and> (\<exists>k. adv B k s s' \<and> skp n s = (Ok (n + k), s'))))"

lemma totals_retM: "totals B (retM x) retM"
  using adv_refl [of B] by (fastforce simp: totals_def)

lemma totals_bindM:
  assumes d: "field_decoding B dec skp" and f: "\<And>x. totals B (f x) rest"
  shows "totals B (bindM dec f) (\<lambda>total. bindM skp (\<lambda>n. rest (total + n)))"
  unfolding totals_def bindM_Ok_iff
proof (intro allI impI, elim exE conjE)
  fix n ctx s v ctx' s' x st
  assume B: "cursor_laws B" and m: "dec (ctx, s) = (Ok x, st)" and r: "f x st = (Ok v, ctx', s')"
  obtain c1 s1 where st: "st = (c1, s1)" by (cases st)
  obtain k1 where k1: "c1 = ctx" "adv B k1 s s1" "skp s = (Ok k1, s1)"
    using field_decoding.agree [OF d B m [unfolded st]] by blast
  obtain k2 where k2: "ctx' = c1" "adv B k2 s1 s'" "rest (n + k1) s1 = (Ok (n + k1 + k2), s')"
    using f [of x] B r unfolding st totals_def by blast
  have "adv B (k1 + k2) s s'" by (rule adv_trans [OF B k1(2) k2(2)])
  moreover have "\<exists>a b. skp s = (Ok a, b) \<and> rest (n + a) b = (Ok (n + (k1 + k2)), s')"
    using k1 k2 by (simp add: add.assoc)
  ultimately show "ctx' = ctx \<and> (\<exists>k. adv B k s s' \<and>
      (\<exists>x s''. skp s = (Ok x, s'') \<and> rest (n + x) s'' = (Ok (n + k), s')))"
    using k1 k2 by blast
qed

lemma totals_decoding: "totals B dec skp \<Longrightarrow> field_decoding B dec (skp 0)"
  unfolding totals_def field_decoding_def by (metis add_0)

subsection \<open>The reader calls\<close>

lemma measure_read_agrees: "cursor_laws B \<Longrightarrow> moves B m \<Longrightarrow> skip_agrees B m (measure_read B m)"
  unfolding skip_agrees_def measure_read_def
  by (auto simp: bindM_Ok_iff dest: adv_read elim!: movesE)

lemma dec_bits_decoding:
  assumes "cursor_laws B \<Longrightarrow> skip_agrees B m skp"
  shows "field_decoding B (dec_bits m) skp"
proof
  fix ctx s v ctx' s'
  assume B: "cursor_laws B" and d: "dec_bits m (ctx, s) = (Ok v, (ctx', s'))"
  then have "ctx' = ctx" "m s = (Ok v, s')" by (auto simp: dec_bits_def on_reader_def zoomM_Ok_iff)
  with assms [OF B] show "ctx' = ctx \<and> (\<exists>k. adv B k s s' \<and> skp s = (Ok k, s'))"
    unfolding skip_agrees_def by blast
qed

lemma on_reader_decoding:
  assumes "cursor_laws B \<Longrightarrow> skip_agrees B m skp"
  shows "field_decoding B (on_reader m) skp"
proof
  fix ctx s v ctx' s'
  assume B: "cursor_laws B" and d: "on_reader m (ctx, s) = (Ok v, (ctx', s'))"
  then have "ctx' = ctx" "m s = (Ok v, s')" by (auto simp: on_reader_def zoomM_Ok_iff)
  with assms [OF B] show "ctx' = ctx \<and> (\<exists>k. adv B k s s' \<and> skp s = (Ok k, s'))"
    unfolding skip_agrees_def by blast
qed

lemma fixed_agrees:
  assumes B: "cursor_laws B"
  shows "skip_agrees B (read_bool B) (skip_exactly B 1)"
    and "skip_agrees B (read_bytes B (replicate 8 0)) (skip_exactly B 64)"
    and "skip_agrees B (read_bitfloat B) (skip_exactly B 32)"
    and "skip_agrees B (read_bitnormal B) (skip_exactly B 12)"
  unfolding skip_exactly_def
  using read_adv [OF B] adv_trans [OF B, where m = 1 and n = 11]
  by (auto intro!: skip_agrees_fixed simp: read_bitfloat_def read_bitnormal_def bindM_Ok_iff Let_def
      NORMAL_FRACTIONAL_BITS_def) (fastforce dest: read_adv(5) [OF B])+

subsection \<open>Every decoder meets the contract\<close>

interpretation f32: field_decoding B "f32_decode B d" "f32_skip_bits B d" for B d
proof (cases d)
  case F32SimulationTime
  have "field_decoding B (bindM (on_reader (read_uvarint32 B)) (\<lambda>v (ctx, br).
      (Ok (fl_mul binary32 (fl_of_int binary32 (uint v)) (tick_interval ctx)), (ctx, br))))
    (measure_read B (read_uvarint32 B))"
  proof
    fix ctx s v ctx' s'
    assume B: "cursor_laws B" and d: "bindM (on_reader (read_uvarint32 B)) (\<lambda>v (ctx, br).
      (Ok (fl_mul binary32 (fl_of_int binary32 (uint v)) (tick_interval ctx)), (ctx, br))) (ctx, s)
      = (Ok v, (ctx', s'))"
    then obtain w where "read_uvarint32 B s = (Ok w, s')" "ctx' = ctx"
      by (auto simp: bindM_Ok_iff on_reader_def zoomM_Ok_iff)
    with measure_read_agrees [OF B moves_on_moves [OF read_moves(6) [OF B]]]
    show "ctx' = ctx \<and> (\<exists>k. adv B k s s' \<and> measure_read B (read_uvarint32 B) s = (Ok k, s'))"
      unfolding skip_agrees_def by blast
  qed
  with F32SimulationTime show "field_decoding B (f32_decode B d) (f32_skip_bits B d)"
    by (simp add: f32_decode_def f32_skip_bits_def)
qed (auto simp: f32_decode_def f32_skip_bits_def
    intro!: on_reader_decoding measure_read_agrees fixed_agrees qf_skip_agrees read_bitcoord_moves)

lemma dec_f32_decoding: "field_decoding B (dec_f32 B f) (f32_skip_bits B f)"
  by unfold_locales (simp add: dec_f32_def f32.agree)

interpretation vector2: field_decoding B "vector2_decode B f"
  "sum_skips [f32_skip_bits B f, f32_skip_bits B f]" for B f
  unfolding vector2_decode_def sum_skips_def foldr.simps o_def id_def
  by (intro totals_decoding totals_bindM dec_f32_decoding totals_retM)

interpretation vector4: field_decoding B "vector4_decode B f"
  "sum_skips [f32_skip_bits B f, f32_skip_bits B f, f32_skip_bits B f, f32_skip_bits B f]" for B f
  unfolding vector4_decode_def sum_skips_def foldr.simps o_def id_def
  by (intro totals_decoding totals_bindM dec_f32_decoding totals_retM)

interpretation vector3: field_decoding B "vector3_decode B d" "vector3_skip_bits B d" for B d
proof (cases d)
  case (Vector3Default f)
  then show "field_decoding B (vector3_decode B d) (vector3_skip_bits B d)"
    unfolding vector3_decode_def vector3_skip_bits_def sum_skips_def foldr.simps o_def id_def
      vector3_decoder.case Vector3Default
    by (intro totals_decoding totals_bindM dec_f32_decoding totals_retM)
next
  case Vector3Normal
  then show "field_decoding B (vector3_decode B d) (vector3_skip_bits B d)"
    by (auto simp: vector3_decode_def vector3_skip_bits_def intro!: field_decoding.mapped
        dec_bits_decoding measure_read_agrees move_intros)
qed

interpretation u64: field_decoding B "u64_decode B d"
  "case d of U64Varint \<Rightarrow> measure_read B (read_uvarint64 B) | U64Fixed64 \<Rightarrow> skip_exactly B 64" for B d
  by (cases d) (auto simp: u64_decode_def intro!: field_decoding.mapped dec_bits_decoding
      measure_read_agrees fixed_agrees move_intros)


lemma read_string_to_end_skip:
  assumes B: "cursor_laws B"
  shows "read_string_to_end_loop B False fuel n (buf, s) = (Ok m, (buf', s')) \<Longrightarrow>
    skip_string_loop B fuel s = (Ok (), s') \<and> n \<le> m \<and> length buf' = length buf + (m - n)
    \<and> (\<exists>k. adv B k s s')"
proof (induction fuel arbitrary: n buf s)
  case (Suc fuel)
  then obtain val s1 where b: "read_byte B s = (Ok val, s1)"
    and r: "(if ends_string False val then retM n
       else (\<lambda>(buf, r). read_string_to_end_loop B False fuel (Suc n) (buf @ [val], r))) (buf, s1)
      = (Ok m, (buf', s'))"
    by (auto simp: bindM_Ok_iff on_reader_def zoomM_Ok_iff)
  have a: "adv B 8 s s1" by (rule read_adv(3) [OF B b])
  show ?case
  proof (cases "val = 0")
    case True
    with a b r show ?thesis by (auto simp: bindM_Ok_iff ends_string_def)
  next
    case False
    then have "read_string_to_end_loop B False fuel (Suc n) (buf @ [val], s1) = (Ok m, (buf', s'))"
      using r by (simp add: ends_string_def)
    from Suc.IH [OF this] a b False adv_trans [OF B a] show ?thesis
      by (auto simp: bindM_Ok_iff)
  qed
qed simp

interpretation string: field_decoding B "string_decode B" "string_skip_bits B" for B
proof
  fix ctx s v ctx' s'
  assume B: "cursor_laws B" and d: "string_decode B (ctx, s) = (Ok v, (ctx', s'))"
  obtain n buf where l: "read_string_to_end B False ([], s) = (Ok n, (buf, s'))"
    and c: "string_buf ctx = []" "ctx' = ctx\<lparr>string_buf := []\<rparr>"
  proof -
    obtain r buf s1 where "read_string_to_end B False (string_buf ctx, s) = (r, (buf, s1))"
      by (metis prod.exhaust)
    with d that show thesis
      by (cases r) (auto simp: string_decode_def slice_to_def split: if_splits)
  qed
  have "ctx' = ctx" using c by (cases ctx) simp
  moreover have "skip_string_loop B (Suc (num_bits_left B s)) s = (Ok (), s')" "\<exists>k. adv B k s s'"
    using read_string_to_end_skip [OF B] l unfolding read_string_to_end_def by fastforce+
  ultimately show "ctx' = ctx \<and> (\<exists>k. adv B k s s' \<and> string_skip_bits B s = (Ok k, s'))"
    using adv_read [OF B] by (auto simp: string_skip_bits_def measure_read_def bindM_Ok_iff)
qed

lemma read_bitangle_adv: "cursor_laws B \<Longrightarrow> read_bitangle B n s = (Ok v, s') \<Longrightarrow> adv B n s s' \<and> n \<le> 64"
  using read_adv(1) [of B n s] read_ubit64_bound(2) [of B n s]
  by (auto simp: read_bitangle_def bindM_Ok_iff Let_def)

lemma dec_bits_Ok_iff: "dec_bits m (ctx, s) = (Ok v, (ctx', s')) \<longleftrightarrow> ctx' = ctx \<and> m s = (Ok v, s')"
  by (auto simp: dec_bits_def on_reader_def zoomM_Ok_iff)

lemma angle_if_adv:
  assumes "cursor_laws B" "angle_if B b (ctx, s) = (Ok v, (ctx', s'))"
  shows "ctx' = ctx \<and> adv B (20 * of_bool b) s s'"
  using assms adv_refl [OF assms(1)] read_bitangle_adv [OF assms(1)]
  by (auto simp: angle_if_def dec_bits_Ok_iff split: if_splits)

lemma precise_decoding: "field_decoding B (qangle_decode B QAnglePrecise) (qangle_skip_bits B QAnglePrecise)"
proof
  fix ctx s v ctx' s'
  assume B: "cursor_laws B" and d: "qangle_decode B QAnglePrecise (ctx, s) = (Ok v, (ctx', s'))"
  obtain rx s1 ry s2 rz s3 x c4 s4 y c5 s5 z where
    r: "read_bool B s = (Ok rx, s1)" "read_bool B s1 = (Ok ry, s2)" "read_bool B s2 = (Ok rz, s3)"
    and a: "angle_if B rx (ctx, s3) = (Ok x, (c4, s4))" "angle_if B ry (c4, s4) = (Ok y, (c5, s5))"
      "angle_if B rz (c5, s5) = (Ok z, (ctx', s'))"
    using d by (auto simp: qangle_decode_def bindM_Ok_iff dec_bits_Ok_iff)
  define n where "n = 20 * (of_bool rx + of_bool ry + of_bool rz :: nat)"
  have h: "adv B 3 s s3"
    using adv_trans [OF B adv_trans [OF B read_adv(2) [OF B r(1)] read_adv(2) [OF B r(2)]]
        read_adv(2) [OF B r(3)]] by (simp add: numeral_3_eq_3)
  have t: "adv B n s3 s'" "ctx' = ctx"
    using adv_trans [OF B adv_trans [OF B conjunct2 [OF angle_if_adv [OF B a(1)]]
          conjunct2 [OF angle_if_adv [OF B a(2)]]] conjunct2 [OF angle_if_adv [OF B a(3)]]]
      angle_if_adv [OF B a(1)] angle_if_adv [OF B a(2)] angle_if_adv [OF B a(3)]
    by (simp_all add: n_def distrib_left)
  have "skip_bits B n s3 = (Ok (), s')" by (rule skip_bits_adv [OF t(1)]) (simp add: n_def)
  then have "qangle_skip_bits B QAnglePrecise s = (Ok (3 + n), s')"
    using r by (auto simp: qangle_skip_bits_def bindM_Ok_iff Let_def n_def)
  with adv_trans [OF B h t(1)] t(2)
  show "ctx' = ctx \<and> (\<exists>k. adv B k s s' \<and> qangle_skip_bits B QAnglePrecise s = (Ok k, s'))" by blast
qed

interpretation qangle: field_decoding B "qangle_decode B d" "qangle_skip_bits B d" for B d
proof (cases d)
  case (QAnglePitchYaw n)
  have "field_decoding B (qangle_decode B (QAnglePitchYaw n)) (skip_exactly B (usize_mul n 2))"
  proof
    fix ctx s v ctx' s'
    assume B: "cursor_laws B" and d: "qangle_decode B (QAnglePitchYaw n) (ctx, s) = (Ok v, (ctx', s'))"
    then obtain x s1 y where "read_bitangle B n s = (Ok x, s1)" "read_bitangle B n s1 = (Ok y, s')" "ctx' = ctx"
      by (auto simp: qangle_decode_def bindM_Ok_iff dec_bits_Ok_iff)
    with read_bitangle_adv [OF B] have a: "adv B n s s1" "adv B n s1 s'" "n \<le> 64" "ctx' = ctx" by auto
    have "adv B (n + n) s s'" by (rule adv_trans [OF B a(1,2)])
    then have "adv B (n * 2) s s'" by (simp add: mult_2_right)
    moreover have "skip_bits B (n * 2) s = (Ok (), s')" by (rule skip_bits_adv [OF calculation]) (use a in simp)
    ultimately show "ctx' = ctx \<and> (\<exists>k. adv B k s s' \<and> skip_exactly B (usize_mul n 2) s = (Ok k, s'))"
      using a by (auto simp: skip_exactly_def usize_mul_def bindM_Ok_iff)
  qed
  with QAnglePitchYaw show "field_decoding B (qangle_decode B d) (qangle_skip_bits B d)"
    by (simp add: qangle_skip_bits_def)
next
  case (QAngleBitCount n)
  have "field_decoding B (qangle_decode B (QAngleBitCount n)) (skip_exactly B (usize_mul n 3))"
  proof
    fix ctx s v ctx' s'
    assume B: "cursor_laws B" and d: "qangle_decode B (QAngleBitCount n) (ctx, s) = (Ok v, (ctx', s'))"
    then obtain x s1 y s2 z where "read_bitangle B n s = (Ok x, s1)" "read_bitangle B n s1 = (Ok y, s2)"
      "read_bitangle B n s2 = (Ok z, s')" "ctx' = ctx"
      by (auto simp: qangle_decode_def bindM_Ok_iff dec_bits_Ok_iff)
    with read_bitangle_adv [OF B] have a: "adv B n s s1" "adv B n s1 s2" "adv B n s2 s'" "n \<le> 64" "ctx' = ctx" by auto
    have "adv B (n + n + n) s s'" by (rule adv_trans [OF B adv_trans [OF B a(1,2)] a(3)])
    moreover have "n + n + n = n * 3" by simp
    ultimately have "adv B (n * 3) s s'" by metis
    moreover have "skip_bits B (n * 3) s = (Ok (), s')" by (rule skip_bits_adv [OF calculation]) (use a in simp)
    ultimately show "ctx' = ctx \<and> (\<exists>k. adv B k s s' \<and> skip_exactly B (usize_mul n 3) s = (Ok k, s'))"
      using a by (auto simp: skip_exactly_def usize_mul_def bindM_Ok_iff)
  qed
  with QAngleBitCount show "field_decoding B (qangle_decode B d) (qangle_skip_bits B d)"
    by (simp add: qangle_skip_bits_def)
next
  case QAngleNoBitCount
  then show "field_decoding B (qangle_decode B d) (qangle_skip_bits B d)"
    by (auto simp: qangle_decode_def qangle_skip_bits_def intro!: field_decoding.mapped
        dec_bits_decoding measure_read_agrees move_intros)
qed (use precise_decoding in simp)

interpretation decoder: field_decoding B "field_decode B d" "field_skip_bits B d" for B d
proof (cases d)
  case (U64Decoder u)
  have "field_decoding B (u64_decode B u) (map_errM DecBit
      (case u of U64Varint \<Rightarrow> measure_read B (read_uvarint64 B) | U64Fixed64 \<Rightarrow> skip_exactly B 64))"
    by (rule u64.skip_mapped)
  with U64Decoder show "field_decoding B (field_decode B d) (field_skip_bits B d)"
    by (cases u) (simp_all add: field_decode_def field_skip_bits_def)
next
  case InvalidDecoder
  then show "field_decoding B (field_decode B d) (field_skip_bits B d)"
    by unfold_locales (simp add: field_decode_def)
qed (simp_all add: field_decode_def field_skip_bits_def string.skip_mapped vector2.skip_mapped
    vector3.skip_mapped vector4.skip_mapped qangle.skip_mapped field_decoding.mapped
    field_decoding.skip_mapped dec_bits_decoding measure_read_agrees fixed_agrees
    fixed_agrees [simplified] move_intros dec_f32_decoding)

text \<open>C10: for every decoder, \<open>skip_bits\<close> leaves the reader exactly where \<open>decode\<close> leaves it and returns
  the number of bits that \<open>decode\<close> consumed, and \<open>decode\<close> leaves the decoding context as it found it.
  A field that is not wanted can be skipped without losing the stream.\<close>

theorem skip_bits_follows_decode:
  assumes "cursor_laws B" "field_decode B d (ctx, s) = (Ok v, (ctx', s'))"
  shows "field_skip_bits B d s = (Ok (num_bits_read B s' - num_bits_read B s), s') \<and> ctx' = ctx"
  using decoder.measured [OF assms] by simp

theorem skip_bits_follows_decode_witness:
  "\<exists>v s'. field_decode ref_bitbuf (Vector2Decoder F32Normal) (field_decode_context_default,
      \<lparr>br_inner = (replicate 24 True, 0), br_did_check_overflow = False\<rparr>)
      = (Ok v, (field_decode_context_default, s'))
    \<and> field_skip_bits ref_bitbuf (Vector2Decoder F32Normal)
      \<lparr>br_inner = (replicate 24 True, 0), br_did_check_overflow = False\<rparr>
      = (Ok (num_bits_read ref_bitbuf s' - num_bits_read ref_bitbuf
          \<lparr>br_inner = (replicate 24 True, 0), br_did_check_overflow = False\<rparr>), s')"
proof -
  define s :: "nat \<Rightarrow> (bool list \<times> nat) bit_reader" where
    "s = (\<lambda>i. \<lparr>br_inner = (replicate 24 True, i), br_did_check_overflow = False\<rparr>)"
  have step: "\<exists>x. read_bitnormal ref_bitbuf (s (12 * i)) = (Ok x, s (12 * Suc i))" if "i < 2" for i
    using that
    by (auto simp: read_bitnormal_def bindM_Ok_iff read_bool_def read_ubit64_def on_inner_Ok_iff s_def
        ref_bitbuf_def ref_take_Ok_iff ref_room_def NORMAL_FRACTIONAL_BITS_def Let_def)
  obtain x y where "read_bitnormal ref_bitbuf (s 0) = (Ok x, s 12)" "read_bitnormal ref_bitbuf (s 12) = (Ok y, s 24)"
    using step [of 0] step [of 1] by auto
  then have "field_decode ref_bitbuf (Vector2Decoder F32Normal) (field_decode_context_default, s 0)
      = (Ok (FvVector2 (x, y)), (field_decode_context_default, s 24))"
    by (simp add: field_decode_def vector2_decode_def dec_f32_def f32_decode_def bindM_Ok_iff
        on_reader_def zoomM_Ok_iff)
  from skip_bits_follows_decode [OF ref_cursor_laws this] this show ?thesis
    unfolding s_def by blast
qed

subsection \<open>\<open>skip\<close>\<close>

lemma on_reader_discard: "on_reader (bindM m (\<lambda>_. retM ())) = discard (on_reader m)"
  by (auto simp: fun_eq_iff on_reader_def zoomM_def discard_def bindM_def rm_simps
      split: prod.splits outcome.splits)

lemma f32_skip_eq: "f32_skip B d = discard (f32_decode B d)"
  by (cases d) (simp_all add: f32_skip_def f32_decode_def qf_skip_eq on_reader_discard)

lemma string_skip_follows:
  assumes B: "cursor_laws B" and d: "string_decode B (ctx, s) = (Ok v, (ctx', s'))"
  shows "string_skip B (ctx, s) = (Ok (), (ctx', s'))"
proof -
  obtain k where "string_skip_bits B s = (Ok k, s')" "ctx' = ctx" using string.agree [OF assms] by blast
  then show ?thesis
    by (auto simp: string_skip_bits_def measure_read_def bindM_Ok_iff string_skip_def dec_bits_Ok_iff)
qed

lemma read_bitangle_reads: "read_bitangle B n s = (Ok v, s') \<Longrightarrow> \<exists>u. read_ubit64 B n s = (Ok u, s')"
  by (auto simp: read_bitangle_def bindM_Ok_iff Let_def)

lemma angle_if_skip: "angle_if B b (ctx, s) = (Ok v, (ctx', s')) \<Longrightarrow> ctx' = ctx \<and> skip_if B b s = (Ok (), s')"
  by (cases b) (auto simp: angle_if_def skip_if_def dec_bits_Ok_iff discard_def bindM_Ok_iff
      dest: read_bitangle_reads)

lemma qangle_skip_follows:
  assumes "qangle_decode B q (ctx, s) = (Ok v, (ctx', s'))"
  shows "qangle_skip B q (ctx, s) = (Ok (), (ctx', s'))"
proof (cases q)
  case QAnglePrecise
  then obtain rx s1 ry s2 rz s3 x c4 s4 y c5 s5 z where
    r: "read_bool B s = (Ok rx, s1)" "read_bool B s1 = (Ok ry, s2)" "read_bool B s2 = (Ok rz, s3)"
    and a: "angle_if B rx (ctx, s3) = (Ok x, (c4, s4))" "angle_if B ry (c4, s4) = (Ok y, (c5, s5))"
      "angle_if B rz (c5, s5) = (Ok z, (ctx', s'))"
    using assms by (auto simp: qangle_decode_def bindM_Ok_iff dec_bits_Ok_iff)
  then have "ctx' = ctx" "skip_if B rx s3 = (Ok (), s4)" "skip_if B ry s4 = (Ok (), s5)"
    "skip_if B rz s5 = (Ok (), s')" using a [THEN angle_if_skip] by auto
  with QAnglePrecise r show ?thesis by (auto simp: qangle_skip_def dec_bits_Ok_iff bindM_Ok_iff)
next
  case (QAnglePitchYaw n)
  with assms show ?thesis
    by (fastforce simp: qangle_decode_def qangle_skip_def bindM_Ok_iff dec_bits_Ok_iff discard_def
        dest!: read_bitangle_reads)
next
  case (QAngleBitCount n)
  with assms show ?thesis
    by (fastforce simp: qangle_decode_def qangle_skip_def bindM_Ok_iff dec_bits_Ok_iff discard_def
        dest!: read_bitangle_reads)
qed (use assms in \<open>auto simp: qangle_decode_def qangle_skip_def bindM_Ok_iff dec_bits_Ok_iff discard_def\<close>)

text \<open>\<open>skip\<close>, the method that keeps the context, also ends where \<open>decode\<close> ends.\<close>

theorem skip_follows_decode:
  assumes B: "cursor_laws B" and d: "field_decode B d (ctx, s) = (Ok v, (ctx', s'))"
  shows "field_skip B d (ctx, s) = (Ok (), (ctx', s'))"
proof (cases d)
  case StringDecoder
  with d string_skip_follows [OF B] show ?thesis by (simp add: field_decode_def field_skip_def)
next
  case (QAngleDecoder q)
  with d show ?thesis using qangle_skip_follows by (simp add: field_decode_def field_skip_def)
next
  case (Vector3Decoder v)
  with d show ?thesis
    by (cases v) (auto simp: field_decode_def field_skip_def vector3_decode_def dec_f32_def f32_skip_eq
        discard_def bindM_Ok_iff)
qed (use d in \<open>auto simp: field_decode_def field_skip_def vector2_decode_def vector4_decode_def
    dec_f32_def f32_skip_eq discard_def bindM_Ok_iff\<close>)

theorem skip_follows_decode_witness:
  "field_skip ref_bitbuf BoolDecoder (field_decode_context_default,
      \<lparr>br_inner = ([True], 0), br_did_check_overflow = False\<rparr>)
    = (Ok (), (field_decode_context_default, \<lparr>br_inner = ([True], 1), br_did_check_overflow = False\<rparr>))"
  by (rule skip_follows_decode [OF ref_cursor_laws, where v = "FvBool True"])
    (auto simp add: field_decode_def bindM_Ok_iff dec_bits_Ok_iff read_bool_def on_inner_Ok_iff
      ref_bitbuf_def ref_take_Ok_iff ref_room_def)

subsection \<open>Decoding ends\<close>

lemma skip_string_loop_fuel:
  assumes B: "cursor_laws B"
  shows "num_bits_left B s < fuel \<Longrightarrow> skip_string_loop B fuel s \<noteq> (OutOfFuel, s')"
proof (induction fuel arbitrary: s)
  case (Suc fuel)
  have "read_byte B s \<noteq> (OutOfFuel, s')" by (intro no_fuelD fuel_intros B)
  moreover have "skip_string_loop B fuel s1 \<noteq> (OutOfFuel, s')" if "read_byte B s = (Ok v, s1)" for v s1
    using read_byte_left [OF B that] Suc.prems by (intro Suc.IH) simp
  ultimately show ?case by (auto elim!: bindM_OutOfFuelE split: if_splits)
qed simp

lemma skip_string_no_fuel [fuel_intros]:
  "cursor_laws B \<Longrightarrow> no_fuel (\<lambda>br. skip_string_loop B (Suc (num_bits_left B br)) br)"
  using skip_string_loop_fuel by (intro no_fuelI) blast

lemma measure_read_no_fuel [fuel_intros]: "no_fuel m \<Longrightarrow> no_fuel (measure_read B m)"
  unfolding no_fuel_def measure_read_def
  by (auto simp: bindM_def split: prod.splits outcome.splits) (metis fst_conv)

lemma dec_bits_no_fuel [fuel_intros]: "no_fuel m \<Longrightarrow> no_fuel (dec_bits m)"
  unfolding dec_bits_def by (intro fuel_intros)

lemma sum_skips_no_fuel [fuel_intros]:
  assumes "\<And>m. m \<in> set ms \<Longrightarrow> no_fuel m"
  shows "no_fuel (sum_skips ms)"
proof -
  have "no_fuel (foldr (\<lambda>m rest total. bindM m (\<lambda>n. rest (total + n))) ms retM t)" for t
    using assms by (induction ms arbitrary: t) (auto intro!: fuel_intros)
  then show ?thesis by (simp add: sum_skips_def)
qed

lemma skip_exactly_no_fuel [fuel_intros]: "cursor_laws B \<Longrightarrow> no_fuel (skip_exactly B n)"
  unfolding skip_exactly_def by (intro fuel_intros)

lemma flag_or_no_fuel [fuel_intros]:
  "cursor_laws B \<Longrightarrow> no_fuel e \<Longrightarrow> no_fuel r \<Longrightarrow> no_fuel (flag_or B f e r)"
  unfolding flag_or_def by (intro fuel_intros)

lemma qf_no_fuel [fuel_intros]:
  assumes "cursor_laws B"
  shows "no_fuel (qf_decode B qf)" "no_fuel (qf_skip_bits B qf)"
  unfolding qf_decode_def qf_skip_bits_def Let_def by (intro fuel_intros assms)+

lemma f32_no_fuel [fuel_intros]:
  assumes "cursor_laws B"
  shows "no_fuel (f32_decode B d)" "no_fuel (f32_skip_bits B d)"
proof -
  have c: "no_fuel (\<lambda>(ctx, br). (Ok (f ctx), (ctx, br)))" for f by (auto simp: no_fuel_def)
  show "no_fuel (f32_decode B d)" "no_fuel (f32_skip_bits B d)"
    by (cases d; simp add: f32_decode_def f32_skip_bits_def; intro fuel_intros assms c)+
qed

lemma string_decode_no_fuel [fuel_intros]:
  assumes "cursor_laws B" shows "no_fuel (string_decode B)"
proof (rule no_fuelI)
  fix s :: "field_decode_context \<times> 'a bit_reader" and s'
  obtain ctx br where s: "s = (ctx, br)" by (cases s)
  obtain r buf br' where r: "read_string_to_end B False (string_buf ctx, br) = (r, (buf, br'))"
    by (metis prod.exhaust)
  moreover have "r \<noteq> OutOfFuel"
    using no_fuelD [OF read_string_to_end_no_fuel [OF assms]] r by metis
  ultimately show "string_decode B s \<noteq> (OutOfFuel, s')"
    by (cases r) (auto simp: s string_decode_def slice_to_def split: if_splits)
qed

lemma field_decode_no_fuel [fuel_intros]:
  assumes "cursor_laws B"
  shows "no_fuel (field_decode B d)"
proof -
  note defs = field_decode_def u64_decode_def dec_f32_def vector2_decode_def vector3_decode_def
    vector4_decode_def qangle_decode_def angle_if_def
  have "u64_decode B u = (case u of U64Varint \<Rightarrow> bindM (dec_bits (read_uvarint64 B)) (\<lambda>v. retM (FvU64 v))
   | U64Fixed64 \<Rightarrow> bindM (dec_bits (read_bytes B (replicate 8 0))) (\<lambda>buf. retM (FvU64 (from_le_bytes buf))))" for u
    by (simp add: u64_decode_def)
  show ?thesis
  proof (cases d)
    case (U64Decoder u)
    then show ?thesis by (cases u; simp add: defs; intro fuel_intros assms)
  next
    case (Vector3Decoder v)
    then show ?thesis by (cases v; simp add: defs; intro fuel_intros assms)
  next
    case (QAngleDecoder q)
    then show ?thesis by (cases q; simp add: defs; intro fuel_intros assms)
  qed (simp add: defs; intro fuel_intros assms; simp)+
qed

lemma field_skip_bits_no_fuel [fuel_intros]:
  assumes "cursor_laws B"
  shows "no_fuel (field_skip_bits B d)"
proof -
  note defs = field_skip_bits_def string_skip_bits_def vector3_skip_bits_def qangle_skip_bits_def Let_def
  show ?thesis
  proof (cases d)
    case StringDecoder
    show ?thesis unfolding StringDecoder field_skip_bits_def string_skip_bits_def field_decoder.case
      by (intro fuel_intros assms)
  next
    case (U64Decoder u)
    then show ?thesis by (cases u; simp add: defs; intro fuel_intros assms)
  next
    case (Vector3Decoder v)
    then show ?thesis by (cases v; simp add: defs; intro fuel_intros assms; auto intro: fuel_intros assms)
  next
    case (QAngleDecoder q)
    then show ?thesis by (cases q; simp add: defs; intro fuel_intros assms)
  qed (simp add: defs; intro fuel_intros assms; auto intro: fuel_intros assms)+
qed

subsection \<open>The string buffer after an error\<close>

text \<open>A string field that the stream cuts short leaves its bytes in the context's buffer, and the
  next string field decoded with that context panics: the buffer is only cleared on success.\<close>

theorem string_buffer_left_after_error:
  assumes "read_string_to_end B False ([], br) = (Err e, (buf, br'))" "string_buf ctx = []" "buf \<noteq> []"
  shows "field_decode B StringDecoder (ctx, br) = (Err (DecBit e), (ctx\<lparr>string_buf := buf\<rparr>, br'))
    \<and> field_decode B StringDecoder (ctx\<lparr>string_buf := buf\<rparr>, br2) = (Panic AssertFailed, (ctx\<lparr>string_buf := buf\<rparr>, br2))"
  using assms by (simp add: field_decode_def string_decode_def)

theorem string_buffer_left_after_error_witness:
  "\<exists>e buf br'. field_decode ref_bitbuf StringDecoder (field_decode_context_default,
      \<lparr>br_inner = (replicate 8 True, 0), br_did_check_overflow = False\<rparr>)
      = (Err (DecBit e), (field_decode_context_default\<lparr>string_buf := buf\<rparr>, br'))
    \<and> field_decode ref_bitbuf StringDecoder (field_decode_context_default\<lparr>string_buf := buf\<rparr>,
      \<lparr>br_inner = ([], 0), br_did_check_overflow = False\<rparr>)
      = (Panic AssertFailed, (field_decode_context_default\<lparr>string_buf := buf\<rparr>,
      \<lparr>br_inner = ([], 0), br_did_check_overflow = False\<rparr>))"
proof -
  define s :: "nat \<Rightarrow> (bool list \<times> nat) bit_reader" where
    "s = (\<lambda>i. \<lparr>br_inner = (replicate 8 True, i), br_did_check_overflow = False\<rparr>)"
  have eight: "replicate 8 True = [True, True, True, True, True, True, True, True]"
    by (simp add: numeral_eq_Suc)
  have byte: "on_reader (read_byte ref_bitbuf) (buf, s 0) = (Ok 255, (buf, s 8))"
    "on_reader (read_byte ref_bitbuf) (buf, s 8) = (Err (OtherBitError 0), (buf, s 8))" for buf :: "u8 list"
    by (simp_all add: on_reader_def zoomM_def read_byte_def on_inner_def s_def ref_bitbuf_def ref_take_def
        ref_room_def bindM_def retM_def word_of_bits_def eight)
  have "num_bits_left ref_bitbuf (s 0) = Suc (Suc 6)"
    by (simp add: num_bits_left_def s_def ref_bitbuf_def ref_room_def)
  then have "read_string_to_end ref_bitbuf False ([], s 0)
      = read_string_to_end_loop ref_bitbuf False (Suc (Suc (Suc 6))) 0 ([], s 0)"
    unfolding read_string_to_end_def snd_conv by (rule arg_cong)
  also have "read_string_to_end_loop ref_bitbuf False (Suc (Suc n)) 0 ([], s 0)
      = (Err (OtherBitError 0), ([255], s 8))" for n
    using byte by (simp add: bindM_run(1) bindM_run(2) ends_string_def)
  finally have "read_string_to_end ref_bitbuf False ([], s 0) = (Err (OtherBitError 0), ([255], s 8))" .
  moreover have "string_buf field_decode_context_default = []" "[255 :: u8] \<noteq> []"
    by (simp_all add: field_decode_context_default_def)
  ultimately show ?thesis
    unfolding s_def using string_buffer_left_after_error by blast
qed

end
