(* ===== verification/Vartype.thy ===== *)
theory Vartype
  imports Prelude
begin

text \<open>
  The crate \<open>haste_vartype\<close> (\<open>tokenizer.rs\<close>, \<open>parser.rs\<close>, \<open>span.rs\<close>, \<open>error.rs\<close>): the parser of the C++
  types that describe entity fields, such as \<open>CNetworkUtlVectorBase< CHandle< CBaseEntity > >\<close>.

  A \<open>str\<close> is its list of characters, a \<open>char\<close> its code point.  The character cursor \<open>Charsor\<close> comes from
  the external crate \<open>dungers\<close>: a record of the operations the tokenizer calls is the parameter of the
  model, and \<open>charsor_laws\<close> says what the tokenizer relies on.
\<close>

type_synonym rchar = nat
type_synonym rstr = "rchar list"

text \<open>A string literal of the program.\<close>

definition str_lit :: "string \<Rightarrow> rstr" where
  "str_lit s = map of_char s"

lemma str_lit_eq_iff [simp]: "str_lit s = str_lit t \<longleftrightarrow> s = t" "str_lit s = [] \<longleftrightarrow> s = []"
  by (auto simp: str_lit_def inj_map_eq_map inj_def)

subsection \<open>The cursor\<close>

record 'c charsor =
  cs_new :: "rstr \<Rightarrow> 'c"
  cs_next :: "'c \<Rightarrow> rchar option \<times> 'c"
  cs_prev_offset :: "'c \<Rightarrow> nat"
  cs_offset :: "'c \<Rightarrow> nat"
  cs_eat_while :: "(rchar \<Rightarrow> bool) \<Rightarrow> 'c \<Rightarrow> 'c"
  cs_slice_range :: "nat \<Rightarrow> nat \<Rightarrow> 'c \<Rightarrow> rstr"

text \<open>The number of bytes of a string in UTF-8.\<close>

definition utf8_len :: "rstr \<Rightarrow> nat" where
  "utf8_len s = sum_list (map (\<lambda>c. if c < 0x80 then 1 else if c < 0x800 then 2
     else if c < 0x10000 then 3 else 4) s)"

text \<open>\<open>view c = (pre, rest)\<close>: the characters already taken and those to come.\<close>

definition charsor_laws :: "'c charsor \<Rightarrow> ('c \<Rightarrow> rstr \<times> rstr) \<Rightarrow> bool" where
  "charsor_laws C view \<longleftrightarrow>
     (\<forall>s. view (cs_new C s) = ([], s)) \<and>
     (\<forall>c pre. view c = (pre, []) \<longrightarrow> cs_next C c = (None, c)) \<and>
     (\<forall>c pre ch rest. view c = (pre, ch # rest) \<longrightarrow>
        (\<exists>c'. cs_next C c = (Some ch, c') \<and> view c' = (pre @ [ch], rest)
          \<and> cs_prev_offset C c' = utf8_len pre)) \<and>
     (\<forall>c pre rest. view c = (pre, rest) \<longrightarrow> cs_offset C c = utf8_len pre) \<and>
     (\<forall>c p pre rest. view c = (pre, rest) \<longrightarrow>
        view (cs_eat_while C p c) = (pre @ takeWhile p rest, dropWhile p rest)) \<and>
     (\<forall>c a b rest. view c = (a @ b, rest) \<longrightarrow>
        cs_slice_range C (utf8_len a) (utf8_len (a @ b)) c = b)"

subsection \<open>Tokens\<close>

datatype vartype_error = UnknownChar rchar | UnexpectedEof | UnexpectedToken u16

record span =
  sp_start :: u16
  sp_end :: u16

definition span_new :: "nat \<Rightarrow> nat \<Rightarrow> span" where
  "span_new a b = \<lparr>sp_start = of_nat a, sp_end = of_nat b\<rparr>"

definition span_to :: "span \<Rightarrow> span \<Rightarrow> span" where
  "span_to a b = \<lparr>sp_start = sp_start a, sp_end = sp_end b\<rparr>"

datatype token_kind =
    LAngle | RAngle | LSquare | RSquare | Asterisk | TokIdent rstr | TokLit rstr

record token =
  tok_kind :: token_kind
  tok_span :: span

subsection \<open>Character classes of the standard library\<close>

definition is_ascii_alphabetic :: "rchar \<Rightarrow> bool" where
  "is_ascii_alphabetic c \<longleftrightarrow> 65 \<le> c \<and> c \<le> 90 \<or> 97 \<le> c \<and> c \<le> 122"

definition is_ascii_digit :: "rchar \<Rightarrow> bool" where
  "is_ascii_digit c \<longleftrightarrow> 48 \<le> c \<and> c \<le> 57"

definition is_whitespace :: "rchar \<Rightarrow> bool" where
  "is_whitespace c \<longleftrightarrow> 9 \<le> c \<and> c \<le> 13 \<or> c \<in> {0x20, 0x85, 0xA0, 0x1680} \<or> 0x2000 \<le> c \<and> c \<le> 0x200A
     \<or> c \<in> {0x2028, 0x2029, 0x202F, 0x205F, 0x3000}"

definition is_ident_start :: "rchar \<Rightarrow> bool" where
  "is_ident_start c \<longleftrightarrow> is_ascii_alphabetic c"

definition is_ident_continue :: "rchar \<Rightarrow> bool" where
  "is_ident_continue c \<longleftrightarrow> is_ascii_alphabetic c \<or> is_ascii_digit c \<or> c = 95"

subsection \<open>The tokenizer\<close>

definition tokenizer_new :: "'c charsor \<Rightarrow> rstr \<Rightarrow> 'c" where
  "tokenizer_new C input = cs_new C input"

definition emit :: "'c charsor \<Rightarrow> token_kind \<Rightarrow> 'c \<Rightarrow> token \<times> 'c" where
  "emit C kind = (\<lambda>c. (\<lparr>tok_kind = kind, tok_span = span_new (cs_prev_offset C c) (cs_offset C c)\<rparr>, c))"

definition emit_ident :: "'c charsor \<Rightarrow> 'c \<Rightarrow> token \<times> 'c" where
  "emit_ident C = (\<lambda>c.
     let start = cs_prev_offset C c; c = cs_eat_while C is_ident_continue c; stop = cs_offset C c in
     (\<lparr>tok_kind = TokIdent (cs_slice_range C start stop c), tok_span = span_new start stop\<rparr>, c))"

definition emit_lit :: "'c charsor \<Rightarrow> 'c \<Rightarrow> token \<times> 'c" where
  "emit_lit C = (\<lambda>c.
     let start = cs_prev_offset C c; c = cs_eat_while C is_ascii_digit c; stop = cs_offset C c in
     (\<lparr>tok_kind = TokLit (cs_slice_range C start stop c), tok_span = span_new start stop\<rparr>, c))"

definition some_tok :: "token \<times> 'c \<Rightarrow> (vartype_error, token option) outcome \<times> 'c" where
  "some_tok = (\<lambda>(t, c). (Ok (Some t), c))"

text \<open>
  \<open>Option<Result<..>>\<close> is transposed, as the parser does at once.  After whitespace has been eaten the
  next character is none, so the loop runs at most twice.
\<close>

fun next_token_loop :: "'c charsor \<Rightarrow> nat \<Rightarrow> ('c, vartype_error, token option) rm" where
  "next_token_loop C 0 c = (OutOfFuel, c)"
| "next_token_loop C (Suc fuel) c = (case cs_next C c of
     (None, c) \<Rightarrow> (Ok None, c)
   | (Some ch, c) \<Rightarrow>
       if ch = 60 then some_tok (emit C LAngle c)
       else if ch = 62 then some_tok (emit C RAngle c)
       else if ch = 91 then some_tok (emit C LSquare c)
       else if ch = 93 then some_tok (emit C RSquare c)
       else if ch = 42 then some_tok (emit C Asterisk c)
       else if is_ident_start ch then some_tok (emit_ident C c)
       else if is_ascii_digit ch then some_tok (emit_lit C c)
       else if is_whitespace ch then next_token_loop C fuel (cs_eat_while C is_whitespace c)
       else (Err (UnknownChar ch), c))"

definition tokenizer_next :: "'c charsor \<Rightarrow> ('c, vartype_error, token option) rm" where
  "tokenizer_next C = next_token_loop C 2"

subsection \<open>The parser\<close>

datatype vt_lit = LitStr rstr | LitNum nat

datatype vt_expr =
    ExIdent rstr
  | ExLit vt_lit
  | ExPointer vt_expr
  | ExTemplate vt_expr vt_expr
  | ExArray vt_expr vt_expr

text \<open>The parser's state: the tokenizer and the token put back.\<close>

type_synonym 'c vt_parser = "'c \<times> token option"

definition vt_parser_new :: "'c charsor \<Rightarrow> rstr \<Rightarrow> 'c vt_parser" where
  "vt_parser_new C input = (tokenizer_new C input, None)"

definition parser_next_token :: "'c charsor \<Rightarrow> ('c vt_parser, vartype_error, token option) rm" where
  "parser_next_token C = (\<lambda>(c, prev_token). case prev_token of
     Some tok \<Rightarrow> (Ok (Some tok), (c, None))
   | None \<Rightarrow> (case tokenizer_next C c of (r, c) \<Rightarrow> (r, (c, None))))"

definition expect_token :: "'c charsor \<Rightarrow> (token_kind \<Rightarrow> bool) \<Rightarrow> ('c vt_parser, vartype_error, token) rm" where
  "expect_token C f = bindM (parser_next_token C) (\<lambda>t. case t of
     Some tok \<Rightarrow> if f (tok_kind tok) then retM tok else errM (UnexpectedToken (sp_start (tok_span tok)))
   | None \<Rightarrow> errM UnexpectedEof)"

text \<open>\<open>str::parse::<usize>\<close> on decimal digits: \<open>None\<close> on overflow.\<close>

definition decimal :: "rstr \<Rightarrow> nat" where
  "decimal s = foldl (\<lambda>n c. 10 * n + (c - 48)) 0 s"

definition parse_usize :: "rstr \<Rightarrow> nat option" where
  "parse_usize s = (if decimal s < 2 ^ 64 then Some (decimal s) else None)"

definition is_ident_tok :: "token_kind \<Rightarrow> bool" where
  "is_ident_tok k \<longleftrightarrow> (case k of TokIdent _ \<Rightarrow> True | _ \<Rightarrow> False)"

definition array_len :: "token \<Rightarrow> (vartype_error, vt_expr) outcome" where
  "array_len identorlit = (case tok_kind identorlit of
     TokIdent ident \<Rightarrow> Ok (ExIdent ident)
   | TokLit lit \<Rightarrow> (case parse_usize lit of
       Some num \<Rightarrow> Ok (ExLit (LitNum num))
     | None \<Rightarrow> Err (UnexpectedToken (sp_start (tok_span identorlit))))
   | _ \<Rightarrow> Err (UnexpectedToken (sp_start (tok_span identorlit))))"

text \<open>\<open>Parser::parse\<close>, with its \<open>while let\<close> loop; the fuel bounds calls and rounds together.\<close>

fun parse_expr :: "'c charsor \<Rightarrow> nat \<Rightarrow> ('c vt_parser, vartype_error, vt_expr) rm"
  and parse_loop :: "'c charsor \<Rightarrow> nat \<Rightarrow> vt_expr \<Rightarrow> ('c vt_parser, vartype_error, vt_expr) rm" where
  "parse_expr C 0 = liftO OutOfFuel"
| "parse_expr C (Suc fuel) =
     bindM (expect_token C is_ident_tok) (\<lambda>first. case tok_kind first of
       TokIdent ident \<Rightarrow> parse_loop C fuel (ExIdent ident)
     | _ \<Rightarrow> liftO (Panic UnreachableCode))"
| "parse_loop C 0 expr = liftO OutOfFuel"
| "parse_loop C (Suc fuel) expr =
     bindM (parser_next_token C) (\<lambda>t. case t of
       None \<Rightarrow> retM expr
     | Some nxt \<Rightarrow> (case tok_kind nxt of
         LAngle \<Rightarrow> bindM (parse_expr C fuel) (\<lambda>arg.
           seqM (expect_token C (\<lambda>k. k = RAngle)) (parse_loop C fuel (ExTemplate expr arg)))
       | LSquare \<Rightarrow> bindM (expect_token C (\<lambda>_. True)) (\<lambda>identorlit.
           bindM (liftO (array_len identorlit)) (\<lambda>len.
           seqM (expect_token C (\<lambda>k. k = RSquare)) (parse_loop C fuel (ExArray expr len))))
       | Asterisk \<Rightarrow> parse_loop C fuel (ExPointer expr)
       | RAngle \<Rightarrow> (\<lambda>(c, _). (Ok expr, (c, Some nxt)))
       | RSquare \<Rightarrow> (\<lambda>(c, _). (Ok expr, (c, Some nxt)))
       | _ \<Rightarrow> errM (UnexpectedToken (sp_start (tok_span nxt)))))"

definition vartype_parse :: "'c charsor \<Rightarrow> rstr \<Rightarrow> (vartype_error, vt_expr) outcome" where
  "vartype_parse C input = fst (parse_expr C (length input + 2) (vt_parser_new C input))"

end
