(* ===== verification/VartypeLaws.thy ===== *)
theory VartypeLaws
  imports Vartype
begin

text \<open>
  What the type parser promises: printing an expression and parsing it back is the identity, and
  parsing returns (an expression or an error, never a panic) on every text.
\<close>

subsection \<open>A cursor\<close>

definition chars_before :: "nat \<Rightarrow> rstr \<Rightarrow> nat" where
  "chars_before a s = length (filter (\<lambda>i. utf8_len (take i s) < a) [0..<length s])"

definition ref_charsor :: "(rstr \<times> rstr \<times> nat) charsor" where
  "ref_charsor = \<lparr>
     cs_new = (\<lambda>s. ([], s, 0)),
     cs_next = (\<lambda>(pre, rest, p). case rest of [] \<Rightarrow> (None, (pre, rest, p))
        | ch # r \<Rightarrow> (Some ch, (pre @ [ch], r, utf8_len pre))),
     cs_prev_offset = (\<lambda>(pre, rest, p). p),
     cs_offset = (\<lambda>(pre, rest, p). utf8_len pre),
     cs_eat_while = (\<lambda>f (pre, rest, p). (pre @ takeWhile f rest, dropWhile f rest, p)),
     cs_slice_range = (\<lambda>a b (pre, rest, p).
       take (chars_before b (pre @ rest) - chars_before a (pre @ rest))
         (drop (chars_before a (pre @ rest)) (pre @ rest)))\<rparr>"

definition ref_view :: "rstr \<times> rstr \<times> nat \<Rightarrow> rstr \<times> rstr" where
  "ref_view = (\<lambda>(pre, rest, p). (pre, rest))"

lemma utf8_len_append: "utf8_len (a @ b) = utf8_len a + utf8_len b"
  by (simp add: utf8_len_def)

lemma utf8_len_pos: "utf8_len (c # s) > utf8_len s"
  by (simp add: utf8_len_def)

lemma utf8_len_0 [simp]: "utf8_len s = 0 \<longleftrightarrow> s = []"
  by (cases s) (auto simp: utf8_len_def)

lemma utf8_len_take_less:
  assumes "i \<le> length s" shows "utf8_len (take i s) < utf8_len s \<longleftrightarrow> i < length s"
proof -
  have "utf8_len s = utf8_len (take i s) + utf8_len (drop i s)"
    by (simp flip: utf8_len_append)
  moreover have "0 < utf8_len (drop i s) \<longleftrightarrow> i < length s"
    by (metis drop_eq_Nil linorder_not_less neq0_conv utf8_len_0)
  ultimately show ?thesis by linarith
qed

lemma length_filter_less: "length (filter (\<lambda>i. i < n) [0..<m]) = min n m"
  by (induction m) auto

lemma chars_before_append: "chars_before (utf8_len a) (a @ b) = length a"
proof -
  have "filter (\<lambda>i. utf8_len (take i (a @ b)) < utf8_len a) [0..<length (a @ b)]
      = filter (\<lambda>i. i < length a) [0..<length (a @ b)]"
  proof (rule filter_cong [OF refl])
    fix i assume "i \<in> set [0..<length (a @ b)]"
    show "utf8_len (take i (a @ b)) < utf8_len a \<longleftrightarrow> i < length a"
      by (cases "i \<le> length a") (auto simp: utf8_len_take_less utf8_len_append)
  qed
  then show ?thesis by (simp only: chars_before_def length_filter_less) simp
qed

lemma ref_charsor_laws: "charsor_laws ref_charsor ref_view"
proof -
  have slice: "cs_slice_range ref_charsor (utf8_len a) (utf8_len (a @ b)) c = b"
    if "ref_view c = (a @ b, rest)" for c a b rest
    using that chars_before_append [of a "b @ rest"] chars_before_append [of "a @ b" rest]
    by (cases c) (auto simp add: ref_charsor_def ref_view_def)
  show ?thesis
    unfolding charsor_laws_def
    using slice by (auto simp: ref_charsor_def ref_view_def split: prod.splits)
qed

subsection \<open>Tokens of a known text\<close>

definition at :: "('c \<Rightarrow> rstr \<times> rstr) \<Rightarrow> 'c vt_parser \<Rightarrow> rstr \<Rightarrow> bool" where
  "at view p rest \<longleftrightarrow> (\<exists>c pre. p = (c, None) \<and> view c = (pre, rest))"

definition reads_token :: "'c charsor \<Rightarrow> ('c \<Rightarrow> rstr \<times> rstr) \<Rightarrow> 'c vt_parser \<Rightarrow> token_kind \<Rightarrow> rstr \<Rightarrow> bool" where
  "reads_token C view p k rest \<longleftrightarrow>
     (\<exists>tok p'. parser_next_token C p = (Ok (Some tok), p') \<and> tok_kind tok = k \<and> at view p' rest)"

lemma cs_next_Cons:
  assumes "charsor_laws C view" "view c = (pre, ch # rest)"
  obtains c' where "cs_next C c = (Some ch, c')" "view c' = (pre @ [ch], rest)"
    "cs_prev_offset C c' = utf8_len pre"
  using assms unfolding charsor_laws_def by blast

lemma punctuation_token:
  assumes C: "charsor_laws C view" and p: "at view p (ch # rest)"
    and ch: "(ch, k) \<in> {(60, LAngle), (62, RAngle), (91, LSquare), (93, RSquare), (42, Asterisk)}"
  shows "reads_token C view p k rest"
proof -
  obtain c pre where c: "p = (c, None)" "view c = (pre, ch # rest)" using p by (auto simp: at_def)
  obtain c' where "cs_next C c = (Some ch, c')" "view c' = (pre @ [ch], rest)"
    using cs_next_Cons [OF C c(2)] by metis
  then show ?thesis
    using ch c by (auto simp: reads_token_def parser_next_token_def tokenizer_next_def numeral_2_eq_2
        some_tok_def emit_def at_def)
qed

lemma takeWhile_run:
  assumes "\<forall>c \<in> set s. P c" "r = [] \<or> \<not> P (hd r)"
  shows "takeWhile P (s @ r) = s" "dropWhile P (s @ r) = r"
  using assms by (cases r; simp add: takeWhile_append dropWhile_append)+

lemma ident_token:
  assumes C: "charsor_laws C view" and p: "at view p (s @ rest)"
    and s: "s \<noteq> []" "is_ident_start (hd s)" "\<forall>c \<in> set s. is_ident_continue c"
    and r: "rest = [] \<or> \<not> is_ident_continue (hd rest)"
  shows "reads_token C view p (TokIdent s) rest"
proof -
  obtain ch t where st: "s = ch # t" using s(1) by (cases s) auto
  obtain c pre where c: "p = (c, None)" "view c = (pre, ch # (t @ rest))" using p st by (auto simp: at_def)
  obtain c' where c': "cs_next C c = (Some ch, c')" "view c' = (pre @ [ch], t @ rest)"
    "cs_prev_offset C c' = utf8_len pre"
    using cs_next_Cons [OF C c(2)] by metis
  have v: "view (cs_eat_while C is_ident_continue c') = (pre @ s, rest)"
    using C c'(2) takeWhile_run [of t is_ident_continue rest] s(3) r st unfolding charsor_laws_def by simp
  then have "cs_offset C (cs_eat_while C is_ident_continue c') = utf8_len (pre @ s)"
    "cs_slice_range C (utf8_len pre) (utf8_len (pre @ s)) (cs_eat_while C is_ident_continue c') = s"
    using C unfolding charsor_laws_def by blast+
  moreover have "ch \<notin> {60, 62, 91, 93, 42}" "is_ident_start ch"
    using s(2) st by (auto simp: is_ident_start_def is_ascii_alphabetic_def)
  ultimately show ?thesis
    using c c' v by (auto simp: reads_token_def parser_next_token_def tokenizer_next_def numeral_2_eq_2
        some_tok_def emit_ident_def at_def Let_def)
qed

lemma lit_token:
  assumes C: "charsor_laws C view" and p: "at view p (s @ rest)"
    and s: "s \<noteq> []" "\<forall>c \<in> set s. is_ascii_digit c"
    and r: "rest = [] \<or> \<not> is_ascii_digit (hd rest)"
  shows "reads_token C view p (TokLit s) rest"
proof -
  obtain ch t where st: "s = ch # t" using s(1) by (cases s) auto
  obtain c pre where c: "p = (c, None)" "view c = (pre, ch # (t @ rest))" using p st by (auto simp: at_def)
  obtain c' where c': "cs_next C c = (Some ch, c')" "view c' = (pre @ [ch], t @ rest)"
    "cs_prev_offset C c' = utf8_len pre"
    using cs_next_Cons [OF C c(2)] by metis
  have v: "view (cs_eat_while C is_ascii_digit c') = (pre @ s, rest)"
    using C c'(2) takeWhile_run [of t is_ascii_digit rest] s(2) r st unfolding charsor_laws_def by simp
  then have "cs_offset C (cs_eat_while C is_ascii_digit c') = utf8_len (pre @ s)"
    "cs_slice_range C (utf8_len pre) (utf8_len (pre @ s)) (cs_eat_while C is_ascii_digit c') = s"
    using C unfolding charsor_laws_def by blast+
  moreover have "ch \<notin> {60, 62, 91, 93, 42}" "\<not> is_ident_start ch" "is_ascii_digit ch"
    using s(2) st by (auto simp: is_ident_start_def is_ascii_alphabetic_def is_ascii_digit_def)
  ultimately show ?thesis
    using c c' v by (auto simp: reads_token_def parser_next_token_def tokenizer_next_def numeral_2_eq_2
        some_tok_def emit_lit_def at_def Let_def)
qed

lemma end_token:
  assumes C: "charsor_laws C view" and p: "at view p []"
  shows "parser_next_token C p = (Ok None, p)"
proof -
  obtain c pre where c: "p = (c, None)" "view c = (pre, [])" using p by (auto simp: at_def)
  then have "cs_next C c = (None, c)" using C unfolding charsor_laws_def by blast
  with c show ?thesis by (simp add: parser_next_token_def tokenizer_next_def numeral_2_eq_2)
qed

subsection \<open>Printing types\<close>

fun show_nat :: "nat \<Rightarrow> rstr" where
  "show_nat n = (if n < 10 then [48 + n] else show_nat (n div 10) @ [48 + n mod 10])"

declare show_nat.simps [simp del]

fun show_expr :: "vt_expr \<Rightarrow> rstr" where
  "show_expr (ExIdent s) = s"
| "show_expr (ExLit (LitStr s)) = s"
| "show_expr (ExLit (LitNum n)) = show_nat n"
| "show_expr (ExPointer e) = show_expr e @ [42]"
| "show_expr (ExTemplate e a) = show_expr e @ [60] @ show_expr a @ [62]"
| "show_expr (ExArray e l) = show_expr e @ [91] @ show_expr l @ [93]"

definition ident_ok :: "rstr \<Rightarrow> bool" where
  "ident_ok s \<longleftrightarrow> s \<noteq> [] \<and> is_ident_start (hd s) \<and> (\<forall>c \<in> set s. is_ident_continue c)"

fun vt_wf :: "vt_expr \<Rightarrow> bool" where
  "vt_wf (ExIdent s) = ident_ok s"
| "vt_wf (ExLit l) = False"
| "vt_wf (ExPointer e) = vt_wf e"
| "vt_wf (ExTemplate e a) = (vt_wf e \<and> vt_wf a)"
| "vt_wf (ExArray e l) = (vt_wf e \<and> (case l of
     ExIdent s \<Rightarrow> ident_ok s | ExLit (LitNum n) \<Rightarrow> n < 2 ^ 64 | _ \<Rightarrow> False))"

text \<open>Tokens of an expression, and those on its spine: calls made before its last token is behind.\<close>

fun vt_spine :: "vt_expr \<Rightarrow> nat" where
  "vt_spine (ExPointer e) = Suc (vt_spine e)"
| "vt_spine (ExTemplate e a) = Suc (vt_spine e)"
| "vt_spine (ExArray e l) = Suc (vt_spine e)"
| "vt_spine _ = 1"

fun vt_tokens :: "vt_expr \<Rightarrow> nat" where
  "vt_tokens (ExPointer e) = vt_tokens e + 1"
| "vt_tokens (ExTemplate e a) = vt_tokens e + vt_tokens a + 2"
| "vt_tokens (ExArray e l) = vt_tokens e + 3"
| "vt_tokens _ = 1"

lemma vt_spine_pos: "1 \<le> vt_spine e" by (induction e) auto
lemma vt_spine_le: "vt_spine e \<le> vt_tokens e" by (induction e) auto

lemma show_nat_digits: "show_nat n \<noteq> [] \<and> (\<forall>c \<in> set (show_nat n). is_ascii_digit c)"
proof (induction n rule: show_nat.induct)
  case (1 n)
  then show ?case by (subst show_nat.simps, subst show_nat.simps) (auto simp: is_ascii_digit_def)
qed

lemma decimal_show_nat: "decimal (show_nat n) = n"
proof (induction n rule: show_nat.induct)
  case (1 n)
  show ?case
  proof (cases "n < 10")
    case False
    with 1 have "decimal (show_nat n) = 10 * (n div 10) + n mod 10"
      by (subst show_nat.simps) (simp add: decimal_def)
    then show ?thesis by simp
  qed (subst show_nat.simps, simp add: decimal_def)
qed

lemma vt_tokens_length: "vt_wf e \<Longrightarrow> vt_tokens e \<le> length (show_expr e)"
proof (induction e)
  case (ExArray e l)
  then have "show_expr l \<noteq> []"
    using show_nat_digits by (cases l) (auto simp: ident_ok_def split: vt_lit.splits)
  with ExArray show ?case by (cases "show_expr l") auto
qed (auto simp: ident_ok_def Suc_le_eq)

definition stops :: "rstr \<Rightarrow> bool" where
  "stops r \<longleftrightarrow> r = [] \<or> hd r \<in> {60, 62, 91, 93, 42}"

lemma stopsD: "stops r \<Longrightarrow> r = [] \<or> \<not> is_ident_continue (hd r)" "stops r \<Longrightarrow> r = [] \<or> \<not> is_ascii_digit (hd r)"
  by (auto simp: stops_def is_ident_continue_def is_ascii_alphabetic_def is_ascii_digit_def)

lemma stops_simps [simp]: "stops []" "stops (60 # r)" "stops (62 # r)" "stops (91 # r)" "stops (93 # r)" "stops (42 # r)"
  by (simp_all add: stops_def)

lemma expect_reads:
  "reads_token C view p k rest \<Longrightarrow> f k \<Longrightarrow>
   \<exists>tok p'. expect_token C f p = (Ok tok, p') \<and> tok_kind tok = k \<and> at view p' rest"
  by (auto simp: reads_token_def expect_token_def bindM_Ok_iff)

text \<open>The token that ended an inner expression is put back, and read again by the caller.\<close>

definition put_back :: "('c \<Rightarrow> rstr \<times> rstr) \<Rightarrow> 'c vt_parser \<Rightarrow> token_kind \<Rightarrow> rstr \<Rightarrow> bool" where
  "put_back view p k rest \<longleftrightarrow> (\<exists>c pre tok. p = (c, Some tok) \<and> tok_kind tok = k \<and> view c = (pre, rest))"

lemma expect_put_back:
  "put_back view p k rest \<Longrightarrow> f k \<Longrightarrow>
   \<exists>tok p'. expect_token C f p = (Ok tok, p') \<and> tok_kind tok = k \<and> at view p' rest"
  by (auto simp: put_back_def expect_token_def parser_next_token_def bindM_Ok_iff at_def)

lemma loop_puts_back:
  assumes C: "charsor_laws C view" and p: "at view p (62 # rest)"
  shows "\<exists>p'. parse_loop C (Suc f) e p = (Ok e, p') \<and> put_back view p' RAngle rest"
proof -
  have "reads_token C view p RAngle rest" using punctuation_token [OF C p] by blast
  then obtain tok p' where "parser_next_token C p = (Ok (Some tok), p')" "tok_kind tok = RAngle" "at view p' rest"
    by (auto simp: reads_token_def)
  then show ?thesis
    by (auto simp: bindM_run(1) at_def put_back_def)
qed

lemma parse_expr_show:
  assumes C: "charsor_laws C view"
  shows "\<lbrakk>vt_wf e; at view p (show_expr e @ r); stops r; vt_tokens e \<le> vt_spine e + f\<rbrakk> \<Longrightarrow>
    \<exists>p'. at view p' r \<and> parse_expr C (vt_spine e + f) p = parse_loop C f e p'"
proof (induction e arbitrary: p r f)
  case (ExIdent s)
  then have "reads_token C view p (TokIdent s) r"
    using ident_token [OF C] stopsD(1) by (auto simp: ident_ok_def)
  from expect_reads [OF this, of is_ident_tok] obtain tok p' where
    "expect_token C is_ident_tok p = (Ok tok, p')" "tok_kind tok = TokIdent s" "at view p' r"
    by (auto simp: is_ident_tok_def)
  then show ?case by (intro exI [of _ p']) (simp add: bindM_run(1))
next
  case (ExPointer e)
  from ExPointer.IH [of p "42 # r" "Suc f"] ExPointer.prems obtain p1 where
    p1: "at view p1 (42 # r)" "parse_expr C (vt_spine (ExPointer e) + f) p = parse_loop C (Suc f) e p1"
    by auto
  have "reads_token C view p1 Asterisk r" using punctuation_token [OF C p1(1)] by blast
  then obtain tok p2 where "parser_next_token C p1 = (Ok (Some tok), p2)" "tok_kind tok = Asterisk" "at view p2 r"
    by (auto simp: reads_token_def)
  with p1 show ?case by (intro exI [of _ p2]) (simp add: bindM_run(1))
next
  case (ExTemplate e a)
  from ExTemplate.IH(1) [of p "60 # show_expr a @ 62 # r" "Suc f"] ExTemplate.prems obtain p1 where
    p1: "at view p1 (60 # show_expr a @ 62 # r)"
      "parse_expr C (vt_spine (ExTemplate e a) + f) p = parse_loop C (Suc f) e p1"
    by auto
  have "reads_token C view p1 LAngle (show_expr a @ 62 # r)" using punctuation_token [OF C p1(1)] by blast
  then obtain tok p2 where p2: "parser_next_token C p1 = (Ok (Some tok), p2)" "tok_kind tok = LAngle"
    "at view p2 (show_expr a @ 62 # r)" by (auto simp: reads_token_def)
  define g where "g = f - vt_spine a - 1"
  have g: "f = vt_spine a + Suc g" "vt_tokens a \<le> vt_spine a + Suc g"
    using ExTemplate.prems(4) vt_spine_le [of e] vt_spine_le [of a] by (auto simp: g_def)
  from ExTemplate.IH(2) [OF _ p2(3) _ g(2)] ExTemplate.prems(1) obtain p3 where
    p3: "at view p3 (62 # r)" "parse_expr C f p2 = parse_loop C (Suc g) a p3" using g(1) by auto
  from loop_puts_back [OF C p3(1)] obtain p4 where
    p4: "parse_expr C f p2 = (Ok a, p4)" "put_back view p4 RAngle r" using p3(2) by metis
  from expect_put_back [OF p4(2), of "\<lambda>k. k = RAngle"] obtain tok' p5 where
    p5: "expect_token C (\<lambda>k. k = RAngle) p4 = (Ok tok', p5)" "at view p5 r" by metis
  have "parse_loop C (Suc f) e p1 = parse_loop C f (ExTemplate e a) p5"
    using p2 p4 p5 by (simp add: bindM_run(1))
  with p1(2) p5(2) show ?case by metis
next
  case (ExArray e l)
  from ExArray.IH(1) [of p "91 # show_expr l @ 93 # r" "Suc f"] ExArray.prems obtain p1 where
    p1: "at view p1 (91 # show_expr l @ 93 # r)"
      "parse_expr C (vt_spine (ExArray e l) + f) p = parse_loop C (Suc f) e p1"
    by auto
  have "reads_token C view p1 LSquare (show_expr l @ 93 # r)" using punctuation_token [OF C p1(1)] by blast
  then obtain tok p2 where p2: "parser_next_token C p1 = (Ok (Some tok), p2)" "tok_kind tok = LSquare"
    "at view p2 (show_expr l @ 93 # r)" by (auto simp: reads_token_def)
  have "\<exists>k. reads_token C view p2 k (93 # r) \<and> (\<forall>tok. tok_kind tok = k \<longrightarrow> array_len tok = Ok l)"
  proof (cases l)
    case (ExIdent s)
    then have "reads_token C view p2 (TokIdent s) (93 # r)"
      using ident_token [OF C, of p2 s "93 # r"] p2(3) ExArray.prems(1) stopsD(1) [of "93 # r"]
      by (auto simp: ident_ok_def)
    with ExIdent show ?thesis by (auto simp: array_len_def)
  next
    case (ExLit lit)
    with ExArray.prems(1) obtain n where n: "lit = LitNum n" "n < 2 ^ 64" by (cases lit) auto
    then have "reads_token C view p2 (TokLit (show_nat n)) (93 # r)"
      using lit_token [OF C, of p2 "show_nat n" "93 # r"] p2(3) ExLit stopsD(2) [of "93 # r"]
        show_nat_digits by auto
    with n ExLit show ?thesis by (auto simp: array_len_def parse_usize_def decimal_show_nat)
  qed (use ExArray.prems(1) in auto)
  then obtain k where k: "reads_token C view p2 k (93 # r)" "\<And>tok. tok_kind tok = k \<Longrightarrow> array_len tok = Ok l"
    by blast
  from expect_reads [OF k(1), of "\<lambda>_. True"] obtain tok2 p3 where
    p3: "expect_token C (\<lambda>_. True) p2 = (Ok tok2, p3)" "tok_kind tok2 = k" "at view p3 (93 # r)" by auto
  have "reads_token C view p3 RSquare r" using punctuation_token [OF C p3(3)] by blast
  from expect_reads [OF this, of "\<lambda>k. k = RSquare"] obtain tok3 p4 where
    p4: "expect_token C (\<lambda>k. k = RSquare) p3 = (Ok tok3, p4)" "at view p4 r" by auto
  have "parse_loop C (Suc f) e p1 = parse_loop C f (ExArray e l) p4"
    using p2 p3 p4 k(2) [OF p3(2)] by (simp add: bindM_run(1))
  with p1(2) p4(2) show ?case by metis
qed simp

lemma parse_show_expr:
  assumes C: "charsor_laws C view" and e: "vt_wf e"
  shows "vartype_parse C (show_expr e) = Ok e"
proof -
  have p: "at view (vt_parser_new C (show_expr e)) (show_expr e @ [])"
    using C by (auto simp: at_def vt_parser_new_def tokenizer_new_def charsor_laws_def)
  define f where "f = length (show_expr e) + 1 - vt_spine e"
  have f: "length (show_expr e) + 2 = vt_spine e + Suc f" "vt_tokens e \<le> vt_spine e + Suc f"
    using vt_tokens_length [OF e] vt_spine_le [of e] by (auto simp: f_def)
  obtain p' where p': "at view p' []"
    "parse_expr C (length (show_expr e) + 2) (vt_parser_new C (show_expr e)) = parse_loop C (Suc f) e p'"
    using parse_expr_show [OF C e p stops_simps(1) f(2)] unfolding f(1) by blast
  then show ?thesis
    using end_token [OF C p'(1)] by (simp add: vartype_parse_def bindM_run(1) retM_run)
qed

text \<open>C20: parsing a printed type gives the type back: identifiers, pointers, templates and arrays,
  nested in any way, with array lengths that are names or numbers below \<open>2^64\<close>.\<close>

theorem vartype_roundtrip:
  assumes C: "charsor_laws C view" and e: "vt_wf e"
  shows "vartype_parse C (show_expr e) = Ok e"
  by (rule parse_show_expr [OF assms])

theorem vartype_roundtrip_witness:
  "vartype_parse ref_charsor (show_expr (ExArray (ExTemplate (ExIdent (str_lit ''CHandle''))
      (ExPointer (ExIdent (str_lit ''CBaseEntity'')))) (ExLit (LitNum 24))))
    = Ok (ExArray (ExTemplate (ExIdent (str_lit ''CHandle''))
      (ExPointer (ExIdent (str_lit ''CBaseEntity'')))) (ExLit (LitNum 24)))"
  by (rule vartype_roundtrip [OF ref_charsor_laws])
    (simp add: ident_ok_def str_lit_def is_ident_start_def is_ident_continue_def
      is_ascii_alphabetic_def is_ascii_digit_def)


subsection \<open>Any text\<close>

text \<open>What is left to read: the characters to come and the token put back.\<close>

definition vt_left :: "('c \<Rightarrow> rstr \<times> rstr) \<Rightarrow> 'c vt_parser \<Rightarrow> nat" where
  "vt_left view p = length (snd (view (fst p))) + (case snd p of Some _ \<Rightarrow> 1 | None \<Rightarrow> 0)"

lemma next_token_loop_left:
  assumes C: "charsor_laws C view"
    and w: "n = 0 \<longrightarrow> snd (view c) = [] \<or> \<not> is_whitespace (hd (snd (view c)))"
    and res: "next_token_loop C (Suc n) c = (res, c')" and n: "n \<le> 1"
  shows "case res of Ok None \<Rightarrow> length (snd (view c')) \<le> length (snd (view c))
    | Ok (Some t) \<Rightarrow> length (snd (view c')) < length (snd (view c)) | Err e \<Rightarrow> True | _ \<Rightarrow> False"
  using w res n
proof (induction n arbitrary: c)
  case (0 c)
  obtain pre rest where v: "view c = (pre, rest)" by (cases "view c")
  show ?case
  proof (cases rest)
    case Nil
    with v C have "cs_next C c = (None, c)" unfolding charsor_laws_def by blast
    with 0 show ?thesis by auto
  next
    case (Cons ch r)
    with v obtain c1 where c1: "cs_next C c = (Some ch, c1)" "view c1 = (pre @ [ch], r)"
      using cs_next_Cons [OF C] by metis
    have eat: "snd (view (cs_eat_while C P c1)) = dropWhile P r" for P
      using C c1(2) unfolding charsor_laws_def by (metis snd_conv)
    have "length (dropWhile P r) < length rest" for P
      using Cons length_dropWhile_le [of P r] by simp
    with 0 c1 Cons v eat show ?thesis
      by (auto simp: some_tok_def emit_def emit_ident_def emit_lit_def Let_def split: if_splits)
  qed
next
  case (Suc n)
  then have n: "n = 0" by simp
  obtain pre rest where v: "view c = (pre, rest)" by (cases "view c")
  show ?case
  proof (cases rest)
    case Nil
    with v C have "cs_next C c = (None, c)" unfolding charsor_laws_def by blast
    with Suc show ?thesis by auto
  next
    case (Cons ch r)
    with v obtain c1 where c1: "cs_next C c = (Some ch, c1)" "view c1 = (pre @ [ch], r)"
      using cs_next_Cons [OF C] by metis
    have eat: "snd (view (cs_eat_while C P c1)) = dropWhile P r" for P
      using C c1(2) unfolding charsor_laws_def by (metis snd_conv)
    have len: "length (dropWhile P r) < length rest" for P
      using Cons length_dropWhile_le [of P r] by simp
    define white where "white \<longleftrightarrow> ch \<notin> {60, 62, 91, 93, 42} \<and> \<not> is_ident_start ch \<and> \<not> is_ascii_digit ch \<and> is_whitespace ch"
    show ?thesis
    proof (cases white)
      case True
      define c2 where "c2 = cs_eat_while C is_whitespace c1"
      have "next_token_loop C (Suc n) c2 = (res, c')"
        using Suc.prems(2) True c1 n by (simp add: white_def c2_def)
      moreover have "dropWhile is_whitespace r = [] \<or> \<not> is_whitespace (hd (dropWhile is_whitespace r))"
        using hd_dropWhile by blast
      ultimately have "case res of Ok None \<Rightarrow> length (snd (view c')) \<le> length (snd (view c2))
        | Ok (Some t) \<Rightarrow> length (snd (view c')) < length (snd (view c2)) | Err e \<Rightarrow> True | _ \<Rightarrow> False"
        using Suc.IH [of c2] n eat by (simp add: c2_def)
      with len [of is_whitespace] eat v show ?thesis
        by (auto simp: c2_def split: outcome.splits option.splits)
    next
      case False
      with Suc.prems c1 Cons v eat len show ?thesis
        by (auto simp: white_def some_tok_def emit_def emit_ident_def emit_lit_def Let_def split: if_splits)
    qed
  qed
qed

lemma parser_next_token_left:
  assumes C: "charsor_laws C view" and res: "parser_next_token C p = (res, p')"
  shows "case res of Ok None \<Rightarrow> vt_left view p' \<le> vt_left view p
    | Ok (Some t) \<Rightarrow> vt_left view p' < vt_left view p \<and> snd p' = None | Err e \<Rightarrow> True | _ \<Rightarrow> False"
proof -
  obtain c prev where p: "p = (c, prev)" by (cases p)
  show ?thesis
  proof (cases prev)
    case None
    then obtain c' where "next_token_loop C (Suc 1) c = (res, c')" "p' = (c', None)"
      using res p by (auto simp: parser_next_token_def tokenizer_next_def numeral_2_eq_2 split: prod.splits)
    with next_token_loop_left [OF C _ this(1)] p None show ?thesis
      by (auto simp: vt_left_def split: outcome.splits option.splits)
  qed (use res p in \<open>auto simp: parser_next_token_def vt_left_def\<close>)
qed

fun vt_shape :: "vt_expr \<Rightarrow> bool" where
  "vt_shape (ExIdent s) \<longleftrightarrow> True"
| "vt_shape (ExLit l) \<longleftrightarrow> False"
| "vt_shape (ExPointer e) \<longleftrightarrow> vt_shape e"
| "vt_shape (ExTemplate e a) \<longleftrightarrow> vt_shape e \<and> vt_shape a"
| "vt_shape (ExArray e l) \<longleftrightarrow> vt_shape e \<and> ((\<exists>s. l = ExIdent s) \<or> (\<exists>n<2 ^ 64. l = ExLit (LitNum n)))"

lemma expect_token_left:
  assumes C: "charsor_laws C view" and res: "expect_token C f p = (res, p')"
  shows "case res of Ok t \<Rightarrow> vt_left view p' < vt_left view p \<and> f (tok_kind t) | Err e \<Rightarrow> True | _ \<Rightarrow> False"
  using res parser_next_token_left [OF C, of p]
  by (auto simp: expect_token_def bindM_def split: outcome.splits option.splits prod.splits if_splits)


definition vt_post :: "('c \<Rightarrow> rstr \<times> rstr) \<Rightarrow> 'c vt_parser \<Rightarrow> (vartype_error, vt_expr) outcome \<Rightarrow> 'c vt_parser \<Rightarrow> bool" where
  "vt_post view p res p' \<longleftrightarrow> (case res of Ok e \<Rightarrow> vt_left view p' \<le> vt_left view p \<and> vt_shape e
     | Err e \<Rightarrow> True | _ \<Rightarrow> False)"

text \<open>A call whose first part succeeds and consumes goes on with the rest.\<close>

lemma vt_post_bind:
  assumes run: "bindM m g p = (res, p')"
    and m: "\<And>r p1. m p = (r, p1) \<Longrightarrow> case r of Ok x \<Rightarrow> vt_left view p1 \<le> vt_left view p \<and> P x p1
      | Err e \<Rightarrow> True | _ \<Rightarrow> False"
    and g: "\<And>x p1. vt_left view p1 \<le> vt_left view p \<Longrightarrow> P x p1 \<Longrightarrow> g x p1 = (res, p') \<Longrightarrow> vt_post view p1 res p'"
  shows "vt_post view p res p'"
proof -
  obtain r p1 where r: "m p = (r, p1)" by (cases "m p")
  show ?thesis
  proof (cases r)
    case (Ok x)
    with r m have "vt_left view p1 \<le> vt_left view p" "P x p1" by fastforce+
    moreover from run r Ok have "g x p1 = (res, p')" by (simp add: bindM_run)
    ultimately have "vt_post view p1 res p'" by (rule g)
    with \<open>vt_left view p1 \<le> vt_left view p\<close> show ?thesis
      by (auto simp: vt_post_def split: outcome.splits)
  qed (use run r m [OF r] in \<open>auto simp: bindM_run vt_post_def\<close>)
qed

lemma array_len_shape: "array_len t = Ok l \<Longrightarrow> (\<exists>s. l = ExIdent s) \<or> (\<exists>n<2 ^ 64. l = ExLit (LitNum n))"
  by (auto simp: array_len_def parse_usize_def split: token_kind.splits option.splits if_splits)

lemma array_len_outcome: "(\<exists>l. array_len t = Ok l) \<or> (\<exists>e. array_len t = Err e)"
  by (auto simp: array_len_def split: token_kind.splits option.splits)

lemma vt_post_mono: "vt_post view p1 res p' \<Longrightarrow> vt_left view p1 \<le> vt_left view p \<Longrightarrow> vt_post view p res p'"
  by (auto simp: vt_post_def split: outcome.splits)

lemma expect_then:
  assumes C: "charsor_laws C view" and run: "bindM (expect_token C F) g p = (res, p')"
    and g: "\<And>x p1. vt_left view p1 < vt_left view p \<Longrightarrow> F (tok_kind x) \<Longrightarrow> g x p1 = (res, p')
      \<Longrightarrow> vt_post view p1 res p'"
  shows "vt_post view p res p'"
proof (rule vt_post_bind [OF run, where P = "\<lambda>x p1. vt_left view p1 < vt_left view p \<and> F (tok_kind x)"])
  fix r p1 assume "expect_token C F p = (r, p1)"
  from expect_token_left [OF C this]
  show "case r of Ok x \<Rightarrow> vt_left view p1 \<le> vt_left view p \<and> (vt_left view p1 < vt_left view p \<and> F (tok_kind x))
      | Err e \<Rightarrow> True | _ \<Rightarrow> False" by (auto split: outcome.splits)
qed (use g in blast)

lemma parse_then:
  assumes run: "bindM (parse_expr C f) g p = (res, p')"
    and E: "\<And>r p1. parse_expr C f p = (r, p1) \<Longrightarrow> vt_post view p r p1"
    and g: "\<And>x p1. vt_left view p1 \<le> vt_left view p \<Longrightarrow> vt_shape x \<Longrightarrow> g x p1 = (res, p')
      \<Longrightarrow> vt_post view p1 res p'"
  shows "vt_post view p res p'"
proof (rule vt_post_bind [OF run, where P = "\<lambda>x p1. vt_shape x"])
  fix r p1 assume "parse_expr C f p = (r, p1)"
  from E [OF this] show "case r of Ok x \<Rightarrow> vt_left view p1 \<le> vt_left view p \<and> vt_shape x
      | Err e \<Rightarrow> True | _ \<Rightarrow> False" by (auto simp: vt_post_def split: outcome.splits)
qed (use g in blast)

lemma len_then:
  assumes run: "bindM (liftO (array_len t)) g p = (res, p')"
    and g: "\<And>l. (\<exists>s. l = ExIdent s) \<or> (\<exists>n<2 ^ 64. l = ExLit (LitNum n)) \<Longrightarrow> g l p = (res, p')
      \<Longrightarrow> vt_post view p res p'"
  shows "vt_post view p res p'"
proof (cases "\<exists>l. array_len t = Ok l")
  case True
  then obtain l where l: "array_len t = Ok l" by blast
  with run have "g l p = (res, p')" by (simp add: bindM_def liftO_def)
  then show ?thesis by (rule g [OF array_len_shape [OF l]])
next
  case False
  with array_len_outcome [of t] obtain e where "array_len t = Err e" by blast
  with run have "res = Err e" by (simp add: bindM_def liftO_def)
  then show ?thesis by (simp add: vt_post_def)
qed

lemma parse_post:
  assumes C: "charsor_laws C view"
  shows "(\<forall>p res p'. parse_expr C f p = (res, p') \<longrightarrow> vt_left view p < f \<longrightarrow> vt_post view p res p')
    \<and> (\<forall>e p res p'. parse_loop C f e p = (res, p') \<longrightarrow> vt_shape e \<longrightarrow> vt_left view p < f \<longrightarrow> vt_post view p res p')"
proof (induction f)
  case (Suc f)
  have IE: "vt_post view p res p'" if "parse_expr C f p = (res, p')" "vt_left view p < f" for p res p'
    using Suc that by blast
  have IL: "vt_post view p res p'" if "parse_loop C f e p = (res, p')" "vt_left view p < f" "vt_shape e" for e p res p'
    using Suc that by blast
  have E: "vt_post view p res p'" if run: "parse_expr C (Suc f) p = (res, p')" and m: "vt_left view p < Suc f" for p res p'
  proof (rule expect_then [OF C run [unfolded parse_expr.simps]])
    fix x p1 assume l: "vt_left view p1 < vt_left view p" "is_ident_tok (tok_kind x)"
      and g: "(case tok_kind x of TokIdent ident \<Rightarrow> parse_loop C f (ExIdent ident)
        | _ \<Rightarrow> liftO (Panic UnreachableCode)) p1 = (res, p')"
    from l obtain s where "tok_kind x = TokIdent s" by (auto simp: is_ident_tok_def split: token_kind.splits)
    with g l m show "vt_post view p1 res p'" by (intro IL [of "ExIdent s"]) auto
  qed
  have L: "vt_post view p res p'"
    if run: "parse_loop C (Suc f) e p = (res, p')" and e: "vt_shape e" and m: "vt_left view p < Suc f" for e p res p'
  proof -
    obtain r p1 where r: "parser_next_token C p = (r, p1)" by (cases "parser_next_token C p")
    note left = parser_next_token_left [OF C r]
    show ?thesis
    proof (cases r)
      case (Ok t)
      show ?thesis
      proof (cases t)
        case None
        with Ok r run e left show ?thesis by (auto simp: bindM_run vt_post_def retM_run)
      next
        case (Some nxt)
        with left Ok have l: "vt_left view p1 < vt_left view p" "snd p1 = None" by auto
        note go = run [unfolded parse_loop.simps bindM_run(1) [where m = "parser_next_token C", OF r [unfolded Ok Some]] option.case]
        show ?thesis
        proof (cases "tok_kind nxt")
          case LAngle
          have "vt_post view p1 res p'"
          proof (rule parse_then [OF go [unfolded LAngle token_kind.case]])
            fix r2 p2 assume "parse_expr C f p1 = (r2, p2)"
            then show "vt_post view p1 r2 p2" using l m by (intro IE) auto
          next
            fix a p2 assume p2: "vt_left view p2 \<le> vt_left view p1" "vt_shape a"
              and g: "seqM (expect_token C (\<lambda>k. k = RAngle)) (parse_loop C f (ExTemplate e a)) p2 = (res, p')"
            show "vt_post view p2 res p'"
              by (rule expect_then [OF C g], rule IL [of "ExTemplate e a"]) (use p2 l m e in \<open>simp_all add: less_imp_le\<close>)
          qed
          with l show ?thesis by (auto elim: vt_post_mono)
        next
          case LSquare
          have "vt_post view p1 res p'"
          proof (rule expect_then [OF C go [unfolded LSquare token_kind.case]], rule len_then, assumption)
            fix x p2 len assume p2: "vt_left view p2 < vt_left view p1"
              and len: "(\<exists>s. len = ExIdent s) \<or> (\<exists>n<2 ^ 64. len = ExLit (LitNum n))"
              and g: "seqM (expect_token C (\<lambda>k. k = RSquare)) (parse_loop C f (ExArray e len)) p2 = (res, p')"
            show "vt_post view p2 res p'"
              by (rule expect_then [OF C g], rule IL [of "ExArray e len"]) (use p2 len l m e in simp_all)
          qed
          with l show ?thesis by (auto elim: vt_post_mono)
        next
          case Asterisk
          then have "parse_loop C f (ExPointer e) p1 = (res, p')" using go by simp
          then have "vt_post view p1 res p'" by (rule IL) (use l m e in auto)
          with l show ?thesis by (auto elim: vt_post_mono)
        qed (use go e l in \<open>auto simp: vt_post_def vt_left_def split: prod.splits\<close>)
      qed
    qed (use left run r in \<open>auto simp: bindM_run vt_post_def\<close>)
  qed
  show ?case using E L by blast
qed auto

lemma vartype_parse_outcome:
  assumes C: "charsor_laws C view"
  shows "case vartype_parse C input of Ok e \<Rightarrow> vt_shape e | Err e \<Rightarrow> True | _ \<Rightarrow> False"
proof -
  obtain res p' where r: "parse_expr C (length input + 2) (vt_parser_new C input) = (res, p')"
    using prod.exhaust by blast
  have "vt_left view (vt_parser_new C input) < length input + 2"
    using C by (auto simp: vt_left_def vt_parser_new_def tokenizer_new_def charsor_laws_def)
  with parse_post [OF C] r have "vt_post view (vt_parser_new C input) res p'" by blast
  with r show ?thesis by (auto simp: vartype_parse_def vt_post_def split: outcome.splits)
qed

text \<open>C21: parsing ends on every text, never panics, and returns an expression whose top is not a
  literal and whose array lengths are names or numbers that fit a \<open>usize\<close>.\<close>

theorem vartype_parse_total:
  assumes C: "charsor_laws C view"
  shows "case vartype_parse C input of Ok e \<Rightarrow> vt_shape e | Err e \<Rightarrow> True | _ \<Rightarrow> False"
  by (rule vartype_parse_outcome [OF assms])

theorem vartype_parse_total_witness:
  "case vartype_parse ref_charsor (str_lit ''A[<'') of Ok e \<Rightarrow> vt_shape e | Err e \<Rightarrow> True | _ \<Rightarrow> False"
  by (rule vartype_parse_total [OF ref_charsor_laws])

end
