(* ===== verification/FieldMetadata.thy ===== *)
theory FieldMetadata
  imports FieldDecoder Vartype
begin

text \<open>
  \<open>haste_core/src/fieldmetadata.rs\<close>: from the C++ type of a field to its decoder and its special
  descriptor (array, pointer).  An identifier is compared with the names the code lists; a type that
  is in no list is decoded as a variable-length integer.
\<close>

datatype field_metadata_error =
    VarTypeParseError vartype_error
  | FieldDecoderConstructionError decoder_error
  | UnknownArrayLengthIdent rstr
  | FieldNotFound

datatype special_descriptor =
    FixedArray nat
  | DynamicArray field_decoder
  | DynamicSerializerArray
  | PointerDescr

record field_metadata =
  fm_special :: "special_descriptor option"
  fm_decoder :: field_decoder

definition field_metadata_default :: field_metadata where
  "field_metadata_default = \<lparr>fm_special = None, fm_decoder = InvalidDecoder\<rparr>"

definition special_is_dynamic_array :: "special_descriptor \<Rightarrow> bool" where
  "special_is_dynamic_array d \<longleftrightarrow> (case d of DynamicArray _ \<Rightarrow> True | DynamicSerializerArray \<Rightarrow> True | _ \<Rightarrow> False)"

definition special_is_fixed_array :: "special_descriptor \<Rightarrow> bool" where
  "special_is_fixed_array d \<longleftrightarrow> (case d of FixedArray _ \<Rightarrow> True | _ \<Rightarrow> False)"

definition special_is_pointer :: "special_descriptor \<Rightarrow> bool" where
  "special_is_pointer d \<longleftrightarrow> (case d of PointerDescr \<Rightarrow> True | _ \<Rightarrow> False)"

type_synonym metadata_result = "(field_metadata_error, field_metadata) outcome"

definition non_special :: "field_decoder \<Rightarrow> metadata_result" where
  "non_special d = Ok \<lparr>fm_special = None, fm_decoder = d\<rparr>"

text \<open>\<open>Box::new(D::new(field)?)\<close>: a decoder whose construction can fail.\<close>

definition constructed :: "('d \<Rightarrow> field_decoder) \<Rightarrow> (decoder_error, 'd) outcome \<Rightarrow> metadata_result" where
  "constructed box r = bindO (map_err FieldDecoderConstructionError r) (\<lambda>d. non_special (box d))"

definition visit_pointer :: metadata_result where
  "visit_pointer = Ok \<lparr>fm_special = Some PointerDescr, fm_decoder = BoolDecoder\<rparr>"

definition pointer_idents :: "rstr list" where
  "pointer_idents = map str_lit [
     ''CBodyComponentDCGBaseAnimating'', ''CBodyComponentBaseAnimating'',
     ''CBodyComponentBaseAnimatingOverlay'', ''CBodyComponentBaseModelEntity'', ''CBodyComponent'',
     ''CBodyComponentSkeletonInstance'', ''CBodyComponentPoint'', ''CLightComponent'',
     ''CRenderComponent'', ''C_BodyComponentBaseAnimating'', ''C_BodyComponentBaseAnimatingOverlay'',
     ''CPhysicsComponent'']"

definition visit_ident :: "rstr \<Rightarrow> field_descr \<Rightarrow> metadata_result" where
  "visit_ident ident field =
     (if ident \<in> set (map str_lit [''int8'', ''int16'', ''int32'', ''int64'']) then non_special I64Decoder
      else if ident = str_lit ''bool'' then non_special BoolDecoder
      else if ident = str_lit ''float32'' then constructed F32Decoder (f32_decoder_new field)
      else if ident \<in> set pointer_idents then visit_pointer
      else if ident \<in> set (map str_lit [''CUtlSymbolLarge'', ''CUtlString'']) then non_special StringDecoder
      else if ident = str_lit ''QAngle'' then constructed QAngleDecoder (qangle_decoder_new field)
      else if ident \<in> set (map str_lit [''CNetworkedQuantizedFloat'', ''GameTime_t''])
        then constructed F32Decoder (f32_decoder_new field)
      else if ident \<in> set (map str_lit [''Vector'', ''VectorWS''])
        then constructed Vector3Decoder (vector3_decoder_new field)
      else if ident = str_lit ''Vector2D'' then constructed Vector2Decoder (f32_decoder_new field)
      else if ident = str_lit ''Vector4D'' then constructed Vector4Decoder (f32_decoder_new field)
      else if ident \<in> set (map str_lit [''m_SpeechBubbles'', ''DOTA_CombatLogQueryProgress''])
        then Ok \<lparr>fm_special = Some DynamicSerializerArray, fm_decoder = U64Decoder U64Varint\<rparr>
      else non_special (U64Decoder (u64_decoder_new field)))"

definition container_idents :: "rstr list" where
  "container_idents = map str_lit [''CNetworkUtlVectorBase'', ''CUtlVectorEmbeddedNetworkVar'', ''CUtlVector'']"

definition array_length :: "vt_expr \<Rightarrow> (field_metadata_error, nat) outcome" where
  "array_length len = (case len of
     ExIdent ident \<Rightarrow> if ident = str_lit ''MAX_ABILITY_DRAFT_ABILITIES'' then Ok 48
                      else Err (UnknownArrayLengthIdent ident)
   | ExLit (LitNum n) \<Rightarrow> Ok n
   | _ \<Rightarrow> Panic UnreachableCode)"

function visit_any :: "vt_expr \<Rightarrow> field_descr \<Rightarrow> metadata_result"
  and visit_template :: "vt_expr \<Rightarrow> vt_expr \<Rightarrow> field_descr \<Rightarrow> metadata_result"
  and visit_array :: "vt_expr \<Rightarrow> vt_expr \<Rightarrow> field_descr \<Rightarrow> metadata_result" where
  "visit_any expr field = (case expr of
     ExIdent ident \<Rightarrow> visit_ident ident field
   | ExTemplate e arg \<Rightarrow> visit_template e arg field
   | ExArray e len \<Rightarrow> visit_array e len field
   | ExPointer _ \<Rightarrow> visit_pointer
   | _ \<Rightarrow> Panic UnreachableCode)"
| "visit_template e arg field = (case e of
     ExIdent ident \<Rightarrow>
       if ident \<in> set container_idents then
         if fd_field_serializer_name field \<noteq> None
         then Ok \<lparr>fm_special = Some DynamicSerializerArray, fm_decoder = U64Decoder U64Varint\<rparr>
         else map_ok (\<lambda>m. \<lparr>fm_special = Some (DynamicArray (fm_decoder m)), fm_decoder = U64Decoder U64Varint\<rparr>)
           (visit_any arg field)
       else visit_ident ident field
   | _ \<Rightarrow> Panic UnreachableCode)"
| "visit_array e len field =
     (if e = ExIdent (str_lit ''char'') then non_special StringDecoder
      else bindO (array_length len) (\<lambda>length.
        map_ok (\<lambda>m. \<lparr>fm_special = Some (FixedArray length), fm_decoder = fm_decoder m\<rparr>) (visit_any e field)))"
  by pat_completeness auto
termination
  by (relation "measure (\<lambda>x. case x of Inl (e, _) \<Rightarrow> 2 * size e
      | Inr (Inl (_, a, _)) \<Rightarrow> 2 * size a + 1 | Inr (Inr (e, _, _)) \<Rightarrow> 2 * size e + 1)") auto

declare visit_any.simps [simp del] visit_template.simps [simp del] visit_array.simps [simp del]

definition get_field_metadata :: "'c charsor \<Rightarrow> field_descr \<Rightarrow> rstr \<Rightarrow> metadata_result" where
  "get_field_metadata C field var_type =
     bindO (map_err VarTypeParseError (vartype_parse C var_type)) (\<lambda>expr. visit_any expr field)"

end
