(* ===== verification/FieldMetadataLaws.thy ===== *)
theory FieldMetadataLaws
  imports FieldMetadata VartypeLaws
begin

text \<open>
  Which types the metadata is defined for: the parser accepts more types than \<open>visit_any\<close> handles, and
  a template applied to something that is not an identifier reaches an \<open>unreachable!()\<close>.
\<close>

fun type_handled :: "field_descr \<Rightarrow> vt_expr \<Rightarrow> bool" where
  "type_handled field (ExIdent s) \<longleftrightarrow> True"
| "type_handled field (ExLit l) \<longleftrightarrow> False"
| "type_handled field (ExPointer e) \<longleftrightarrow> True"
| "type_handled field (ExTemplate e a) \<longleftrightarrow> (case e of
     ExIdent s \<Rightarrow> s \<notin> set container_idents \<or> fd_field_serializer_name field \<noteq> None \<or> type_handled field a
   | _ \<Rightarrow> False)"
| "type_handled field (ExArray e l) \<longleftrightarrow> e = ExIdent (str_lit ''char'') \<or> (case array_length l of
     Ok n \<Rightarrow> type_handled field e | Err _ \<Rightarrow> True | _ \<Rightarrow> False)"

lemma decoder_new_reachable:
  "f32_decoder_new field \<noteq> Panic UnreachableCode"
  "vector3_decoder_new field \<noteq> Panic UnreachableCode"
  "qangle_decoder_new field \<noteq> Panic UnreachableCode"
proof -
  have q: "quantized_float_new a b c d \<noteq> Panic UnreachableCode" for a b c d
    using quantized_float_new_outcome [of a b c d] by (auto split: outcome.splits)
  show f: "f32_decoder_new field \<noteq> Panic UnreachableCode"
    using q by (auto simp: f32_decoder_new_def quantized_float_decoder_new_def Let_def split: option.splits)
  then show "vector3_decoder_new field \<noteq> Panic UnreachableCode" by (auto simp: vector3_decoder_new_def)
  show "qangle_decoder_new field \<noteq> Panic UnreachableCode"
    by (auto simp: qangle_decoder_new_def Let_def split: option.splits)
qed

lemma constructed_Panic_iff: "constructed b r = Panic p \<longleftrightarrow> r = Panic p"
  by (simp add: constructed_def bindO_Panic_iff non_special_def)

lemma visit_ident_reachable: "visit_ident ident field \<noteq> Panic UnreachableCode"
  by (simp add: visit_ident_def non_special_def visit_pointer_def constructed_Panic_iff decoder_new_reachable)

lemma array_length_outcome:
  "array_length l \<noteq> OutOfFuel" "array_length l = Panic p \<Longrightarrow> p = UnreachableCode"
  by (auto simp: array_length_def split: vt_expr.splits vt_lit.splits if_splits)

lemma visit_any_unreachable:
  "visit_any e field = Panic UnreachableCode \<longleftrightarrow> \<not> type_handled field e"
  "visit_template e a field = Panic UnreachableCode \<longleftrightarrow> \<not> type_handled field (ExTemplate e a)"
  "visit_array e l field = Panic UnreachableCode \<longleftrightarrow> \<not> type_handled field (ExArray e l)"
  by (induction e field and e a field and e l field rule: visit_any_visit_template_visit_array.induct)
    (subst visit_any.simps visit_template.simps visit_array.simps;
     auto simp: visit_ident_reachable visit_pointer_def non_special_def bindO_Panic_iff array_length_outcome
      dest: array_length_outcome(2) split: vt_expr.splits outcome.splits)+

text \<open>Computing the metadata of a field reaches an \<open>unreachable!()\<close> exactly for the types that the
  parser accepts but the visitors do not handle: those where a template is applied to anything but an
  identifier, at a place the visitors look at.\<close>

theorem metadata_unreachable:
  assumes "charsor_laws C view"
  shows "get_field_metadata C field s = Panic UnreachableCode
    \<longleftrightarrow> (\<exists>e. vartype_parse C s = Ok e \<and> \<not> type_handled field e)"
  using vartype_parse_outcome [OF assms, of s]
  by (auto simp: get_field_metadata_def bindO_Panic_iff visit_any_unreachable split: outcome.splits)

theorem metadata_unreachable_witness:
  "get_field_metadata ref_charsor field_descr_default (str_lit ''A*<B>'') = Panic UnreachableCode"
proof -
  define e where "e = ExTemplate (ExPointer (ExIdent (str_lit ''A''))) (ExIdent (str_lit ''B''))"
  have wf: "vt_wf e" and show_e: "show_expr e = str_lit ''A*<B>''" and bad: "\<not> type_handled field_descr_default e"
    by (simp_all add: e_def ident_ok_def str_lit_def is_ident_start_def is_ident_continue_def
        is_ascii_alphabetic_def is_ascii_digit_def)
  from parse_show_expr [OF ref_charsor_laws wf] have "vartype_parse ref_charsor (str_lit ''A*<B>'') = Ok e"
    by (simp add: show_e)
  with bad show ?thesis using metadata_unreachable [OF ref_charsor_laws] by blast
qed

end
