(* ===== verification/FlattenedSerializers.thy ===== *)
theory FlattenedSerializers
  imports FieldMetadata
begin

text \<open>
  \<open>haste_core/src/flattenedserializers.rs\<close>: the serializers of a demo, built from the message
  \<open>CSVCMsg_FlattenedSerializer\<close>.  A field refers to the serializer of its children, a serializer lists
  its fields: one nested datatype.  The \<open>Arc\<close>s only share values that nobody changes, so a value stands
  for each of them.  Both hash maps are keyed by identity hashes and are partial functions.

  The generated message types are not under \<open>src/\<close>; the records below hold the parts of the messages
  that the code reads.  Decoding bytes into a message is a parameter.
\<close>

subsection \<open>The message\<close>

record proto_field =
  pf_var_type_sym :: "i32 option"
  pf_var_name_sym :: "i32 option"
  pf_bit_count :: "i32 option"
  pf_low_value :: "f32 option"
  pf_high_value :: "f32 option"
  pf_encode_flags :: "i32 option"
  pf_field_serializer_name_sym :: "i32 option"
  pf_send_node_sym :: "i32 option"
  pf_var_encoder_sym :: "i32 option"

record proto_serializer =
  ps_serializer_name_sym :: "i32 option"
  ps_fields_index :: "i32 list"

record flattened_msg =
  msg_serializers :: "proto_serializer list"
  msg_symbols :: "rstr list"
  msg_fields :: "proto_field list"

datatype flattened_serializers_error =
    FsDecodeError | FsVarintError | FsFieldMetadata field_metadata_error | FsSymbolNotFound

subsection \<open>Strings\<close>

text \<open>\<open>as_bytes\<close>: the UTF-8 encoding of a character and of a string.\<close>

definition utf8_char :: "rchar \<Rightarrow> u8 list" where
  "utf8_char c =
     (if c < 0x80 then [of_nat c]
      else if c < 0x800 then [of_nat (0xC0 + c div 0x40), of_nat (0x80 + c mod 0x40)]
      else if c < 0x10000 then [of_nat (0xE0 + c div 0x1000), of_nat (0x80 + c div 0x40 mod 0x40),
        of_nat (0x80 + c mod 0x40)]
      else [of_nat (0xF0 + c div 0x40000), of_nat (0x80 + c div 0x1000 mod 0x40),
        of_nat (0x80 + c div 0x40 mod 0x40), of_nat (0x80 + c mod 0x40)])"

definition as_bytes :: "rstr \<Rightarrow> u8 list" where
  "as_bytes s = concat (map utf8_char s)"

definition symbol_from :: "rstr \<Rightarrow> symbol" where
  "symbol_from s = hash_bytes (as_bytes s)"

text \<open>\<open>str::split\<close> on one character; an empty string is one empty part.\<close>

fun split_on :: "rchar \<Rightarrow> rstr \<Rightarrow> rstr list" where
  "split_on c [] = [[]]"
| "split_on c (x # xs) = (let parts = split_on c xs in
     if x = c then [] # parts else (x # hd parts) # tl parts)"

subsection \<open>Fields and serializers\<close>

datatype ser_field =
    SerField (sf_descr: field_descr) (sf_serializer: "serializer option") (sf_metadata: field_metadata)
      (sf_key: u64)
  and serializer =
    Serializer (fs_serializer_name: symbol) (fs_fields: "ser_field list")

definition ser_field_default :: ser_field where
  "ser_field_default = SerField field_descr_default None field_metadata_default 0"

fun with_serializer :: "serializer option \<Rightarrow> ser_field \<Rightarrow> ser_field" where
  "with_serializer s (SerField d _ m k) = SerField d s m k"

fun with_metadata :: "field_metadata \<Rightarrow> ser_field \<Rightarrow> ser_field" where
  "with_metadata m (SerField d s _ k) = SerField d s m k"

definition serializer_get_child :: "serializer \<Rightarrow> nat \<Rightarrow> ser_field option" where
  "serializer_get_child s i = (if i < length (fs_fields s) then Some (fs_fields s ! i) else None)"

definition get_child :: "ser_field \<Rightarrow> nat \<Rightarrow> ser_field option" where
  "get_child f i = Option.bind (sf_serializer f) (\<lambda>s. serializer_get_child s i)"

definition is_dynamic_array :: "ser_field \<Rightarrow> bool" where
  "is_dynamic_array f \<longleftrightarrow> (case fm_special (sf_metadata f) of Some d \<Rightarrow> special_is_dynamic_array d | None \<Rightarrow> False)"

definition is_fixed_array :: "ser_field \<Rightarrow> bool" where
  "is_fixed_array f \<longleftrightarrow> (case fm_special (sf_metadata f) of Some d \<Rightarrow> special_is_fixed_array d | None \<Rightarrow> False)"

definition is_pointer :: "ser_field \<Rightarrow> bool" where
  "is_pointer f \<longleftrightarrow> (case fm_special (sf_metadata f) of Some d \<Rightarrow> special_is_pointer d | None \<Rightarrow> False)"

subsection \<open>A field from the message\<close>

text \<open>\<open>i as usize\<close> extends the sign, so a negative index is out of range.\<close>

definition resolve_sym :: "flattened_msg \<Rightarrow> i32 \<Rightarrow> rstr option" where
  "resolve_sym msg i = (let n = unat (scast i :: usize) in
     if n < length (msg_symbols msg) then Some (msg_symbols msg ! n) else None)"

definition resolve_opt :: "flattened_msg \<Rightarrow> i32 option \<Rightarrow> rstr option" where
  "resolve_opt msg i = Option.bind i (resolve_sym msg)"

definition ok_or :: "'e \<Rightarrow> 'a option \<Rightarrow> ('e, 'a) outcome" where
  "ok_or e x = (case x of Some v \<Rightarrow> Ok v | None \<Rightarrow> Err e)"

text \<open>The hash of the parts of a send node; \<open>split\<close> never gives an empty list.\<close>

definition send_node_hash :: "rstr \<Rightarrow> u64" where
  "send_node_hash send_node = (let parts = split_on 46 send_node in
     foldl (\<lambda>hash part. add_u64_to_hash hash (hash_bytes (as_bytes part))) (hash_bytes (as_bytes (hd parts)))
       (tl parts))"

definition flattened_field_new ::
    "'c charsor \<Rightarrow> flattened_msg \<Rightarrow> proto_field \<Rightarrow> (field_metadata_error, ser_field) outcome" where
  "flattened_field_new C msg field =
     bindO (ok_or FieldNotFound (resolve_opt msg (pf_var_type_sym field))) (\<lambda>var_type.
     bindO (ok_or FieldNotFound (resolve_opt msg (pf_var_name_sym field))) (\<lambda>var_name.
     let var_name_symbol = symbol_from var_name;
         (send_node, key) = (case resolve_opt msg (pf_send_node_sym field) of
           Some send_node \<Rightarrow>
             if send_node \<noteq> [] then
               (Some (send_node_hash send_node), add_u64_to_hash (send_node_hash send_node) var_name_symbol)
             else (None, var_name_symbol)
         | None \<Rightarrow> (None, var_name_symbol));
         descr = \<lparr>fd_var_type = symbol_from var_type, fd_var_name = var_name_symbol,
           fd_bit_count = pf_bit_count field, fd_low_value = pf_low_value field,
           fd_high_value = pf_high_value field, fd_encode_flags = pf_encode_flags field,
           fd_field_serializer_name = map_option symbol_from (resolve_opt msg (pf_field_serializer_name_sym field)),
           fd_send_node = send_node,
           fd_var_encoder = map_option symbol_from (resolve_opt msg (pf_var_encoder_sym field))\<rparr>
     in bindO (get_field_metadata C descr var_type) (\<lambda>metadata.
        Ok (SerField descr None metadata key))))"

definition flattened_serializer_new ::
    "flattened_msg \<Rightarrow> proto_serializer \<Rightarrow> (flattened_serializers_error, serializer) outcome" where
  "flattened_serializer_new msg fs =
     bindO (ok_or FsSymbolNotFound (resolve_opt msg (ps_serializer_name_sym fs))) (\<lambda>name.
     Ok (Serializer (symbol_from name) []))"

subsection \<open>The container\<close>

type_synonym field_map = "i32 \<rightharpoonup> ser_field"
type_synonym serializer_map = "u64 \<rightharpoonup> serializer"

definition named_serializer :: "serializer_map \<Rightarrow> ser_field \<Rightarrow> serializer option" where
  "named_serializer m field = Option.bind (fd_field_serializer_name (sf_descr field)) m"

text \<open>The serializer of a field's children, by the field's special descriptor.\<close>

definition child_serializer :: "serializer_map \<Rightarrow> ser_field \<Rightarrow> serializer option" where
  "child_serializer m field = (case fm_special (sf_metadata field) of
     Some (FixedArray n) \<Rightarrow>
       Some (Serializer 0 (replicate n (with_serializer (named_serializer m field) field)))
   | Some (DynamicArray decoder) \<Rightarrow>
       Some (Serializer 0 [with_metadata (field_metadata_default\<lparr>fm_decoder := decoder\<rparr>) ser_field_default])
   | Some DynamicSerializerArray \<Rightarrow>
       Some (Serializer 0 [with_serializer (named_serializer m field) ser_field_default])
   | _ \<Rightarrow> named_serializer m field)"

fun add_fields ::
    "'c charsor \<Rightarrow> flattened_msg \<Rightarrow> serializer_map \<Rightarrow> i32 list \<Rightarrow> field_map \<Rightarrow> ser_field list
     \<Rightarrow> (flattened_serializers_error, field_map \<times> ser_field list) outcome" where
  "add_fields C msg sm [] fm acc = Ok (fm, acc)"
| "add_fields C msg sm (field_index # is) fm acc = (case fm field_index of
     Some field \<Rightarrow> add_fields C msg sm is fm (acc @ [field])
   | None \<Rightarrow>
       bindO (index_slice (msg_fields msg) (unat (scast field_index :: usize))) (\<lambda>pf.
       bindO (map_err FsFieldMetadata (flattened_field_new C msg pf)) (\<lambda>field.
       let field = with_serializer (child_serializer sm field) field
       in add_fields C msg sm is (fm(field_index \<mapsto> field)) (acc @ [field]))))"

fun add_serializers ::
    "'c charsor \<Rightarrow> flattened_msg \<Rightarrow> proto_serializer list \<Rightarrow> field_map \<Rightarrow> serializer_map
     \<Rightarrow> (flattened_serializers_error, serializer_map) outcome" where
  "add_serializers C msg [] fm sm = Ok sm"
| "add_serializers C msg (serializer # ss) fm sm =
     bindO (flattened_serializer_new msg serializer) (\<lambda>fs.
     bindO (add_fields C msg sm (ps_fields_index serializer) fm []) (\<lambda>(fm, acc).
     add_serializers C msg ss fm (sm(fs_serializer_name fs \<mapsto> Serializer (fs_serializer_name fs) acc))))"

definition parse_serializers ::
    "'c charsor \<Rightarrow> flattened_msg \<Rightarrow> (flattened_serializers_error, serializer_map) outcome" where
  "parse_serializers C msg = add_serializers C msg (msg_serializers msg) Map.empty Map.empty"

text \<open>\<open>FlattenedSerializerContainer::parse\<close>: the message is preceded by its size, which is not used.\<close>

definition flattened_serializers_parse ::
    "(u8 list \<Rightarrow> (u64 \<times> nat \<times> u8 list) option) \<Rightarrow> (u8 list \<Rightarrow> flattened_msg option) \<Rightarrow> 'c charsor
     \<Rightarrow> u8 list option \<Rightarrow> (flattened_serializers_error, serializer_map) outcome" where
  "flattened_serializers_parse uvarint64 decode C data =
     bindO (ok_or FsVarintError (uvarint64 (case data of Some d \<Rightarrow> d | None \<Rightarrow> []))) (\<lambda>(_, _, rest).
     bindO (ok_or FsDecodeError (decode rest)) (parse_serializers C))"

definition by_name_hash :: "serializer_map \<Rightarrow> u64 \<Rightarrow> serializer option" where
  "by_name_hash m hash = m hash"

end
