(* ===== verification/FlattenedSerializersLaws.thy ===== *)
theory FlattenedSerializersLaws
  imports FlattenedSerializers FieldMetadataLaws
begin

text \<open>
  What the container of serializers promises the entity parser: the key of a field is the key of its
  path, a serializer is found under the hash of its name, arrays have the children their types say,
  and every dynamic array has the one child that the parser asks it for.
\<close>

subsection \<open>Keys\<close>

fun join_on :: "rchar \<Rightarrow> rstr list \<Rightarrow> rstr" where
  "join_on c [] = []"
| "join_on c [p] = p"
| "join_on c (p # ps) = p @ c # join_on c ps"

lemma split_on_ne [simp]: "split_on c s \<noteq> []"
  by (cases s) (auto simp: Let_def)

lemma split_on_cut:
  "c \<notin> set p \<Longrightarrow> split_on c (p @ c # s) = p # split_on c s"
  by (induction p) (auto simp: Let_def)

lemma split_on_whole: "c \<notin> set p \<Longrightarrow> split_on c p = [p]"
  by (induction p) (auto simp: Let_def)

lemma split_join_on:
  "ps \<noteq> [] \<Longrightarrow> \<forall>p\<in>set ps. c \<notin> set p \<Longrightarrow> split_on c (join_on c ps) = ps"
  by (induction c ps rule: join_on.induct) (auto simp: split_on_cut split_on_whole)

text \<open>The dotted path in front of a field's name.\<close>

definition send_path :: "flattened_msg \<Rightarrow> proto_field \<Rightarrow> rstr list \<Rightarrow> bool" where
  "send_path msg pf ps \<longleftrightarrow> (case resolve_opt msg (pf_send_node_sym pf) of
     Some s \<Rightarrow> if s = [] then ps = [] else ps \<noteq> [] \<and> s = join_on 46 ps \<and> (\<forall>p\<in>set ps. 46 \<notin> set p)
   | None \<Rightarrow> ps = [])"

lemma fkey_parts_foldl:
  "fkey_parts h (map as_bytes ps) = foldl (\<lambda>h p. add_u64_to_hash h (hash_bytes (as_bytes p))) h ps"
  by (induction ps arbitrary: h) auto

lemma send_node_hash_fkey:
  assumes "ps \<noteq> []" "\<forall>p\<in>set ps. 46 \<notin> set p"
  shows "fkey_from_path (map as_bytes ps) = Ok (send_node_hash (join_on 46 ps))"
  using assms by (simp add: send_node_hash_def split_join_on fkey_from_path_def index_slice_def
      hd_conv_nth fkey_parts_foldl flip: map_tl)

text \<open>C24: the key that a field gets from its message is the key \<open>fkey_from_path\<close> computes for the parts
  of its send node followed by its name, so a user can look a field up by its path.\<close>

theorem field_key_follows_path:
  assumes "flattened_field_new C msg pf = Ok f" "resolve_opt msg (pf_var_name_sym pf) = Some name"
    and "send_path msg pf ps"
  shows "fkey_from_path (map as_bytes (ps @ [name])) = Ok (sf_key f)"
  using assms fkey_from_path_snoc [OF send_node_hash_fkey, of ps "as_bytes name"]
  by (auto simp: flattened_field_new_def bindO_Ok_iff ok_or_def send_path_def symbol_from_def Let_def
      fkey_from_path_def index_slice_def split: option.splits if_splits prod.splits)

text \<open>A message with the fields \<open>bool a.b.m_x\<close>, \<open>CUtlVector<bool> m_v\<close> and \<open>bool[3] m_a\<close>.\<close>

definition example_proto :: "i32 \<Rightarrow> i32 \<Rightarrow> i32 option \<Rightarrow> proto_field" where
  "example_proto ty name send = \<lparr>pf_var_type_sym = Some ty, pf_var_name_sym = Some name, pf_bit_count = None,
       pf_low_value = None, pf_high_value = None, pf_encode_flags = None,
       pf_field_serializer_name_sym = None, pf_send_node_sym = send, pf_var_encoder_sym = None\<rparr>"

definition example_msg :: flattened_msg where
  "example_msg = \<lparr>
     msg_serializers = [\<lparr>ps_serializer_name_sym = Some 3, ps_fields_index = [0, 1, 2]\<rparr>],
     msg_symbols = map str_lit [''bool'', ''m_x'', ''a.b'', ''S'', ''CUtlVector<bool>'', ''m_v'', ''bool[3]'', ''m_a''],
     msg_fields = [example_proto 0 1 (Some 2), example_proto 4 5 None, example_proto 6 7 None]\<rparr>"

definition example_descr :: "string \<Rightarrow> string \<Rightarrow> u64 option \<Rightarrow> field_descr" where
  "example_descr ty name send = field_descr_default\<lparr>fd_var_type := symbol_from (str_lit ty),
     fd_var_name := symbol_from (str_lit name), fd_send_node := send\<rparr>"

definition example_field :: ser_field where
  "example_field = SerField (example_descr ''bool'' ''m_x'' (Some (send_node_hash (str_lit ''a.b'')))) None
     \<lparr>fm_special = None, fm_decoder = BoolDecoder\<rparr>
     (add_u64_to_hash (send_node_hash (str_lit ''a.b'')) (symbol_from (str_lit ''m_x'')))"

definition example_vector :: "serializer option \<Rightarrow> ser_field" where
  "example_vector s = SerField (example_descr ''CUtlVector<bool>'' ''m_v'' None) s
     \<lparr>fm_special = Some (DynamicArray BoolDecoder), fm_decoder = U64Decoder U64Varint\<rparr> (symbol_from (str_lit ''m_v''))"

definition example_array :: "serializer option \<Rightarrow> ser_field" where
  "example_array s = SerField (example_descr ''bool[3]'' ''m_a'' None) s
     \<lparr>fm_special = Some (FixedArray 3), fm_decoder = BoolDecoder\<rparr> (symbol_from (str_lit ''m_a''))"

lemmas is_char_simps = is_ident_start_def is_ident_continue_def is_ascii_alphabetic_def is_ascii_digit_def

lemma parse_examples:
  "vartype_parse ref_charsor (str_lit ''bool'') = Ok (ExIdent (str_lit ''bool''))"
  "vartype_parse ref_charsor (str_lit ''CUtlVector<bool>'')
    = Ok (ExTemplate (ExIdent (str_lit ''CUtlVector'')) (ExIdent (str_lit ''bool'')))"
  "vartype_parse ref_charsor (str_lit ''bool[3]'') = Ok (ExArray (ExIdent (str_lit ''bool'')) (ExLit (LitNum 3)))"
proof -
  have p: "vt_wf e \<Longrightarrow> show_expr e = s \<Longrightarrow> vartype_parse ref_charsor s = Ok e" for e s
    using parse_show_expr [OF ref_charsor_laws] by blast
  show "vartype_parse ref_charsor (str_lit ''bool'') = Ok (ExIdent (str_lit ''bool''))"
    by (rule p) (simp_all add: ident_ok_def str_lit_def is_char_simps)
  show "vartype_parse ref_charsor (str_lit ''CUtlVector<bool>'')
    = Ok (ExTemplate (ExIdent (str_lit ''CUtlVector'')) (ExIdent (str_lit ''bool'')))"
    by (rule p) (simp_all add: ident_ok_def str_lit_def is_char_simps)
  show "vartype_parse ref_charsor (str_lit ''bool[3]'') = Ok (ExArray (ExIdent (str_lit ''bool'')) (ExLit (LitNum 3)))"
    by (rule p) (simp_all add: ident_ok_def str_lit_def is_char_simps show_nat.simps)
qed

lemma example_metadata:
  "get_field_metadata ref_charsor d (str_lit ''bool'') = Ok \<lparr>fm_special = None, fm_decoder = BoolDecoder\<rparr>"
  "get_field_metadata ref_charsor d (str_lit ''bool[3]'')
    = Ok \<lparr>fm_special = Some (FixedArray 3), fm_decoder = BoolDecoder\<rparr>"
  "fd_field_serializer_name d = None \<Longrightarrow> get_field_metadata ref_charsor d (str_lit ''CUtlVector<bool>'')
    = Ok \<lparr>fm_special = Some (DynamicArray BoolDecoder), fm_decoder = U64Decoder U64Varint\<rparr>"
  by (simp_all add: get_field_metadata_def parse_examples visit_any.simps visit_array.simps visit_template.simps
      array_length_def container_idents_def visit_ident_def non_special_def)

lemma example_syms:
  "resolve_opt example_msg (Some 0) = Some (str_lit ''bool'')"
  "resolve_opt example_msg (Some 1) = Some (str_lit ''m_x'')"
  "resolve_opt example_msg (Some 2) = Some (str_lit ''a.b'')"
  "resolve_opt example_msg (Some 3) = Some (str_lit ''S'')"
  "resolve_opt example_msg (Some 4) = Some (str_lit ''CUtlVector<bool>'')"
  "resolve_opt example_msg (Some 5) = Some (str_lit ''m_v'')"
  "resolve_opt example_msg (Some 6) = Some (str_lit ''bool[3]'')"
  "resolve_opt example_msg (Some 7) = Some (str_lit ''m_a'')"
  "resolve_opt example_msg None = None"
  by (simp_all add: resolve_opt_def resolve_sym_def example_msg_def Let_def)

lemma example_field_new:
  "flattened_field_new ref_charsor example_msg (example_proto 0 1 (Some 2)) = Ok example_field"
  "flattened_field_new ref_charsor example_msg (example_proto 4 5 None) = Ok (example_vector None)"
  "flattened_field_new ref_charsor example_msg (example_proto 6 7 None) = Ok (example_array None)"
  by (simp_all add: flattened_field_new_def example_proto_def example_syms ok_or_def example_metadata
      example_field_def example_vector_def example_array_def example_descr_def field_descr_default_def Let_def)

theorem field_key_follows_path_witness:
  "fkey_from_path (map as_bytes ([str_lit ''a'', str_lit ''b''] @ [str_lit ''m_x''])) = Ok (sf_key example_field)"
  by (rule field_key_follows_path [OF example_field_new(1)])
    (simp_all add: example_proto_def example_syms send_path_def str_lit_def)

subsection \<open>The container\<close>

text \<open>The fields that can be reached from a field, and from the serializers of a container.\<close>

inductive below :: "ser_field \<Rightarrow> ser_field \<Rightarrow> bool" where
  here: "below f f"
| child: "below f g \<Longrightarrow> get_child g i = Some h \<Longrightarrow> below f h"

lemma below_child: "get_child f i = Some g \<Longrightarrow> below g h \<Longrightarrow> below f h"
  by (rotate_tac 1, induction rule: below.induct) (auto intro: below.intros)

lemma below_cases:
  assumes "below f h"
  shows "h = f \<or> (\<exists>i g. get_child f i = Some g \<and> below g h)"
  using assms by (induction rule: below.induct) (auto intro: below.intros)

definition one_child :: "ser_field \<Rightarrow> bool" where
  "one_child f \<longleftrightarrow> (is_dynamic_array f \<longrightarrow> (\<forall>i. get_child f i \<noteq> None \<longleftrightarrow> i = 0))"

definition good_field :: "ser_field \<Rightarrow> bool" where
  "good_field f \<longleftrightarrow> (\<forall>g. below f g \<longrightarrow> one_child g)"

definition good_serializer :: "serializer option \<Rightarrow> bool" where
  "good_serializer s \<longleftrightarrow> (\<forall>s'. s = Some s' \<longrightarrow> (\<forall>f \<in> set (fs_fields s'). good_field f))"

definition good_map :: "serializer_map \<Rightarrow> bool" where
  "good_map sm \<longleftrightarrow> (\<forall>h. good_serializer (sm h))"

lemma get_child_mem: "get_child f i = Some g \<Longrightarrow> \<exists>s. sf_serializer f = Some s \<and> g \<in> set (fs_fields s)"
  by (auto simp: get_child_def serializer_get_child_def bind_eq_Some_conv split: if_splits)

lemma good_fieldI: "one_child f \<Longrightarrow> good_serializer (sf_serializer f) \<Longrightarrow> good_field f"
  unfolding good_field_def good_serializer_def using below_cases get_child_mem by metis

lemma with_simps [simp]:
  "sf_serializer (with_serializer s f) = s" "sf_metadata (with_serializer s f) = sf_metadata f"
  "sf_key (with_serializer s f) = sf_key f" "sf_descr (with_serializer s f) = sf_descr f"
  "sf_serializer (with_metadata m f) = sf_serializer f" "sf_metadata (with_metadata m f) = m"
  by (cases f; simp)+

lemma is_array_simps [simp]:
  "is_dynamic_array (with_serializer s f) = is_dynamic_array f"
  "is_fixed_array (with_serializer s f) = is_fixed_array f"
  "is_dynamic_array ser_field_default = False"
  "sf_serializer ser_field_default = None"
  "is_dynamic_array (with_metadata (field_metadata_default\<lparr>fm_decoder := d\<rparr>) f) = False"
  by (simp_all add: is_dynamic_array_def is_fixed_array_def ser_field_default_def field_metadata_default_def)

lemma good_named: "good_map sm \<Longrightarrow> good_serializer (named_serializer sm f)"
  by (cases "fd_field_serializer_name (sf_descr f)") (auto simp: named_serializer_def good_map_def good_serializer_def)

lemma good_not_dynamic: "\<not> is_dynamic_array f \<Longrightarrow> good_serializer (sf_serializer f) \<Longrightarrow> good_field f"
  by (rule good_fieldI) (auto simp: one_child_def)

lemma dynamic_special:
  "is_dynamic_array f \<longleftrightarrow> (\<exists>d. fm_special (sf_metadata f) = Some (DynamicArray d)) \<or> fm_special (sf_metadata f) = Some DynamicSerializerArray"
  by (auto simp: is_dynamic_array_def special_is_dynamic_array_def split: option.splits special_descriptor.splits)

lemma child_serializer_good:
  assumes "good_map sm"
  shows "good_field (with_serializer (child_serializer sm f) f)"
proof (rule good_fieldI)
  show "one_child (with_serializer (child_serializer sm f) f)"
    by (auto simp: one_child_def dynamic_special child_serializer_def get_child_def serializer_get_child_def
        split: if_splits)
  have "good_serializer None" by (simp add: good_serializer_def)
  then show "good_serializer (sf_serializer (with_serializer (child_serializer sm f) f))"
    using good_named [OF assms, of f]
    by (auto simp: child_serializer_def good_serializer_def [of "Some _"] dynamic_special
        ser_field_default_def field_metadata_default_def
        intro!: good_not_dynamic split: option.splits special_descriptor.splits)
qed

definition array_children :: "ser_field \<Rightarrow> bool" where
  "array_children f \<longleftrightarrow> (\<forall>n. fm_special (sf_metadata f) = Some (FixedArray n) \<longrightarrow>
     (\<forall>i. case get_child f i of
        Some g \<Rightarrow> i < n \<and> sf_key g = sf_key f \<and> sf_metadata g = sf_metadata f
      | None \<Rightarrow> n \<le> i))"

lemma child_serializer_array: "array_children (with_serializer (child_serializer sm f) f)"
  by (auto simp: array_children_def child_serializer_def get_child_def serializer_get_child_def)

definition field_built :: "ser_field \<Rightarrow> bool" where
  "field_built f \<longleftrightarrow> good_field f \<and> array_children f"

lemma add_fields_built:
  assumes "add_fields C msg sm is fm acc = Ok (fm', acc')" "good_map sm"
    "\<forall>f \<in> set acc. field_built f" "\<forall>f \<in> ran fm. field_built f"
  shows "(\<forall>f \<in> set acc'. field_built f) \<and> (\<forall>f \<in> ran fm'. field_built f) \<and> length acc' = length acc + length is"
  using assms
proof (induction C msg sm "is" fm acc rule: add_fields.induct)
  case (2 C msg sm field_index "is" fm acc)
  show ?case
  proof (cases "fm field_index")
    case None
    from 2(3) obtain f where f:
      "add_fields C msg sm is (fm(field_index \<mapsto> with_serializer (child_serializer sm f) f))
        (acc @ [with_serializer (child_serializer sm f) f]) = Ok (fm', acc')"
      unfolding add_fields.simps None option.case bindO_Ok_iff Let_def by blast
    have b: "field_built (with_serializer (child_serializer sm f) f)"
      using child_serializer_good [OF 2(4)] child_serializer_array by (simp add: field_built_def)
    then have acc: "\<forall>g \<in> set (acc @ [with_serializer (child_serializer sm f) f]). field_built g"
      using 2(5) by simp
    have "\<forall>g \<in> ran (fm(field_index \<mapsto> with_serializer (child_serializer sm f) f)). field_built g"
      using b 2(6) None by (simp add: ran_map_upd)
    from 2(1) [OF None refl f 2(4) acc this] show ?thesis by simp
  next
    case (Some f)
    then have b: "field_built f" using 2(6) by (auto simp: ran_def)
    then have acc: "\<forall>g \<in> set (acc @ [f]). field_built g" using 2(5) by simp
    from 2(3) Some have "add_fields C msg sm is fm (acc @ [f]) = Ok (fm', acc')" by simp
    from 2(2) [OF Some this 2(4) acc 2(6)] show ?thesis by simp
  qed
qed auto

lemma add_serializers_built:
  assumes "add_serializers C msg ss fm sm = Ok sm'" "\<forall>f \<in> ran fm. field_built f"
    "\<forall>h s. sm h = Some s \<longrightarrow> fs_serializer_name s = h \<and> (\<forall>f \<in> set (fs_fields s). field_built f)"
  shows "(\<forall>h s. sm' h = Some s \<longrightarrow> fs_serializer_name s = h \<and> (\<forall>f \<in> set (fs_fields s). field_built f))
    \<and> (\<forall>h s. sm' h = Some s \<longrightarrow> sm h = Some s \<or> (\<exists>ps \<in> set ss. h \<in> symbol_from ` set_option (resolve_opt msg (ps_serializer_name_sym ps))
          \<and> length (fs_fields s) = length (ps_fields_index ps)))
    \<and> dom sm' = dom sm \<union> {symbol_from n | n ps. ps \<in> set ss \<and> resolve_opt msg (ps_serializer_name_sym ps) = Some n}"
  using assms
proof (induction C msg ss fm sm rule: add_serializers.induct)
  case (2 C msg ps ss fm sm)
  from 2(2) obtain n fm1 fields where r: "resolve_opt msg (ps_serializer_name_sym ps) = Some n"
    "add_fields C msg sm (ps_fields_index ps) fm [] = Ok (fm1, fields)"
    "add_serializers C msg ss fm1 (sm(symbol_from n \<mapsto> Serializer (symbol_from n) fields)) = Ok sm'"
    by (auto simp: bindO_Ok_iff flattened_serializer_new_def ok_or_def split: option.splits)
  have "good_map sm" using 2(4) by (auto simp: good_map_def good_serializer_def field_built_def)
  with add_fields_built [OF r(2)] 2(3)
  have built: "\<forall>f \<in> set fields. field_built f" "\<forall>f \<in> ran fm1. field_built f" "length fields = length (ps_fields_index ps)"
    by auto
  have new: "\<forall>h s. (sm(symbol_from n \<mapsto> Serializer (symbol_from n) fields)) h = Some s
      \<longrightarrow> fs_serializer_name s = h \<and> (\<forall>f \<in> set (fs_fields s). field_built f)"
    using built(1) 2(4) by auto
  note IH = 2(1) [where x = "Serializer (symbol_from n) []" and xa = fm1 and xb = fields,
      unfolded serializer.sel, OF r(3) built(2) new]
  from IH have "\<forall>h s. sm' h = Some s \<longrightarrow> sm h = Some s
       \<or> (\<exists>ps \<in> set (ps # ss). h \<in> symbol_from ` set_option (resolve_opt msg (ps_serializer_name_sym ps))
          \<and> length (fs_fields s) = length (ps_fields_index ps))"
  proof (intro allI impI)
    fix h s assume "sm' h = Some s"
    with IH [THEN conjunct2, THEN conjunct1]
    have "(sm(symbol_from n \<mapsto> Serializer (symbol_from n) fields)) h = Some s \<or> (\<exists>ps \<in> set ss.
        h \<in> symbol_from ` set_option (resolve_opt msg (ps_serializer_name_sym ps))
          \<and> length (fs_fields s) = length (ps_fields_index ps))" by blast
    then consider "h = symbol_from n" "s = Serializer (symbol_from n) fields"
      | "sm h = Some s" | ps where "ps \<in> set ss" "h \<in> symbol_from ` set_option (resolve_opt msg (ps_serializer_name_sym ps))"
        "length (fs_fields s) = length (ps_fields_index ps)"
      by (auto split: if_splits)
    then show "sm h = Some s \<or> (\<exists>ps \<in> set (ps # ss). h \<in> symbol_from ` set_option (resolve_opt msg (ps_serializer_name_sym ps))
          \<and> length (fs_fields s) = length (ps_fields_index ps))"
      by cases (use r(1) built(3) in auto)
  qed
  moreover have "dom sm' = dom sm \<union> {symbol_from m | m q. q \<in> set (ps # ss) \<and> resolve_opt msg (ps_serializer_name_sym q) = Some m}"
    unfolding IH [THEN conjunct2, THEN conjunct2] using r(1) by auto
  ultimately show ?case using IH [THEN conjunct1] by (intro conjI)
qed auto

text \<open>The fields a user of the container can reach.\<close>

definition field_of :: "serializer_map \<Rightarrow> ser_field \<Rightarrow> bool" where
  "field_of sm f \<longleftrightarrow> (\<exists>h s g. by_name_hash sm h = Some s \<and> g \<in> set (fs_fields s) \<and> below g f)"

lemma parse_serializers_built:
  assumes "parse_serializers C msg = Ok sm"
  shows "by_name_hash sm h = Some s \<Longrightarrow> fs_serializer_name s = h \<and> (\<forall>f \<in> set (fs_fields s). field_built f)"
    "by_name_hash sm h = Some s \<Longrightarrow> \<exists>ps \<in> set (msg_serializers msg).
       h \<in> symbol_from ` set_option (resolve_opt msg (ps_serializer_name_sym ps)) \<and> length (fs_fields s) = length (ps_fields_index ps)"
    "dom sm = {symbol_from n | n ps. ps \<in> set (msg_serializers msg) \<and> resolve_opt msg (ps_serializer_name_sym ps) = Some n}"
  using add_serializers_built [OF assms [unfolded parse_serializers_def]] by (auto simp: by_name_hash_def)

text \<open>C22: every dynamic array that can be reached in a parsed container, at any depth, has exactly one
  child, the one the entity parser asks for whatever the index in the field path; and a fixed array of
  \<open>n\<close> elements, reached from a serializer, has children exactly below \<open>n\<close>, all with the key and the
  metadata of the array.\<close>

theorem container_arrays:
  assumes "parse_serializers C msg = Ok sm"
  shows "(\<forall>f. field_of sm f \<longrightarrow> is_dynamic_array f \<longrightarrow> (\<forall>i. get_child f i \<noteq> None \<longleftrightarrow> i = 0))
    \<and> (\<forall>h s f n. by_name_hash sm h = Some s \<longrightarrow> f \<in> set (fs_fields s) \<longrightarrow>
         fm_special (sf_metadata f) = Some (FixedArray n) \<longrightarrow>
         (\<forall>i. case get_child f i of
            Some g \<Rightarrow> i < n \<and> sf_key g = sf_key f \<and> sf_metadata g = sf_metadata f | None \<Rightarrow> n \<le> i))"
proof (intro conjI allI impI)
  fix f i assume "field_of sm f" "is_dynamic_array f"
  with parse_serializers_built(1) [OF assms] show "get_child f i \<noteq> None \<longleftrightarrow> i = 0"
    unfolding field_of_def field_built_def good_field_def one_child_def by blast
next
  fix h s f n i
  assume "by_name_hash sm h = Some s" "f \<in> set (fs_fields s)" "fm_special (sf_metadata f) = Some (FixedArray n)"
  with parse_serializers_built(1) [OF assms]
  show "case get_child f i of Some g \<Rightarrow> i < n \<and> sf_key g = sf_key f \<and> sf_metadata g = sf_metadata f | None \<Rightarrow> n \<le> i"
    unfolding field_built_def array_children_def by blast
qed

definition example_vector_children :: serializer where
  "example_vector_children = Serializer 0
     [with_metadata (field_metadata_default\<lparr>fm_decoder := BoolDecoder\<rparr>) ser_field_default]"

definition example_serializer :: serializer where
  "example_serializer = Serializer (symbol_from (str_lit ''S''))
     [example_field, example_vector (Some example_vector_children),
      example_array (Some (Serializer 0 (replicate 3 (example_array None))))]"

lemma example_children:
  "with_serializer (child_serializer sm example_field) example_field = example_field"
  "with_serializer (child_serializer sm (example_vector None)) (example_vector None)
    = example_vector (Some example_vector_children)"
  "with_serializer (child_serializer sm (example_array None)) (example_array None)
    = example_array (Some (Serializer 0 (replicate 3 (example_array None))))"
  by (simp_all add: child_serializer_def named_serializer_def example_field_def example_vector_def
      example_array_def example_descr_def field_descr_default_def example_vector_children_def)

lemma example_parse: "parse_serializers ref_charsor example_msg
    = Ok [symbol_from (str_lit ''S'') \<mapsto> example_serializer]"
proof -
  have msg: "msg_fields example_msg = [example_proto 0 1 (Some 2), example_proto 4 5 None, example_proto 6 7 None]"
    "msg_serializers example_msg = [\<lparr>ps_serializer_name_sym = Some 3, ps_fields_index = [0, 1, 2]\<rparr>]"
    by (simp_all add: example_msg_def)
  show ?thesis
    by (simp add: parse_serializers_def msg flattened_serializer_new_def example_syms ok_or_def index_slice_def
        example_field_new example_children example_serializer_def Let_def)
qed

theorem container_arrays_witness:
  "\<exists>sm f. parse_serializers ref_charsor example_msg = Ok sm \<and> field_of sm f \<and> is_dynamic_array f
    \<and> get_child f 0 \<noteq> None \<and> get_child f 1 = None"
proof -
  define f where "f = example_vector (Some example_vector_children)"
  have "field_of [symbol_from (str_lit ''S'') \<mapsto> example_serializer] f"
    unfolding field_of_def by_name_hash_def
    by (intro exI [of _ "symbol_from (str_lit ''S'')"] exI [of _ example_serializer] exI [of _ f])
      (simp add: example_serializer_def f_def below.here)
  moreover have "is_dynamic_array f"
    by (simp add: f_def example_vector_def is_dynamic_array_def special_is_dynamic_array_def)
  ultimately show ?thesis using container_arrays [OF example_parse] example_parse by (metis zero_neq_one)
qed

subsection \<open>Which fields a serializer gets\<close>

text \<open>The two maps that \<open>parse\<close> fills, after some of the serializers.\<close>

fun container_state ::
    "'c charsor \<Rightarrow> flattened_msg \<Rightarrow> proto_serializer list \<Rightarrow> field_map \<Rightarrow> serializer_map
     \<Rightarrow> (flattened_serializers_error, field_map \<times> serializer_map) outcome" where
  "container_state C msg [] fm sm = Ok (fm, sm)"
| "container_state C msg (serializer # ss) fm sm =
     bindO (flattened_serializer_new msg serializer) (\<lambda>fs.
     bindO (add_fields C msg sm (ps_fields_index serializer) fm []) (\<lambda>(fm, acc).
     container_state C msg ss fm (sm(fs_serializer_name fs \<mapsto> Serializer (fs_serializer_name fs) acc))))"

lemma add_serializers_state:
  "add_serializers C msg ss fm sm = Ok sm' \<longleftrightarrow> (\<exists>fm'. container_state C msg ss fm sm = Ok (fm', sm'))"
proof (induction ss arbitrary: fm sm)
  case (Cons a ss)
  then show ?case
    by (cases "flattened_serializer_new msg a"; cases "add_fields C msg sm (ps_fields_index a) fm []") (simp_all split: prod.split)
qed simp

lemma container_state_append:
  "container_state C msg (xs @ ys) fm sm = Ok (fm', sm') \<longleftrightarrow>
   (\<exists>fm1 sm1. container_state C msg xs fm sm = Ok (fm1, sm1) \<and> container_state C msg ys fm1 sm1 = Ok (fm', sm'))"
proof (induction xs arbitrary: fm sm)
  case (Cons a xs)
  then show ?case
    by (cases "flattened_serializer_new msg a"; cases "add_fields C msg sm (ps_fields_index a) fm []") (simp_all split: prod.split)
qed simp

definition serializer_hash :: "flattened_msg \<Rightarrow> proto_serializer \<Rightarrow> u64 option" where
  "serializer_hash msg ps = map_option symbol_from (resolve_opt msg (ps_serializer_name_sym ps))"

text \<open>The field that index \<open>x\<close> stands for: made from the field of the message at that index, when the first
  serializer that lists \<open>x\<close> is reached, with the serializers before it to choose its children from.\<close>

definition made_field ::
    "'c charsor \<Rightarrow> flattened_msg \<Rightarrow> serializer_map \<Rightarrow> i32 \<Rightarrow> ser_field \<Rightarrow> bool" where
  "made_field C msg sm x f \<longleftrightarrow> (let n = unat (scast x :: usize) in n < length (msg_fields msg)
     \<and> (\<exists>f0. flattened_field_new C msg (msg_fields msg ! n) = Ok f0 \<and> f = with_serializer (child_serializer sm f0) f0))"

definition listed_field ::
    "'c charsor \<Rightarrow> flattened_msg \<Rightarrow> proto_serializer list \<Rightarrow> i32 \<Rightarrow> ser_field \<Rightarrow> bool" where
  "listed_field C msg ss x f \<longleftrightarrow> (\<exists>k < length ss. x \<in> set (ps_fields_index (ss ! k))
     \<and> (\<forall>k' < k. x \<notin> set (ps_fields_index (ss ! k')))
     \<and> (\<exists>sm. add_serializers C msg (take k ss) Map.empty Map.empty = Ok sm \<and> made_field C msg sm x f))"

lemma listed_field_more: "listed_field C msg ss x f \<Longrightarrow> listed_field C msg (ss @ ts) x f"
  unfolding listed_field_def by (auto simp: nth_append)

lemma add_fields_made:
  assumes "add_fields C msg sm xs fm acc = Ok (fm', acc')"
  shows "dom fm' = dom fm \<union> set xs \<and> (\<forall>x f. fm' x = Some f \<longrightarrow> fm x = Some f \<or> fm x = None \<and> made_field C msg sm x f)
    \<and> (\<exists>fs. acc' = acc @ fs \<and> list_all2 (\<lambda>x f. fm' x = Some f) xs fs) \<and> fm \<subseteq>\<^sub>m fm'"
  using assms
proof (induction C msg sm xs fm acc rule: add_fields.induct)
  case (2 C msg sm x xs fm acc)
  show ?case
  proof (cases "fm x")
    case None
    with 2(3) obtain pf f0 where f0: "index_slice (msg_fields msg) (unat (scast x :: usize)) = (Ok pf :: (flattened_serializers_error, _) outcome)"
      "flattened_field_new C msg pf = Ok f0"
      and run: "add_fields C msg sm xs (fm(x \<mapsto> with_serializer (child_serializer sm f0) f0)) (acc @ [with_serializer (child_serializer sm f0) f0])
        = Ok (fm', acc')"
      by (auto simp: bindO_Ok_iff Let_def map_err_Ok_iff)
    then have made: "made_field C msg sm x (with_serializer (child_serializer sm f0) f0)"
      by (auto simp: made_field_def Let_def index_slice_def split: if_splits)
    define f where "f = with_serializer (child_serializer sm f0) f0"
    note IH = 2(1) [OF None refl run, folded f_def] and made = made [folded f_def]
    have le: "fm(x \<mapsto> f) \<subseteq>\<^sub>m fm'" using IH by blast
    then have x: "fm' x = Some f" by (auto simp: map_le_def)
    show ?thesis
    proof (intro conjI allI impI)
      show "dom fm' = dom fm \<union> set (x # xs)" using IH by auto
      show "fm \<subseteq>\<^sub>m fm'" by (rule map_le_trans [OF _ le]) (auto simp: map_le_def None)
      show "\<exists>fs. acc' = acc @ fs \<and> list_all2 (\<lambda>x f. fm' x = Some f) (x # xs) fs" using IH x by fastforce
      fix y g assume "fm' y = Some g"
      then show "fm y = Some g \<or> fm y = None \<and> made_field C msg sm y g"
        using IH x None made by (cases "y = x") (auto split: if_splits)
    qed
  next
    case (Some f)
    with 2(3) have run: "add_fields C msg sm xs fm (acc @ [f]) = Ok (fm', acc')" by simp
    note IH = 2(2) [OF Some run]
    then have "fm' x = Some f" using Some by (metis domI map_le_def)
    with IH Some show ?thesis by (auto simp: insert_absorb domI)
  qed
qed (auto simp: map_le_def)

lemma container_state_made:
  assumes "container_state C msg ss Map.empty Map.empty = Ok (fm, sm)"
  shows "dom fm = (\<Union>ps \<in> set ss. set (ps_fields_index ps)) \<and> (\<forall>x f. fm x = Some f \<longrightarrow> listed_field C msg ss x f)
    \<and> (\<forall>h s. sm h = Some s \<longrightarrow> (\<exists>j < length ss. serializer_hash msg (ss ! j) = Some h
      \<and> (\<forall>j' < length ss. j < j' \<longrightarrow> serializer_hash msg (ss ! j') \<noteq> Some h)
      \<and> list_all2 (listed_field C msg ss) (ps_fields_index (ss ! j)) (fs_fields s)))"
  using assms
proof (induction ss arbitrary: fm sm rule: rev_induct)
  case (snoc ps ss)
  then obtain fm1 sm1 where 1: "container_state C msg ss Map.empty Map.empty = Ok (fm1, sm1)"
    and last: "container_state C msg [ps] fm1 sm1 = Ok (fm, sm)" unfolding container_state_append by blast
  from last obtain n fs where n: "resolve_opt msg (ps_serializer_name_sym ps) = Some n"
    and add: "add_fields C msg sm1 (ps_fields_index ps) fm1 [] = Ok (fm, fs)"
    and sm: "sm = sm1(symbol_from n \<mapsto> Serializer (symbol_from n) fs)"
    by (auto simp: bindO_Ok_iff flattened_serializer_new_def ok_or_def split: option.splits)
  note IH = snoc.IH [OF 1] and added = add_fields_made [OF add]
  have before: "add_serializers C msg (take (length ss) (ss @ [ps])) Map.empty Map.empty = Ok sm1"
    using 1 add_serializers_state by simp blast
  have made: "listed_field C msg (ss @ [ps]) x f"
    if "fm1 x = None" "x \<in> set (ps_fields_index ps)" "made_field C msg sm1 x f" for x f
  proof -
    have "x \<notin> (\<Union>p \<in> set ss. set (ps_fields_index p))" using that(1) IH by (metis domIff)
    then have "x \<notin> set (ps_fields_index ((ss @ [ps]) ! k))" if "k < length ss" for k
      using that by (auto simp: nth_append)
    then show ?thesis unfolding listed_field_def
      using before that(2,3) by (intro exI [of _ "length ss"]) auto
  qed
  have listed: "listed_field C msg (ss @ [ps]) x f" if "fm x = Some f" for x f
  proof (cases "fm1 x")
    case (Some f1)
    with that added have "fm1 x = Some f" by (metis option.distinct(1))
    with IH show ?thesis by (simp add: listed_field_more)
  next
    case None
    from that have "x \<in> dom fm" by (rule domI)
    with None have "x \<in> set (ps_fields_index ps)" unfolding added [THEN conjunct1] by (simp add: domIff)
    moreover have "made_field C msg sm1 x f"
      using added [THEN conjunct2, THEN conjunct1, rule_format, OF that] None by simp
    ultimately show ?thesis by (rule made [OF None])
  qed
  show ?case
  proof (intro conjI allI impI)
    show "dom fm = (\<Union>p \<in> set (ss @ [ps]). set (ps_fields_index p))" using added IH by auto
    show "listed_field C msg (ss @ [ps]) x f" if "fm x = Some f" for x f using that by (rule listed)
    fix h s assume s: "sm h = Some s"
    show "\<exists>j < length (ss @ [ps]). serializer_hash msg ((ss @ [ps]) ! j) = Some h
      \<and> (\<forall>j' < length (ss @ [ps]). j < j' \<longrightarrow> serializer_hash msg ((ss @ [ps]) ! j') \<noteq> Some h)
      \<and> list_all2 (listed_field C msg (ss @ [ps])) (ps_fields_index ((ss @ [ps]) ! j)) (fs_fields s)"
    proof (cases "h = symbol_from n")
      case True
      with s sm have "s = Serializer h fs" by simp
      moreover have "list_all2 (listed_field C msg (ss @ [ps])) (ps_fields_index ps) fs"
        using added listed by (auto elim: list_all2_mono)
      ultimately show ?thesis using True n by (intro exI [of _ "length ss"]) (simp add: serializer_hash_def)
    next
      case False
      with s sm have "sm1 h = Some s" by simp
      with IH obtain j where j: "j < length ss" "serializer_hash msg (ss ! j) = Some h"
        "\<forall>j' < length ss. j < j' \<longrightarrow> serializer_hash msg (ss ! j') \<noteq> Some h"
        "list_all2 (listed_field C msg ss) (ps_fields_index (ss ! j)) (fs_fields s)" by blast
      have "serializer_hash msg ps \<noteq> Some h" using n False by (simp add: serializer_hash_def)
      moreover have "list_all2 (listed_field C msg (ss @ [ps])) (ps_fields_index (ss ! j)) (fs_fields s)"
        using j(4) by (auto elim: list_all2_mono intro: listed_field_more)
      ultimately show ?thesis using j(1-3)
        by (intro exI [of _ j]) (auto simp: nth_append less_Suc_eq)
    qed
  qed
qed simp

text \<open>C23: a parsed container knows exactly the serializers of the message: a hash is found if and only if
  it is the hash of a serializer's name in the message.  What is found carries that hash as its name and is
  built from the last serializer of that name: its fields are those that serializer lists, one for one and
  in that order, each made from the message's field at the listed index, with the child serializer that
  its type calls for; a field that several serializers list is made once, when the first of them is reached,
  from the serializers that precede that one.\<close>

theorem container_lookup:
  assumes "parse_serializers C msg = Ok sm"
  shows "((\<exists>s. by_name_hash sm h = Some s) \<longleftrightarrow> (\<exists>ps n. ps \<in> set (msg_serializers msg)
      \<and> resolve_opt msg (ps_serializer_name_sym ps) = Some n \<and> h = symbol_from n))
    \<and> (\<forall>s. by_name_hash sm h = Some s \<longrightarrow> fs_serializer_name s = h
      \<and> (\<exists>j < length (msg_serializers msg). serializer_hash msg (msg_serializers msg ! j) = Some h
         \<and> (\<forall>j' < length (msg_serializers msg). j < j' \<longrightarrow> serializer_hash msg (msg_serializers msg ! j') \<noteq> Some h)
         \<and> list_all2 (listed_field C msg (msg_serializers msg)) (ps_fields_index (msg_serializers msg ! j)) (fs_fields s)))"
proof -
  have "(\<exists>s. by_name_hash sm h = Some s) \<longleftrightarrow> h \<in> dom sm" by (simp add: by_name_hash_def domIff)
  moreover obtain fm where "container_state C msg (msg_serializers msg) Map.empty Map.empty = Ok (fm, sm)"
    using assms unfolding parse_serializers_def add_serializers_state by blast
  ultimately show ?thesis
    unfolding parse_serializers_built(3) [OF assms]
    using parse_serializers_built(1) [OF assms, of h] container_state_made
    by (fastforce simp: by_name_hash_def)
qed

theorem container_lookup_witness:
  "\<exists>sm s f. parse_serializers ref_charsor example_msg = Ok sm
    \<and> by_name_hash sm (symbol_from (str_lit ''S'')) = Some s \<and> length (fs_fields s) = 3
    \<and> flattened_field_new ref_charsor example_msg (example_proto 4 5 None) = Ok f
    \<and> fs_fields s ! 1 = with_serializer (child_serializer Map.empty f) f"
proof -
  obtain sm where sm: "parse_serializers ref_charsor example_msg = Ok sm" using example_parse by blast
  have msg: "msg_fields example_msg = [example_proto 0 1 (Some 2), example_proto 4 5 None, example_proto 6 7 None]"
    "msg_serializers example_msg = [\<lparr>ps_serializer_name_sym = Some 3, ps_fields_index = [0, 1, 2]\<rparr>]"
    by (simp_all add: example_msg_def)
  have "\<exists>ps n. ps \<in> set (msg_serializers example_msg)
      \<and> resolve_opt example_msg (ps_serializer_name_sym ps) = Some n \<and> symbol_from (str_lit ''S'') = symbol_from n"
    using example_syms(4) by (auto simp: example_msg_def)
  with container_lookup [OF sm, of "symbol_from (str_lit ''S'')"] obtain s where s: "by_name_hash sm (symbol_from (str_lit ''S'')) = Some s"
    "list_all2 (listed_field ref_charsor example_msg (msg_serializers example_msg)) [0, 1, 2] (fs_fields s)"
    unfolding msg by auto
  then have "length (fs_fields s) = 3" "listed_field ref_charsor example_msg (msg_serializers example_msg) 1 (fs_fields s ! 1)"
    by (auto simp: list_all2_conv_all_nth dest: spec [of _ 1])
  then show ?thesis using sm s(1) by (auto simp: listed_field_def made_field_def msg)
qed

end
