(* ===== verification/StringTables.thy ===== *)
theory StringTables
  imports BitReader FlattenedSerializers
begin

text \<open>
  \<open>haste_core/src/stringtables.rs\<close>: string tables and their updates.

  The user data of an item is an \<open>Arc<SyncUnsafeCell<Vec<u8>>>\<close> that the instance baselines share and
  that \<open>parse_update\<close> overwrites in place: a cell is an address into a store of byte vectors, and
  sharing is having the same address.  \<open>parse_update\<close> runs on the table, the store and the reader; its
  scratch buffers and its history live in the table and keep their content from call to call.  The
  crate \<open>snap\<close> is a parameter: the two functions of \<open>snap\<close> below.

  The count of history entries is a \<open>usize\<close> that is incremented at most once per round of a loop of
  fewer than \<open>2^64\<close> rounds, so it is a number here.
\<close>

definition HISTORY_SIZE :: nat where "HISTORY_SIZE = 32"
definition MAX_STRING_BITS :: nat where "MAX_STRING_BITS = 5"
definition MAX_STRING_SIZE :: nat where "MAX_STRING_SIZE = 2 ^ MAX_STRING_BITS"
definition MAX_USERDATA_BITS :: nat where "MAX_USERDATA_BITS = 17"
definition MAX_USERDATA_SIZE :: nat where "MAX_USERDATA_SIZE = 2 ^ MAX_USERDATA_BITS"

type_synonym cell = nat
type_synonym cell_store = "u8 list list"

record string_table_item =
  sti_string :: "u8 list option"
  sti_user_data :: "cell option"

record string_table =
  st_name :: rstr
  st_user_data_fixed_size :: bool
  st_user_data_size :: i32
  st_user_data_size_bits :: i32
  st_flags :: i32
  st_using_varint_bitcounts :: bool
  st_items :: "i32 \<rightharpoonup> string_table_item"
  st_history :: "u8 list list"
  st_string_buf :: "u8 list"
  st_user_data_buf :: "u8 list"
  st_user_data_uncompressed_buf :: "u8 list"

datatype string_table_error = StDecompress | StBitReader bit_error

text \<open>\<open>decompress src dst\<close> gives the new content of \<open>dst\<close>.\<close>

record snap =
  snap_decompress :: "u8 list \<Rightarrow> u8 list \<Rightarrow> u8 list option"
  snap_decompress_len :: "u8 list \<Rightarrow> nat option"

definition get_string :: "string_table_item \<Rightarrow> u8 list option" where
  "get_string item = sti_string item"

definition get_user_data :: "cell_store \<Rightarrow> string_table_item \<Rightarrow> u8 list option" where
  "get_user_data h item = map_option (\<lambda>c. h ! c) (sti_user_data item)"

definition string_table_new :: "rstr \<Rightarrow> bool \<Rightarrow> i32 \<Rightarrow> i32 \<Rightarrow> i32 \<Rightarrow> bool \<Rightarrow> string_table" where
  "string_table_new name fixed_size udsize size_bits flags varint_bitcounts = \<lparr>
     st_name = name, st_user_data_fixed_size = fixed_size, st_user_data_size = udsize,
     st_user_data_size_bits = size_bits, st_flags = flags,
     st_using_varint_bitcounts = varint_bitcounts, st_items = Map.empty,
     st_history = replicate HISTORY_SIZE (replicate MAX_STRING_SIZE 0),
     st_string_buf = replicate 1024 0, st_user_data_buf = replicate MAX_USERDATA_SIZE 0,
     st_user_data_uncompressed_buf = replicate MAX_USERDATA_SIZE 0\<rparr>"

subsection \<open>One update\<close>

type_synonym ('s, 'a) table_rm = "((string_table \<times> cell_store) \<times> 's bit_reader, string_table_error, 'a) rm"

text \<open>\<open>br.read_..()?\<close>, and reading and changing the table.\<close>

definition table_bits :: "('s bit_reader, bit_error, 'a) rm \<Rightarrow> ('s, 'a) table_rm" where
  "table_bits m = map_errM StBitReader (on_reader m)"

definition get_table_part :: "(string_table \<Rightarrow> 'a) \<Rightarrow> ('s, 'a) table_rm" where
  "get_table_part f = (\<lambda>((t, h), br). (Ok (f t), ((t, h), br)))"

definition change_table :: "(string_table \<Rightarrow> string_table) \<Rightarrow> ('s, unit) table_rm" where
  "change_table f = (\<lambda>((t, h), br). (Ok (), ((f t, h), br)))"

definition read_entry_index :: "'s bitbuf \<Rightarrow> i32 \<Rightarrow> ('s, i32) table_rm" where
  "read_entry_index B entry_index =
     bindM (table_bits (read_bool B)) (\<lambda>b. if b then retM (entry_index + 1)
       else bindM (table_bits (read_uvarint32 B)) (\<lambda>v. retM (v + 1)))"

definition history_index :: "nat \<Rightarrow> nat \<Rightarrow> nat" where
  "history_index history_delta_index i =
     ((if history_delta_index > HISTORY_SIZE then history_delta_index mod HISTORY_SIZE else 0) + i) mod HISTORY_SIZE"

text \<open>\<open>string_buf[..n].copy_from_slice(&history[index].string[..n])\<close>\<close>

definition copy_from_history :: "nat \<Rightarrow> nat \<Rightarrow> ('s, unit) table_rm" where
  "copy_from_history index n =
     bindM (get_table_part (\<lambda>t. (st_history t, st_string_buf t))) (\<lambda>(history, buf).
     bindM (liftO (index_slice history index)) (\<lambda>entry.
     bindM (liftO (slice_to entry n)) (\<lambda>src.
     bindM (liftO (slice_to buf n)) (\<lambda>_.
     change_table (\<lambda>t. t\<lparr>st_string_buf := src @ drop n buf\<rparr>)))))"

text \<open>\<open>br.read_string(&mut string_buf[off..], false)?\<close>\<close>

definition read_string_at :: "'s bitbuf \<Rightarrow> nat \<Rightarrow> ('s, nat) table_rm" where
  "read_string_at B off =
     bindM (get_table_part st_string_buf) (\<lambda>buf.
     bindM (liftO (slice_range buf off (length buf))) (\<lambda>tail. (\<lambda>((t, h), br).
       case read_string B False (tail, br) of (r, (tail, br)) \<Rightarrow>
         (map_err StBitReader r, ((t\<lparr>st_string_buf := take off buf @ tail\<rparr>, h), br)))))"

definition push_history :: "nat \<Rightarrow> ('s, unit) table_rm" where
  "push_history history_delta_index =
     bindM (get_table_part (\<lambda>t. (st_history t, st_string_buf t))) (\<lambda>(history, buf).
     bindM (liftO (slice_to buf MAX_STRING_SIZE)) (\<lambda>she.
     bindM (liftO (store_slice history (history_delta_index mod HISTORY_SIZE) she)) (\<lambda>history.
     change_table (\<lambda>t. t\<lparr>st_history := history\<rparr>))))"

definition read_entry_string :: "'s bitbuf \<Rightarrow> nat \<Rightarrow> ('s, u8 list option \<times> nat) table_rm" where
  "read_entry_string B history_delta_index =
     bindM (table_bits (read_bool B)) (\<lambda>has_string.
     if \<not> has_string then retM (None, history_delta_index) else
     bindM (table_bits (read_bool B)) (\<lambda>from_history.
     bindM (if from_history then
              bindM (table_bits (read_ubit64 B 5)) (\<lambda>i.
              bindM (table_bits (read_ubit64 B MAX_STRING_BITS)) (\<lambda>bytestocopy.
              seqM (copy_from_history (history_index history_delta_index (unat i)) (unat bytestocopy))
                (bindM (read_string_at B (unat bytestocopy)) (\<lambda>n. retM (unat bytestocopy + n)))))
            else read_string_at B 0) (\<lambda>size.
     seqM (push_history history_delta_index)
       (bindM (get_table_part st_string_buf) (\<lambda>buf.
        bindM (liftO (slice_to buf size)) (\<lambda>s.
        retM (Some s, Suc history_delta_index)))))))"

text \<open>A signed size as an index: the sign is extended.\<close>

definition as_usize :: "i32 \<Rightarrow> nat" where
  "as_usize x = unat (scast x :: usize)"

definition read_fixed_user_data :: "'s bitbuf \<Rightarrow> ('s, u8 list) table_rm" where
  "read_fixed_user_data B =
     bindM (get_table_part (\<lambda>t. (st_user_data_buf t, st_user_data_size t, st_user_data_size_bits t)))
       (\<lambda>(buf, size, size_bits).
     bindM (table_bits (read_bits B buf (as_usize size_bits))) (\<lambda>buf.
     seqM (change_table (\<lambda>t. t\<lparr>st_user_data_buf := buf\<rparr>)) (liftO (slice_to buf (as_usize size)))))"

definition decompress_user_data :: "snap \<Rightarrow> nat \<Rightarrow> ('s, u8 list) table_rm" where
  "decompress_user_data Z len =
     bindM (get_table_part (\<lambda>t. (st_user_data_buf t, st_user_data_uncompressed_buf t))) (\<lambda>(buf, out).
     bindM (liftO (slice_to buf len)) (\<lambda>src.
     bindM (liftO (ok_or StDecompress (snap_decompress Z src out))) (\<lambda>out.
     seqM (change_table (\<lambda>t. t\<lparr>st_user_data_uncompressed_buf := out\<rparr>))
       (bindM (liftO (ok_or StDecompress (snap_decompress_len Z buf))) (\<lambda>n.
        liftO (slice_to out n))))))"

definition read_sized_user_data :: "'s bitbuf \<Rightarrow> snap \<Rightarrow> ('s, u8 list) table_rm" where
  "read_sized_user_data B Z =
     bindM (get_table_part (\<lambda>t. (st_flags t, st_using_varint_bitcounts t, st_user_data_buf t)))
       (\<lambda>(flags, varint_bitcounts, buf).
     bindM (if flags AND 1 \<noteq> 0 then table_bits (read_bool B) else retM False) (\<lambda>is_compressed.
     bindM (if varint_bitcounts then bindM (table_bits (read_ubitvar B)) (\<lambda>n. retM (unat n))
            else bindM (table_bits (read_ubit64 B MAX_USERDATA_BITS)) (\<lambda>n. retM (unat n))) (\<lambda>size.
     bindM (liftO (slice_to buf size)) (\<lambda>head.
     bindM (table_bits (read_bytes B head)) (\<lambda>head.
     seqM (change_table (\<lambda>t. t\<lparr>st_user_data_buf := head @ drop size buf\<rparr>))
       (if is_compressed then decompress_user_data Z size
        else liftO (slice_to (head @ drop size buf) size)))))))"

definition read_user_data :: "'s bitbuf \<Rightarrow> snap \<Rightarrow> ('s, u8 list option) table_rm" where
  "read_user_data B Z =
     bindM (table_bits (read_bool B)) (\<lambda>has_user_data.
     if \<not> has_user_data then retM None else
     bindM (get_table_part st_user_data_fixed_size) (\<lambda>fixed_size.
     bindM (if fixed_size then read_fixed_user_data B else read_sized_user_data B Z) (\<lambda>data.
     retM (Some data))))"

subsection \<open>Items\<close>

definition alloc_data :: "u8 list option \<Rightarrow> cell_store \<Rightarrow> cell option \<times> cell_store" where
  "alloc_data data h = (case data of None \<Rightarrow> (None, h) | Some d \<Rightarrow> (Some (length h), h @ [d]))"

text \<open>
  \<open>entry(i).and_modify(..).or_insert_with(..)\<close>: an item that has a cell gets the new data into that
  cell, one without gets a new cell, a missing item is made; the string of an item never changes.
\<close>

definition put_item ::
    "i32 \<Rightarrow> u8 list option \<Rightarrow> u8 list option \<Rightarrow> string_table \<times> cell_store \<Rightarrow> string_table \<times> cell_store" where
  "put_item i string data = (\<lambda>(t, h). case st_items t i of
     Some item \<Rightarrow> (case sti_user_data item of
         Some c \<Rightarrow> (case data of Some d \<Rightarrow> (t, h[c := d]) | None \<Rightarrow> (t, h))
       | None \<Rightarrow> let (c, h) = alloc_data data h in
           (t\<lparr>st_items := (st_items t)(i \<mapsto> item\<lparr>sti_user_data := c\<rparr>)\<rparr>, h))
   | None \<Rightarrow> let (c, h) = alloc_data data h in
       (t\<lparr>st_items := (st_items t)(i \<mapsto> \<lparr>sti_string = string, sti_user_data = c\<rparr>)\<rparr>, h))"

fun parse_entries :: "'s bitbuf \<Rightarrow> snap \<Rightarrow> nat \<Rightarrow> i32 \<Rightarrow> nat \<Rightarrow> ('s, unit) table_rm" where
  "parse_entries B Z 0 entry_index history_delta_index = retM ()"
| "parse_entries B Z (Suc n) entry_index history_delta_index =
     bindM (read_entry_index B entry_index) (\<lambda>entry_index.
     bindM (read_entry_string B history_delta_index) (\<lambda>(string, history_delta_index).
     bindM (read_user_data B Z) (\<lambda>data.
     seqM (\<lambda>(th, br). (Ok (), (put_item entry_index string data th, br)))
       (parse_entries B Z n entry_index history_delta_index))))"

definition parse_update :: "'s bitbuf \<Rightarrow> snap \<Rightarrow> i32 \<Rightarrow> ('s, unit) table_rm" where
  "parse_update B Z num_entries = parse_entries B Z (as_usize num_entries) (- 1) 0"

subsection \<open>Full updates\<close>

record proto_item =
  pi_str :: "rstr option"
  pi_data :: "u8 list option"

record proto_table =
  pt_name :: rstr
  pt_items :: "proto_item list"

definition replace_item :: "i32 \<Rightarrow> proto_item \<Rightarrow> string_table \<times> cell_store \<Rightarrow> string_table \<times> cell_store" where
  "replace_item i incoming = (\<lambda>(t, h).
     let (c, h) = alloc_data (pi_data incoming) h;
         item = (case st_items t i of
           Some existing \<Rightarrow> existing\<lparr>sti_user_data := c\<rparr>
         | None \<Rightarrow> \<lparr>sti_string = map_option as_bytes (pi_str incoming), sti_user_data = c\<rparr>)
     in (t\<lparr>st_items := (st_items t)(i \<mapsto> item)\<rparr>, h))"

fun full_update_from :: "nat \<Rightarrow> proto_item list \<Rightarrow> string_table \<times> cell_store \<Rightarrow> string_table \<times> cell_store" where
  "full_update_from i [] th = th"
| "full_update_from i (item # items) th = full_update_from (Suc i) items (replace_item (of_nat i) item th)"

definition table_full_update :: "proto_table \<Rightarrow> string_table \<times> cell_store \<Rightarrow> string_table \<times> cell_store" where
  "table_full_update table = full_update_from 0 (pt_items table)"

subsection \<open>The container\<close>

type_synonym string_tables = "string_table list"

definition create_string_table ::
    "rstr \<Rightarrow> bool \<Rightarrow> i32 \<Rightarrow> i32 \<Rightarrow> i32 \<Rightarrow> bool \<Rightarrow> string_tables \<Rightarrow> string_tables" where
  "create_string_table name fixed_size udsize size_bits flags varint_bitcounts tables =
     tables @ [string_table_new name fixed_size udsize size_bits flags varint_bitcounts]"

text \<open>\<open>find_table\<close>: the position of the first table of that name.\<close>

fun find_table_pos :: "rstr \<Rightarrow> string_tables \<Rightarrow> nat option" where
  "find_table_pos name [] = None"
| "find_table_pos name (t # ts) = (if st_name t = name then Some 0 else map_option Suc (find_table_pos name ts))"

definition find_table :: "rstr \<Rightarrow> string_tables \<Rightarrow> string_table option" where
  "find_table name tables = map_option (\<lambda>i. tables ! i) (find_table_pos name tables)"

definition get_table :: "nat \<Rightarrow> string_tables \<Rightarrow> string_table option" where
  "get_table i tables = (if i < length tables then Some (tables ! i) else None)"

definition string_tables_clear :: "string_tables \<Rightarrow> string_tables" where
  [simp]: "string_tables_clear tables = []"

definition string_tables_is_empty :: "string_tables \<Rightarrow> bool" where
  [simp]: "string_tables_is_empty tables \<longleftrightarrow> tables = []"

definition has_table :: "nat \<Rightarrow> string_tables \<Rightarrow> bool" where
  "has_table i tables \<longleftrightarrow> get_table i tables \<noteq> None"

fun tables_full_update :: "proto_table list \<Rightarrow> string_tables \<times> cell_store \<Rightarrow> string_tables \<times> cell_store" where
  "tables_full_update [] s = s"
| "tables_full_update (incoming # ts) (tables, h) = (case find_table_pos (pt_name incoming) tables of
     None \<Rightarrow> tables_full_update ts (tables, h)
   | Some i \<Rightarrow> (case table_full_update incoming (tables ! i, h) of
       (t, h) \<Rightarrow> tables_full_update ts (tables[i := t], h)))"

end
