(* ===== verification/InstanceBaseline.thy ===== *)
theory InstanceBaseline
  imports StringTables
begin

text \<open>
  \<open>haste_core/src/instancebaseline.rs\<close> and \<open>haste_core/src/entityclasses.rs\<close>: the encoded default
  entity of each class, taken from the string table \<open>instancebaseline\<close>, and the classes of the demo.

  A baseline is the cell of the table's item, not a copy.  The order in which a hash map is iterated
  is not specified: \<open>enum\<close>, the list of the entries in that order, is a parameter.  The standard
  library's UTF-8 validation and its logarithm on \<open>f32\<close> are parameters too.
\<close>

subsection \<open>Instance baselines\<close>

definition INSTANCE_BASELINE_TABLE_NAME :: rstr where
  "INSTANCE_BASELINE_TABLE_NAME = str_lit ''instancebaseline''"

type_synonym instance_baseline = "cell option list"

datatype parse_int_error = ParseIntError

text \<open>\<open>str::parse::<i32>\<close>: an optional sign, at least one digit, in range.\<close>

definition parse_i32 :: "rstr \<Rightarrow> i32 option" where
  "parse_i32 s =
     (let neg = (s \<noteq> [] \<and> hd s = 45);
          digits = (if s \<noteq> [] \<and> (hd s = 45 \<or> hd s = 43) then tl s else s);
          v = (if neg then - int (decimal digits) else int (decimal digits))
      in if digits \<noteq> [] \<and> list_all is_ascii_digit digits \<and> - (2 ^ 31) \<le> v \<and> v < 2 ^ 31
         then Some (word_of_int v) else None)"

fun baseline_items ::
    "(u8 list \<Rightarrow> rstr option) \<Rightarrow> (i32 \<times> string_table_item) list \<Rightarrow> instance_baseline
     \<Rightarrow> (parse_int_error, unit) outcome \<times> instance_baseline" where
  "baseline_items from_utf8 [] data = (Ok (), data)"
| "baseline_items from_utf8 ((entity_index, item) # items) data =
     (case Option.bind (sti_string item) from_utf8 of
        None \<Rightarrow> baseline_items from_utf8 items data
      | Some string \<Rightarrow> (case parse_i32 string of
          None \<Rightarrow> (Err ParseIntError, data)
        | Some class_id \<Rightarrow>
            if as_usize class_id < length data
            then baseline_items from_utf8 items (data[as_usize class_id := sti_user_data item])
            else (Panic IndexOutOfBounds, data)))"

definition instance_baseline_update ::
    "(u8 list \<Rightarrow> rstr option) \<Rightarrow> ((i32 \<rightharpoonup> string_table_item) \<Rightarrow> (i32 \<times> string_table_item) list)
     \<Rightarrow> string_table \<Rightarrow> nat \<Rightarrow> instance_baseline \<Rightarrow> (parse_int_error, unit) outcome \<times> instance_baseline" where
  "instance_baseline_update from_utf8 enum table classes data =
     baseline_items from_utf8 (enum (st_items table))
       (if length data < classes then data @ replicate (classes - length data) None else data)"

definition instance_baseline_clear :: "instance_baseline \<Rightarrow> instance_baseline" where
  [simp]: "instance_baseline_clear data = []"

text \<open>\<open>by_id\<close>: the bytes behind the cell, or none.\<close>

definition baseline_by_id :: "cell_store \<Rightarrow> instance_baseline \<Rightarrow> i32 \<Rightarrow> u8 list" where
  "baseline_by_id h data class_id =
     (if as_usize class_id < length data
      then (case data ! as_usize class_id of Some c \<Rightarrow> h ! c | None \<Rightarrow> [])
      else [])"

subsection \<open>Entity classes\<close>

record entity_classes =
  ec_classes :: nat
  ec_bits :: nat
  ec_class_infos :: "u64 list"

text \<open>\<open>x.ceil() as usize\<close>: rounded up and saturated.\<close>

definition ceil_usize :: "f32 \<Rightarrow> nat" where
  "ceil_usize x = (case x of
     Fin s m e \<Rightarrow> if s then 0 else min (2 ^ 64 - 1)
       (if 0 \<le> e then m * 2 ^ nat e else (m + 2 ^ nat (- e) - 1) div 2 ^ nat (- e))
   | Inf s \<Rightarrow> if s then 0 else 2 ^ 64 - 1
   | NaN \<Rightarrow> 0)"

definition entity_classes_parse :: "(f32 \<Rightarrow> f32) \<Rightarrow> rstr list \<Rightarrow> entity_classes" where
  "entity_classes_parse log2 names = \<lparr>
     ec_classes = length names,
     ec_bits = ceil_usize (log2 (fl_of_int binary32 (int (length names)))),
     ec_class_infos = map (\<lambda>n. hash_bytes (as_bytes n)) names\<rparr>"

definition class_by_id :: "entity_classes \<Rightarrow> i32 \<Rightarrow> u64 option" where
  "class_by_id ec class_id =
     (if as_usize class_id < length (ec_class_infos ec) then Some (ec_class_infos ec ! as_usize class_id) else None)"

end
