(* ===== verification/InstanceBaselineLaws.thy ===== *)
theory InstanceBaselineLaws
  imports InstanceBaseline StringTablesLaws
begin






end
