(* ===== verification/Entities.thy ===== *)
theory Entities
  imports InstanceBaseline FieldOpTree
begin

text \<open>
  \<open>haste_core/src/entities.rs\<close>: entities, their fields and the container of the live entities.

  An entity is its index, its field values by key and its serializer.  Parsing runs on the entity and
  the scratch slice of field paths, and on the decoding context and the reader.  \<open>EntityContainer\<close>
  adds the entities that serve as class baselines and the serializers of the entities the visitor
  does not want.  Maps keyed by an identity hash are partial functions.
\<close>

subsection \<open>Handles, coordinates and headers\<close>

definition MAX_EDICT_BITS :: nat where "MAX_EDICT_BITS = 14"
definition NUM_ENT_ENTRY_BITS :: nat where "NUM_ENT_ENTRY_BITS = MAX_EDICT_BITS + 1"
definition NUM_SERIAL_NUM_BITS :: nat where "NUM_SERIAL_NUM_BITS = 32 - NUM_ENT_ENTRY_BITS"
definition NUM_NETWORKED_EHANDLE_SERIAL_NUMBER_BITS :: nat where
  "NUM_NETWORKED_EHANDLE_SERIAL_NUMBER_BITS = 10"
definition NUM_NETWORKED_EHANDLE_BITS :: nat where
  "NUM_NETWORKED_EHANDLE_BITS = MAX_EDICT_BITS + NUM_NETWORKED_EHANDLE_SERIAL_NUMBER_BITS"
definition INVALID_NETWORKED_EHANDLE_VALUE :: u32 where
  "INVALID_NETWORKED_EHANDLE_VALUE = push_bit NUM_NETWORKED_EHANDLE_BITS 1 - 1"

definition is_ehandle_valid :: "u32 \<Rightarrow> bool" where
  "is_ehandle_valid handle \<longleftrightarrow> handle \<noteq> INVALID_NETWORKED_EHANDLE_VALUE"

definition ehandle_to_index :: "u32 \<Rightarrow> i32" where
  "ehandle_to_index handle = handle AND (push_bit MAX_EDICT_BITS 1 - 1)"

definition coord_from_cell :: "u32 \<Rightarrow> u32 \<Rightarrow> u16 \<Rightarrow> f32 \<Rightarrow> f32" where
  "coord_from_cell cell_width max_coord c vec =
     (let cell_pos = ucast c * cell_width
      in fl_add binary32 (fl_of_int binary32 (sint (cell_pos - max_coord))) vec)"

definition CELL_WIDTH :: u32 where "CELL_WIDTH = push_bit 9 1"
definition MAX_COORD_INTEGER :: u32 where "MAX_COORD_INTEGER = 16384"

definition deadlock_coord_from_cell :: "u16 \<Rightarrow> f32 \<Rightarrow> f32" where
  "deadlock_coord_from_cell c vec = coord_from_cell CELL_WIDTH MAX_COORD_INTEGER c vec"

type_synonym delta_header = u8

definition UPDATE :: delta_header where "UPDATE = 0"
definition CREATE :: delta_header where "CREATE = 2"
definition LEAVE :: delta_header where "LEAVE = 1"
definition DELETE :: delta_header where "DELETE = 3"

definition delta_header_from_bit_reader :: "'s bitbuf \<Rightarrow> ('s bit_reader, bit_error, delta_header) rm" where
  "delta_header_from_bit_reader B = bindM (read_bits B [0] 2) (\<lambda>buf. liftO (index_slice buf 0))"

subsection \<open>Entities\<close>

datatype entity_parse_error = EnBit bit_error | EnDecoder decoder_error | EnFieldNotFound | EnTryFromInt

record entity =
  en_index :: i32
  en_fields :: "u64 \<rightharpoonup> field_value"
  en_serializer :: serializer

text \<open>The field that a path leads to and its key: one component after the other.\<close>

definition index_hash :: "u64 \<Rightarrow> u8 \<Rightarrow> u64" where
  "index_hash key c = add_u64_to_hash key (add_u64_to_hash 0 (ucast c))"

definition walk_step ::
    "u8 list \<Rightarrow> nat \<Rightarrow> ser_field \<times> u64 \<Rightarrow> (entity_parse_error, ser_field \<times> u64) outcome" where
  "walk_step data i = (\<lambda>(field, field_key).
     if is_dynamic_array field then
       bindO (ok_or EnFieldNotFound (get_child field 0)) (\<lambda>child.
       bindO (index_slice data i) (\<lambda>c. Ok (child, index_hash field_key c)))
     else
       bindO (index_slice data i) (\<lambda>c.
       bindO (ok_or EnFieldNotFound (get_child field (unat c))) (\<lambda>child.
       Ok (child, if is_fixed_array field then index_hash field_key c
                  else add_u64_to_hash field_key (fd_var_name (sf_descr child))))))"

fun walk_path ::
    "u8 list \<Rightarrow> nat list \<Rightarrow> ser_field \<times> u64 \<Rightarrow> (entity_parse_error, ser_field \<times> u64) outcome" where
  "walk_path data [] fk = Ok fk"
| "walk_path data (i # is) fk = bindO (walk_step data i fk) (walk_path data is)"

text \<open>\<open>1..=fp.last\<close>\<close>

definition path_indices :: "field_path \<Rightarrow> nat list" where
  "path_indices fp = [1..<Suc (unat (fp_last fp))]"

definition find_field :: "serializer \<Rightarrow> field_path \<Rightarrow> (entity_parse_error, ser_field \<times> u64) outcome" where
  "find_field serializer fp =
     bindO (index_slice (fp_data fp) 0) (\<lambda>c.
     bindO (ok_or EnFieldNotFound (serializer_get_child serializer (unat c))) (\<lambda>field.
     walk_path (fp_data fp) (path_indices fp) (field, sf_key field)))"

type_synonym ('s, 'a) entity_rm =
  "((entity \<times> field_path list) \<times> (field_decode_context \<times> 's bit_reader), entity_parse_error, 'a) rm"

definition decode_field :: "'s bitbuf \<Rightarrow> field_path \<Rightarrow> ('s, unit) entity_rm" where
  "decode_field B fp = (\<lambda>((entity, fps), cb).
     bindM (liftO (find_field (en_serializer entity) fp)) (\<lambda>(field, field_key).
     bindM (map_errM EnDecoder (on_reader (field_decode B (fm_decoder (sf_metadata field))))) (\<lambda>field_value
       ((entity, fps), cb).
     (Ok (), ((entity\<lparr>en_fields := (en_fields entity)(field_key \<mapsto> field_value)\<rparr>, fps), cb))))
     ((entity, fps), cb))"

fun decode_fields :: "'s bitbuf \<Rightarrow> field_path list \<Rightarrow> ('s, unit) entity_rm" where
  "decode_fields B [] = retM ()"
| "decode_fields B (fp # fps) = seqM (decode_field B fp) (decode_fields B fps)"

definition entity_parse :: "'s bitbuf \<Rightarrow> ('s, unit) entity_rm" where
  "entity_parse B =
     bindM (map_errM EnBit (zoomM (\<lambda>((_, fps), (_, br)). (fps, br))
       (\<lambda>(fps, br) ((entity, _), (ctx, _)). ((entity, fps), (ctx, br))) (read_field_paths B))) (\<lambda>fp_count
       ((entity, fps), cb).
     bindM (liftO (slice_to fps fp_count)) (decode_fields B) ((entity, fps), cb))"

definition entity_iter :: "entity \<Rightarrow> (u64 \<times> field_value) set" where
  "entity_iter entity = {(k, v). en_fields entity k = Some v}"

definition get_field_value :: "entity \<Rightarrow> u64 \<Rightarrow> field_value option" where
  "get_field_value entity key = en_fields entity key"

definition get_value :: "(field_value \<Rightarrow> (conversion_error, 'a) outcome) \<Rightarrow> entity \<Rightarrow> u64 \<Rightarrow> 'a option" where
  "get_value try_into entity key = Option.bind (en_fields entity key)
     (\<lambda>v. case try_into v of Ok x \<Rightarrow> Some x | _ \<Rightarrow> None)"

datatype get_value_error = FieldNotExist | FieldValueConversion conversion_error

definition try_get_value ::
    "(field_value \<Rightarrow> (conversion_error, 'a) outcome) \<Rightarrow> entity \<Rightarrow> u64 \<Rightarrow> (get_value_error, 'a) outcome" where
  "try_get_value try_into entity key = (case en_fields entity key of
     None \<Rightarrow> Err FieldNotExist
   | Some v \<Rightarrow> map_err FieldValueConversion (try_into v))"

definition serializer_name_heq :: "entity \<Rightarrow> u64 \<Rightarrow> bool" where
  "serializer_name_heq entity rhs \<longleftrightarrow> fs_serializer_name (en_serializer entity) = rhs"

definition get_serializer_field :: "entity \<Rightarrow> field_path \<Rightarrow> ser_field option" where
  "get_serializer_field entity path =
     fold (\<lambda>i field. Option.bind field (\<lambda>f. get_child f (unat i))) (drop 1 (fp_iter path))
       (Option.bind (fp_get path 0) (serializer_get_child (en_serializer entity)))"

subsection \<open>Skipping an entity\<close>

fun skip_walk :: "u8 list \<Rightarrow> nat list \<Rightarrow> ser_field \<Rightarrow> (entity_parse_error, ser_field) outcome" where
  "skip_walk data [] field = Ok field"
| "skip_walk data (i # is) field =
     bindO (if is_dynamic_array field then ok_or EnFieldNotFound (get_child field 0)
            else bindO (index_slice data i) (\<lambda>c. ok_or EnFieldNotFound (get_child field (unat c))))
       (skip_walk data is)"

type_synonym ('s, 'a) skip_rm = "(field_path list \<times> 's bit_reader, entity_parse_error, 'a) rm"

definition skip_field :: "'s bitbuf \<Rightarrow> serializer \<Rightarrow> field_path \<Rightarrow> ('s, unit) skip_rm" where
  "skip_field B serializer fp =
     bindM (liftO (bindO (index_slice (fp_data fp) 0) (\<lambda>c.
       bindO (ok_or EnFieldNotFound (serializer_get_child serializer (unat c)))
         (skip_walk (fp_data fp) (path_indices fp))))) (\<lambda>field.
     seqM (map_errM EnDecoder (on_reader (field_skip_bits B (fm_decoder (sf_metadata field))))) (retM ()))"

fun skip_fields :: "'s bitbuf \<Rightarrow> serializer \<Rightarrow> field_path list \<Rightarrow> ('s, unit) skip_rm" where
  "skip_fields B serializer [] = retM ()"
| "skip_fields B serializer (fp # fps) = seqM (skip_field B serializer fp) (skip_fields B serializer fps)"

definition skip_entity_fields :: "'s bitbuf \<Rightarrow> serializer \<Rightarrow> ('s, unit) skip_rm" where
  "skip_entity_fields B serializer =
     bindM (map_errM EnBit (read_field_paths B)) (\<lambda>fp_count (fps, br).
     bindM (liftO (slice_to fps fp_count)) (skip_fields B serializer) (fps, br))"

subsection \<open>The container\<close>

record entity_container =
  ec_entities :: "i32 \<rightharpoonup> entity"
  ec_baseline_entities :: "i32 \<rightharpoonup> entity"
  ec_skipped :: "i32 \<rightharpoonup> serializer"
  ec_field_paths :: "field_path list"

definition entity_container_new :: entity_container where
  "entity_container_new = \<lparr>ec_entities = Map.empty, ec_baseline_entities = Map.empty,
     ec_skipped = Map.empty, ec_field_paths = replicate 4096 field_path_default\<rparr>"

definition new_entity :: "i32 \<Rightarrow> serializer \<Rightarrow> entity" where
  "new_entity i serializer = \<lparr>en_index = i, en_fields = Map.empty, en_serializer = serializer\<rparr>"

type_synonym 's container_state = "entity_container \<times> (field_decode_context \<times> 's bit_reader)"
type_synonym ('s, 'a) container_rm = "('s container_state, entity_parse_error, 'a) rm"

text \<open>\<open>entity.parse(field_decode_ctx, br, &mut self.field_paths)\<close>, with the entity as it is left.\<close>

definition parse_with ::
    "'s bitbuf \<Rightarrow> entity \<Rightarrow> 's container_state
     \<Rightarrow> (entity_parse_error, unit) outcome \<times> entity \<times> 's container_state" where
  "parse_with B entity = (\<lambda>(ec, cb). case entity_parse B ((entity, ec_field_paths ec), cb) of
     (r, ((entity, fps), cb)) \<Rightarrow> (r, entity, (ec\<lparr>ec_field_paths := fps\<rparr>, cb)))"

definition skip_with :: "'s bitbuf \<Rightarrow> serializer \<Rightarrow> ('s, unit) container_rm" where
  "skip_with B serializer = zoomM (\<lambda>(ec, (_, br)). (ec_field_paths ec, br))
     (\<lambda>(fps, br) (ec, (ctx, _)). (ec\<lparr>ec_field_paths := fps\<rparr>, (ctx, br))) (skip_entity_fields B serializer)"

definition on_br :: "('s bit_reader, bit_error, 'a) rm \<Rightarrow> ('s, 'a) container_rm" where
  "on_br m = map_errM EnBit (zoomM (\<lambda>(_, (_, br)). br) (\<lambda>br (ec, (ctx, _)). (ec, (ctx, br))) m)"

text \<open>\<open>u64\<close> into \<open>i32\<close>.\<close>

definition try_into_i32 :: "u64 \<Rightarrow> (entity_parse_error, i32) outcome" where
  "try_into_i32 v = (if v < 2 ^ 31 then Ok (ucast v) else Err EnTryFromInt)"

definition read_create_header :: "'s bitbuf \<Rightarrow> entity_classes \<Rightarrow> ('s, i32) container_rm" where
  "read_create_header B entity_classes =
     bindM (on_br (read_ubit64 B (ec_bits entity_classes))) (\<lambda>v.
     bindM (liftO (try_into_i32 v)) (\<lambda>class_id.
     seqM (ignoreM (on_br (read_ubit64 B NUM_SERIAL_NUM_BITS)))
     (seqM (ignoreM (on_br (read_uvarint32 B)))
     (retM class_id))))"

definition class_serializer ::
    "entity_classes \<Rightarrow> serializer_map \<Rightarrow> i32 \<Rightarrow> (entity_parse_error, serializer) outcome" where
  "class_serializer entity_classes serializers class_id =
     bindO (ok_or (EnBit MalformedVarint) (class_by_id entity_classes class_id)) (\<lambda>network_name_hash.
     ok_or (EnBit MalformedVarint) (by_name_hash serializers network_name_hash))"

text \<open>The entity a class starts from: a copy of the cached baseline, or the parsed and cached one.\<close>

definition entity_from_baseline ::
    "'s bitbuf \<Rightarrow> cell_store \<Rightarrow> instance_baseline \<Rightarrow> i32 \<Rightarrow> i32 \<Rightarrow> serializer \<Rightarrow> ('s, entity) container_rm" where
  "entity_from_baseline B h instance_baseline i class_id serializer = (\<lambda>(ec, (ctx, br)).
     case ec_baseline_entities ec class_id of
       Some entity \<Rightarrow> (Ok (entity\<lparr>en_index := i\<rparr>), (ec, (ctx, br)))
     | None \<Rightarrow>
         (case parse_with B (new_entity i serializer)
             (ec, (ctx, bit_reader_new B (baseline_by_id h instance_baseline class_id))) of
           (r, entity, (ec, (ctx, baseline_br))) \<Rightarrow>
             (case bindO r (\<lambda>_. map_err EnBit (fst (is_overflowed B baseline_br))) of
                Ok _ \<Rightarrow> (Ok entity, (ec\<lparr>ec_baseline_entities := (ec_baseline_entities ec)(class_id \<mapsto> entity)\<rparr>,
                    (ctx, br)))
              | Err e \<Rightarrow> (Err e, (ec, (ctx, br)))
              | Panic p \<Rightarrow> (Panic p, (ec, (ctx, br)))
              | OutOfFuel \<Rightarrow> (OutOfFuel, (ec, (ctx, br))))))"

definition create_entity ::
    "'s bitbuf \<Rightarrow> cell_store \<Rightarrow> instance_baseline \<Rightarrow> i32 \<Rightarrow> i32 \<Rightarrow> serializer \<Rightarrow> ('s, i32) container_rm" where
  "create_entity B h instance_baseline i class_id serializer =
     bindM (entity_from_baseline B h instance_baseline i class_id serializer) (\<lambda>entity s.
     case parse_with B entity s of (r, entity, s) \<Rightarrow>
       bindM (liftO r) (\<lambda>_ (ec, cb).
         (Ok i, (ec\<lparr>ec_entities := (ec_entities ec)(i \<mapsto> entity)\<rparr>, cb))) s)"

definition handle_create ::
    "'s bitbuf \<Rightarrow> i32 \<Rightarrow> entity_classes \<Rightarrow> cell_store \<Rightarrow> instance_baseline \<Rightarrow> serializer_map
     \<Rightarrow> ('s, i32) container_rm" where
  "handle_create B i entity_classes h instance_baseline serializers =
     bindM (read_create_header B entity_classes) (\<lambda>class_id.
     bindM (liftO (class_serializer entity_classes serializers class_id)) (\<lambda>serializer.
     create_entity B h instance_baseline i class_id serializer))"

definition handle_create_with_filter ::
    "'s bitbuf \<Rightarrow> i32 \<Rightarrow> entity_classes \<Rightarrow> cell_store \<Rightarrow> instance_baseline \<Rightarrow> serializer_map
     \<Rightarrow> (u64 \<Rightarrow> bool) \<Rightarrow> ('s, i32 option) container_rm" where
  "handle_create_with_filter B i entity_classes h instance_baseline serializers should_track =
     bindM (read_create_header B entity_classes) (\<lambda>class_id.
     bindM (liftO (class_serializer entity_classes serializers class_id)) (\<lambda>serializer.
     if \<not> should_track (fs_serializer_name serializer) then
       seqM (skip_with B serializer) (\<lambda>(ec, cb).
         (Ok None, (ec\<lparr>ec_skipped := (ec_skipped ec)(i \<mapsto> serializer)\<rparr>, cb)))
     else bindM (create_entity B h instance_baseline i class_id serializer) (\<lambda>j. retM (Some j))))"

definition handle_delete :: "i32 \<Rightarrow> entity_container \<Rightarrow> entity option \<times> entity_container" where
  "handle_delete i ec = (ec_entities ec i,
     ec\<lparr>ec_skipped := (ec_skipped ec)(i := None), ec_entities := (ec_entities ec)(i := None)\<rparr>)"

definition handle_leave :: "i32 \<Rightarrow> entity_container \<Rightarrow> entity option \<times> entity_container" where
  "handle_leave i ec = (ec_entities ec i,
     ec\<lparr>ec_skipped := (ec_skipped ec)(i := None), ec_entities := (ec_entities ec)(i := None)\<rparr>)"

definition handle_update :: "'s bitbuf \<Rightarrow> i32 \<Rightarrow> ('s, entity option) container_rm" where
  "handle_update B i = (\<lambda>(ec, cb).
     case ec_skipped ec i of
       Some serializer \<Rightarrow> seqM (skip_with B serializer) (retM None) (ec, cb)
     | None \<Rightarrow>
         (case ec_entities ec i of
            None \<Rightarrow> (Ok None, (ec, cb))
          | Some entity \<Rightarrow>
              (case parse_with B entity (ec, cb) of
                 (r, entity, (ec, cb)) \<Rightarrow>
                   (map_ok (\<lambda>_. Some entity) r, (ec\<lparr>ec_entities := (ec_entities ec)(i \<mapsto> entity)\<rparr>, cb)))))"

definition entities_iter :: "entity_container \<Rightarrow> (i32 \<times> entity) set" where
  "entities_iter ec = {(i, e). ec_entities ec i = Some e}"

definition entities_get :: "entity_container \<Rightarrow> i32 \<Rightarrow> entity option" where
  "entities_get ec i = ec_entities ec i"

definition iter_baselines :: "entity_container \<Rightarrow> (i32 \<times> entity) set" where
  "iter_baselines ec = {(i, e). ec_baseline_entities ec i = Some e}"

definition get_baseline :: "entity_container \<Rightarrow> i32 \<Rightarrow> entity option" where
  "get_baseline ec i = ec_baseline_entities ec i"

definition entities_clear :: "entity_container \<Rightarrow> entity_container" where
  "entities_clear ec = ec\<lparr>ec_entities := Map.empty, ec_baseline_entities := Map.empty, ec_skipped := Map.empty\<rparr>"

definition entities_is_empty :: "entity_container \<Rightarrow> bool" where
  "entities_is_empty ec \<longleftrightarrow> ec_entities ec = Map.empty"

end
