(* ===== verification/EntitiesLaws.thy ===== *)
theory EntitiesLaws
  imports Entities InstanceBaselineLaws FieldDecoderLaws FieldOpTreeLaws FlattenedSerializersLaws
begin

text \<open>
  Laws of \<open>Entities\<close>: skipping an entity's fields moves the reader exactly as parsing them, array
  elements and struct members get keys of their own, and the invariants of the container under any
  sequence of its operations.
\<close>

subsection \<open>Skipping follows parsing\<close>

lemma walk_step_skip:
  "walk_step data i (field, key) = Ok (child, key') \<Longrightarrow>
   (if is_dynamic_array field then ok_or EnFieldNotFound (get_child field 0)
    else bindO (index_slice data i) (\<lambda>c. ok_or EnFieldNotFound (get_child field (unat c)))) = Ok child"
  by (auto simp: walk_step_def bindO_Ok_iff split: if_splits)

lemma walk_path_skip: "walk_path data is (field, key) = Ok (f, k) \<Longrightarrow> skip_walk data is field = Ok f"
proof (induction "is" arbitrary: field key)
  case (Cons i "is")
  then obtain child key' where w: "walk_step data i (field, key) = Ok (child, key')"
    and r: "walk_path data is (child, key') = Ok (f, k)"
    by (auto simp: bindO_Ok_iff)
  show ?case unfolding skip_walk.simps walk_step_skip [OF w] bindO.simps by (rule Cons.IH [OF r])
qed simp

lemma find_field_skip:
  "find_field serializer fp = Ok (f, k) \<Longrightarrow>
   bindO (index_slice (fp_data fp) 0) (\<lambda>c. bindO (ok_or EnFieldNotFound (serializer_get_child serializer (unat c)))
     (skip_walk (fp_data fp) (path_indices fp))) = Ok f"
  by (auto simp: find_field_def bindO_Ok_iff dest: walk_path_skip)

lemma decode_field_skip:
  assumes "cursor_laws B" "decode_field B fp ((e, fps), (ctx, br)) = (Ok (), ((e', fps'), (ctx', br')))"
  shows "skip_field B (en_serializer e) fp (fps, br) = (Ok (), (fps', br')) \<and> ctx' = ctx \<and> fps' = fps
    \<and> (\<exists>k v. e' = e\<lparr>en_fields := (en_fields e)(k \<mapsto> v)\<rparr>)"
proof -
  obtain f k v where ff: "find_field (en_serializer e) fp = Ok (f, k)"
    and d: "field_decode B (fm_decoder (sf_metadata f)) (ctx, br) = (Ok v, (ctx', br'))"
    and s: "e' = e\<lparr>en_fields := (en_fields e)(k \<mapsto> v)\<rparr>" "fps' = fps"
    using assms(2) unfolding decode_field_def
    by (auto simp: bindM_Ok_iff on_reader_def zoomM_Ok_iff dest: sym [of "Ok _"])
  have "ctx' = ctx" "\<exists>n. field_skip_bits B (fm_decoder (sf_metadata f)) br = (Ok n, br')"
    using decoder.measured [OF assms(1) d] by auto
  with s show ?thesis
    using find_field_skip [OF ff] by (auto simp: skip_field_def bindM_Ok_iff on_reader_def zoomM_Ok_iff)
qed

text \<open>What parsing keeps of an entity: everything but its fields, which only grow.\<close>

definition same_shape :: "entity \<Rightarrow> entity \<Rightarrow> bool" where
  "same_shape e e' \<longleftrightarrow> en_index e' = en_index e \<and> en_serializer e' = en_serializer e
     \<and> dom (en_fields e) \<subseteq> dom (en_fields e')"

lemma same_shape_refl [simp]: "same_shape e e"
  by (simp add: same_shape_def)

lemma same_shape_trans: "same_shape e f \<Longrightarrow> same_shape f g \<Longrightarrow> same_shape e g"
  by (auto simp: same_shape_def)

lemma same_shape_upd [simp]: "same_shape e (e\<lparr>en_fields := (en_fields e)(k \<mapsto> v)\<rparr>)"
  by (auto simp: same_shape_def)

lemma decode_fields_skip:
  assumes "cursor_laws B"
  shows "decode_fields B ps ((e, fps), (ctx, br)) = (Ok (), ((e', fps'), (ctx', br'))) \<Longrightarrow>
    skip_fields B (en_serializer e) ps (fps, br) = (Ok (), (fps', br')) \<and> ctx' = ctx \<and> fps' = fps"
proof (induction ps arbitrary: e fps ctx br)
  case (Cons p ps)
  then obtain e1 fps1 ctx1 br1 where d: "decode_field B p ((e, fps), (ctx, br)) = (Ok (), ((e1, fps1), (ctx1, br1)))"
    and r: "decode_fields B ps ((e1, fps1), (ctx1, br1)) = (Ok (), ((e', fps'), (ctx', br')))"
    by (auto simp: bindM_Ok_iff)
  from decode_field_skip [OF assms d] have s: "skip_field B (en_serializer e) p (fps, br) = (Ok (), (fps, br1))"
    and eq: "ctx1 = ctx" "fps1 = fps" "en_serializer e1 = en_serializer e" by auto
  from Cons.IH [OF r] eq have "skip_fields B (en_serializer e) ps (fps, br1) = (Ok (), (fps', br'))"
    and "ctx' = ctx \<and> fps' = fps" by auto
  with s show ?case by (auto simp: bindM_Ok_iff)
qed simp

lemma entity_parse_skip:
  assumes "cursor_laws B" "entity_parse B ((e, fps), (ctx, br)) = (Ok (), ((e', fps'), (ctx', br')))"
  shows "skip_entity_fields B (en_serializer e) (fps, br) = (Ok (), (fps', br')) \<and> ctx' = ctx"
proof -
  obtain n fps1 br1 ps where p: "read_field_paths B (fps, br) = (Ok n, (fps1, br1))"
    and t: "slice_to fps1 n = (Ok ps :: (entity_parse_error, field_path list) outcome)"
    and d: "decode_fields B ps ((e, fps1), (ctx, br1)) = (Ok (), ((e', fps'), (ctx', br')))"
    using assms(2) by (auto simp: entity_parse_def bindM_Ok_iff zoomM_Ok_iff dest: sym [of "Ok _"])
  with decode_fields_skip [OF assms(1) d] show ?thesis
    by (auto simp: skip_entity_fields_def bindM_Ok_iff)
qed

text \<open>An entity with one boolean field, and a message that sets it.\<close>

definition example_leaf :: ser_field where
  "example_leaf = SerField (field_descr_default\<lparr>fd_var_name := 1\<rparr>) None \<lparr>fm_special = None, fm_decoder = BoolDecoder\<rparr> 5"

definition example_path :: field_path where
  "example_path = field_path_default\<lparr>fp_data := [0, 0, 0, 0, 0, 0, 0]\<rparr>"

definition leaf_serializer :: serializer where
  "leaf_serializer = Serializer 7 [example_leaf]"

definition example_bits :: "bool list" where
  "example_bits = op_code PlusOne @ [] @ op_code FieldPathEncodeFinish"

lemma example_bits_eq: "example_bits = [False, True, False]"
  by (simp add: example_bits_def op_code_eq [OF leaf_paths_value])

lemma example_stream: "path_stream bits B field_path_default example_bits [example_path]"
  unfolding example_bits_def example_path_def
  by (intro path_stream.step path_stream.finish)
    (simp_all add: op_reads_def field_path_default_def plus_one_def inc_last_def on_path_def
      inc_at_def index_slice_def store_slice_def)

lemma example_field: "find_field leaf_serializer example_path = Ok (example_leaf, 5)"
  by (simp add: find_field_def example_path_def leaf_serializer_def serializer_get_child_def index_slice_def
      ok_or_def path_indices_def field_path_default_def example_leaf_def)

lemma example_paths:
  assumes laws: "cursor_laws B" "value_laws B bits" and "bits_ahead bits br = example_bits @ r" "fps \<noteq> []"
  shows "\<exists>br'. read_field_paths B (fps, br) = (Ok 1, (example_path # tl fps, br')) \<and> bits_ahead bits br' = r"
  using read_field_paths_stream [OF laws example_stream assms(3), of fps] assms(4) by (cases fps) auto

lemma decode_field_OkI:
  "find_field (en_serializer e) fp = Ok (f, k) \<Longrightarrow>
   field_decode B (fm_decoder (sf_metadata f)) (ctx, br) = (Ok v, (ctx', br')) \<Longrightarrow>
   decode_field B fp ((e, fps), (ctx, br)) = (Ok (), ((e\<lparr>en_fields := (en_fields e)(k \<mapsto> v)\<rparr>, fps), (ctx', br')))"
  by (simp add: decode_field_def bindM_def map_errM_def on_reader_def zoomM_def retM_def)

lemma entity_parse_OkI:
  "read_field_paths B (fps, br) = (Ok n, (fps', br')) \<Longrightarrow> n \<le> length fps' \<Longrightarrow>
   decode_fields B (take n fps') ((e, fps'), (ctx, br')) = (Ok (), s) \<Longrightarrow>
   entity_parse B ((e, fps), (ctx, br)) = (Ok (), s)"
  by (simp add: entity_parse_def bindM_def zoomM_def map_errM_def slice_to_def retM_def)

lemma example_entity_parse:
  assumes laws: "cursor_laws B" "value_laws B bits"
    and br: "bits_ahead bits br = example_bits @ v # r" and fps: "fps \<noteq> []" and e: "en_serializer e = leaf_serializer"
  shows "\<exists>br'. entity_parse B ((e, fps), (ctx, br))
    = (Ok (), ((e\<lparr>en_fields := (en_fields e)(5 \<mapsto> FvBool v)\<rparr>, example_path # tl fps), (ctx, br')))
    \<and> bits_ahead bits br' = r"
proof -
  obtain br1 where p: "read_field_paths B (fps, br) = (Ok 1, (example_path # tl fps, br1))" "bits_ahead bits br1 = v # r"
    using example_paths [OF laws br fps] by blast
  obtain br2 where b: "on_reader (read_bool B) (ctx, br1) = (Ok v, (ctx, br2))" "bits_ahead bits br2 = r"
    using on_reader_bool_value [OF laws(2) p(2), of ctx] by (elim exE conjE)
  have "decode_field B example_path ((e, example_path # tl fps), (ctx, br1))
      = (Ok (), ((e\<lparr>en_fields := (en_fields e)(5 \<mapsto> FvBool v)\<rparr>, example_path # tl fps), (ctx, br2)))"
  proof (rule decode_field_OkI)
    show "find_field (en_serializer e) example_path = Ok (example_leaf, 5)" unfolding e by (rule example_field)
    show "field_decode B (fm_decoder (sf_metadata example_leaf)) (ctx, br1) = (Ok (FvBool v), (ctx, br2))"
      using b(1) by (simp add: example_leaf_def field_decode_def dec_bits_Ok_iff bindM_Ok_iff on_reader_Ok_iff)
  qed
  then have "decode_fields B (take 1 (example_path # tl fps)) ((e, example_path # tl fps), (ctx, br1))
      = (Ok (), ((e\<lparr>en_fields := (en_fields e)(5 \<mapsto> FvBool v)\<rparr>, example_path # tl fps), (ctx, br2)))"
    by (simp add: bindM_def retM_def)
  from entity_parse_OkI [OF p(1) _ this] b(2) show ?thesis by auto
qed

text \<open>C29: skipping an entity's fields leaves the reader and the scratch slice exactly where parsing them
  does.  So a stream can be followed whether or not the visitor wants the entity.\<close>

theorem skip_follows_parse:
  assumes "cursor_laws B" "entity_parse B ((e, fps), (ctx, br)) = (Ok (), ((e', fps'), (ctx', br')))"
  shows "skip_entity_fields B (en_serializer e) (fps, br) = (Ok (), (fps', br')) \<and> ctx' = ctx"
  by (rule entity_parse_skip [OF assms])

theorem skip_follows_parse_witness:
  "\<exists>br' s'. entity_parse ref_bitbuf ((new_entity 1 leaf_serializer, [field_path_default]), (field_decode_context_default,
      \<lparr>br_inner = ([False, True, False, True], 0), br_did_check_overflow = False\<rparr>)) = (Ok (), (s', (field_decode_context_default, br')))
    \<and> skip_entity_fields ref_bitbuf leaf_serializer ([field_path_default],
      \<lparr>br_inner = ([False, True, False, True], 0), br_did_check_overflow = False\<rparr>) = (Ok (), ([example_path], br'))"
proof -
  let ?br = "\<lparr>br_inner = ([False, True, False, True], 0), br_did_check_overflow = False\<rparr>"
  have "bits_ahead ref_bits ?br = example_bits @ [True] @ []"
    by (simp add: bits_ahead_def ref_bits_def example_bits_eq)
  with example_entity_parse [OF ref_cursor_laws ref_value_laws, of ?br True "[]" "[field_path_default]"
      "new_entity 1 leaf_serializer" field_decode_context_default]
  obtain e' br' where p: "entity_parse ref_bitbuf ((new_entity 1 leaf_serializer, [field_path_default]),
      (field_decode_context_default, ?br)) = (Ok (), ((e', [example_path]), (field_decode_context_default, br')))"
    by (auto simp: new_entity_def)
  from skip_follows_parse [OF ref_cursor_laws p] p show ?thesis by (auto simp: new_entity_def)
qed

subsection \<open>Keys\<close>

lemma index_hash_inj: "index_hash key c = index_hash key d \<longleftrightarrow> c = d"
  by (simp add: index_hash_def add_u64_to_hash_value_inj ucast_u8_u64_inj)

lemma hash_bytes_one: "hash_bytes [b] = add_u64_to_hash 0 (ucast b)"
  by (simp add: hash_bytes_def)

text \<open>C32: the key of an array element is the key that \<open>fkey_from_path\<close> gives for a last part of one byte, exactly if
  that byte is the index itself; so the part ''3'' is the key of element 51, not of element 3.\<close>

theorem element_key_is_byte:
  assumes "(fkey_from_path path :: ('e, u64) outcome) = Ok key"
  shows "(fkey_from_path (path @ [[b]]) :: ('e, u64) outcome) = Ok (index_hash key c) \<longleftrightarrow> b = c"
proof -
  have "(fkey_from_path (path @ [[b]]) :: ('e, u64) outcome) = Ok (add_u64_to_hash key (hash_bytes [b]))"
    by (rule fkey_from_path_snoc [OF assms])
  then show ?thesis by (simp add: hash_bytes_one index_hash_def add_u64_to_hash_value_inj ucast_u8_u64_inj)
qed

theorem element_key_is_byte_witness:
  "\<exists>key. (fkey_from_path [[97], [51]] :: (unit, u64) outcome) \<noteq> Ok (index_hash key 3)
    \<and> (fkey_from_path [[97], [51]] :: (unit, u64) outcome) = Ok (index_hash key 51)"
proof -
  have "(fkey_from_path [[97]] :: (unit, u64) outcome) = Ok (hash_bytes [97])" by (simp add: fkey_from_path_def index_slice_def)
  from element_key_is_byte [OF this, of 51 3] element_key_is_byte [OF this, of 51 51] show ?thesis by auto
qed

lemma walk_path_append:
  "walk_path data (is @ js) fk = bindO (walk_path data is fk) (walk_path data js)"
proof (induction "is" arbitrary: fk)
  case (Cons i "is")
  then show ?case by (cases "walk_step data i fk") simp_all
qed simp

lemma walk_path_cong: "(\<And>i. i \<in> set is \<Longrightarrow> data' ! i = data ! i) \<Longrightarrow> length data' = length data \<Longrightarrow>
  walk_path data' is fk = walk_path data is fk"
proof (induction "is" arbitrary: fk)
  case (Cons i "is")
  have "walk_step data' i fk = walk_step data i fk"
    using Cons.prems by (cases fk) (simp add: walk_step_def index_slice_def)
  moreover have "walk_path data' is = walk_path data is" using Cons by auto
  ultimately show ?case by simp
qed simp

text \<open>All elements of a fixed-size array are the same field.\<close>

definition clones :: "ser_field \<Rightarrow> bool" where
  "clones a \<longleftrightarrow> (\<forall>x y c d. get_child a x = Some c \<longrightarrow> get_child a y = Some d \<longrightarrow> c = d)"

definition element_array :: "ser_field \<Rightarrow> bool" where
  "element_array a \<longleftrightarrow> is_dynamic_array a \<or> is_fixed_array a \<and> clones a"

lemma element_step:
  assumes "element_array a" "walk_step data i (a, key) = Ok (f, k)" "walk_step data' i (a, key) = Ok (f', k')"
  shows "f' = f \<and> k = index_hash key (data ! i) \<and> k' = index_hash key (data' ! i) \<and> i < length data'"
  using assms by (auto simp: element_array_def clones_def walk_step_def bindO_Ok_iff ok_or_def index_slice_Ok_iff
      split: if_splits option.splits)

lemma walk_path_key_inj:
  "walk_path data is (a, key) = Ok (f, k) \<Longrightarrow> walk_path data is (a, key') = Ok (f', k') \<Longrightarrow>
   f' = f \<and> (k' = k \<longleftrightarrow> key' = key)"
proof (induction "is" arbitrary: a key key')
  case (Cons i "is")
  obtain b l where w: "walk_step data i (a, key) = Ok (b, l)" "walk_path data is (b, l) = Ok (f, k)"
    using Cons.prems(1) by (auto simp: bindO_Ok_iff)
  obtain b' l' where w': "walk_step data i (a, key') = Ok (b', l')" "walk_path data is (b', l') = Ok (f', k')"
    using Cons.prems(2) by (auto simp: bindO_Ok_iff)
  have "b' = b \<and> (l' = l \<longleftrightarrow> key' = key)"
    using w(1) w'(1) by (auto simp: walk_step_def bindO_Ok_iff ok_or_def index_slice_Ok_iff index_hash_def
        add_u64_to_hash_hash_inj split: if_splits option.splits)
  then show ?case using Cons.IH w w' by blast
qed auto

text \<open>The field and key that the first components of a path lead to.\<close>

definition field_at :: "serializer \<Rightarrow> field_path \<Rightarrow> nat \<Rightarrow> (entity_parse_error, ser_field \<times> u64) outcome" where
  "field_at serializer fp j = find_field serializer (fp\<lparr>fp_last := of_nat (j - 1)\<rparr>)"

lemma unat_before:
  assumes "j \<le> unat (w :: usize)" shows "unat (of_nat (j - 1) :: usize) = j - 1"
proof -
  have "unat w < 2 ^ LENGTH(64)" by (rule unsigned_less)
  with assms show ?thesis by (simp only: unat_of_nat) (rule mod_less, simp)
qed

lemma field_at_walk:
  assumes "1 \<le> j" "j \<le> unat (fp_last fp)"
  shows "field_at s fp j = bindO (index_slice (fp_data fp) 0) (\<lambda>c.
     bindO (ok_or EnFieldNotFound (serializer_get_child s (unat c))) (\<lambda>field.
     walk_path (fp_data fp) [1..<j] (field, sf_key field)))"
proof -
  define w :: usize where "w = of_nat (j - 1)"
  have "unat w = j - 1" unfolding w_def by (rule unat_before [OF assms(2)])
  then show ?thesis using assms(1) unfolding field_at_def find_field_def path_indices_def w_def [symmetric] by simp
qed

lemma bindO_assoc: "bindO (bindO r f) g = bindO r (\<lambda>x. bindO (f x) g)"
  by (cases r) auto

lemma find_field_split:
  assumes "1 \<le> j" "j \<le> unat (fp_last fp)"
  shows "find_field s fp = bindO (field_at s fp j) (walk_path (fp_data fp) [j..<Suc (unat (fp_last fp))])"
proof -
  have "[1..<Suc (unat (fp_last fp))] = [1..<j] @ [j..<Suc (unat (fp_last fp))]"
    using assms by (metis le_Suc_eq le_add_diff_inverse upt_add_eq_append)
  then show ?thesis
    unfolding field_at_walk [OF assms] bindO_assoc find_field_def path_indices_def
    by (simp only: walk_path_append)
qed

text \<open>C30: elements of an array never share a key: two paths that differ only in the component that selects
  the element of a dynamic array, or of a fixed-size array with its cloned elements, have different
  keys, however deep the path goes on inside the element.\<close>

theorem array_elements_distinct:
  assumes "find_field s fp = Ok (f, k)" "find_field s (fp\<lparr>fp_data := (fp_data fp)[j := c]\<rparr>) = Ok (f', k')"
    and "1 \<le> j" "j \<le> unat (fp_last fp)" "field_at s fp j = Ok (a, key)" "element_array a"
  shows "k' = k \<longleftrightarrow> c = fp_data fp ! j"
proof -
  define data' where "data' = (fp_data fp)[j := c]"
  let ?fp' = "fp\<lparr>fp_data := data'\<rparr>" and ?n = "Suc (unat (fp_last fp))"
  have "walk_path data' [1..<j] = walk_path (fp_data fp) [1..<j]"
    by (intro ext walk_path_cong) (auto simp: data'_def)
  then have "field_at s ?fp' j = field_at s fp j"
    using assms(3) field_at_walk [OF assms(3), of fp, OF assms(4)] field_at_walk [OF assms(3), of ?fp'] assms(4)
    by (simp add: index_slice_def data'_def)
  with find_field_split [OF assms(3), of ?fp' s] find_field_split [OF assms(3,4), of s] assms
  have w: "walk_path (fp_data fp) [j..<?n] (a, key) = Ok (f, k)" "walk_path data' [j..<?n] (a, key) = Ok (f', k')"
    by (simp_all add: data'_def)
  moreover have "[j..<?n] = j # [Suc j..<?n]" using assms(4) by (simp add: upt_rec)
  ultimately obtain b l b' l' where
    "walk_step (fp_data fp) j (a, key) = Ok (b, l)" "walk_path (fp_data fp) [Suc j..<?n] (b, l) = Ok (f, k)"
    "walk_step data' j (a, key) = Ok (b', l')" "walk_path data' [Suc j..<?n] (b', l') = Ok (f', k')"
    by (auto simp: bindO_Ok_iff)
  moreover have "walk_path data' [Suc j..<?n] = walk_path (fp_data fp) [Suc j..<?n]"
    by (intro ext walk_path_cong) (auto simp: data'_def)
  moreover have "k' = k \<longleftrightarrow> l' = l" if "b' = b"
    using calculation that walk_path_key_inj by metis
  ultimately show ?thesis
    using element_step [OF assms(6)] by (metis data'_def index_hash_inj length_list_update nth_list_update_eq)
qed

definition example_array_field :: ser_field where
  "example_array_field = SerField field_descr_default (Some (Serializer 0 [example_leaf]))
     \<lparr>fm_special = Some (DynamicArray BoolDecoder), fm_decoder = U64Decoder U64Varint\<rparr> 3"

definition example_array_path :: field_path where
  "example_array_path = \<lparr>fp_data = [0, 4, 0, 0, 0, 0, 0], fp_last = 1, fp_finished = False\<rparr>"

theorem array_elements_distinct_witness:
  "\<exists>f k f' k'. find_field (Serializer 7 [example_array_field]) example_array_path = Ok (f, k)
    \<and> find_field (Serializer 7 [example_array_field]) (example_array_path\<lparr>fp_data := [0, 9, 0, 0, 0, 0, 0]\<rparr>) = Ok (f', k')
    \<and> k' \<noteq> k"
proof -
  let ?s = "Serializer 7 [example_array_field]" and ?p = "example_array_path"
  have f: "field_at ?s ?p 1 = Ok (example_array_field, 3)" "element_array example_array_field"
    "find_field ?s ?p = Ok (example_leaf, index_hash 3 4)"
    "find_field ?s (?p\<lparr>fp_data := (fp_data ?p)[1 := 9]\<rparr>) = Ok (example_leaf, index_hash 3 9)"
    by (simp_all add: field_at_def find_field_def example_array_path_def path_indices_def index_slice_def ok_or_def
        serializer_get_child_def example_array_field_def element_array_def is_dynamic_array_def
        special_is_dynamic_array_def walk_step_def get_child_def)
  from array_elements_distinct [OF f(3,4) _ _ f(1,2)] f(3,4) show ?thesis by (simp add: example_array_path_def)
qed

text \<open>Members of the elements of a fixed-size array are keyed by their position: the element is a clone
  of the array field and still counts as a fixed-size array, so the step into it hashes the index of the
  member where \<open>fkey_from_path\<close> hashes its name.  The two agree only if the name has that very hash.\<close>

theorem fixed_array_members_by_index:
  assumes "fm_special (sf_metadata field) = Some (FixedArray n)"
    and "walk_path data [i, j] (with_serializer (child_serializer m field) field, key) = Ok (member, key')"
  shows "key' = index_hash (index_hash key (data ! i)) (data ! j)
    \<and> (key' = add_u64_to_hash (index_hash key (data ! i)) (fd_var_name (sf_descr member))
      \<longleftrightarrow> fd_var_name (sf_descr member) = add_u64_to_hash 0 (ucast (data ! j)))"
proof -
  have fixed: "is_fixed_array (with_serializer s field) \<and> \<not> is_dynamic_array (with_serializer s field)" for s
    using assms(1) by (simp add: is_fixed_array_def is_dynamic_array_def special_is_fixed_array_def special_is_dynamic_array_def)
  have child: "get_child (with_serializer (child_serializer m field) field) x = Some c
      \<Longrightarrow> c = with_serializer (named_serializer m field) field" for x c
    using assms(1) by (auto simp: get_child_def child_serializer_def serializer_get_child_def split: if_splits)
  have "key' = index_hash (index_hash key (data ! i)) (data ! j)"
    using assms(2) fixed by (auto simp: walk_step_def bindO_Ok_iff ok_or_def index_slice_Ok_iff
        split: option.splits dest!: child)
  then show ?thesis by (simp add: index_hash_def add_u64_to_hash_value_inj) metis
qed

definition example_struct_array :: ser_field where
  "example_struct_array = SerField (field_descr_default\<lparr>fd_field_serializer_name := Some 7\<rparr>) None
     \<lparr>fm_special = Some (FixedArray 2), fm_decoder = BoolDecoder\<rparr> 3"

theorem fixed_array_members_by_index_witness:
  "walk_path [0, 1, 0] [1, 2] (with_serializer (child_serializer [7 \<mapsto> leaf_serializer] example_struct_array)
      example_struct_array, 3) = Ok (example_leaf, index_hash (index_hash 3 1) 0)
   \<and> index_hash (index_hash 3 1) 0 \<noteq> add_u64_to_hash (index_hash 3 1) (fd_var_name (sf_descr example_leaf))"
proof -
  have w: "walk_path [0, 1, 0] [1, 2] (with_serializer (child_serializer [7 \<mapsto> leaf_serializer] example_struct_array)
      example_struct_array, 3) = Ok (example_leaf, index_hash (index_hash 3 1) 0)"
    by (simp add: walk_step_def index_slice_def ok_or_def example_struct_array_def get_child_def child_serializer_def
      named_serializer_def serializer_get_child_def leaf_serializer_def is_dynamic_array_def is_fixed_array_def
      special_is_dynamic_array_def special_is_fixed_array_def)
  show ?thesis using fixed_array_members_by_index [OF _ w, of 2] w
    by (simp add: example_struct_array_def example_leaf_def add_u64_to_hash_def)
qed

end
