(* ===== verification/EntityContainerLaws.thy ===== *)
theory EntityContainerLaws
  imports EntitiesLaws
begin

text \<open>
  Laws of \<open>EntityContainer\<close>.  Its operations are the steps of a transition system, with every outcome of
  a step included; the invariants hold after any sequence of them.
\<close>

subsection \<open>What parsing keeps on every outcome\<close>

definition keeps_len :: "(field_path list \<times> 'r, 'e, 'a) rm \<Rightarrow> bool" where
  "keeps_len m \<longleftrightarrow> (\<forall>s. length (fst (snd (m s))) = length (fst s))"

lemma keeps_lenD: "keeps_len m \<Longrightarrow> m (fps, r) = (x, (fps', r')) \<Longrightarrow> length fps' = length fps"
  unfolding keeps_len_def by (metis fst_conv snd_conv)

lemma keeps_len_simps [simp]: "keeps_len (liftO r)" "keeps_len (retM x)" "keeps_len (errM e)" "keeps_len (on_reader m)"
  by (simp_all add: keeps_len_def liftO_def retM_def errM_def on_reader_def zoomM_def split: prod.splits)

lemma keeps_len_bindM: "keeps_len m \<Longrightarrow> (\<And>x. keeps_len (f x)) \<Longrightarrow> keeps_len (bindM m f)"
  unfolding keeps_len_def bindM_def by (auto split: prod.splits outcome.splits) (metis fst_conv snd_conv)+

lemma keeps_len_after_leaf:
  assumes "\<And>fp i nd. keeps_len (read_field_paths_loop B tree fuel fp i nd)"
  shows "keeps_len (after_leaf B tree fuel op fp i)"
  unfolding keeps_len_def
proof
  fix s :: "field_path list \<times> 'a bit_reader"
  obtain fps r where s: "s = (fps, r)" by (cases s)
  obtain x fp' r' where run: "run_field_op op B (fp, r) = (x, (fp', r'))" by (metis prod.exhaust)
  have "keeps_len (bindM (liftO (index_slice (ft_nodes tree) (unat (ft_root tree))))
      (\<lambda>nd. read_field_paths_loop B tree fuel fp' (Suc i) nd))"
    by (intro keeps_len_bindM keeps_len_simps assms)
  then have loop: "length (fst (snd (bindM (liftO (index_slice (ft_nodes tree) (unat (ft_root tree))))
      (\<lambda>nd. read_field_paths_loop B tree fuel fp' (Suc i) nd) (fps', r')))) = length fps'" for fps'
    by (simp add: keeps_len_def)
  show "length (fst (snd (after_leaf B tree fuel op fp i s))) = length (fst s)"
  proof (cases x)
    case (Ok u)
    show ?thesis
      by (cases "fp_finished fp'"; cases "i < length fps")
        (simp_all add: s after_leaf_def run Ok store_slice_def liftO_run bindM_run(3) loop del: liftO_Ok)
  qed (simp_all add: s after_leaf_def run)
qed

lemma keeps_len_loop: "keeps_len (read_field_paths_loop B tree fuel fp i nd)"
proof (induction fuel arbitrary: fp i nd)
  case (Suc fuel)
  show ?case unfolding read_field_paths_loop_Suc
    by (intro keeps_len_bindM keeps_len_simps)
      (auto split: flat_child.splits intro!: keeps_len_after_leaf keeps_len_bindM Suc)
qed simp

lemma keeps_len_paths: "keeps_len (read_field_paths B)"
  unfolding keeps_len_def
proof
  fix s :: "field_path list \<times> 'a bit_reader"
  obtain fps r where s: "s = (fps, r)" by (cases s)
  have "keeps_len (bindM (liftO FIELDOP_TREE) (\<lambda>tree.
     bindM (liftO (index_slice (ft_nodes tree) (unat (ft_root tree)))) (\<lambda>nd.
     read_field_paths_loop B tree (Suc (num_bits_left B r)) field_path_default 0 nd)))"
    by (intro keeps_len_bindM keeps_len_simps keeps_len_loop)
  then show "length (fst (snd (read_field_paths B s))) = length (fst s)"
    by (simp add: s read_field_paths_def keeps_len_def)
qed

text \<open>Parsing leaves the entity's index and serializer, and the length of the scratch slice, on errors too.\<close>

definition keeps_shape :: "((entity \<times> field_path list) \<times> 'c, 'e, 'a) rm \<Rightarrow> bool" where
  "keeps_shape m \<longleftrightarrow> (\<forall>s. same_shape (fst (fst s)) (fst (fst (snd (m s))))
     \<and> length (snd (fst (snd (m s)))) = length (snd (fst s)))"

lemma keeps_shape_liftO [simp]: "keeps_shape (liftO r)" "keeps_shape (retM x)"
  by (simp_all add: keeps_shape_def liftO_def retM_def)

lemma keeps_shape_bindM:
  assumes "keeps_shape m" "\<And>x. keeps_shape (f x)"
  shows "keeps_shape (bindM m f)"
  unfolding keeps_shape_def
proof
  fix s
  obtain r s' where m: "m s = (r, s')" by (cases "m s")
  have 1: "same_shape (fst (fst s)) (fst (fst s')) \<and> length (snd (fst s')) = length (snd (fst s))"
    using assms(1) m unfolding keeps_shape_def by (metis snd_conv)
  have 2: "same_shape (fst (fst s')) (fst (fst (snd (f x s')))) \<and> length (snd (fst (snd (f x s')))) = length (snd (fst s'))" for x
    using assms(2) unfolding keeps_shape_def by blast
  show "same_shape (fst (fst s)) (fst (fst (snd (bindM m f s))))
      \<and> length (snd (fst (snd (bindM m f s)))) = length (snd (fst s))"
    by (cases r) (use m 1 2 in \<open>auto simp: bindM_run intro: same_shape_trans\<close>)
qed

lemma keeps_shape_reader: "keeps_shape (map_errM g (on_reader m))"
  by (auto simp: keeps_shape_def map_errM_def on_reader_def zoomM_def split: prod.splits)

lemma keeps_shape_pointwise: "(\<And>s. \<exists>m. keeps_shape m \<and> f s = m s) \<Longrightarrow> keeps_shape f"
  unfolding keeps_shape_def by metis

lemma keeps_shape_decode_field: "keeps_shape (decode_field B fp)"
proof (rule keeps_shape_pointwise)
  fix s :: "(entity \<times> field_path list) \<times> field_decode_context \<times> 'a bit_reader"
  obtain e fps cb where s: "s = ((e, fps), cb)" by (cases s) auto
  let ?m = "bindM (liftO (find_field (en_serializer e) fp)) (\<lambda>(field, field_key).
     bindM (map_errM EnDecoder (on_reader (field_decode B (fm_decoder (sf_metadata field))))) (\<lambda>field_value
       ((entity, fps), cb).
     (Ok (), ((entity\<lparr>en_fields := (en_fields entity)(field_key \<mapsto> field_value)\<rparr>, fps), cb))))"
  have "keeps_shape ?m"
    by (intro keeps_shape_bindM keeps_shape_liftO, unfold split_beta)
      (intro keeps_shape_bindM keeps_shape_reader, simp add: keeps_shape_def)
  then show "\<exists>m. keeps_shape m \<and> decode_field B fp s = m s" by (intro exI [of _ ?m]) (simp add: s decode_field_def)
qed

lemma keeps_shape_decode_fields: "keeps_shape (decode_fields B fps)"
  by (induction fps) (auto intro: keeps_shape_bindM keeps_shape_decode_field)

lemma keeps_shape_parse: "keeps_shape (entity_parse B)"
  unfolding entity_parse_def
proof (intro keeps_shape_bindM)
  show "keeps_shape (map_errM EnBit (zoomM (\<lambda>((_, fps), (_, br)). (fps, br))
       (\<lambda>(fps, br) ((entity, _), (ctx, _)). ((entity, fps), (ctx, br))) (read_field_paths B)))"
    using keeps_len_paths [of B] by (auto simp: keeps_shape_def keeps_len_def map_errM_def zoomM_def split_beta)
  show "keeps_shape (\<lambda>((entity, fps), cb). bindM (liftO (slice_to fps n)) (decode_fields B) ((entity, fps), cb))" for n
  proof (rule keeps_shape_pointwise)
    fix s :: "(entity \<times> field_path list) \<times> field_decode_context \<times> 'a bit_reader"
    obtain e fps cb where s: "s = ((e, fps), cb)" by (cases s) auto
    have "keeps_shape (bindM (liftO (slice_to fps n)) (decode_fields B))"
      by (intro keeps_shape_bindM keeps_shape_liftO keeps_shape_decode_fields)
    then show "\<exists>m. keeps_shape m \<and> (\<lambda>((entity, fps), cb).
        bindM (liftO (slice_to fps n)) (decode_fields B) ((entity, fps), cb)) s = m s"
      unfolding s prod.case by blast
  qed
qed

text \<open>What a step that only reads leaves of the container: all but the contents of the scratch slice.\<close>

definition same_maps :: "entity_container \<Rightarrow> entity_container \<Rightarrow> bool" where
  "same_maps ec ec' \<longleftrightarrow> ec_entities ec' = ec_entities ec \<and> ec_baseline_entities ec' = ec_baseline_entities ec
     \<and> ec_skipped ec' = ec_skipped ec \<and> length (ec_field_paths ec') = length (ec_field_paths ec)"

lemma same_maps_refl [simp]: "same_maps ec ec"
  by (simp add: same_maps_def)

lemma same_maps_trans: "same_maps a b \<Longrightarrow> same_maps b c \<Longrightarrow> same_maps a c"
  by (simp add: same_maps_def)

lemma parse_with_shape:
  assumes "parse_with B e (ec, cb) = (r, e', (ec', cb'))"
  shows "same_shape e e' \<and> same_maps ec ec'"
proof -
  obtain fps where p: "entity_parse B ((e, ec_field_paths ec), cb) = (r, ((e', fps), cb'))"
    and "ec' = ec\<lparr>ec_field_paths := fps\<rparr>"
    using assms by (auto simp: parse_with_def split: prod.splits)
  moreover have "same_shape e e' \<and> length fps = length (ec_field_paths ec)"
    using keeps_shape_parse [of B] p unfolding keeps_shape_def by (metis fst_conv snd_conv)
  ultimately show ?thesis by (simp add: same_maps_def)
qed

lemma keeps_len_map_errM: "keeps_len m \<Longrightarrow> keeps_len (map_errM f m)"
  by (auto simp: keeps_len_def map_errM_def split_beta)

lemma keeps_len_skip_field: "keeps_len (skip_field B s fp)"
  unfolding skip_field_def by (intro keeps_len_bindM keeps_len_simps keeps_len_map_errM)

lemma keeps_len_skip_fields: "keeps_len (skip_fields B s fps)"
  by (induction fps) (auto intro: keeps_len_bindM keeps_len_skip_field)

lemma keeps_len_pointwise: "(\<And>s. \<exists>m. keeps_len m \<and> f s = m s) \<Longrightarrow> keeps_len f"
  unfolding keeps_len_def by metis

lemma keeps_len_skip: "keeps_len (skip_entity_fields B s)"
  unfolding skip_entity_fields_def
proof (intro keeps_len_bindM keeps_len_map_errM keeps_len_paths)
  fix n
  show "keeps_len (\<lambda>(fps, br). bindM (liftO (slice_to fps n)) (skip_fields B s) (fps, br))"
  proof (rule keeps_len_pointwise)
    fix t :: "field_path list \<times> 'a bit_reader"
    have "keeps_len (bindM (liftO (slice_to fps n)) (skip_fields B s))" for fps
      by (intro keeps_len_bindM keeps_len_simps keeps_len_skip_fields)
    then show "\<exists>m. keeps_len m \<and> (case t of (fps, br) \<Rightarrow> bindM (liftO (slice_to fps n)) (skip_fields B s) (fps, br)) = m t"
      unfolding split_beta prod.collapse by blast
  qed
qed

lemma skip_with_shape:
  assumes "skip_with B serializer (ec, cb) = (r, (ec', cb'))"
  shows "same_maps ec ec'"
proof -
  obtain ctx br where cb: "cb = (ctx, br)" by (cases cb)
  obtain fps br' where k: "skip_entity_fields B serializer (ec_field_paths ec, br) = (r, (fps, br'))"
    and "ec' = ec\<lparr>ec_field_paths := fps\<rparr>"
    using assms by (auto simp: cb skip_with_def zoomM_def split: prod.splits)
  with keeps_lenD [OF keeps_len_skip k] show ?thesis by (simp add: same_maps_def)
qed

lemma on_br_shape: "on_br m (ec, cb) = (r, (ec', cb')) \<Longrightarrow> same_maps ec ec'"
  by (auto simp: on_br_def map_errM_def zoomM_def split: prod.splits)

subsection \<open>The invariant of the container\<close>

definition container_ok :: "serializer_map \<Rightarrow> entity_container \<Rightarrow> bool" where
  "container_ok sers ec \<longleftrightarrow>
     (\<forall>i e. ec_entities ec i = Some e \<longrightarrow> en_index e = i \<and> en_serializer e \<in> ran sers) \<and>
     (\<forall>c e. ec_baseline_entities ec c = Some e \<longrightarrow> en_serializer e \<in> ran sers) \<and>
     (\<forall>i s. ec_skipped ec i = Some s \<longrightarrow> s \<in> ran sers) \<and>
     length (ec_field_paths ec) = 4096"

lemma container_ok_new: "container_ok sers entity_container_new"
  by (simp add: container_ok_def entity_container_new_def)

lemma container_ok_same: "same_maps ec ec' \<Longrightarrow> container_ok sers ec \<Longrightarrow> container_ok sers ec'"
  by (simp add: container_ok_def same_maps_def)

lemma container_ok_insert:
  "container_ok sers ec \<Longrightarrow> en_index e = i \<Longrightarrow> en_serializer e \<in> ran sers \<Longrightarrow>
   container_ok sers (ec\<lparr>ec_entities := (ec_entities ec)(i \<mapsto> e)\<rparr>)"
  "container_ok sers ec \<Longrightarrow> en_serializer e \<in> ran sers \<Longrightarrow>
   container_ok sers (ec\<lparr>ec_baseline_entities := (ec_baseline_entities ec)(c \<mapsto> e)\<rparr>)"
  "container_ok sers ec \<Longrightarrow> s \<in> ran sers \<Longrightarrow>
   container_ok sers (ec\<lparr>ec_skipped := (ec_skipped ec)(i \<mapsto> s)\<rparr>)"
  by (simp_all add: container_ok_def)

lemma container_ok_removed:
  "container_ok sers ec \<Longrightarrow> container_ok sers (snd (handle_delete i ec))"
  "container_ok sers ec \<Longrightarrow> container_ok sers (snd (handle_leave i ec))"
  "container_ok sers ec \<Longrightarrow> container_ok sers (entities_clear ec)"
  by (simp_all add: container_ok_def handle_delete_def handle_leave_def entities_clear_def)

text \<open>A call keeps the invariant whatever it returns, and what it returns satisfies \<open>Q\<close>.\<close>

definition ok_call :: "serializer_map \<Rightarrow> ('s, 'a) container_rm \<Rightarrow> ('a \<Rightarrow> bool) \<Rightarrow> bool" where
  "ok_call sers m Q \<longleftrightarrow> (\<forall>ec cb r ec' cb'. container_ok sers ec \<longrightarrow> m (ec, cb) = (r, (ec', cb')) \<longrightarrow>
     container_ok sers ec' \<and> (\<forall>x. r = Ok x \<longrightarrow> Q x))"

lemma ok_callD: "ok_call sers m Q \<Longrightarrow> container_ok sers ec \<Longrightarrow> m (ec, cb) = (r, (ec', cb')) \<Longrightarrow>
    container_ok sers ec' \<and> (\<forall>x. r = Ok x \<longrightarrow> Q x)"
  unfolding ok_call_def by blast

lemma ok_call_bindM:
  assumes "ok_call sers m Q" "\<And>x. Q x \<Longrightarrow> ok_call sers (f x) R"
  shows "ok_call sers (bindM m f) R"
  unfolding ok_call_def
proof (intro allI impI)
  fix ec cb r ec' cb'
  assume ec: "container_ok sers ec" and run: "bindM m f (ec, cb) = (r, (ec', cb'))"
  obtain x ec1 cb1 where m: "m (ec, cb) = (x, (ec1, cb1))" by (metis prod.exhaust)
  have 1: "container_ok sers ec1" "\<And>y. x = Ok y \<Longrightarrow> Q y" using ok_callD [OF assms(1) ec m] by auto
  show "container_ok sers ec' \<and> (\<forall>x. r = Ok x \<longrightarrow> R x)"
  proof (cases x)
    case (Ok y)
    with run m have "f y (ec1, cb1) = (r, (ec', cb'))" by (simp add: bindM_run)
    with ok_callD [OF assms(2) 1(1)] 1(2) Ok show ?thesis by blast
  qed (use run m 1 in \<open>auto simp: bindM_run\<close>)
qed

lemma ok_call_only: "(\<And>ec cb r ec' cb'. m (ec, cb) = (r, (ec', cb')) \<Longrightarrow> same_maps ec ec') \<Longrightarrow> ok_call sers m (\<lambda>_. True)"
  unfolding ok_call_def using container_ok_same by blast

lemma ok_call_liftO: "(\<And>x. r = Ok x \<Longrightarrow> Q x) \<Longrightarrow> ok_call sers (liftO r) Q"
  by (auto simp: ok_call_def)

lemma ok_call_retM: "Q x \<Longrightarrow> ok_call sers (retM x) Q"
  by (auto simp: ok_call_def)

lemma ok_call_on_br: "ok_call sers (on_br m) (\<lambda>_. True)" "ok_call sers (ignoreM (on_br m)) (\<lambda>_. True)"
  by (auto intro!: ok_call_only simp: ignoreM_def dest: on_br_shape split: prod.splits outcome.splits)

lemma ok_call_read_header: "ok_call sers (read_create_header B classes) (\<lambda>_. True)"
  unfolding read_create_header_def
  by (rule ok_call_bindM [OF ok_call_on_br(1)], rule ok_call_bindM [where Q = "\<lambda>_. True", OF ok_call_liftO],
      rule TrueI, rule ok_call_bindM [OF ok_call_on_br(2)], rule ok_call_bindM [OF ok_call_on_br(2)],
      rule ok_call_retM, rule TrueI)

lemma class_serializer_ran: "class_serializer classes sers c = Ok s \<Longrightarrow> s \<in> ran sers"
  by (auto simp: class_serializer_def bindO_Ok_iff ok_or_def by_name_hash_def intro: ranI split: option.splits)

lemma ok_call_from_baseline:
  assumes "s \<in> ran sers"
  shows "ok_call sers (entity_from_baseline B h ib i c s) (\<lambda>e. en_index e = i \<and> en_serializer e \<in> ran sers)"
  unfolding ok_call_def
proof (intro allI impI)
  fix ec cb r ec' cb'
  assume ec: "container_ok sers ec" and run: "entity_from_baseline B h ib i c s (ec, cb) = (r, (ec', cb'))"
  obtain ctx br where cb: "cb = (ctx, br)" by (cases cb)
  show "container_ok sers ec' \<and> (\<forall>e. r = Ok e \<longrightarrow> en_index e = i \<and> en_serializer e \<in> ran sers)"
  proof (cases "ec_baseline_entities ec c")
    case (Some e)
    with run ec show ?thesis by (auto simp: cb entity_from_baseline_def container_ok_def)
  next
    case None
    obtain x e ec1 cb1 where p: "parse_with B (new_entity i s) (ec, (ctx, bit_reader_new B (baseline_by_id h ib c)))
        = (x, e, (ec1, cb1))" by (metis prod.exhaust)
    have e: "en_index e = i" "en_serializer e \<in> ran sers" and ec1: "container_ok sers ec1"
      using parse_with_shape [OF p] container_ok_same ec assms by (auto simp: same_shape_def new_entity_def)
    show ?thesis
      using run None p e ec1 container_ok_insert(2) [OF ec1 e(2), of c]
      by (auto simp: cb entity_from_baseline_def split: prod.splits outcome.splits)
  qed
qed

lemma ok_call_create_entity:
  assumes "s \<in> ran sers"
  shows "ok_call sers (create_entity B h ib i c s) (\<lambda>j. j = i)"
  unfolding create_entity_def
proof (intro ok_call_bindM [OF ok_call_from_baseline [OF assms]], elim conjE)
  fix e :: entity assume e: "en_index e = i" "en_serializer e \<in> ran sers"
  show "ok_call sers (\<lambda>s. case parse_with B e s of (r, entity, s) \<Rightarrow>
       bindM (liftO r) (\<lambda>_ (ec, cb). (Ok i, (ec\<lparr>ec_entities := (ec_entities ec)(i \<mapsto> entity)\<rparr>, cb))) s) (\<lambda>j. j = i)"
    unfolding ok_call_def
  proof (intro allI impI)
    fix ec cb r ec' cb'
    assume ec: "container_ok sers ec" and run: "(case parse_with B e (ec, cb) of (r, entity, s) \<Rightarrow>
       bindM (liftO r) (\<lambda>_ (ec, cb). (Ok i, (ec\<lparr>ec_entities := (ec_entities ec)(i \<mapsto> entity)\<rparr>, cb))) s) = (r, (ec', cb'))"
    obtain x e1 ec1 cb1 where p: "parse_with B e (ec, cb) = (x, e1, (ec1, cb1))" by (metis prod.exhaust)
    from parse_with_shape [OF p] e have e1: "en_index e1 = i" "en_serializer e1 \<in> ran sers"
      and ec1: "container_ok sers ec1" using container_ok_same ec by (auto simp: same_shape_def)
    show "container_ok sers ec' \<and> (\<forall>j. r = Ok j \<longrightarrow> j = i)"
      using run p container_ok_insert(1) [OF ec1 e1] ec1
      by (cases x) (auto simp: bindM_run liftO_run simp del: liftO_Ok)
  qed
qed

lemma ok_call_handle_create: "ok_call sers (handle_create B i classes h ib sers) (\<lambda>j. j = i)"
  unfolding handle_create_def
  by (rule ok_call_bindM [OF ok_call_read_header],
      rule ok_call_bindM [where Q = "\<lambda>s. s \<in> ran sers", OF ok_call_liftO [OF class_serializer_ran]], assumption,
      rule ok_call_create_entity)

lemma ok_call_skip_with: "ok_call sers (skip_with B s) (\<lambda>_. True)"
  by (rule ok_call_only [OF skip_with_shape])

lemma ok_call_handle_create_with_filter:
  "ok_call sers (handle_create_with_filter B i classes h ib sers track) (\<lambda>_. True)"
  unfolding handle_create_with_filter_def
proof (rule ok_call_bindM [OF ok_call_read_header],
    rule ok_call_bindM [where Q = "\<lambda>s. s \<in> ran sers", OF ok_call_liftO [OF class_serializer_ran]], assumption)
  fix c s assume s: "s \<in> ran sers"
  have "ok_call sers (\<lambda>(ec, cb). (Ok None, (ec\<lparr>ec_skipped := (ec_skipped ec)(i \<mapsto> s)\<rparr>, cb))) (\<lambda>_. True)"
    using container_ok_insert(3) [OF _ s] by (simp add: ok_call_def)
  with ok_call_create_entity [OF s] show "ok_call sers (if \<not> track (fs_serializer_name s)
     then seqM (skip_with B s) (\<lambda>(ec, cb). (Ok None, (ec\<lparr>ec_skipped := (ec_skipped ec)(i \<mapsto> s)\<rparr>, cb)))
     else bindM (create_entity B h ib i c s) (\<lambda>j. retM (Some j))) (\<lambda>_. True)"
    by (auto intro: ok_call_bindM [OF ok_call_skip_with] ok_call_bindM [OF ok_call_create_entity [OF s]] ok_call_retM)
qed

lemma ok_call_handle_update: "ok_call sers (handle_update B i) (\<lambda>_. True)"
  unfolding ok_call_def
proof (intro allI impI)
  fix ec cb r ec' cb'
  assume ec: "container_ok sers ec" and run: "handle_update B i (ec, cb) = (r, (ec', cb'))"
  show "container_ok sers ec' \<and> (\<forall>x. r = Ok x \<longrightarrow> True)"
  proof (cases "ec_skipped ec i")
    case (Some s)
    then have "seqM (skip_with B s) (retM None) (ec, cb) = (r, (ec', cb'))" using run by (simp add: handle_update_def)
    moreover have "ok_call sers (seqM (skip_with B s) (retM None)) (\<lambda>_. True)"
      by (intro ok_call_bindM [OF ok_call_skip_with] ok_call_retM TrueI)
    ultimately show ?thesis using ok_callD ec by blast
  next
    case None
    show ?thesis
    proof (cases "ec_entities ec i")
      case (Some e)
      obtain x e1 ec1 cb1 where p: "parse_with B e (ec, cb) = (x, e1, (ec1, cb1))" by (metis prod.exhaust)
      have "en_index e = i" "en_serializer e \<in> ran sers" using Some ec by (simp_all add: container_ok_def)
      then have e1: "en_index e1 = i" "en_serializer e1 \<in> ran sers"
        using parse_with_shape [OF p] by (simp_all add: same_shape_def)
      have ec1: "container_ok sers ec1" using parse_with_shape [OF p] container_ok_same ec by blast
      have "ec' = ec1\<lparr>ec_entities := (ec_entities ec1)(i \<mapsto> e1)\<rparr>" using run None Some p by (simp add: handle_update_def)
      with container_ok_insert(1) [OF ec1 e1] show ?thesis by simp
    next
      case None
      then show ?thesis using run \<open>ec_skipped ec i = None\<close> ec by (simp add: handle_update_def)
    qed
  qed
qed

text \<open>The operations of the container, in any order.  Between two of them the caller may open another
  message and change the tick interval.\<close>

inductive container_step :: "'s bitbuf \<Rightarrow> serializer_map \<Rightarrow> 's container_state \<Rightarrow> 's container_state \<Rightarrow> bool"
  for B sers where
  create: "handle_create B i classes h ib sers s = (r, s') \<Longrightarrow> container_step B sers s s'"
| create_with_filter: "handle_create_with_filter B i classes h ib sers track s = (r, s')
    \<Longrightarrow> container_step B sers s s'"
| delete: "container_step B sers (ec, cb) (snd (handle_delete i ec), cb)"
| leave: "container_step B sers (ec, cb) (snd (handle_leave i ec), cb)"
| update: "handle_update B i s = (r, s') \<Longrightarrow> container_step B sers s s'"
| clear: "container_step B sers (ec, cb) (entities_clear ec, cb)"
| message: "container_step B sers (ec, cb) (ec, cb')"

inductive_cases container_stepE: "container_step B sers s s'"

lemma container_step_ok:
  assumes "container_step B sers s s'" "container_ok sers (fst s)"
  shows "container_ok sers (fst s')"
proof -
  have call: "container_ok sers (fst s')" if "ok_call sers m Q" "m s = (r, s')" for m Q r
    using that assms(2) ok_callD [of sers m Q "fst s" "snd s" r "fst s'" "snd s'"] by simp
  from assms(1) show ?thesis
    by cases (use assms(2) container_ok_removed in
      \<open>auto intro: call [OF ok_call_handle_create] call [OF ok_call_handle_create_with_filter]
        call [OF ok_call_handle_update]\<close>)
qed

lemma container_steps_ok:
  "(container_step B sers)\<^sup>*\<^sup>* s s' \<Longrightarrow> container_ok sers (fst s) \<Longrightarrow> container_ok sers (fst s')"
  by (induction rule: rtranclp_induct) (auto intro: container_step_ok)

text \<open>C31: the container's invariant, after any sequence of its operations, the failing ones included: a live
  entity is stored under its own index, the serializers of the live, the baseline and the skipped entities
  all come from the demo's serializers, and the scratch slice keeps its 4096 paths.\<close>

theorem container_invariant:
  assumes "(container_step B sers)\<^sup>*\<^sup>* (entity_container_new, cb) (ec, cb')"
  shows "container_ok sers ec"
  using container_steps_ok [OF assms] container_ok_new by simp

subsection \<open>What a create and an update change\<close>

lemma read_create_header_shape:
  assumes "read_create_header B classes (ec, cb) = (Ok c, (ec', cb'))" shows "same_maps ec ec'"
proof -
  have ign: "same_maps e1 e2" if "ignoreM (on_br m) (e1, b1) = (Ok x, (e2, b2))" for m :: "('a bit_reader, bit_error, 'x) rm" and e1 e2 b1 b2 x
    using that by (auto simp: ignoreM_def dest: on_br_shape split: prod.splits outcome.splits)
  from assms show ?thesis unfolding read_create_header_def bindM_Ok_iff
    by (auto dest!: on_br_shape ign intro: same_maps_trans)
qed

lemma entity_from_baseline_Ok:
  assumes "entity_from_baseline B h ib i c s (ec, cb) = (Ok e, (ec', cb'))"
  shows "en_index e = i \<and> ec_skipped ec' = ec_skipped ec \<and> ec_entities ec' = ec_entities ec"
proof -
  obtain ctx br where cb: "cb = (ctx, br)" by (cases cb)
  show ?thesis
  proof (cases "ec_baseline_entities ec c")
    case None
    obtain x e1 ec1 cb1 where p: "parse_with B (new_entity i s) (ec, (ctx, bit_reader_new B (baseline_by_id h ib c)))
        = (x, e1, (ec1, cb1))" by (metis prod.exhaust)
    have "en_index e1 = i" "same_maps ec ec1" using parse_with_shape [OF p] by (simp_all add: same_shape_def new_entity_def)
    with assms None p show ?thesis
      by (auto simp: cb entity_from_baseline_def same_maps_def split: prod.splits outcome.splits)
  qed (use assms in \<open>auto simp: cb entity_from_baseline_def\<close>)
qed

lemma create_entity_Ok:
  assumes "create_entity B h ib i c s (ec, cb) = (Ok j, (ec', cb'))"
  shows "j = i \<and> ec_skipped ec' = ec_skipped ec \<and> (\<exists>e. en_index e = i \<and> ec_entities ec' = (ec_entities ec)(i \<mapsto> e))"
proof -
  obtain e ec1 cb1 where b: "entity_from_baseline B h ib i c s (ec, cb) = (Ok e, (ec1, cb1))"
    and run: "(case parse_with B e (ec1, cb1) of (r, entity, s) \<Rightarrow>
       bindM (liftO r) (\<lambda>_ (ec, cb). (Ok i, (ec\<lparr>ec_entities := (ec_entities ec)(i \<mapsto> entity)\<rparr>, cb))) s) = (Ok j, (ec', cb'))"
  proof (rule bindM_OkE [OF assms [unfolded create_entity_def]])
    fix e t
    assume "entity_from_baseline B h ib i c s (ec, cb) = (Ok e, t)" "(case parse_with B e t of (r, entity, s) \<Rightarrow>
       bindM (liftO r) (\<lambda>_ (ec, cb). (Ok i, (ec\<lparr>ec_entities := (ec_entities ec)(i \<mapsto> entity)\<rparr>, cb))) s) = (Ok j, (ec', cb'))"
    then show thesis using that [of e "fst t" "snd t"] by simp
  qed
  obtain x e2 ec2 cb2 where p: "parse_with B e (ec1, cb1) = (x, e2, (ec2, cb2))" by (metis prod.exhaust)
  have "j = i" "ec' = ec2\<lparr>ec_entities := (ec_entities ec2)(i \<mapsto> e2)\<rparr>"
    using run p by (auto simp: bindM_Ok_iff)
  with parse_with_shape [OF p] entity_from_baseline_Ok [OF b] show ?thesis by (auto simp: same_shape_def same_maps_def)
qed

lemma create_with_filter_effect:
  assumes "handle_create_with_filter B i classes h ib sers track (ec, cb) = (Ok x, (ec', cb'))"
  obtains (skipped) s where "x = None" "\<not> track (fs_serializer_name s)" "s \<in> ran sers"
      "ec_skipped ec' = (ec_skipped ec)(i \<mapsto> s)" "ec_entities ec' = ec_entities ec"
  | (tracked) s e where "x = Some i" "track (fs_serializer_name s)" "s \<in> ran sers"
      "ec_skipped ec' = ec_skipped ec" "ec_entities ec' = (ec_entities ec)(i \<mapsto> e)" "en_index e = i"
proof -
  obtain c ec1 cb1 s where hd: "read_create_header B classes (ec, cb) = (Ok c, (ec1, cb1))"
    and s: "s \<in> ran sers"
    and run: "(if \<not> track (fs_serializer_name s) then
       seqM (skip_with B s) (\<lambda>(ec, cb). (Ok None, (ec\<lparr>ec_skipped := (ec_skipped ec)(i \<mapsto> s)\<rparr>, cb)))
     else bindM (create_entity B h ib i c s) (\<lambda>j. retM (Some j))) (ec1, cb1) = (Ok x, (ec', cb'))"
  proof (rule bindM_OkE [OF assms [unfolded handle_create_with_filter_def]])
    fix c t
    assume "read_create_header B classes (ec, cb) = (Ok c, t)" and "bindM (liftO (class_serializer classes sers c)) (\<lambda>s.
        if \<not> track (fs_serializer_name s) then
          seqM (skip_with B s) (\<lambda>(ec, cb). (Ok None, (ec\<lparr>ec_skipped := (ec_skipped ec)(i \<mapsto> s)\<rparr>, cb)))
        else bindM (create_entity B h ib i c s) (\<lambda>j. retM (Some j))) t = (Ok x, (ec', cb'))"
    then show thesis
    proof (elim bindM_OkE [of "liftO _"])
      fix s u
      assume "liftO (class_serializer classes sers c) t = (Ok s, u)"
      then have "u = t" "s \<in> ran sers" by (auto intro: class_serializer_ran [OF sym])
      then show "read_create_header B classes (ec, cb) = (Ok c, t) \<Longrightarrow> (if \<not> track (fs_serializer_name s) then
          seqM (skip_with B s) (\<lambda>(ec, cb). (Ok None, (ec\<lparr>ec_skipped := (ec_skipped ec)(i \<mapsto> s)\<rparr>, cb)))
        else bindM (create_entity B h ib i c s) (\<lambda>j. retM (Some j))) u = (Ok x, (ec', cb')) \<Longrightarrow> thesis"
        using that [of c "fst t" "snd t" s] by simp
    qed
  qed
  have m: "same_maps ec ec1" by (rule read_create_header_shape [OF hd])
  show thesis
  proof (cases "track (fs_serializer_name s)")
    case True
    then obtain j where k: "create_entity B h ib i c s (ec1, cb1) = (Ok j, (ec', cb'))" and x: "x = Some j"
      using run by (auto simp: bindM_Ok_iff)
    obtain e where "en_index e = i" "ec_entities ec' = (ec_entities ec1)(i \<mapsto> e)" "j = i" "ec_skipped ec' = ec_skipped ec1"
      using create_entity_Ok [OF k] by blast
    with m show thesis by (intro tracked [OF _ True s]) (simp_all add: x same_maps_def)
  next
    case False
    then obtain y ec2 cb2 where k: "skip_with B s (ec1, cb1) = (Ok y, (ec2, cb2))"
      and "x = None" "ec' = ec2\<lparr>ec_skipped := (ec_skipped ec2)(i \<mapsto> s)\<rparr>"
      using run by (auto simp: bindM_Ok_iff)
    with skip_with_shape [OF k] m show thesis by (intro skipped [OF _ False s]) (simp_all add: same_maps_def)
  qed
qed

text \<open>A create files the entity according to the visitor's wish: an unwanted one only as skipped, a
  wanted one only as live and under its index; nothing else in the two maps changes.\<close>

theorem create_files_entity:
  assumes "handle_create_with_filter B i classes h ib sers track (ec, cb) = (Ok x, (ec', cb'))"
  shows "(case x of
     None \<Rightarrow> \<exists>s. \<not> track (fs_serializer_name s) \<and> s \<in> ran sers \<and>
       ec_skipped ec' = (ec_skipped ec)(i \<mapsto> s) \<and> ec_entities ec' = ec_entities ec
   | Some j \<Rightarrow> j = i \<and> (\<exists>s e. track (fs_serializer_name s) \<and> s \<in> ran sers \<and> en_index e = i \<and>
       ec_skipped ec' = ec_skipped ec \<and> ec_entities ec' = (ec_entities ec)(i \<mapsto> e)))"
  using assms by (rule create_with_filter_effect) (simp, blast, simp, blast)

lemma update_skipped:
  assumes "ec_skipped ec i = Some s" "handle_update B i (ec, cb) = (r, (ec', cb'))"
  shows "ec_entities ec' = ec_entities ec \<and> ec_skipped ec' = ec_skipped ec \<and> (\<forall>x. r = Ok x \<longrightarrow> x = None)"
proof -
  have run: "seqM (skip_with B s) (retM None) (ec, cb) = (r, (ec', cb'))" using assms by (simp add: handle_update_def)
  obtain y ec1 cb1 where k: "skip_with B s (ec, cb) = (y, (ec1, cb1))" by (metis prod.exhaust)
  have "ec' = ec1 \<and> (\<forall>x. r = Ok x \<longrightarrow> x = None)" using run k by (cases y) (auto simp: bindM_run)
  with skip_with_shape [OF k] show ?thesis by (simp add: same_maps_def)
qed

text \<open>C33: a wanted entity created at an index that is still filed as skipped stays filed as skipped: every
  later update of it is skipped too and its fields never change again.\<close>

theorem create_over_skipped:
  assumes "handle_create_with_filter B i classes h ib sers track (ec, cb) = (Ok (Some i), (ec', cb'))"
    and "ec_skipped ec i = Some s" "handle_update B i (ec', cb1) = (r, (ec'', cb2))"
  shows "ec_entities ec' i \<noteq> None \<and> ec_entities ec'' = ec_entities ec' \<and> ec_skipped ec'' i = Some s
    \<and> (\<forall>x. r = Ok x \<longrightarrow> x = None)"
proof -
  have "ec_skipped ec' i = Some s \<and> ec_entities ec' i \<noteq> None"
    using assms(1) by (rule create_with_filter_effect) (use assms(2) in auto)
  with update_skipped [OF _ assms(3)] show ?thesis by auto
qed

subsection \<open>Examples\<close>

definition example_classes :: entity_classes where
  "example_classes = \<lparr>ec_classes = 1, ec_bits = 8, ec_class_infos = [7]\<rparr>"

definition example_container :: entity_container where
  "example_container = \<lparr>ec_entities = Map.empty, ec_baseline_entities = [0 \<mapsto> new_entity 0 leaf_serializer],
     ec_skipped = [4 \<mapsto> leaf_serializer], ec_field_paths = [field_path_default]\<rparr>"

text \<open>Class 0 (8 bits), the serial (17 bits), an unknown number (8 bits), then the fields.\<close>

definition example_create :: "bool list" where
  "example_create = replicate 33 False @ [False, True, False, True]"

definition at_bit :: "nat \<Rightarrow> ref_reader bit_reader" where
  "at_bit n = \<lparr>br_inner = (example_create, n), br_did_check_overflow = False\<rparr>"

lemma word_of_zeros: "word_of_bits (replicate n False) = 0"
  by (rule bit_word_eqI) (simp add: bit_word_of_bits)

lemma example_ubit64:
  assumes "k + n \<le> 33" shows "read_ubit64 ref_bitbuf n (at_bit k) = (Ok 0, at_bit (k + n))"
proof -
  have "take n (drop k example_create) = replicate n False"
    using assms by (simp add: example_create_def)
  with assms show ?thesis
    by (simp add: read_ubit64_def on_inner_def zoomM_def at_bit_def ref_bitbuf_def ref_take_def ref_room_def
        bindM_def retM_def word_of_zeros example_create_def)
qed

lemma example_uvarint32: "read_uvarint32 ref_bitbuf (at_bit 25) = (Ok 0, at_bit 33)"
proof -
  have t: "take 8 (drop 25 example_create) = replicate 8 False" by (simp add: example_create_def)
  have "ref_uvarint (Suc 4) 0 0 (example_create, 25) = (Ok 0, (example_create, 33))"
    unfolding ref_uvarint.simps
    by (simp add: bindM_def ref_take_def ref_room_def t word_of_zeros retM_def) (simp add: example_create_def)
  then show ?thesis
    by (simp add: read_uvarint32_def on_inner_def zoomM_def at_bit_def ref_bitbuf_def bindM_def retM_def)
qed

lemma example_header:
  "read_create_header ref_bitbuf example_classes (ec, (ctx, at_bit 0)) = (Ok 0, (ec, (ctx, at_bit 33)))"
  using example_ubit64 [of 0 8] example_ubit64 [of 8 17] example_uvarint32
  by (simp add: read_create_header_def example_classes_def on_br_def map_errM_def zoomM_def bindM_def ignoreM_def retM_def
      NUM_SERIAL_NUM_BITS_def NUM_ENT_ENTRY_BITS_def MAX_EDICT_BITS_def try_into_i32_def)

lemma example_created:
  assumes "track = (\<lambda>_. True)"
  shows "\<exists>ec' cb'. handle_create_with_filter ref_bitbuf 4 example_classes h ib [7 \<mapsto> leaf_serializer] track
    (example_container, (field_decode_context_default, at_bit 0)) = (Ok (Some 4), (ec', cb'))"
proof -
  have "bits_ahead ref_bits (at_bit 33) = example_bits @ True # []"
    by (simp add: bits_ahead_def ref_bits_def at_bit_def example_create_def example_bits_eq)
  with example_entity_parse [OF ref_cursor_laws ref_value_laws, of "at_bit 33" True "[]" "[field_path_default]"
      "new_entity 4 leaf_serializer" field_decode_context_default]
  obtain e fps br' where p: "entity_parse ref_bitbuf ((new_entity 4 leaf_serializer, [field_path_default]),
      (field_decode_context_default, at_bit 33)) = (Ok (), ((e, fps), (field_decode_context_default, br')))"
    by (auto simp: new_entity_def)
  have c: "class_serializer example_classes [7 \<mapsto> leaf_serializer] 0 = Ok leaf_serializer"
    by (simp add: class_serializer_def class_by_id_def example_classes_def as_usize_def ok_or_def by_name_hash_def)
  have b: "entity_from_baseline ref_bitbuf h ib 4 0 leaf_serializer (example_container, (field_decode_context_default, at_bit 33))
      = (Ok (new_entity 4 leaf_serializer), (example_container, (field_decode_context_default, at_bit 33)))"
    by (simp add: entity_from_baseline_def example_container_def new_entity_def)
  have "ec_field_paths example_container = [field_path_default]" by (simp add: example_container_def)
  with p have "\<exists>ec' cb'. create_entity ref_bitbuf h ib 4 0 leaf_serializer
      (example_container, (field_decode_context_default, at_bit 33)) = (Ok 4, (ec', cb'))"
    by (simp add: create_entity_def bindM_def b parse_with_def retM_def)
  then show ?thesis
    using example_header [of example_container field_decode_context_default]
    by (auto simp: handle_create_with_filter_def bindM_def c retM_def assms)
qed

theorem container_invariant_witness:
  "\<exists>ec cb. (container_step ref_bitbuf [7 \<mapsto> leaf_serializer])\<^sup>*\<^sup>*
      (entity_container_new, (field_decode_context_default, at_bit 0)) (ec, cb) \<and> container_ok [7 \<mapsto> leaf_serializer] ec"
proof -
  have "container_step ref_bitbuf [7 \<mapsto> leaf_serializer] (entity_container_new, (field_decode_context_default, at_bit 0))
      (snd (handle_create_with_filter ref_bitbuf 4 example_classes [] [] [7 \<mapsto> leaf_serializer] (\<lambda>_. True)
        (entity_container_new, (field_decode_context_default, at_bit 0))))"
    by (rule container_step.create_with_filter) (rule prod.collapse [symmetric])
  then obtain ec cb where "(container_step ref_bitbuf [7 \<mapsto> leaf_serializer])\<^sup>*\<^sup>*
      (entity_container_new, (field_decode_context_default, at_bit 0)) (ec, cb)"
    by (metis prod.exhaust r_into_rtranclp)
  with container_invariant show ?thesis by blast
qed

theorem create_files_entity_witness:
  "\<exists>ec' cb' e. handle_create_with_filter ref_bitbuf 4 example_classes [] [] [7 \<mapsto> leaf_serializer] (\<lambda>_. True)
      (example_container, (field_decode_context_default, at_bit 0)) = (Ok (Some 4), (ec', cb'))
    \<and> ec_entities ec' = [4 \<mapsto> e] \<and> en_index e = 4"
proof -
  obtain ec' cb' where r: "handle_create_with_filter ref_bitbuf 4 example_classes [] [] [7 \<mapsto> leaf_serializer] (\<lambda>_. True)
      (example_container, (field_decode_context_default, at_bit 0)) = (Ok (Some 4), (ec', cb'))"
    using example_created [OF refl] by blast
  from create_files_entity [OF r] r show ?thesis by (auto simp: example_container_def)
qed

theorem create_over_skipped_witness:
  "\<exists>ec' cb'. handle_create_with_filter ref_bitbuf 4 example_classes [] [] [7 \<mapsto> leaf_serializer] (\<lambda>_. True)
      (example_container, (field_decode_context_default, at_bit 0)) = (Ok (Some 4), (ec', cb'))
    \<and> ec_entities ec' 4 \<noteq> None
    \<and> ec_entities (fst (snd (handle_update ref_bitbuf 4 (ec', (field_decode_context_default, at_bit 33))))) = ec_entities ec'"
proof -
  obtain ec' cb' where r: "handle_create_with_filter ref_bitbuf 4 example_classes [] [] [7 \<mapsto> leaf_serializer] (\<lambda>_. True)
      (example_container, (field_decode_context_default, at_bit 0)) = (Ok (Some 4), (ec', cb'))"
    using example_created [OF refl] by blast
  obtain x ec'' cb'' where u: "handle_update ref_bitbuf 4 (ec', (field_decode_context_default, at_bit 33)) = (x, (ec'', cb''))"
    by (metis prod.exhaust)
  have "ec_skipped example_container 4 = Some leaf_serializer" by (simp add: example_container_def)
  from create_over_skipped [OF r this u] r u show ?thesis by simp
qed

end
