(* ===== verification/DemoStream.thy ===== *)
theory DemoStream
  imports StringTables
begin

text \<open>
  \<open>haste_core/src/demostream.rs\<close>: the interface of a demo stream, and what its implementations share.

  A reader of the standard library is its bytes and its position; a read past the end moves to the end
  and fails, other I/O errors do not occur.  The generated enumeration \<open>EDemoCommands\<close> is a parameter:
  which numbers are commands, and the numbers of the commands the program names.  A command is its number.
  Protobuf decoding is a parameter too, so the interface holds functions from bytes to messages.
\<close>

datatype io_error = UnexpectedEof | InvalidData | InvalidInput | OtherIo

datatype varint_error = VeIo io_error | VeMalformed

datatype read_cmd_header_error = RchIo io_error | RchVarint varint_error | RchUnknownCmd u32 u32

datatype read_cmd_error = RcIo io_error | RcDecompress

datatype decode_cmd_error = DecodeProtobuf

record demo_commands =
  dc_known :: "i32 \<Rightarrow> bool"
  dc_is_compressed :: u32
  dc_packet :: i32
  dc_signon_packet :: i32
  dc_send_tables :: i32
  dc_class_info :: i32
  dc_full_packet :: i32
  dc_sync_tick :: i32

definition cmd_try_from :: "demo_commands \<Rightarrow> u32 \<Rightarrow> u32 \<Rightarrow> (read_cmd_header_error, i32) outcome" where
  "cmd_try_from C raw uncompressed =
     (if dc_known C uncompressed then Ok uncompressed else Err (RchUnknownCmd raw uncompressed))"

record cmd_header =
  ch_cmd :: i32
  ch_body_compressed :: bool
  ch_tick :: i32
  ch_body_size :: u32
  ch_size :: u8

record cdemo_full_packet =
  cf_string_table :: "proto_table list option"
  cf_packet :: "u8 list option option"

subsection \<open>The interface\<close>

record 'd demo_stream =
  ds_is_at_eof :: "('d, io_error, bool) rm"
  ds_read_cmd_header :: "('d, read_cmd_header_error, cmd_header) rm"
  ds_read_cmd :: "cmd_header \<Rightarrow> ('d, read_cmd_error, u8 list) rm"
  ds_decode_cmd_send_tables :: "u8 list \<Rightarrow> (decode_cmd_error, u8 list option) outcome"
  ds_decode_cmd_class_info :: "u8 list \<Rightarrow> (decode_cmd_error, rstr list) outcome"
  ds_decode_cmd_packet :: "u8 list \<Rightarrow> (decode_cmd_error, u8 list option) outcome"
  ds_decode_cmd_full_packet :: "u8 list \<Rightarrow> (decode_cmd_error, cdemo_full_packet) outcome"
  ds_skip_cmd :: "cmd_header \<Rightarrow> ('d, io_error, unit) rm"

datatype seek_from = SeekStart nat | SeekEnd int | SeekCurrent int

record 'd seekable_stream = "'d demo_stream" +
  ds_seek :: "seek_from \<Rightarrow> ('d, io_error, nat) rm"
  ds_stream_position :: "('d, io_error, nat) rm"
  ds_start_position :: "'d \<Rightarrow> nat"

text \<open>The trait \<open>AsyncDemoStream\<close>; waiting is not modelled.\<close>

record 'd async_demo_stream =
  as_read_cmd_header :: "('d, read_cmd_header_error, cmd_header) rm"
  as_read_cmd :: "cmd_header \<Rightarrow> ('d, read_cmd_error, u8 list) rm"
  as_decode_cmd_send_tables :: "u8 list \<Rightarrow> (decode_cmd_error, u8 list option) outcome"
  as_decode_cmd_class_info :: "u8 list \<Rightarrow> (decode_cmd_error, rstr list) outcome"
  as_decode_cmd_packet :: "u8 list \<Rightarrow> (decode_cmd_error, u8 list option) outcome"
  as_decode_cmd_full_packet :: "u8 list \<Rightarrow> (decode_cmd_error, cdemo_full_packet) outcome"
  as_start_position :: "'d \<Rightarrow> nat"

text \<open>The methods that the trait provides.\<close>

definition stream_len :: "('d, 'x) seekable_stream_scheme \<Rightarrow> ('d, io_error, nat) rm" where
  "stream_len D =
     bindM (ds_stream_position D) (\<lambda>old_pos.
     bindM (ds_seek D (SeekEnd 0)) (\<lambda>len.
     if old_pos \<noteq> len then seqM (ds_seek D (SeekStart old_pos)) (retM len) else retM len))"

definition unread_cmd_header :: "('d, 'x) seekable_stream_scheme \<Rightarrow> cmd_header \<Rightarrow> ('d, io_error, unit) rm" where
  "unread_cmd_header D cmd_header =
     seqM (ds_seek D (SeekCurrent (- int (unat (ch_size cmd_header))))) (retM ())"

text \<open>\<open>is_at_eof().unwrap_or_default()\<close>\<close>

definition at_eof_or_default :: "('d, 'x) demo_stream_scheme \<Rightarrow> ('d, io_error, bool) rm" where
  "at_eof_or_default D = (\<lambda>d. case ds_is_at_eof D d of
     (Ok b, d) \<Rightarrow> (Ok b, d)
   | (Err _, d) \<Rightarrow> (Ok False, d)
   | (Panic p, d) \<Rightarrow> (Panic p, d)
   | (OutOfFuel, d) \<Rightarrow> (OutOfFuel, d))"

subsection \<open>Readers\<close>

record reader =
  rd_data :: "u8 list"
  rd_pos :: nat

text \<open>\<open>read_exact\<close>: all of the bytes, or the end of the file.\<close>

definition read_exact :: "nat \<Rightarrow> (reader, io_error, u8 list) rm" where
  "read_exact n = (\<lambda>r.
     if n = 0 then (Ok [], r)
     else if rd_pos r + n \<le> length (rd_data r)
     then (Ok (take n (drop (rd_pos r) (rd_data r))), r\<lparr>rd_pos := rd_pos r + n\<rparr>)
     else (Err UnexpectedEof, r\<lparr>rd_pos := max (rd_pos r) (length (rd_data r))\<rparr>))"

definition rdr_seek :: "seek_from \<Rightarrow> (reader, io_error, nat) rm" where
  "rdr_seek from = (\<lambda>r.
     let to = (case from of SeekStart n \<Rightarrow> int n | SeekEnd i \<Rightarrow> int (length (rd_data r)) + i
               | SeekCurrent i \<Rightarrow> int (rd_pos r) + i)
     in if to < 0 then (Err InvalidInput, r) else (Ok (nat to), r\<lparr>rd_pos := nat to\<rparr>))"

definition rdr_position :: "(reader, io_error, nat) rm" where
  "rdr_position = (\<lambda>r. (Ok (rd_pos r), r))"

subsection \<open>Headers\<close>

text \<open>The header of a demo file's command: three varints.  \<open>uv\<close> reads a varint and counts its bytes.\<close>

definition varint_cmd_header ::
    "demo_commands \<Rightarrow> ('r, varint_error, u32 \<times> nat) rm \<Rightarrow> ('r, read_cmd_header_error, cmd_header) rm" where
  "varint_cmd_header C uv =
     bindM (map_errM RchVarint uv) (\<lambda>(cmd_raw, cmd_n).
     let body_compressed = (cmd_raw AND dc_is_compressed C = dc_is_compressed C);
         cmd = (if body_compressed then cmd_raw AND NOT (dc_is_compressed C) else cmd_raw)
     in bindM (liftO (cmd_try_from C cmd_raw cmd)) (\<lambda>cmd.
        bindM (map_errM RchVarint uv) (\<lambda>(tick, tick_n).
        bindM (map_errM RchVarint uv) (\<lambda>(body_size, body_size_n).
        retM \<lparr>ch_cmd = cmd, ch_body_compressed = body_compressed, ch_tick = tick, ch_body_size = body_size,
          ch_size = of_nat (cmd_n + tick_n + body_size_n)\<rparr>))))"

text \<open>The constants of \<open>dungers::varint\<close>.\<close>

record varint_consts =
  vc_continue_bit :: u8
  vc_payload_bits :: u8
  vc_max_size :: nat

fun uvarint_async_loop :: "varint_consts \<Rightarrow> nat \<Rightarrow> nat \<Rightarrow> u32 \<Rightarrow> (reader, varint_error, u32 \<times> nat) rm" where
  "uvarint_async_loop K 0 count v = errM VeMalformed"
| "uvarint_async_loop K (Suc n) count v =
     bindM (map_errM VeIo (read_exact 1)) (\<lambda>buf.
     let byte = hd buf; v = v OR push_bit (count * 7) (ucast (byte AND vc_payload_bits K))
     in if byte AND vc_continue_bit K = 0 then retM (v, count + 1)
        else uvarint_async_loop K n (count + 1) v)"

definition read_uvarint_async :: "varint_consts \<Rightarrow> (reader, varint_error, u32 \<times> nat) rm" where
  "read_uvarint_async K =
     bindM (map_errM VeIo (read_exact 1)) (\<lambda>buf.
     let byte = hd buf in
     if byte AND vc_continue_bit K = 0 then retM (ucast byte, 1)
     else uvarint_async_loop K (vc_max_size K - 1) 1 (ucast (byte AND vc_payload_bits K)))"

text \<open>\<open>read_cmd_header_async\<close> repeats the code of the synchronous header; that the two agree is a lemma.\<close>

definition read_cmd_header_async ::
    "demo_commands \<Rightarrow> varint_consts \<Rightarrow> (reader, read_cmd_header_error, cmd_header) rm" where
  "read_cmd_header_async C K =
     bindM (map_errM RchVarint (read_uvarint_async K)) (\<lambda>(cmd_raw, n).
     let body_compressed = (cmd_raw AND dc_is_compressed C = dc_is_compressed C);
         uncompressed = (if body_compressed then cmd_raw AND NOT (dc_is_compressed C) else cmd_raw)
     in bindM (liftO (cmd_try_from C cmd_raw uncompressed)) (\<lambda>cmd.
        bindM (map_errM RchVarint (read_uvarint_async K)) (\<lambda>(tick, tick_n).
        bindM (map_errM RchVarint (read_uvarint_async K)) (\<lambda>(body_size, body_size_n).
        retM \<lparr>ch_cmd = cmd, ch_body_compressed = body_compressed, ch_tick = tick, ch_body_size = body_size,
          ch_size = of_nat (n + tick_n + body_size_n)\<rparr>))))"

lemma read_cmd_header_async_varint: "read_cmd_header_async C K = varint_cmd_header C (read_uvarint_async K)"
  by (simp add: read_cmd_header_async_def varint_cmd_header_def)

end
