(* ===== verification/DemoFile.thy ===== *)
theory DemoFile
  imports DemoStream
begin

text \<open>
  \<open>haste_core/src/demofile.rs\<close> and \<open>haste_core/src/async_demofile.rs\<close>: demos in files.  An asynchronous
  reader delivers the same bytes as a synchronous one; waiting for them is not modelled.

  \<open>varint::read_uvarint32\<close>, \<open>snap\<close> and the protobuf decoders are parameters.  The message
  \<open>CDemoFileInfo\<close> is what its decoder returns.
\<close>

definition DEMO_RECORD_BUFFER_SIZE :: nat where "DEMO_RECORD_BUFFER_SIZE = 2 * 1024 * 1024"
definition DEMO_HEADER_ID_SIZE :: nat where "DEMO_HEADER_ID_SIZE = 8"
definition DEMO_HEADER_ID :: "u8 list" where "DEMO_HEADER_ID = byte_str ''PBDEMS2'' @ [0]"

record demo_header =
  dh_demofilestamp :: "u8 list"
  dh_fileinfo_offset :: i32
  dh_spawngroups_offset :: i32

datatype demo_header_error = DhIo io_error | DhInvalidDemoFileStamp "u8 list"

definition read_i32 :: "(reader, io_error, i32) rm" where
  "read_i32 = bindM (read_exact 4) (\<lambda>buf. retM (from_le_bytes buf))"

definition read_demo_header :: "(reader, demo_header_error, demo_header) rm" where
  "read_demo_header =
     bindM (map_errM DhIo (read_exact DEMO_HEADER_ID_SIZE)) (\<lambda>demofilestamp.
     if demofilestamp \<noteq> DEMO_HEADER_ID then errM (DhInvalidDemoFileStamp demofilestamp) else
     bindM (map_errM DhIo read_i32) (\<lambda>fileinfo_offset.
     bindM (map_errM DhIo read_i32) (\<lambda>spawngroups_offset.
     retM \<lparr>dh_demofilestamp = demofilestamp, dh_fileinfo_offset = fileinfo_offset,
       dh_spawngroups_offset = spawngroups_offset\<rparr>)))"

record 'i demo_file =
  df_rdr :: reader
  df_buf :: "u8 list"
  df_demo_header :: demo_header
  df_file_info :: "'i option"

definition demofile_start_reading :: "reader \<Rightarrow> (demo_header_error, 'i demo_file) outcome" where
  "demofile_start_reading rdr = (case read_demo_header rdr of (r, rdr) \<Rightarrow>
     map_ok (\<lambda>h. \<lparr>df_rdr = rdr, df_buf = replicate DEMO_RECORD_BUFFER_SIZE 0, df_demo_header = h,
       df_file_info = None\<rparr>) r)"

definition on_rdr :: "(reader, 'e, 'a) rm \<Rightarrow> ('i demo_file, 'e, 'a) rm" where
  "on_rdr = zoomM df_rdr (\<lambda>r f. f\<lparr>df_rdr := r\<rparr>)"

subsection \<open>Stream operations\<close>

definition rdr_is_at_eof :: "(reader, io_error, bool) rm" where
  "rdr_is_at_eof =
     bindM rdr_position (\<lambda>pos.
     bindM (rdr_seek (SeekEnd 0)) (\<lambda>len.
     seqM (if pos \<noteq> len then rdr_seek (SeekStart pos) else retM pos)
       (retM (pos = len))))"

definition demofile_is_at_eof :: "('i demo_file, io_error, bool) rm" where
  "demofile_is_at_eof = on_rdr rdr_is_at_eof"

definition demofile_read_cmd_header ::
    "demo_commands \<Rightarrow> (reader, varint_error, u32 \<times> nat) rm \<Rightarrow> ('i demo_file, read_cmd_header_error, cmd_header) rm" where
  "demofile_read_cmd_header C uv = on_rdr (varint_cmd_header C uv)"

text \<open>The body of a command on the reader and the buffer: the body is read into the left part of the buffer
  and decompressed into the right part.  When the read fails, the library leaves the contents of its buffer
  unspecified; the model keeps the old ones, and no operation reads them before it writes them.\<close>

definition read_cmd_body :: "snap \<Rightarrow> cmd_header \<Rightarrow> (reader \<times> u8 list, read_cmd_error, u8 list) rm" where
  "read_cmd_body Z cmd_header = (\<lambda>(rdr, buf).
     let n = unat (ch_body_size cmd_header); right = drop n buf in
     if length buf < n then (Panic AssertFailed, (rdr, buf))
     else case read_exact n rdr of
       (Ok left, rdr) \<Rightarrow>
         if ch_body_compressed cmd_header then
           (case snap_decompress_len Z left of
              None \<Rightarrow> (Err RcDecompress, (rdr, left @ right))
            | Some decompress_len \<Rightarrow> (case snap_decompress Z left right of
                None \<Rightarrow> (Err RcDecompress, (rdr, left @ right))
              | Some right \<Rightarrow> (slice_to right decompress_len, (rdr, left @ right))))
         else (Ok left, (rdr, left @ right))
     | (Err e, rdr) \<Rightarrow> (Err (RcIo e), (rdr, buf))
     | (Panic p, rdr) \<Rightarrow> (Panic p, (rdr, buf))
     | (OutOfFuel, rdr) \<Rightarrow> (OutOfFuel, (rdr, buf)))"

definition demofile_read_cmd :: "snap \<Rightarrow> cmd_header \<Rightarrow> ('i demo_file, read_cmd_error, u8 list) rm" where
  "demofile_read_cmd Z cmd_header =
     zoomM (\<lambda>f. (df_rdr f, df_buf f)) (\<lambda>(rdr, buf) f. f\<lparr>df_rdr := rdr, df_buf := buf\<rparr>) (read_cmd_body Z cmd_header)"

definition rdr_skip :: "cmd_header \<Rightarrow> (reader, io_error, unit) rm" where
  "rdr_skip cmd_header = seqM (rdr_seek (SeekCurrent (int (unat (ch_body_size cmd_header))))) (retM ())"

definition demofile_skip_cmd :: "cmd_header \<Rightarrow> ('i demo_file, io_error, unit) rm" where
  "demofile_skip_cmd cmd_header = on_rdr (rdr_skip cmd_header)"

definition demofile_seek :: "seek_from \<Rightarrow> ('i demo_file, io_error, nat) rm" where
  "demofile_seek from = on_rdr (rdr_seek from)"

definition demofile_stream_position :: "('i demo_file, io_error, nat) rm" where
  "demofile_stream_position = on_rdr rdr_position"

text \<open>\<open>size_of::<DemoHeader>()\<close>\<close>

definition demofile_start_position :: "'i demo_file \<Rightarrow> nat" where
  "demofile_start_position f = 16"

record 'i proto_decoders =
  pr_send_tables :: "u8 list \<Rightarrow> u8 list option option"
  pr_class_info :: "u8 list \<Rightarrow> rstr list option"
  pr_packet :: "u8 list \<Rightarrow> u8 list option option"
  pr_full_packet :: "u8 list \<Rightarrow> cdemo_full_packet option"
  pr_file_info :: "u8 list \<Rightarrow> 'i option"
  pr_playback_ticks :: "'i \<Rightarrow> i32"

definition demofile_decode_cmd_send_tables :: "'i proto_decoders \<Rightarrow> u8 list \<Rightarrow> (decode_cmd_error, u8 list option) outcome" where
  "demofile_decode_cmd_send_tables P data = ok_or DecodeProtobuf (pr_send_tables P data)"

definition demofile_decode_cmd_class_info :: "'i proto_decoders \<Rightarrow> u8 list \<Rightarrow> (decode_cmd_error, rstr list) outcome" where
  "demofile_decode_cmd_class_info P data = ok_or DecodeProtobuf (pr_class_info P data)"

definition demofile_decode_cmd_packet :: "'i proto_decoders \<Rightarrow> u8 list \<Rightarrow> (decode_cmd_error, u8 list option) outcome" where
  "demofile_decode_cmd_packet P data = ok_or DecodeProtobuf (pr_packet P data)"

definition demofile_decode_cmd_full_packet :: "'i proto_decoders \<Rightarrow> u8 list \<Rightarrow> (decode_cmd_error, cdemo_full_packet) outcome" where
  "demofile_decode_cmd_full_packet P data = ok_or DecodeProtobuf (pr_full_packet P data)"

text \<open>\<open>DemoFile\<close> as a seekable demo stream.\<close>

definition demofile_stream ::
    "demo_commands \<Rightarrow> (reader, varint_error, u32 \<times> nat) rm \<Rightarrow> snap \<Rightarrow> 'i proto_decoders \<Rightarrow> 'i demo_file seekable_stream" where
  "demofile_stream C uv Z P = \<lparr>
     ds_is_at_eof = demofile_is_at_eof,
     ds_read_cmd_header = demofile_read_cmd_header C uv,
     ds_read_cmd = demofile_read_cmd Z,
     ds_decode_cmd_send_tables = demofile_decode_cmd_send_tables P,
     ds_decode_cmd_class_info = demofile_decode_cmd_class_info P,
     ds_decode_cmd_packet = demofile_decode_cmd_packet P,
     ds_decode_cmd_full_packet = demofile_decode_cmd_full_packet P,
     ds_skip_cmd = demofile_skip_cmd,
     ds_seek = demofile_seek,
     ds_stream_position = demofile_stream_position,
     ds_start_position = demofile_start_position\<rparr>"

subsection \<open>The file's info\<close>

datatype any_error = AnyIo io_error | AnyCmdHeader read_cmd_header_error | AnyCmd read_cmd_error | AnyDecode
  | AnyNotSet

definition demofile_file_info ::
    "demo_commands \<Rightarrow> (reader, varint_error, u32 \<times> nat) rm \<Rightarrow> snap \<Rightarrow> 'i proto_decoders \<Rightarrow> ('i demo_file, any_error, 'i) rm" where
  "demofile_file_info C uv Z P = (\<lambda>f.
     seqM (if df_file_info f = None then
         bindM (map_errM AnyIo demofile_stream_position) (\<lambda>backup.
         seqM (map_errM AnyIo (demofile_seek (SeekStart (unat (scast (dh_fileinfo_offset (df_demo_header f)) :: u64)))))
           (bindM (map_errM AnyCmdHeader (demofile_read_cmd_header C uv)) (\<lambda>cmd_header.
            bindM (map_errM AnyCmd (demofile_read_cmd Z cmd_header)) (\<lambda>body.
            bindM (liftO (ok_or AnyDecode (pr_file_info P body))) (\<lambda>file_info.
            seqM (\<lambda>f. (Ok (), f\<lparr>df_file_info := Some file_info\<rparr>))
              (seqM (map_errM AnyIo (demofile_seek (SeekStart backup))) (retM ())))))))
       else retM ())
     (\<lambda>f. (ok_or AnyNotSet (df_file_info f), f)) f)"

definition demofile_total_ticks ::
    "demo_commands \<Rightarrow> (reader, varint_error, u32 \<times> nat) rm \<Rightarrow> snap \<Rightarrow> 'i proto_decoders \<Rightarrow> ('i demo_file, any_error, i32) rm" where
  "demofile_total_ticks C uv Z P =
     bindM (demofile_file_info C uv Z P) (\<lambda>file_info. retM (pr_playback_ticks P file_info))"

subsection \<open>Asynchronous demo files\<close>

definition read_demo_header_async :: "(reader, demo_header_error, demo_header) rm" where
  "read_demo_header_async =
     bindM (map_errM DhIo (read_exact DEMO_HEADER_ID_SIZE)) (\<lambda>demofilestamp.
     if demofilestamp \<noteq> DEMO_HEADER_ID then errM (DhInvalidDemoFileStamp demofilestamp) else
     bindM (map_errM DhIo read_i32) (\<lambda>fileinfo_offset.
     bindM (map_errM DhIo read_i32) (\<lambda>spawngroups_offset.
     retM \<lparr>dh_demofilestamp = demofilestamp, dh_fileinfo_offset = fileinfo_offset,
       dh_spawngroups_offset = spawngroups_offset\<rparr>)))"

record async_demo_file =
  adf_rdr :: reader
  adf_buf :: "u8 list"
  adf_demo_header :: demo_header

definition async_demofile_start_reading :: "reader \<Rightarrow> (demo_header_error, async_demo_file) outcome" where
  "async_demofile_start_reading rdr = (case read_demo_header_async rdr of (r, rdr) \<Rightarrow>
     map_ok (\<lambda>h. \<lparr>adf_rdr = rdr, adf_buf = replicate DEMO_RECORD_BUFFER_SIZE 0, adf_demo_header = h\<rparr>) r)"

definition async_demofile_read_cmd_header ::
    "demo_commands \<Rightarrow> varint_consts \<Rightarrow> (async_demo_file, read_cmd_header_error, cmd_header) rm" where
  "async_demofile_read_cmd_header C K =
     zoomM adf_rdr (\<lambda>r f. f\<lparr>adf_rdr := r\<rparr>) (read_cmd_header_async C K)"

text \<open>The body is read by the asynchronous file's own copy of the code.\<close>

definition async_demofile_read_cmd :: "snap \<Rightarrow> cmd_header \<Rightarrow> (async_demo_file, read_cmd_error, u8 list) rm" where
  "async_demofile_read_cmd Z cmd_header = (\<lambda>f.
     let n = unat (ch_body_size cmd_header); right = drop n (adf_buf f) in
     if length (adf_buf f) < n then (Panic AssertFailed, f)
     else case read_exact n (adf_rdr f) of (r, rdr) \<Rightarrow>
       let f = f\<lparr>adf_rdr := rdr\<rparr> in
       case r of
         Ok left \<Rightarrow>
           let f = f\<lparr>adf_buf := left @ right\<rparr> in
           if ch_body_compressed cmd_header then
             (case snap_decompress_len Z left of
                None \<Rightarrow> (Err RcDecompress, f)
              | Some decompress_len \<Rightarrow> (case snap_decompress Z left right of
                  None \<Rightarrow> (Err RcDecompress, f)
                | Some right \<Rightarrow> (slice_to right decompress_len, f\<lparr>adf_buf := left @ right\<rparr>)))
           else (Ok left, f)
       | Err e \<Rightarrow> (Err (RcIo e), f)
       | Panic p \<Rightarrow> (Panic p, f)
       | OutOfFuel \<Rightarrow> (OutOfFuel, f))"

lemma async_demofile_read_cmd_body:
  "async_demofile_read_cmd Z cmd_header =
     zoomM (\<lambda>f. (adf_rdr f, adf_buf f)) (\<lambda>(rdr, buf) f. f\<lparr>adf_rdr := rdr, adf_buf := buf\<rparr>) (read_cmd_body Z cmd_header)"
  by (rule ext) (simp add: async_demofile_read_cmd_def read_cmd_body_def zoomM_def Let_def
    split: prod.split outcome.split option.split)

definition async_demofile_start_position :: "async_demo_file \<Rightarrow> nat" where
  "async_demofile_start_position f = 16"

definition async_demofile_stream ::
    "demo_commands \<Rightarrow> varint_consts \<Rightarrow> snap \<Rightarrow> 'i proto_decoders \<Rightarrow> async_demo_file async_demo_stream" where
  "async_demofile_stream C K Z P = \<lparr>
     as_read_cmd_header = async_demofile_read_cmd_header C K,
     as_read_cmd = async_demofile_read_cmd Z,
     as_decode_cmd_send_tables = (\<lambda>data. ok_or DecodeProtobuf (pr_send_tables P data)),
     as_decode_cmd_class_info = (\<lambda>data. ok_or DecodeProtobuf (pr_class_info P data)),
     as_decode_cmd_packet = (\<lambda>data. ok_or DecodeProtobuf (pr_packet P data)),
     as_decode_cmd_full_packet = (\<lambda>data. ok_or DecodeProtobuf (pr_full_packet P data)),
     as_start_position = async_demofile_start_position\<rparr>"

end
