(* ===== verification/BroadcastStream.thy ===== *)
theory BroadcastStream
  imports DemoFile
begin

text \<open>
  The broadcast format, whose command headers have ten bytes: \<open>haste_broadcast/src/demostream.rs\<close>,
  \<open>haste_broadcast/src/broadcastfile.rs\<close>, \<open>haste_core/src/async_broadcast_stream.rs\<close> and
  \<open>haste_core/src/packet_channel_broadcast_stream.rs\<close>.

  A \<open>PacketSource\<close> is the list of the packets it is going to deliver; after the last one it delivers
  \<open>None\<close>.
\<close>

subsection \<open>Headers and bodies\<close>

definition broadcast_read_cmd_header :: "demo_commands \<Rightarrow> (reader, read_cmd_header_error, cmd_header) rm" where
  "broadcast_read_cmd_header C =
     bindM (map_errM RchIo (read_exact 1)) (\<lambda>buf. let cmd = ucast (hd buf) in
     bindM (liftO (cmd_try_from C cmd cmd)) (\<lambda>cmd.
     bindM (map_errM RchIo (read_exact 4)) (\<lambda>tick.
     bindM (map_errM RchIo (read_exact 1)) (\<lambda>unknown.
     bindM (map_errM RchIo (read_exact 4)) (\<lambda>body_size.
     retM \<lparr>ch_cmd = cmd, ch_body_compressed = False, ch_tick = from_le_bytes tick,
       ch_body_size = from_le_bytes body_size, ch_size = of_nat (1 + 4 + 4 + 1)\<rparr>)))))"

text \<open>\<open>data[4..]\<close>\<close>

definition broadcast_decode_cmd_send_tables :: "u8 list \<Rightarrow> ('e, u8 list option) outcome" where
  "broadcast_decode_cmd_send_tables data =
     (if 4 \<le> length data then Ok (Some (drop 4 data)) else Panic IndexOutOfBounds)"

definition broadcast_decode_cmd_class_info :: "'i proto_decoders \<Rightarrow> u8 list \<Rightarrow> (decode_cmd_error, rstr list) outcome" where
  "broadcast_decode_cmd_class_info P data = ok_or DecodeProtobuf (pr_class_info P data)"

definition broadcast_decode_cmd_packet :: "u8 list \<Rightarrow> ('e, u8 list option) outcome" where
  "broadcast_decode_cmd_packet data = Ok (Some data)"

definition broadcast_decode_cmd_full_packet :: "u8 list \<Rightarrow> (decode_cmd_error, cdemo_full_packet) outcome" where
  "broadcast_decode_cmd_full_packet data = Panic UnreachableCode"

subsection \<open>Recorded broadcasts\<close>

record broadcast_file =
  bf_rdr :: reader
  bf_buf :: "u8 list"
  bf_total_ticks :: "i32 option"

definition broadcastfile_start_reading :: "reader \<Rightarrow> broadcast_file" where
  "broadcastfile_start_reading rdr =
     \<lparr>bf_rdr = rdr, bf_buf = replicate DEMO_RECORD_BUFFER_SIZE 0, bf_total_ticks = None\<rparr>"

definition on_bf_rdr :: "(reader, 'e, 'a) rm \<Rightarrow> (broadcast_file, 'e, 'a) rm" where
  "on_bf_rdr = zoomM bf_rdr (\<lambda>r f. f\<lparr>bf_rdr := r\<rparr>)"

definition broadcastfile_is_at_eof :: "(broadcast_file, io_error, bool) rm" where
  "broadcastfile_is_at_eof = on_bf_rdr rdr_is_at_eof"

definition broadcastfile_read_cmd_header :: "demo_commands \<Rightarrow> (broadcast_file, read_cmd_header_error, cmd_header) rm" where
  "broadcastfile_read_cmd_header C = on_bf_rdr (broadcast_read_cmd_header C)"

definition broadcastfile_read_cmd :: "cmd_header \<Rightarrow> (broadcast_file, read_cmd_error, u8 list) rm" where
  "broadcastfile_read_cmd cmd_header =
     seqM (if ch_body_compressed cmd_header then liftO (Panic AssertFailed) else retM ())
     (bindM (\<lambda>f. (slice_to (bf_buf f) (unat (ch_body_size cmd_header)), f)) (\<lambda>_.
      bindM (map_errM RcIo (on_bf_rdr (read_exact (unat (ch_body_size cmd_header))))) (\<lambda>data f.
      (Ok data, f\<lparr>bf_buf := data @ drop (unat (ch_body_size cmd_header)) (bf_buf f)\<rparr>))))"

definition broadcastfile_skip_cmd :: "cmd_header \<Rightarrow> (broadcast_file, io_error, unit) rm" where
  "broadcastfile_skip_cmd cmd_header = on_bf_rdr (rdr_skip cmd_header)"

definition broadcastfile_seek :: "seek_from \<Rightarrow> (broadcast_file, io_error, nat) rm" where
  "broadcastfile_seek from = on_bf_rdr (rdr_seek from)"

definition broadcastfile_stream_position :: "(broadcast_file, io_error, nat) rm" where
  "broadcastfile_stream_position = on_bf_rdr rdr_position"

definition broadcastfile_start_position :: "broadcast_file \<Rightarrow> nat" where
  "broadcastfile_start_position f = 0"

definition broadcastfile_stream :: "demo_commands \<Rightarrow> 'i proto_decoders \<Rightarrow> broadcast_file seekable_stream" where
  "broadcastfile_stream C P = \<lparr>
     ds_is_at_eof = broadcastfile_is_at_eof,
     ds_read_cmd_header = broadcastfile_read_cmd_header C,
     ds_read_cmd = broadcastfile_read_cmd,
     ds_decode_cmd_send_tables = broadcast_decode_cmd_send_tables,
     ds_decode_cmd_class_info = broadcast_decode_cmd_class_info P,
     ds_decode_cmd_packet = broadcast_decode_cmd_packet,
     ds_decode_cmd_full_packet = broadcast_decode_cmd_full_packet,
     ds_skip_cmd = broadcastfile_skip_cmd,
     ds_seek = broadcastfile_seek,
     ds_stream_position = broadcastfile_stream_position,
     ds_start_position = broadcastfile_start_position\<rparr>"

fun scan_ticks_loop :: "('d, 'x) seekable_stream_scheme \<Rightarrow> nat \<Rightarrow> nat \<Rightarrow> i32 \<Rightarrow> ('d, any_error, i32) rm" where
  "scan_ticks_loop D 0 backup last_tick = liftO OutOfFuel"
| "scan_ticks_loop D (Suc fuel) backup last_tick = (\<lambda>d. case ds_read_cmd_header D d of
     (Ok cmd_header, d) \<Rightarrow>
       seqM (map_errM AnyIo (ds_skip_cmd D cmd_header)) (scan_ticks_loop D fuel backup (ch_tick cmd_header)) d
   | (Err err, d) \<Rightarrow>
       bindM (map_errM AnyIo (at_eof_or_default D)) (\<lambda>eof.
         if eof then seqM (map_errM AnyIo (ds_seek D (SeekStart backup))) (retM last_tick)
         else errM (AnyCmdHeader err)) d
   | (Panic p, d) \<Rightarrow> (Panic p, d)
   | (OutOfFuel, d) \<Rightarrow> (OutOfFuel, d))"

definition scan_for_last_tick :: "('d, 'x) seekable_stream_scheme \<Rightarrow> nat \<Rightarrow> ('d, any_error, i32) rm" where
  "scan_for_last_tick D fuel =
     bindM (map_errM AnyIo (ds_stream_position D)) (\<lambda>backup. scan_ticks_loop D fuel backup (- 1))"

definition broadcastfile_total_ticks :: "demo_commands \<Rightarrow> 'i proto_decoders \<Rightarrow> nat \<Rightarrow> (broadcast_file, any_error, i32) rm" where
  "broadcastfile_total_ticks C P fuel = (\<lambda>f. case bf_total_ticks f of
     Some t \<Rightarrow> (Ok t, f)
   | None \<Rightarrow> bindM (scan_for_last_tick (broadcastfile_stream C P) fuel)
       (\<lambda>t f. (Ok t, f\<lparr>bf_total_ticks := Some t\<rparr>)) f)"

subsection \<open>Asynchronous broadcasts\<close>

record async_broadcast_stream =
  ab_reader :: reader
  ab_buffer :: "u8 list"

definition async_broadcast_new :: "reader \<Rightarrow> async_broadcast_stream" where
  "async_broadcast_new reader = \<lparr>ab_reader = reader, ab_buffer = []\<rparr>"

text \<open>The ten bytes of a header.\<close>

definition header_of_bytes :: "demo_commands \<Rightarrow> u8 list \<Rightarrow> (read_cmd_header_error, cmd_header) outcome" where
  "header_of_bytes C buf =
     (let cmd_byte = ucast (buf ! 0) in
      bindO (cmd_try_from C cmd_byte cmd_byte) (\<lambda>cmd.
      Ok \<lparr>ch_cmd = cmd, ch_body_compressed = False, ch_tick = from_le_bytes [buf ! 1, buf ! 2, buf ! 3, buf ! 4],
        ch_body_size = from_le_bytes [buf ! 6, buf ! 7, buf ! 8, buf ! 9], ch_size = 10\<rparr>))"

definition async_broadcast_read_cmd_header ::
    "demo_commands \<Rightarrow> (async_broadcast_stream, read_cmd_header_error, cmd_header) rm" where
  "async_broadcast_read_cmd_header C =
     bindM (map_errM RchIo (zoomM ab_reader (\<lambda>r s. s\<lparr>ab_reader := r\<rparr>) (read_exact 10))) (\<lambda>buf.
     liftO (header_of_bytes C buf))"

definition async_broadcast_read_cmd :: "cmd_header \<Rightarrow> (async_broadcast_stream, read_cmd_error, u8 list) rm" where
  "async_broadcast_read_cmd cmd_header =
     bindM (map_errM RcIo (zoomM ab_reader (\<lambda>r s. s\<lparr>ab_reader := r\<rparr>) (read_exact (unat (ch_body_size cmd_header)))))
       (\<lambda>data s. (Ok data, s\<lparr>ab_buffer := data\<rparr>))"

definition async_broadcast_decode_cmd_full_packet :: "u8 list \<Rightarrow> ('e, cdemo_full_packet) outcome" where
  "async_broadcast_decode_cmd_full_packet data = Ok \<lparr>cf_string_table = None, cf_packet = Some (Some data)\<rparr>"

subsection \<open>Broadcast packets from a channel\<close>

definition BROADCAST_CMD_HEADER_SIZE :: nat where "BROADCAST_CMD_HEADER_SIZE = 10"

record packet_broadcast =
  pb_source :: "u8 list list"
  pb_current :: "u8 list"
  pb_offset :: nat

definition packet_broadcast_new :: "u8 list list \<Rightarrow> packet_broadcast" where
  "packet_broadcast_new source = \<lparr>pb_source = source, pb_current = [], pb_offset = 0\<rparr>"

definition packet_broadcast_with_initial :: "u8 list list \<Rightarrow> u8 list \<Rightarrow> packet_broadcast" where
  "packet_broadcast_with_initial source initial = \<lparr>pb_source = source, pb_current = initial, pb_offset = 0\<rparr>"

definition pb_ensure_data :: "(packet_broadcast, read_cmd_header_error, unit) rm" where
  "pb_ensure_data = (\<lambda>s.
     if length (pb_current s) \<le> pb_offset s then
       (case pb_source s of
          bytes # rest \<Rightarrow> (Ok (), s\<lparr>pb_source := rest, pb_current := bytes, pb_offset := 0\<rparr>)
        | [] \<Rightarrow> (Err (RchIo UnexpectedEof), s))
     else (Ok (), s))"

definition pb_has_bytes :: "nat \<Rightarrow> packet_broadcast \<Rightarrow> bool" where
  "pb_has_bytes n s \<longleftrightarrow> pb_offset s + n \<le> length (pb_current s)"

definition pb_read_bytes :: "nat \<Rightarrow> (packet_broadcast, 'e, u8 list) rm" where
  "pb_read_bytes n = (\<lambda>s.
     case slice_range (pb_current s) (pb_offset s) (pb_offset s + n) of
       Ok bytes \<Rightarrow> (Ok bytes, s\<lparr>pb_offset := pb_offset s + n\<rparr>)
     | r \<Rightarrow> (r, s))"

definition packet_broadcast_read_cmd_header ::
    "demo_commands \<Rightarrow> (packet_broadcast, read_cmd_header_error, cmd_header) rm" where
  "packet_broadcast_read_cmd_header C =
     seqM pb_ensure_data (\<lambda>s.
       if \<not> pb_has_bytes BROADCAST_CMD_HEADER_SIZE s then (Err (RchIo UnexpectedEof), s)
       else bindM (pb_read_bytes BROADCAST_CMD_HEADER_SIZE) (\<lambda>header_bytes.
         liftO (header_of_bytes C header_bytes)) s)"

definition packet_broadcast_read_cmd :: "cmd_header \<Rightarrow> (packet_broadcast, read_cmd_error, u8 list) rm" where
  "packet_broadcast_read_cmd cmd_header = (\<lambda>s.
     if pb_has_bytes (unat (ch_body_size cmd_header)) s
     then pb_read_bytes (unat (ch_body_size cmd_header)) s
     else (Err (RcIo UnexpectedEof), s))"

subsection \<open>Both as streams\<close>

definition async_broadcast_ops :: "demo_commands \<Rightarrow> 'i proto_decoders \<Rightarrow> async_broadcast_stream async_demo_stream" where
  "async_broadcast_ops C P = \<lparr>
     as_read_cmd_header = async_broadcast_read_cmd_header C,
     as_read_cmd = async_broadcast_read_cmd,
     as_decode_cmd_send_tables =
       (\<lambda>data. if 4 \<le> length data then Ok (Some (drop 4 data)) else Panic IndexOutOfBounds),
     as_decode_cmd_class_info = (\<lambda>data. ok_or DecodeProtobuf (pr_class_info P data)),
     as_decode_cmd_packet = (\<lambda>data. Ok (Some data)),
     as_decode_cmd_full_packet = async_broadcast_decode_cmd_full_packet,
     as_start_position = (\<lambda>_. 0)\<rparr>"

definition packet_broadcast_ops :: "demo_commands \<Rightarrow> 'i proto_decoders \<Rightarrow> packet_broadcast async_demo_stream" where
  "packet_broadcast_ops C P = \<lparr>
     as_read_cmd_header = packet_broadcast_read_cmd_header C,
     as_read_cmd = packet_broadcast_read_cmd,
     as_decode_cmd_send_tables =
       (\<lambda>data. if 4 \<le> length data then Ok (Some (drop 4 data)) else Panic IndexOutOfBounds),
     as_decode_cmd_class_info = (\<lambda>data. ok_or DecodeProtobuf (pr_class_info P data)),
     as_decode_cmd_packet = (\<lambda>data. Ok (Some data)),
     as_decode_cmd_full_packet =
       (\<lambda>data. Ok \<lparr>cf_string_table = None, cf_packet = Some (Some data)\<rparr>),
     as_start_position = (\<lambda>_. 0)\<rparr>"

end
