(* ===== verification/PacketChannel.thy ===== *)
theory PacketChannel
  imports BroadcastStream
begin

text \<open>
  \<open>haste_core/src/packet_channel_demo_stream.rs\<close>: a demo file that arrives in packets of any size.

  \<open>read_bytes\<close> and the slices are bounded by what \<open>ensure_bytes\<close> has made available; the offset never
  exceeds the length of the current buffer.
\<close>

record packet_demo =
  pd_source :: "u8 list list"
  pd_current :: "u8 list"
  pd_offset :: nat
  pd_decompress_buf :: "u8 list"
  pd_body_buf :: "u8 list"
  pd_header_skipped :: bool

definition packet_demo_new :: "u8 list list \<Rightarrow> packet_demo" where
  "packet_demo_new source = \<lparr>pd_source = source, pd_current = [], pd_offset = 0, pd_decompress_buf = [],
     pd_body_buf = [], pd_header_skipped = False\<rparr>"

definition pd_remaining :: "packet_demo \<Rightarrow> nat" where
  "pd_remaining s = length (pd_current s) - pd_offset s"

text \<open>A packet that arrives: the rest of the buffer is moved to the start and the packet appended.\<close>

definition pd_append :: "u8 list \<Rightarrow> packet_demo \<Rightarrow> packet_demo" where
  "pd_append bytes s =
     (if pd_offset s > 0 then s\<lparr>pd_current := drop (pd_offset s) (pd_current s) @ bytes, pd_offset := 0\<rparr>
      else if pd_current s = [] then s\<lparr>pd_current := bytes\<rparr>
      else s\<lparr>pd_current := pd_current s @ bytes\<rparr>)"

fun pd_ensure_from :: "u8 list list \<Rightarrow> nat \<Rightarrow> (packet_demo, read_cmd_header_error, unit) rm" where
  "pd_ensure_from source n = (\<lambda>s.
     if n \<le> pd_remaining s then (Ok (), s\<lparr>pd_source := source\<rparr>)
     else case source of
       [] \<Rightarrow> (Err (RchIo UnexpectedEof), s\<lparr>pd_source := []\<rparr>)
     | bytes # rest \<Rightarrow> pd_ensure_from rest n (pd_append bytes s))"

declare pd_ensure_from.simps [simp del]

definition ensure_bytes :: "nat \<Rightarrow> (packet_demo, read_cmd_header_error, unit) rm" where
  "ensure_bytes n = (\<lambda>s. pd_ensure_from (pd_source s) n s)"

definition pd_read_bytes :: "nat \<Rightarrow> (packet_demo, 'e, u8 list) rm" where
  "pd_read_bytes n = (\<lambda>s.
     case slice_range (pd_current s) (pd_offset s) (pd_offset s + n) of
       Ok bytes \<Rightarrow> (Ok bytes, s\<lparr>pd_offset := pd_offset s + n\<rparr>)
     | r \<Rightarrow> (r, s))"

definition pd_peek_bytes :: "nat \<Rightarrow> packet_demo \<Rightarrow> ('e, u8 list) outcome" where
  "pd_peek_bytes n s = slice_range (pd_current s) (pd_offset s) (pd_offset s + n)"

text \<open>The rounds of \<open>read_varint\<close>: \<open>shift\<close> is 0, 7, up to 28.\<close>

function read_varint_loop :: "nat \<Rightarrow> u32 \<Rightarrow> nat \<Rightarrow> (packet_demo, read_cmd_header_error, u32 \<times> nat) rm" where
  "read_varint_loop shift v bytes_read = (\<lambda>s.
     if pd_remaining s = 0 then (Err (RchIo UnexpectedEof), s)
     else bindM (pd_read_bytes 1) (\<lambda>buf.
       let byte = hd buf;
           v = v OR push_bit shift (ucast (byte AND 0x7F))
       in if byte AND 0x80 = 0 then retM (v, bytes_read + 1)
          else if shift + 7 \<ge> 32 then errM (RchIo InvalidData)
          else read_varint_loop (shift + 7) v (bytes_read + 1)) s)"
  by pat_completeness auto

termination
  by (relation "measure (\<lambda>(shift, v, bytes_read). 32 - shift)") auto

declare read_varint_loop.simps [simp del]

definition read_varint :: "(packet_demo, read_cmd_header_error, u32 \<times> nat) rm" where
  "read_varint = read_varint_loop 0 0 0"

definition skip_header_if_needed :: "(packet_demo, read_cmd_header_error, unit) rm" where
  "skip_header_if_needed = (\<lambda>s.
     if \<not> pd_header_skipped s then
       seqM (ensure_bytes 16) (\<lambda>s. (Ok (), s\<lparr>pd_offset := pd_offset s + 16, pd_header_skipped := True\<rparr>)) s
     else (Ok (), s))"

definition packet_demo_read_cmd_header ::
    "demo_commands \<Rightarrow> (packet_demo, read_cmd_header_error, cmd_header) rm" where
  "packet_demo_read_cmd_header C =
     seqM skip_header_if_needed
     (seqM (ensure_bytes 15)
     (bindM (\<lambda>s. (Ok (pd_offset s), s)) (\<lambda>start_offset.
      bindM read_varint (\<lambda>(cmd_raw, _).
      let body_compressed = (cmd_raw AND dc_is_compressed C = dc_is_compressed C);
          cmd_value = (if body_compressed then cmd_raw AND NOT (dc_is_compressed C) else cmd_raw)
      in bindM (liftO (cmd_try_from C cmd_raw cmd_value)) (\<lambda>cmd.
         bindM read_varint (\<lambda>(tick, _).
         bindM read_varint (\<lambda>(body_size, _) s.
         (Ok \<lparr>ch_cmd = cmd, ch_body_compressed = body_compressed, ch_tick = tick, ch_body_size = body_size,
            ch_size = of_nat (pd_offset s - start_offset)\<rparr>, s))))))))"

text \<open>\<open>Vec::resize\<close> with zeros.\<close>

definition vec_resize :: "u8 list \<Rightarrow> nat \<Rightarrow> u8 list" where
  "vec_resize xs n = take n xs @ replicate (n - length xs) 0"

definition packet_demo_decompress :: "snap \<Rightarrow> (packet_demo, read_cmd_error, unit) rm" where
  "packet_demo_decompress Z = (\<lambda>s. case snap_decompress_len Z (pd_body_buf s) of
     None \<Rightarrow> (Err (RcIo InvalidData), s)
   | Some uncompressed_size \<Rightarrow>
       let s = s\<lparr>pd_decompress_buf := vec_resize (pd_decompress_buf s) uncompressed_size\<rparr>
       in (case snap_decompress Z (pd_body_buf s) (pd_decompress_buf s) of
          None \<Rightarrow> (Err (RcIo InvalidData), s)
        | Some out \<Rightarrow> (Ok (), s\<lparr>pd_body_buf := out, pd_decompress_buf := pd_body_buf s\<rparr>)))"

definition packet_demo_read_cmd :: "snap \<Rightarrow> cmd_header \<Rightarrow> (packet_demo, read_cmd_error, u8 list) rm" where
  "packet_demo_read_cmd Z cmd_header =
     (let n = unat (ch_body_size cmd_header) in
      seqM (map_errM (\<lambda>e. case e of RchIo io \<Rightarrow> RcIo io | _ \<Rightarrow> RcIo OtherIo) (ensure_bytes n))
      (bindM (pd_read_bytes n) (\<lambda>data.
       seqM (\<lambda>s. (Ok (), s\<lparr>pd_body_buf := data\<rparr>))
       (seqM (if ch_body_compressed cmd_header then packet_demo_decompress Z else retM ())
        (\<lambda>s. (Ok (pd_body_buf s), s))))))"

definition packet_demo_ops :: "demo_commands \<Rightarrow> snap \<Rightarrow> 'i proto_decoders \<Rightarrow> packet_demo async_demo_stream" where
  "packet_demo_ops C Z P = \<lparr>
     as_read_cmd_header = packet_demo_read_cmd_header C,
     as_read_cmd = packet_demo_read_cmd Z,
     as_decode_cmd_send_tables = (\<lambda>data. ok_or DecodeProtobuf (pr_send_tables P data)),
     as_decode_cmd_class_info = (\<lambda>data. ok_or DecodeProtobuf (pr_class_info P data)),
     as_decode_cmd_packet = (\<lambda>data. ok_or DecodeProtobuf (pr_packet P data)),
     as_decode_cmd_full_packet = (\<lambda>data. ok_or DecodeProtobuf (pr_full_packet P data)),
     as_start_position = (\<lambda>_. 16)\<rparr>"

end
