(* ===== verification/Parser.thy ===== *)
theory Parser
  imports Entities DemoFile
begin

text \<open>
  \<open>haste_core/src/parser.rs\<close>: the parser.  It reads commands from a demo stream, keeps the demo's state in
  its context and calls the visitor.

  The demo stream is the record of \<open>DemoStream\<close>, the visitor a record of callbacks on a state of its own.
  \<open>env\<close> gathers what is not under \<open>src/\<close>: the external readers and decoders, the generated message types
  with the numbers of their commands, the iteration order of hash maps and the logarithm on \<open>f32\<close>.
  The fields of a message hold what its accessors return.

  A run of commands, and the messages of a packet, are loops on a stream, so they take fuel; a handler of
  the run is a closure, so it carries a state \<open>'h\<close>.
\<close>

definition DEFAULT_FULL_PACKET_INTERVAL :: i32 where "DEFAULT_FULL_PACKET_INTERVAL = 1800"
definition DEFAULT_TICK_INTERVAL :: f32 where
  "DEFAULT_TICK_INTERVAL = fl_div binary32 (fl_of_int binary32 1) (fl_of_int binary32 30)"

subsection \<open>The context\<close>

record parser_ctx =
  cx_string_tables :: string_tables
  cx_cells :: cell_store
  cx_instance_baseline :: instance_baseline
  cx_serializers :: "serializer_map option"
  cx_entity_classes :: "entity_classes option"
  cx_entities :: entity_container
  cx_tick_interval :: f32
  cx_full_packet_interval :: i32
  cx_tick :: i32
  cx_prev_tick :: i32

definition context_new :: parser_ctx where
  "context_new = \<lparr>cx_string_tables = [], cx_cells = [], cx_instance_baseline = [], cx_serializers = None,
     cx_entity_classes = None, cx_entities = entity_container_new, cx_tick_interval = f_zero,
     cx_full_packet_interval = 0, cx_tick = - 1, cx_prev_tick = - 1\<rparr>"

definition ctx_string_tables :: "parser_ctx \<Rightarrow> string_tables option" where
  "ctx_string_tables ctx = (if string_tables_is_empty (cx_string_tables ctx) then None else Some (cx_string_tables ctx))"

definition ctx_entities :: "parser_ctx \<Rightarrow> entity_container option" where
  "ctx_entities ctx = (if entities_is_empty (cx_entities ctx) then None else Some (cx_entities ctx))"

record ('v, 'e) visitor =
  vi_should_track_entity :: "'v \<Rightarrow> u64 \<Rightarrow> bool"
  vi_set_collecting :: "bool \<Rightarrow> 'v \<Rightarrow> 'v"
  vi_on_entity :: "parser_ctx \<Rightarrow> delta_header \<Rightarrow> entity \<Rightarrow> ('v, 'e, unit) rm"
  vi_on_cmd :: "parser_ctx \<Rightarrow> cmd_header \<Rightarrow> u8 list \<Rightarrow> ('v, 'e, unit) rm"
  vi_on_packet :: "parser_ctx \<Rightarrow> u32 \<Rightarrow> u8 list \<Rightarrow> ('v, 'e, unit) rm"
  vi_on_tick_end :: "parser_ctx \<Rightarrow> ('v, 'e, unit) rm"

text \<open>The methods that the trait provides do nothing, in its variant for asynchronous parsers too.\<close>

definition visitor_default :: "('v, 'e) visitor" where
  "visitor_default = \<lparr>vi_should_track_entity = (\<lambda>_ _. True), vi_set_collecting = (\<lambda>_ v. v),
     vi_on_entity = (\<lambda>_ _ _. retM ()), vi_on_cmd = (\<lambda>_ _ _. retM ()), vi_on_packet = (\<lambda>_ _ _. retM ()),
     vi_on_tick_end = (\<lambda>_. retM ())\<rparr>"

subsection \<open>What is not under \<open>src/\<close>\<close>

record msg_create_string_table =
  mc_name :: rstr
  mc_user_data_fixed_size :: bool
  mc_user_data_size :: i32
  mc_user_data_size_bits :: i32
  mc_flags :: i32
  mc_using_varint_bitcounts :: bool
  mc_data_compressed :: bool
  mc_string_data :: "u8 list"
  mc_num_entries :: i32

record msg_update_string_table =
  mu_table_id :: i32
  mu_string_data :: "u8 list"
  mu_num_changed_entries :: i32

record msg_packet_entities =
  mp_entity_data :: "u8 list"
  mp_updated_entries :: i32

record ('s, 'c) env =
  e_bits :: "'s bitbuf"
  e_snap :: snap
  e_uvarint64 :: "u8 list \<Rightarrow> (u64 \<times> nat \<times> u8 list) option"
  e_flattened :: "u8 list \<Rightarrow> flattened_msg option"
  e_charsor :: "'c charsor"
  e_from_utf8 :: "u8 list \<Rightarrow> rstr option"
  e_enum :: "(i32 \<rightharpoonup> string_table_item) \<Rightarrow> (i32 \<times> string_table_item) list"
  e_log2 :: "f32 \<Rightarrow> f32"
  e_cmds :: demo_commands
  e_svc_create_string_table :: u32
  e_svc_update_string_table :: u32
  e_svc_packet_entities :: u32
  e_svc_server_info :: u32
  e_decode_create_string_table :: "u8 list \<Rightarrow> msg_create_string_table option"
  e_decode_update_string_table :: "u8 list \<Rightarrow> msg_update_string_table option"
  e_decode_packet_entities :: "u8 list \<Rightarrow> msg_packet_entities option"
  e_decode_server_info :: "u8 list \<Rightarrow> f32 option option"

subsection \<open>The parser\<close>

datatype 'e parser_error =
    PeCmdHeader read_cmd_header_error | PeCmd read_cmd_error | PeDecodeCmd decode_cmd_error | PeIo io_error
  | PeDecode | PeSnap | PeBit bit_error | PeStringTable string_table_error | PeParseInt parse_int_error
  | PeEntity entity_parse_error | PeSerializers flattened_serializers_error | PeVisitor 'e
  | PeStringTableNotFound | PeEntityClassesNotAvailable | PeSerializersNotAvailable | PeEntityNotFound

record ('d, 'v) parser =
  ps_demo_stream :: 'd
  ps_buf :: "u8 list"
  ps_visitor :: 'v
  ps_ctx :: parser_ctx
  ps_field_decode_ctx :: field_decode_context
  ps_skip_entity_packets :: bool

type_synonym ('d, 'v, 'e, 'a) parser_rm = "(('d, 'v) parser, 'e parser_error, 'a) rm"

definition parser_from_stream :: "'d \<Rightarrow> 'v \<Rightarrow> ('d, 'v) parser" where
  "parser_from_stream demo_stream v = \<lparr>ps_demo_stream = demo_stream,
     ps_buf = replicate DEMO_RECORD_BUFFER_SIZE 0, ps_visitor = v, ps_ctx = context_new,
     ps_field_decode_ctx = field_decode_context_default, ps_skip_entity_packets = False\<rparr>"

text \<open>Calls on the parts of the parser.\<close>

definition on_stream :: "('x \<Rightarrow> 'e parser_error) \<Rightarrow> ('d, 'x, 'a) rm \<Rightarrow> ('d, 'v, 'e, 'a) parser_rm" where
  "on_stream f m = map_errM f (zoomM ps_demo_stream (\<lambda>d p. p\<lparr>ps_demo_stream := d\<rparr>) m)"

definition visit :: "(parser_ctx \<Rightarrow> ('v, 'e, 'a) rm) \<Rightarrow> ('d, 'v, 'e, 'a) parser_rm" where
  "visit m = (\<lambda>p. map_errM PeVisitor (zoomM ps_visitor (\<lambda>v p. p\<lparr>ps_visitor := v\<rparr>) (m (ps_ctx p))) p)"

definition get_ctx :: "(parser_ctx \<Rightarrow> 'a) \<Rightarrow> ('d, 'v, 'e, 'a) parser_rm" where
  "get_ctx f = (\<lambda>p. (Ok (f (ps_ctx p)), p))"

definition change_ctx :: "(parser_ctx \<Rightarrow> parser_ctx) \<Rightarrow> ('d, 'v, 'e, unit) parser_rm" where
  "change_ctx f = (\<lambda>p. (Ok (), p\<lparr>ps_ctx := f (ps_ctx p)\<rparr>))"

subsection \<open>String tables\<close>

definition update_baseline :: "('s, 'c) env \<Rightarrow> string_table \<Rightarrow> entity_classes \<Rightarrow> ('d, 'v, 'e, unit) parser_rm" where
  "update_baseline E table entity_classes = map_errM PeParseInt
     (zoomM (\<lambda>p. cx_instance_baseline (ps_ctx p))
        (\<lambda>b p. p\<lparr>ps_ctx := (ps_ctx p)\<lparr>cx_instance_baseline := b\<rparr>\<rparr>)
        (instance_baseline_update (e_from_utf8 E) (e_enum E) table (ec_classes entity_classes)))"

text \<open>What follows the change of a table: if it is the table of the baselines and the classes are known, the
  baselines are updated.\<close>

definition table_changed :: "('s, 'c) env \<Rightarrow> nat \<Rightarrow> ('d, 'v, 'e, unit) parser_rm" where
  "table_changed E i =
     bindM (get_ctx (\<lambda>ctx. (cx_string_tables ctx ! i, cx_entity_classes ctx))) (\<lambda>(table, classes).
     case classes of
       Some entity_classes \<Rightarrow>
         if st_name table = INSTANCE_BASELINE_TABLE_NAME then update_baseline E table entity_classes else retM ()
     | None \<Rightarrow> retM ())"

text \<open>\<open>string_table.parse_update(&mut br, n)?; br.is_overflowed()?\<close> on the table at position \<open>i\<close>.\<close>

definition update_table :: "('s, 'c) env \<Rightarrow> nat \<Rightarrow> u8 list \<Rightarrow> i32 \<Rightarrow> ('d, 'v, 'e, unit) parser_rm" where
  "update_table E i string_data n = (\<lambda>p.
     let ctx = ps_ctx p in
     case parse_update (e_bits E) (e_snap E) n
         ((cx_string_tables ctx ! i, cx_cells ctx), bit_reader_new (e_bits E) string_data) of
       (r, ((t, h), br)) \<Rightarrow>
         (bindO (map_err PeStringTable r) (\<lambda>_. map_err PeBit (fst (is_overflowed (e_bits E) br))),
          p\<lparr>ps_ctx := ctx\<lparr>cx_string_tables := (cx_string_tables ctx)[i := t], cx_cells := h\<rparr>\<rparr>))"

definition created_string_data :: "('s, 'c) env \<Rightarrow> msg_create_string_table \<Rightarrow> ('d, 'v, 'e, u8 list) parser_rm" where
  "created_string_data E msg = (\<lambda>p.
     if mc_data_compressed msg then
       (case snap_decompress_len (e_snap E) (mc_string_data msg) of
          None \<Rightarrow> (Err PeSnap, p)
        | Some decompress_len \<Rightarrow> (case snap_decompress (e_snap E) (mc_string_data msg) (ps_buf p) of
            None \<Rightarrow> (Err PeSnap, p)
          | Some buf \<Rightarrow> (slice_to buf decompress_len, p\<lparr>ps_buf := buf\<rparr>)))
     else (Ok (mc_string_data msg), p))"

definition handle_svc_create_string_table ::
    "('s, 'c) env \<Rightarrow> msg_create_string_table \<Rightarrow> ('d, 'v, 'e, unit) parser_rm" where
  "handle_svc_create_string_table E msg =
     bindM (get_ctx (\<lambda>ctx. length (cx_string_tables ctx))) (\<lambda>i.
     seqM (change_ctx (\<lambda>ctx. ctx\<lparr>cx_string_tables := create_string_table (mc_name msg)
       (mc_user_data_fixed_size msg) (mc_user_data_size msg) (mc_user_data_size_bits msg) (mc_flags msg)
       (mc_using_varint_bitcounts msg) (cx_string_tables ctx)\<rparr>))
     (bindM (created_string_data E msg) (\<lambda>string_data.
      seqM (update_table E i string_data (mc_num_entries msg))
      (table_changed E i))))"

definition handle_svc_update_string_table ::
    "('s, 'c) env \<Rightarrow> msg_update_string_table \<Rightarrow> ('d, 'v, 'e, unit) parser_rm" where
  "handle_svc_update_string_table E msg =
     (let table_id = as_usize (mu_table_id msg) in
      bindM (get_ctx (\<lambda>ctx. get_table table_id (cx_string_tables ctx))) (\<lambda>table.
      if table = None then errM PeStringTableNotFound
      else seqM (update_table E table_id (mu_string_data msg) (mu_num_changed_entries msg))
        (table_changed E table_id)))"

definition handle_cmd_string_tables :: "('s, 'c) env \<Rightarrow> proto_table list \<Rightarrow> ('d, 'v, 'e, unit) parser_rm" where
  "handle_cmd_string_tables E tables =
     seqM (change_ctx (\<lambda>ctx. case tables_full_update tables (cx_string_tables ctx, cx_cells ctx) of
       (ts, h) \<Rightarrow> ctx\<lparr>cx_string_tables := ts, cx_cells := h\<rparr>))
     (bindM (get_ctx cx_entity_classes) (\<lambda>classes. case classes of
       None \<Rightarrow> errM PeEntityClassesNotAvailable
     | Some entity_classes \<Rightarrow>
         bindM (get_ctx (\<lambda>ctx. find_table INSTANCE_BASELINE_TABLE_NAME (cx_string_tables ctx))) (\<lambda>table.
         case table of None \<Rightarrow> retM () | Some table \<Rightarrow> update_baseline E table entity_classes)))"

subsection \<open>Entities\<close>

type_synonym ('s, 'd, 'v, 'e, 'a) packet_rm = "(('d, 'v) parser \<times> 's bit_reader, 'e parser_error, 'a) rm"

text \<open>Calls of the packet loops: on the parser, on the reader, and on the entities with the decoding context
  and the reader.\<close>

definition on_parser :: "('d, 'v, 'e, 'a) parser_rm \<Rightarrow> ('s, 'd, 'v, 'e, 'a) packet_rm" where
  "on_parser m = zoomM fst (\<lambda>p (_, br). (p, br)) m"

definition on_packet_bits :: "('s bit_reader, bit_error, 'a) rm \<Rightarrow> ('s, 'd, 'v, 'e, 'a) packet_rm" where
  "on_packet_bits m = map_errM PeBit (on_reader m)"

definition on_entities :: "('s, 'a) container_rm \<Rightarrow> ('s, 'd, 'v, 'e, 'a) packet_rm" where
  "on_entities m = map_errM PeEntity
     (zoomM (\<lambda>(p, br). (cx_entities (ps_ctx p), (ps_field_decode_ctx p, br)))
        (\<lambda>(ec, (fd, br)) (p, _). (p\<lparr>ps_ctx := (ps_ctx p)\<lparr>cx_entities := ec\<rparr>, ps_field_decode_ctx := fd\<rparr>, br)) m)"

definition visit_entity :: "('v, 'e) visitor \<Rightarrow> delta_header \<Rightarrow> entity \<Rightarrow> ('s, 'd, 'v, 'e, unit) packet_rm" where
  "visit_entity V delta_header entity = on_parser (visit (\<lambda>ctx. vi_on_entity V ctx delta_header entity))"

text \<open>One entity of the message, by its delta header.\<close>

definition packet_entity ::
    "('s, 'c) env \<Rightarrow> ('v, 'e) visitor \<Rightarrow> entity_classes \<Rightarrow> serializer_map \<Rightarrow> i32 \<Rightarrow> delta_header
     \<Rightarrow> ('s, 'd, 'v, 'e, unit) packet_rm" where
  "packet_entity E V entity_classes serializers entity_index delta_header =
     (if delta_header = CREATE then
        bindM (\<lambda>(p, br). on_entities (handle_create_with_filter (e_bits E) entity_index entity_classes
            (cx_cells (ps_ctx p)) (cx_instance_baseline (ps_ctx p)) serializers
            (vi_should_track_entity V (ps_visitor p))) (p, br)) (\<lambda>maybe_index.
        case maybe_index of
          None \<Rightarrow> retM ()
        | Some i \<Rightarrow>
            bindM (on_parser (get_ctx (\<lambda>ctx. entities_get (cx_entities ctx) i))) (\<lambda>entity.
            case entity of None \<Rightarrow> errM PeEntityNotFound | Some entity \<Rightarrow> visit_entity V delta_header entity))
      else if delta_header = DELETE then
        bindM (on_entities (\<lambda>(ec, c). case handle_delete entity_index ec of (e, ec) \<Rightarrow> (Ok e, (ec, c)))) (\<lambda>entity.
        case entity of None \<Rightarrow> retM () | Some entity \<Rightarrow> visit_entity V delta_header entity)
      else if delta_header = LEAVE then
        bindM (on_entities (\<lambda>(ec, c). case handle_leave entity_index ec of (e, ec) \<Rightarrow> (Ok e, (ec, c)))) (\<lambda>entity.
        case entity of None \<Rightarrow> retM () | Some entity \<Rightarrow> visit_entity V delta_header entity)
      else if delta_header = UPDATE then
        bindM (on_entities (handle_update (e_bits E) entity_index)) (\<lambda>_.
        bindM (on_parser (get_ctx (\<lambda>ctx. entities_get (cx_entities ctx) entity_index))) (\<lambda>entity.
        case entity of None \<Rightarrow> retM () | Some entity \<Rightarrow> visit_entity V delta_header entity))
      else retM ())"

fun packet_entities_loop ::
    "('s, 'c) env \<Rightarrow> ('v, 'e) visitor \<Rightarrow> entity_classes \<Rightarrow> serializer_map \<Rightarrow> nat \<Rightarrow> i32
     \<Rightarrow> ('s, 'd, 'v, 'e, unit) packet_rm" where
  "packet_entities_loop E V entity_classes serializers 0 entity_index = retM ()"
| "packet_entities_loop E V entity_classes serializers (Suc n) entity_index =
     bindM (on_packet_bits (read_ubitvar (e_bits E))) (\<lambda>v.
     let entity_index = entity_index + (v + 1) in
     bindM (on_packet_bits (delta_header_from_bit_reader (e_bits E))) (\<lambda>delta_header.
     seqM (packet_entity E V entity_classes serializers entity_index delta_header)
       (packet_entities_loop E V entity_classes serializers n entity_index)))"

text \<open>\<open>(0..n).rev()\<close> of a signed \<open>n\<close>: no round if it is negative.\<close>

definition handle_svc_packet_entities ::
    "('s, 'c) env \<Rightarrow> ('v, 'e) visitor \<Rightarrow> msg_packet_entities \<Rightarrow> ('d, 'v, 'e, unit) parser_rm" where
  "handle_svc_packet_entities E V msg =
     bindM (get_ctx (\<lambda>ctx. (cx_entity_classes ctx, cx_serializers ctx))) (\<lambda>(classes, serializers).
     case classes of None \<Rightarrow> errM PeEntityClassesNotAvailable | Some entity_classes \<Rightarrow>
     case serializers of None \<Rightarrow> errM PeSerializersNotAvailable | Some serializers \<Rightarrow>
     (\<lambda>p. case seqM (packet_entities_loop E V entity_classes serializers (nat (sint (mp_updated_entries msg))) (- 1))
            (on_packet_bits (is_overflowed (e_bits E)))
            (p, bit_reader_new (e_bits E) (mp_entity_data msg)) of
        (r, (p, br)) \<Rightarrow> (r, p)))"

subsection \<open>Packets\<close>

definition handle_svc_server_info :: "f32 option \<Rightarrow> ('d, 'v, 'e, unit) parser_rm" where
  "handle_svc_server_info msg_tick_interval = (case msg_tick_interval of
     None \<Rightarrow> retM ()
   | Some t \<Rightarrow> (\<lambda>p. let ratio = fl_div binary32 DEFAULT_TICK_INTERVAL t in
       (Ok (), p\<lparr>ps_ctx := (ps_ctx p)\<lparr>cx_tick_interval := t,
           cx_full_packet_interval := DEFAULT_FULL_PACKET_INTERVAL * fl_to_i32 ratio\<rparr>,
         ps_field_decode_ctx := (ps_field_decode_ctx p)\<lparr>tick_interval := t\<rparr>\<rparr>)))"

definition decode_msg :: "('m \<Rightarrow> ('d, 'v, 'e, unit) parser_rm) \<Rightarrow> 'm option \<Rightarrow> ('d, 'v, 'e, unit) parser_rm" where
  "decode_msg handle msg = (case msg of None \<Rightarrow> errM PeDecode | Some m \<Rightarrow> handle m)"

definition packet_message ::
    "('s, 'c) env \<Rightarrow> ('v, 'e) visitor \<Rightarrow> u32 \<Rightarrow> u8 list \<Rightarrow> ('d, 'v, 'e, unit) parser_rm" where
  "packet_message E V command buf = (\<lambda>p.
     if command = e_svc_create_string_table E then
       decode_msg (handle_svc_create_string_table E) (e_decode_create_string_table E buf) p
     else if command = e_svc_update_string_table E then
       decode_msg (handle_svc_update_string_table E) (e_decode_update_string_table E buf) p
     else if command = e_svc_packet_entities E \<and> \<not> ps_skip_entity_packets p then
       decode_msg (handle_svc_packet_entities E V) (e_decode_packet_entities E buf) p
     else if command = e_svc_server_info E then
       decode_msg handle_svc_server_info (e_decode_server_info E buf) p
     else (Ok (), p))"

text \<open>\<open>let buf = &mut self.buf[..size]; br.read_bytes(buf)?\<close>\<close>

definition read_message :: "'s bitbuf \<Rightarrow> nat \<Rightarrow> ('s, 'd, 'v, 'e, u8 list) packet_rm" where
  "read_message B n = (\<lambda>(p, br).
     bindM (liftO (slice_to (ps_buf p) n)) (\<lambda>buf.
     bindM (on_packet_bits (read_bytes B buf)) (\<lambda>buf (p, br).
     (Ok buf, (p\<lparr>ps_buf := buf @ drop n (ps_buf p)\<rparr>, br)))) (p, br))"

fun packet_loop ::
    "('s, 'c) env \<Rightarrow> ('v, 'e) visitor \<Rightarrow> nat \<Rightarrow> ('s, 'd, 'v, 'e, unit) packet_rm" where
  "packet_loop E V 0 = liftO OutOfFuel"
| "packet_loop E V (Suc fuel) = (\<lambda>(p, br).
     if num_bits_left (e_bits E) br > 8 then
       bindM (on_packet_bits (read_ubitvar (e_bits E))) (\<lambda>command.
       bindM (on_packet_bits (read_uvarint32 (e_bits E))) (\<lambda>n.
       bindM (read_message (e_bits E) (unat n)) (\<lambda>buf.
       seqM (on_parser (visit (\<lambda>ctx. vi_on_packet V ctx command buf)))
       (seqM (on_parser (packet_message E V command buf))
         (packet_loop E V fuel))))) (p, br)
     else (Ok (), (p, br)))"

definition handle_cmd_packet ::
    "('s, 'c) env \<Rightarrow> ('v, 'e) visitor \<Rightarrow> u8 list option \<Rightarrow> ('d, 'v, 'e, unit) parser_rm" where
  "handle_cmd_packet E V data = (\<lambda>p.
     let br = bit_reader_new (e_bits E) (case data of Some d \<Rightarrow> d | None \<Rightarrow> []) in
     case seqM (packet_loop E V (Suc (num_bits_left (e_bits E) br))) (on_packet_bits (is_overflowed (e_bits E))) (p, br) of
       (r, (p, br)) \<Rightarrow> (r, p))"

definition handle_cmd_full_packet ::
    "('s, 'c) env \<Rightarrow> ('v, 'e) visitor \<Rightarrow> cdemo_full_packet \<Rightarrow> ('d, 'v, 'e, unit) parser_rm" where
  "handle_cmd_full_packet E V cmd =
     seqM (case cf_string_table cmd of Some ts \<Rightarrow> handle_cmd_string_tables E ts | None \<Rightarrow> retM ())
       (case cf_packet cmd of Some packet \<Rightarrow> handle_cmd_packet E V packet | None \<Rightarrow> retM ())"

subsection \<open>Commands\<close>

definition handle_send_tables :: "('s, 'c) env \<Rightarrow> u8 list option \<Rightarrow> ('d, 'v, 'e, unit) parser_rm" where
  "handle_send_tables E data =
     bindM (liftO (map_err PeSerializers
       (flattened_serializers_parse (e_uvarint64 E) (e_flattened E) (e_charsor E) data))) (\<lambda>serializers.
     change_ctx (\<lambda>ctx. ctx\<lparr>cx_serializers := Some serializers\<rparr>))"

definition handle_class_info :: "('s, 'c) env \<Rightarrow> rstr list \<Rightarrow> ('d, 'v, 'e, unit) parser_rm" where
  "handle_class_info E names =
     (let entity_classes = entity_classes_parse (e_log2 E) names in
      seqM (change_ctx (\<lambda>ctx. ctx\<lparr>cx_entity_classes := Some entity_classes\<rparr>))
      (bindM (get_ctx (\<lambda>ctx. find_table INSTANCE_BASELINE_TABLE_NAME (cx_string_tables ctx))) (\<lambda>table.
       case table of None \<Rightarrow> retM () | Some table \<Rightarrow> update_baseline E table entity_classes)))"

text \<open>The \<open>match\<close> on the command, with the body that was read.\<close>

definition match_cmd ::
    "('s, 'c) env \<Rightarrow> ('d, 'x) demo_stream_scheme \<Rightarrow> ('v, 'e) visitor \<Rightarrow> i32 \<Rightarrow> u8 list \<Rightarrow> ('d, 'v, 'e, unit) parser_rm" where
  "match_cmd E D V cmd cmd_body = (let C = e_cmds E in
     if cmd = dc_packet C \<or> cmd = dc_signon_packet C then
       bindM (liftO (map_err PeDecodeCmd (ds_decode_cmd_packet D cmd_body))) (handle_cmd_packet E V)
     else if cmd = dc_send_tables C then
       bindM (get_ctx (\<lambda>ctx. cx_serializers ctx \<noteq> None)) (\<lambda>known.
       if known then retM () else
       bindM (liftO (map_err PeDecodeCmd (ds_decode_cmd_send_tables D cmd_body))) (handle_send_tables E))
     else if cmd = dc_class_info C then
       bindM (get_ctx (\<lambda>ctx. cx_entity_classes ctx \<noteq> None)) (\<lambda>known.
       if known then retM () else
       bindM (liftO (map_err PeDecodeCmd (ds_decode_cmd_class_info D cmd_body))) (handle_class_info E))
     else if cmd = dc_full_packet C then
       bindM (liftO (map_err PeDecodeCmd (ds_decode_cmd_full_packet D cmd_body))) (handle_cmd_full_packet E V)
     else retM ())"

definition handle_cmd ::
    "('s, 'c) env \<Rightarrow> ('d, 'x) demo_stream_scheme \<Rightarrow> ('v, 'e) visitor \<Rightarrow> cmd_header \<Rightarrow> ('d, 'v, 'e, unit) parser_rm" where
  "handle_cmd E D V cmd_header =
     bindM (on_stream PeCmd (ds_read_cmd D cmd_header)) (\<lambda>cmd_body.
     seqM (visit (\<lambda>ctx. vi_on_cmd V ctx cmd_header cmd_body))
       (match_cmd E D V (ch_cmd cmd_header) cmd_body))"

subsection \<open>Running\<close>

datatype control_flow = CfHandle | CfSkip | CfIgnore

definition dispatch ::
    "('s, 'c) env \<Rightarrow> ('d, 'x) demo_stream_scheme \<Rightarrow> ('v, 'e) visitor \<Rightarrow> control_flow \<Rightarrow> cmd_header
     \<Rightarrow> ('d, 'v, 'e, unit) parser_rm" where
  "dispatch E D V cf cmd_header = (case cf of
     CfHandle \<Rightarrow>
       seqM (handle_cmd E D V cmd_header)
       (bindM (get_ctx (\<lambda>ctx. cx_prev_tick ctx \<noteq> cx_tick ctx)) (\<lambda>tick_changed.
        if tick_changed then visit (vi_on_tick_end V) else retM ()))
   | CfSkip \<Rightarrow> on_stream PeIo (ds_skip_cmd D cmd_header)
   | CfIgnore \<Rightarrow> retM ())"

definition set_tick :: "i32 \<Rightarrow> ('d, 'v, 'e, unit) parser_rm" where
  "set_tick tick = change_ctx (\<lambda>ctx. ctx\<lparr>cx_prev_tick := cx_tick ctx, cx_tick := tick\<rparr>)"

text \<open>The end of a run: an error while reading a header at the end of the stream is no error.\<close>

definition end_of_run ::
    "('d, 'x) demo_stream_scheme \<Rightarrow> read_cmd_header_error \<Rightarrow> ('d, 'v, 'e, unit) parser_rm" where
  "end_of_run D err =
     bindM (on_stream PeIo (at_eof_or_default D)) (\<lambda>eof. if eof then retM () else errM (PeCmdHeader err))"

fun run ::
    "('s, 'c) env \<Rightarrow> ('d, 'x) demo_stream_scheme \<Rightarrow> ('v, 'e) visitor
     \<Rightarrow> ('h \<Rightarrow> cmd_header \<Rightarrow> ('d, 'v, 'e, control_flow \<times> 'h) parser_rm) \<Rightarrow> nat \<Rightarrow> 'h \<Rightarrow> ('d, 'v, 'e, unit) parser_rm" where
  "run E D V handler 0 h = liftO OutOfFuel"
| "run E D V handler (Suc fuel) h = (\<lambda>p.
     case zoomM ps_demo_stream (\<lambda>d p. p\<lparr>ps_demo_stream := d\<rparr>) (ds_read_cmd_header D) p of
       (Ok cmd_header, p) \<Rightarrow>
         seqM (set_tick (ch_tick cmd_header))
         (bindM (handler h cmd_header) (\<lambda>(cf, h).
          seqM (dispatch E D V cf cmd_header) (run E D V handler fuel h))) p
     | (Err err, p) \<Rightarrow> end_of_run D err p
     | (Panic x, p) \<Rightarrow> (Panic x, p)
     | (OutOfFuel, p) \<Rightarrow> (OutOfFuel, p))"

definition run_to_end ::
    "('s, 'c) env \<Rightarrow> ('d, 'x) demo_stream_scheme \<Rightarrow> ('v, 'e) visitor \<Rightarrow> nat \<Rightarrow> ('d, 'v, 'e, unit) parser_rm" where
  "run_to_end E D V fuel = run E D V (\<lambda>h cmd_header. retM (CfHandle, h)) fuel ()"

text \<open>The handler of \<open>run_seekable\<close> can stop the run; the header is then unread and the tick restored.\<close>

fun run_seekable ::
    "('s, 'c) env \<Rightarrow> 'd seekable_stream \<Rightarrow> ('v, 'e) visitor
     \<Rightarrow> ('h \<Rightarrow> cmd_header \<Rightarrow> ('d, 'v, 'e, control_flow option \<times> 'h) parser_rm) \<Rightarrow> nat \<Rightarrow> 'h
     \<Rightarrow> ('d, 'v, 'e, unit) parser_rm" where
  "run_seekable E D V handler 0 h = liftO OutOfFuel"
| "run_seekable E D V handler (Suc fuel) h = (\<lambda>p.
     case zoomM ps_demo_stream (\<lambda>d p. p\<lparr>ps_demo_stream := d\<rparr>) (ds_read_cmd_header D) p of
       (Ok cmd_header, p) \<Rightarrow>
         seqM (set_tick (ch_tick cmd_header))
         (bindM (handler h cmd_header) (\<lambda>(cf, h). case cf of
            Some cf \<Rightarrow> seqM (dispatch E D V cf cmd_header) (run_seekable E D V handler fuel h)
          | None \<Rightarrow>
              seqM (on_stream PeIo (unread_cmd_header D cmd_header))
                (change_ctx (\<lambda>ctx. ctx\<lparr>cx_tick := cx_prev_tick ctx\<rparr>)))) p
     | (Err err, p) \<Rightarrow> end_of_run D err p
     | (Panic x, p) \<Rightarrow> (Panic x, p)
     | (OutOfFuel, p) \<Rightarrow> (OutOfFuel, p))"

definition parser_reset :: "'d seekable_stream \<Rightarrow> (('d, 'v) parser, io_error, unit) rm" where
  "parser_reset D =
     seqM (\<lambda>p. zoomM ps_demo_stream (\<lambda>d p. p\<lparr>ps_demo_stream := d\<rparr>)
       (ds_seek D (SeekStart (ds_start_position D (ps_demo_stream p)))) p)
     (\<lambda>p. (Ok (), p\<lparr>ps_ctx := (ps_ctx p)\<lparr>cx_entities := entities_clear (cx_entities (ps_ctx p)),
        cx_string_tables := string_tables_clear (cx_string_tables (ps_ctx p)),
        cx_instance_baseline := instance_baseline_clear (cx_instance_baseline (ps_ctx p)), cx_tick := - 1, cx_prev_tick := - 1\<rparr>\<rparr>))"

subsection \<open>Running to a tick\<close>

text \<open>A full packet on the way: without its packet if another full packet comes before the target.\<close>

definition seek_full_packet ::
    "('s, 'c) env \<Rightarrow> 'd seekable_stream \<Rightarrow> ('v, 'e) visitor \<Rightarrow> cmd_header \<Rightarrow> bool \<Rightarrow> ('d, 'v, 'e, unit) parser_rm" where
  "seek_full_packet E D V cmd_header has_full_packet_ahead =
     bindM (on_stream PeCmd (ds_read_cmd D cmd_header)) (\<lambda>cmd_body.
     seqM (visit (\<lambda>ctx. vi_on_cmd V ctx cmd_header cmd_body))
     (bindM (liftO (map_err PeDecodeCmd (ds_decode_cmd_full_packet D cmd_body))) (\<lambda>cmd.
      seqM (handle_cmd_full_packet E V (if has_full_packet_ahead then cmd\<lparr>cf_packet := None\<rparr> else cmd))
        (visit (vi_on_tick_end V)))))"

text \<open>The captured flags: \<open>did_handle_first_sync_tick\<close> and \<open>did_handle_last_full_packet\<close>.  Comparisons are of
  signed numbers and the subtraction wraps.\<close>

definition run_to_tick_handler ::
    "('s, 'c) env \<Rightarrow> 'd seekable_stream \<Rightarrow> ('v, 'e) visitor \<Rightarrow> i32 \<Rightarrow> bool \<times> bool \<Rightarrow> cmd_header
     \<Rightarrow> ('d, 'v, 'e, control_flow option \<times> bool \<times> bool) parser_rm" where
  "run_to_tick_handler E D V target_tick = (\<lambda>(first_sync, last_full) cmd_header p.
     if target_tick <s ch_tick cmd_header then (Ok (None, (first_sync, last_full)), p)
     else if \<not> first_sync then
       (Ok (Some CfHandle, (ch_cmd cmd_header = dc_sync_tick (e_cmds E), last_full)), p)
     else
       let is_full_packet = (ch_cmd cmd_header = dc_full_packet (e_cmds E));
           distance_to_target_tick = target_tick - cx_tick (ps_ctx p);
           has_full_packet_ahead = (cx_full_packet_interval (ps_ctx p) + 100 <s distance_to_target_tick)
       in if is_full_packet then
            seqM (seek_full_packet E D V cmd_header has_full_packet_ahead)
              (retM (Some CfIgnore, (first_sync, \<not> has_full_packet_ahead))) p
          else (Ok (Some (if last_full then CfHandle else CfSkip), (first_sync, last_full)), p))"

definition run_to_tick ::
    "('s, 'c) env \<Rightarrow> 'd seekable_stream \<Rightarrow> ('v, 'e) visitor \<Rightarrow> nat \<Rightarrow> i32 \<Rightarrow> ('d, 'v, 'e, unit) parser_rm" where
  "run_to_tick E D V fuel target_tick =
     seqM (map_errM PeIo (parser_reset D))
       (run_seekable E D V (run_to_tick_handler E D V target_tick) fuel (False, False))"

subsection \<open>Full packets\<close>

fun scan_full_packets ::
    "('s, 'c) env \<Rightarrow> 'd seekable_stream \<Rightarrow> nat \<Rightarrow> i32 list \<Rightarrow> ('d, 'v, 'e, i32 list) parser_rm" where
  "scan_full_packets E D 0 ticks = liftO OutOfFuel"
| "scan_full_packets E D (Suc fuel) ticks = (\<lambda>p.
     case zoomM ps_demo_stream (\<lambda>d p. p\<lparr>ps_demo_stream := d\<rparr>) (ds_read_cmd_header D) p of
       (Ok cmd_header, p) \<Rightarrow>
         seqM (on_stream PeIo (ds_skip_cmd D cmd_header))
           (scan_full_packets E D fuel
             (if ch_cmd cmd_header = dc_full_packet (e_cmds E) then ticks @ [ch_tick cmd_header] else ticks)) p
     | (Err err, p) \<Rightarrow> seqM (end_of_run D err) (retM ticks) p
     | (Panic x, p) \<Rightarrow> (Panic x, p)
     | (OutOfFuel, p) \<Rightarrow> (OutOfFuel, p))"

definition scan_full_packet_ticks ::
    "('s, 'c) env \<Rightarrow> 'd seekable_stream \<Rightarrow> nat \<Rightarrow> ('d, 'v, 'e, i32 list) parser_rm" where
  "scan_full_packet_ticks E D fuel =
     seqM (map_errM PeIo (parser_reset D))
     (bindM (scan_full_packets E D fuel []) (\<lambda>ticks.
      seqM (map_errM PeIo (parser_reset D)) (retM ticks)))"

definition set_collecting :: "('v, 'e) visitor \<Rightarrow> bool \<Rightarrow> ('d, 'v, 'e, unit) parser_rm" where
  "set_collecting V b = (\<lambda>p. (Ok (), p\<lparr>ps_visitor := vi_set_collecting V b (ps_visitor p),
     ps_skip_entity_packets := \<not> b\<rparr>))"

text \<open>The captured \<open>fp_seen\<close>, a \<open>usize\<close> that counts commands of a file and does not reach \<open>2^64\<close>, and
  \<open>collecting\<close>.\<close>

definition run_full_packet_handler ::
    "demo_commands \<Rightarrow> ('v, 'e) visitor \<Rightarrow> nat \<Rightarrow> nat \<times> bool \<Rightarrow> cmd_header
     \<Rightarrow> ('d, 'v, 'e, control_flow option \<times> nat \<times> bool) parser_rm" where
  "run_full_packet_handler C V ordinal = (\<lambda>(fp_seen, collecting) cmd_header.
     if ch_cmd cmd_header = dc_full_packet C then
       (if fp_seen < ordinal then retM (Some CfSkip, (Suc fp_seen, collecting))
        else if fp_seen = ordinal then
          seqM (set_collecting V True) (retM (Some CfHandle, (Suc fp_seen, True)))
        else retM (None, (Suc fp_seen, collecting)))
     else if collecting then retM (Some CfHandle, (fp_seen, collecting))
     else if ch_cmd cmd_header \<in> {dc_send_tables C, dc_class_info C, dc_signon_packet C}
     then retM (Some CfHandle, (fp_seen, collecting))
     else retM (Some CfSkip, (fp_seen, collecting)))"

definition run_full_packet ::
    "('s, 'c) env \<Rightarrow> 'd seekable_stream \<Rightarrow> ('v, 'e) visitor \<Rightarrow> nat \<Rightarrow> nat \<Rightarrow> ('d, 'v, 'e, unit) parser_rm" where
  "run_full_packet E D V fuel ordinal =
     seqM (map_errM PeIo (parser_reset D))
     (seqM (if ordinal \<noteq> 0 then set_collecting V False else retM ())
      (\<lambda>p. case run_seekable E D V (run_full_packet_handler (e_cmds E) V ordinal) fuel (0, ordinal = 0) p of
         (r, p) \<Rightarrow> (r, p\<lparr>ps_skip_entity_packets := False\<rparr>)))"

end
