(* ===== verification/StreamContract.thy ===== *)
theory StreamContract
  imports BroadcastStream
begin

text \<open>
  What the parser relies on in a seekable demo stream, as the locale \<open>stream_contract\<close>, and the proof that the
  streams over demo files and over recorded broadcasts keep it.
\<close>

subsection \<open>What a demo stream promises\<close>

text \<open>
  The contract of a seekable stream, by an abstract position: the header that is read at a position, where
  the command behind it ends, and where the stream starts over.  Reading the body of a command and skipping
  it end at the same position.  \<open>lawful\<close> is what the contract needs of the varint reader: that it counts the
  bytes it reads, for unreading a header.
\<close>

locale stream_contract =
  fixes D :: "'d seekable_stream" and view :: "'d \<Rightarrow> 'p"
    and header_at :: "'p \<Rightarrow> (read_cmd_header_error, cmd_header) outcome \<times> 'p"
    and after :: "cmd_header \<Rightarrow> 'p \<Rightarrow> 'p" and at_end :: "'p \<Rightarrow> bool" and start :: "'p \<Rightarrow> 'p" and lawful :: bool
  assumes header_law: "ds_read_cmd_header D d = (r, d') \<Longrightarrow> header_at (view d) = (r, view d')"
    and body_law: "ds_read_cmd D h d = (Ok b, d') \<Longrightarrow> view d' = after h (view d)"
    and skip_law: "ds_skip_cmd D h d = (Ok (), d') \<Longrightarrow> view d' = after h (view d)"
    and eof_law: "at_eof_or_default D d = (Ok eof, d') \<Longrightarrow> eof = at_end (view d)"
    and start_law: "ds_seek D (SeekStart (ds_start_position D d)) d = (Ok n, d') \<Longrightarrow> view d' = start (view d)"
    and unread_law: "\<lbrakk>lawful; header_at q = (Ok h, view d); unread_cmd_header D h d = (Ok (), d')\<rbrakk> \<Longrightarrow> view d' = q"

text \<open>The commands from a position to the end of the stream, and to another position.\<close>

inductive commands_from ::
    "('p \<Rightarrow> (read_cmd_header_error, cmd_header) outcome \<times> 'p) \<Rightarrow> (cmd_header \<Rightarrow> 'p \<Rightarrow> 'p) \<Rightarrow> ('p \<Rightarrow> bool)
     \<Rightarrow> 'p \<Rightarrow> cmd_header list \<Rightarrow> bool"
  for header_at after at_end where
  no_more: "header_at q = (Err e, q') \<Longrightarrow> at_end q' \<Longrightarrow> commands_from header_at after at_end q []"
| one_more: "header_at q = (Ok h, q') \<Longrightarrow> commands_from header_at after at_end (after h q') hs
    \<Longrightarrow> commands_from header_at after at_end q (h # hs)"

inductive_cases commands_fromE: "commands_from header_at after at_end q hs"

lemma commands_from_eof:
  "commands_from header_at after at_end q hs \<Longrightarrow> header_at q = (Err e, q') \<Longrightarrow> hs = []"
  by (erule commands_fromE) simp_all

lemma commands_from_cmd:
  "commands_from header_at after at_end q hs \<Longrightarrow> header_at q = (Ok h, q') \<Longrightarrow>
   \<exists>hs'. hs = h # hs' \<and> commands_from header_at after at_end (after h q') hs'"
  by (erule commands_fromE) simp_all

inductive commands_between ::
    "('p \<Rightarrow> (read_cmd_header_error, cmd_header) outcome \<times> 'p) \<Rightarrow> (cmd_header \<Rightarrow> 'p \<Rightarrow> 'p)
     \<Rightarrow> 'p \<Rightarrow> cmd_header list \<Rightarrow> 'p \<Rightarrow> bool"
  for header_at after where
  here: "commands_between header_at after q [] q"
| further: "header_at q = (Ok h, q') \<Longrightarrow> commands_between header_at after (after h q') hs r
    \<Longrightarrow> commands_between header_at after q (h # hs) r"

subsection \<open>Readers and headers\<close>

text \<open>A varint reader that counts the bytes it reads, of which there are at most ten.\<close>

definition counts_bytes :: "(reader, varint_error, u32 \<times> nat) rm \<Rightarrow> bool" where
  "counts_bytes uv \<longleftrightarrow> (\<forall>r v n r'. uv r = (Ok (v, n), r') \<longrightarrow> r' = r\<lparr>rd_pos := rd_pos r + n\<rparr> \<and> n \<le> 10)"

definition behind :: "cmd_header \<Rightarrow> reader \<Rightarrow> reader" where
  "behind h r = r\<lparr>rd_pos := rd_pos r + unat (ch_body_size h)\<rparr>"

definition rdr_at_end :: "reader \<Rightarrow> bool" where
  "rdr_at_end r \<longleftrightarrow> rd_pos r = length (rd_data r)"

lemma read_exact_Ok: "read_exact n r = (Ok b, r') \<Longrightarrow> r' = r\<lparr>rd_pos := rd_pos r + n\<rparr>"
  by (auto simp: read_exact_def split: if_splits)

lemma rdr_skip_Ok: "rdr_skip h r = (Ok (), r') \<Longrightarrow> r' = behind h r"
  by (auto simp: rdr_skip_def rdr_seek_def behind_def bindM_Ok_iff Let_def nat_add_distrib split: if_splits)

lemma rdr_is_at_eof_Ok: "rdr_is_at_eof r = (Ok b, r') \<Longrightarrow> b = rdr_at_end r \<and> r' = r"
  by (auto simp: rdr_is_at_eof_def rdr_at_end_def rdr_position_def rdr_seek_def bindM_Ok_iff Let_def split: if_splits)

lemma rdr_is_at_eof_ok: "rdr_is_at_eof r = (Ok (rdr_at_end r), r)"
  by (simp add: rdr_is_at_eof_def rdr_at_end_def rdr_position_def rdr_seek_def bindM_def retM_def)

lemma read_cmd_body_Ok: "read_cmd_body Z h (r, buf) = (Ok b, (r', buf')) \<Longrightarrow> r' = behind h r"
  by (auto simp: read_cmd_body_def Let_def behind_def split: if_splits prod.splits outcome.splits option.splits
      dest!: read_exact_Ok)

lemma varint_cmd_headerE:
  assumes "varint_cmd_header C uv r = (Ok h, r')"
  obtains c n1 r1 t n2 r2 z n3 where "uv r = (Ok (c, n1), r1)" "uv r1 = (Ok (t, n2), r2)" "uv r2 = (Ok (z, n3), r')"
    "ch_size h = of_nat (n1 + n2 + n3)" "ch_tick h = t" "ch_body_size h = z"
proof -
  let ?cmp = "\<lambda>c. c AND dc_is_compressed C = dc_is_compressed C"
  obtain x r1 where 1: "uv r = (Ok x, r1)" and rest: "(case x of (cmd_raw, cmd_n) \<Rightarrow>
      let body_compressed = ?cmp cmd_raw; cmd = (if body_compressed then cmd_raw AND NOT (dc_is_compressed C) else cmd_raw)
      in bindM (liftO (cmd_try_from C cmd_raw cmd)) (\<lambda>cmd.
        bindM (map_errM RchVarint uv) (\<lambda>(tick, tick_n).
        bindM (map_errM RchVarint uv) (\<lambda>(body_size, body_size_n).
        retM \<lparr>ch_cmd = cmd, ch_body_compressed = body_compressed, ch_tick = tick, ch_body_size = body_size,
          ch_size = of_nat (cmd_n + tick_n + body_size_n)\<rparr>)))) r1 = (Ok h, r')"
    using assms unfolding varint_cmd_header_def by (elim bindM_OkE) simp
  obtain c n1 where x: "x = (c, n1)" by (cases x)
  let ?k = "if ?cmp c then c AND NOT (dc_is_compressed C) else c"
  obtain k where "cmd_try_from C c ?k = Ok k" using rest by (cases "cmd_try_from C c ?k") (simp_all add: x Let_def liftO_def bindM_def)
  with rest have "bindM (map_errM RchVarint uv) (\<lambda>(tick, tick_n).
        bindM (map_errM RchVarint uv) (\<lambda>(body_size, body_size_n).
        retM \<lparr>ch_cmd = k, ch_body_compressed = ?cmp c, ch_tick = tick, ch_body_size = body_size,
          ch_size = of_nat (n1 + tick_n + body_size_n)\<rparr>)) r1 = (Ok h, r')" by (simp add: x Let_def)
  then obtain y r2 where 2: "uv r1 = (Ok y, r2)" and rest: "(case y of (tick, tick_n) \<Rightarrow>
        bindM (map_errM RchVarint uv) (\<lambda>(body_size, body_size_n).
        retM \<lparr>ch_cmd = k, ch_body_compressed = ?cmp c, ch_tick = tick, ch_body_size = body_size,
          ch_size = of_nat (n1 + tick_n + body_size_n)\<rparr>)) r2 = (Ok h, r')"
    by (elim bindM_OkE) simp
  obtain t n2 where y: "y = (t, n2)" by (cases y)
  from rest obtain w r3 where 3: "uv r2 = (Ok w, r3)" and rest: "(case w of (body_size, body_size_n) \<Rightarrow>
        retM \<lparr>ch_cmd = k, ch_body_compressed = ?cmp c, ch_tick = t, ch_body_size = body_size,
          ch_size = of_nat (n1 + n2 + body_size_n)\<rparr>) r3 = (Ok h, r')"
    by (auto simp: y elim!: bindM_OkE)
  obtain z n3 where w: "w = (z, n3)" by (cases w)
  show thesis by (rule that [of c n1 r1 t n2 r2 z n3]) (use 1 2 3 rest x y w in auto)
qed

lemma varint_cmd_header_size:
  assumes "counts_bytes uv" "varint_cmd_header C uv r = (Ok h, r')"
  shows "r' = r\<lparr>rd_pos := rd_pos r + unat (ch_size h)\<rparr>"
proof -
  obtain c n1 r1 t n2 r2 z n3 where "uv r = (Ok (c, n1), r1)" "uv r1 = (Ok (t, n2), r2)" "uv r2 = (Ok (z, n3), r')"
    and h: "ch_size h = of_nat (n1 + n2 + n3)"
    by (rule varint_cmd_headerE [OF assms(2)])
  moreover from this assms(1) have "r1 = r\<lparr>rd_pos := rd_pos r + n1\<rparr> \<and> n1 \<le> 10"
    "r2 = r1\<lparr>rd_pos := rd_pos r1 + n2\<rparr> \<and> n2 \<le> 10" "r' = r2\<lparr>rd_pos := rd_pos r2 + n3\<rparr> \<and> n3 \<le> 10"
    unfolding counts_bytes_def by blast+
  ultimately have r': "r' = r\<lparr>rd_pos := rd_pos r + (n1 + n2 + n3)\<rparr>" and le: "n1 + n2 + n3 \<le> 30" by auto
  have "unat (ch_size h) = n1 + n2 + n3" unfolding h using le by (simp only: unat_of_nat) simp
  with r' show ?thesis by simp
qed


lemma broadcast_cmd_header_size:
  assumes "broadcast_read_cmd_header C r = (Ok h, r')"
  shows "r' = r\<lparr>rd_pos := rd_pos r + 10\<rparr> \<and> ch_size h = 10"
  using assms
  by (auto simp: broadcast_read_cmd_header_def Let_def liftO_def elim!: bindM_OkE dest!: read_exact_Ok)

lemma stream_simps:
  "ds_is_at_eof (demofile_stream C uv Z P) = demofile_is_at_eof"
  "ds_read_cmd_header (demofile_stream C uv Z P) = demofile_read_cmd_header C uv"
  "ds_read_cmd (demofile_stream C uv Z P) = demofile_read_cmd Z"
  "ds_skip_cmd (demofile_stream C uv Z P) = demofile_skip_cmd"
  "ds_seek (demofile_stream C uv Z P) = demofile_seek"
  "ds_start_position (demofile_stream C uv Z P) = demofile_start_position"
  "ds_is_at_eof (broadcastfile_stream C P) = broadcastfile_is_at_eof"
  "ds_read_cmd_header (broadcastfile_stream C P) = broadcastfile_read_cmd_header C"
  "ds_read_cmd (broadcastfile_stream C P) = broadcastfile_read_cmd"
  "ds_skip_cmd (broadcastfile_stream C P) = broadcastfile_skip_cmd"
  "ds_seek (broadcastfile_stream C P) = broadcastfile_seek"
  "ds_start_position (broadcastfile_stream C P) = broadcastfile_start_position"
  by (simp_all add: demofile_stream_def broadcastfile_stream_def)

lemma zoom_rdr:
  "on_rdr m f = (r, f') \<longleftrightarrow> (\<exists>x. m (df_rdr f) = (r, x) \<and> f' = f\<lparr>df_rdr := x\<rparr>)"
  "on_bf_rdr k b = (r', b') \<longleftrightarrow> (\<exists>x. k (bf_rdr b) = (r', x) \<and> b' = b\<lparr>bf_rdr := x\<rparr>)"
  by (auto simp: on_rdr_def on_bf_rdr_def zoomM_def split: prod.splits)

lemma nat_minus_uint: "nat (int n - uint w) = n - unat w"
  by (metis nat_minus_as_int of_nat_unat unsigned_of_nat uint_nat)

lemma seek_Ok:
  "rdr_seek (SeekStart n) r = (Ok k, r') \<Longrightarrow> r' = r\<lparr>rd_pos := n\<rparr>"
  "rdr_seek (SeekCurrent (- uint w)) r = (Ok k, r') \<Longrightarrow> r' = r\<lparr>rd_pos := rd_pos r - unat w\<rparr>"
  by (auto simp: rdr_seek_def Let_def nat_minus_uint split: if_splits)

lemma unread_Ok:
  "unread_cmd_header (demofile_stream C uv Z P) h f = (Ok (), f') \<Longrightarrow>
    df_rdr f' = (df_rdr f)\<lparr>rd_pos := rd_pos (df_rdr f) - unat (ch_size h)\<rparr>"
  "unread_cmd_header (broadcastfile_stream C P) h b = (Ok (), b') \<Longrightarrow>
    bf_rdr b' = (bf_rdr b)\<lparr>rd_pos := rd_pos (bf_rdr b) - unat (ch_size h)\<rparr>"
  by (auto simp: unread_cmd_header_def stream_simps demofile_seek_def broadcastfile_seek_def bindM_Ok_iff zoom_rdr
      dest!: seek_Ok(2))

lemma at_eof_Ok:
  "at_eof_or_default (demofile_stream C uv Z P) f = (Ok e, f') \<Longrightarrow> e = rdr_at_end (df_rdr f)"
  "at_eof_or_default (broadcastfile_stream C P) b = (Ok e, b') \<Longrightarrow> e = rdr_at_end (bf_rdr b)"
  by (auto simp: at_eof_or_default_def stream_simps demofile_is_at_eof_def broadcastfile_is_at_eof_def
      on_rdr_def on_bf_rdr_def zoomM_def rdr_is_at_eof_ok)

subsection \<open>The two kinds of file meet it\<close>

interpretation df: stream_contract "demofile_stream C uv Z P" df_rdr "varint_cmd_header C uv" behind rdr_at_end
  "\<lambda>r. r\<lparr>rd_pos := 16\<rparr>" "counts_bytes uv"
proof unfold_locales
  fix q h d d'
  assume "counts_bytes uv" "varint_cmd_header C uv q = (Ok h, df_rdr d)"
    "unread_cmd_header (demofile_stream C uv Z P) h d = (Ok (), d')"
  then show "df_rdr d' = q" by (auto dest!: unread_Ok varint_cmd_header_size)
qed (auto simp: stream_simps demofile_read_cmd_header_def demofile_read_cmd_def demofile_skip_cmd_def demofile_seek_def
    demofile_start_position_def zoom_rdr zoomM_Ok_iff dest: at_eof_Ok read_cmd_body_Ok rdr_skip_Ok seek_Ok(1))

interpretation bf: stream_contract "broadcastfile_stream C P" bf_rdr "broadcast_read_cmd_header C" behind
  rdr_at_end "\<lambda>r. r\<lparr>rd_pos := 0\<rparr>" True
proof unfold_locales
  fix q h d d'
  assume "broadcast_read_cmd_header C q = (Ok h, bf_rdr d)"
    "unread_cmd_header (broadcastfile_stream C P) h d = (Ok (), d')"
  then show "bf_rdr d' = q" by (auto dest!: unread_Ok broadcast_cmd_header_size)
next
  fix h d b d'
  assume "ds_read_cmd (broadcastfile_stream C P) h d = (Ok b, d')"
  then show "bf_rdr d' = behind h (bf_rdr d)"
    by (auto simp: stream_simps broadcastfile_read_cmd_def behind_def zoom_rdr liftO_def elim!: bindM_OkE
      dest!: read_exact_Ok split: if_splits)
qed (auto simp: stream_simps broadcastfile_read_cmd_header_def broadcastfile_skip_cmd_def broadcastfile_seek_def
    broadcastfile_start_position_def zoom_rdr zoomM_Ok_iff dest: at_eof_Ok rdr_skip_Ok seek_Ok(1))

end
