(* ===== verification/ParserLaws.thy ===== *)
theory ParserLaws
  imports Parser StreamContract
begin

text \<open>
  Laws of \<open>Parser\<close>.  Over any stream that meets \<open>stream_contract\<close> the runs of the parser are related to
  the list of commands that the stream holds.  The handlers of the messages never
  touch the stream or the tick (the frame lemmas).
\<close>

subsection \<open>The frame of the handlers\<close>

text \<open>A visitor whose callbacks for entities and packets change nothing.\<close>

definition silent :: "('v, 'e) visitor \<Rightarrow> bool" where
  "silent V \<longleftrightarrow> (\<forall>ctx h e v. snd (vi_on_entity V ctx h e v) = v) \<and> (\<forall>ctx c b v. snd (vi_on_packet V ctx c b v) = v)"

definition frame :: "('v, 'e) visitor \<Rightarrow> ('d, 'v) parser \<Rightarrow> ('d, 'v) parser \<Rightarrow> bool" where
  "frame V p p' \<longleftrightarrow> ps_demo_stream p' = ps_demo_stream p \<and> cx_tick (ps_ctx p') = cx_tick (ps_ctx p)
     \<and> cx_prev_tick (ps_ctx p') = cx_prev_tick (ps_ctx p) \<and> ps_skip_entity_packets p' = ps_skip_entity_packets p
     \<and> (silent V \<longrightarrow> ps_visitor p' = ps_visitor p)"

lemma frame_refl [simp]: "frame V p p"
  by (simp add: frame_def)

lemma frame_trans: "frame V p q \<Longrightarrow> frame V q r \<Longrightarrow> frame V p r"
  by (simp add: frame_def)

named_theorems framed_intros "operations that keep the frame"

definition framed :: "('v, 'e) visitor \<Rightarrow> ('d, 'v, 'e, 'a) parser_rm \<Rightarrow> bool" where
  "framed V m \<longleftrightarrow> (\<forall>p. frame V p (snd (m p)))"

definition framed_br :: "('v, 'e) visitor \<Rightarrow> ('s, 'd, 'v, 'e, 'a) packet_rm \<Rightarrow> bool" where
  "framed_br V m \<longleftrightarrow> (\<forall>p br. frame V p (fst (snd (m (p, br)))))"

lemma framedD: "framed V m \<Longrightarrow> m p = (r, p') \<Longrightarrow> frame V p p'"
  unfolding framed_def by (metis snd_conv)

lemma framed_brD: "framed_br V m \<Longrightarrow> m (p, br) = (r, (p', br')) \<Longrightarrow> frame V p p'"
  unfolding framed_br_def by (metis fst_conv snd_conv)

lemma framed_basic [framed_intros]:
  "framed V (retM x)" "framed V (errM e)" "framed V (liftO r)" "framed V (get_ctx f)"
  "framed_br V (retM x)" "framed_br V (errM e)" "framed_br V (liftO r)"
  by (simp_all add: framed_def framed_br_def retM_def errM_def liftO_def get_ctx_def)

lemma framed_bindM [framed_intros]:
  assumes "framed V m" "\<And>x. framed V (f x)" shows "framed V (bindM m f)"
  unfolding framed_def
proof
  fix p
  obtain r p' where m: "m p = (r, p')" by (cases "m p")
  have 1: "frame V p p'" by (rule framedD [OF assms(1) m])
  have 2: "frame V p' (snd (f x p'))" for x using assms(2) unfolding framed_def by blast
  show "frame V p (snd (bindM m f p))"
    by (cases r) (use m 1 2 in \<open>auto simp: bindM_run intro: frame_trans\<close>)
qed

lemma framed_br_bindM [framed_intros]:
  assumes "framed_br V m" "\<And>x. framed_br V (f x)" shows "framed_br V (bindM m f)"
  unfolding framed_br_def
proof (intro allI)
  fix p br
  obtain r p' br' where m: "m (p, br) = (r, (p', br'))" by (metis prod.exhaust)
  have 1: "frame V p p'" by (rule framed_brD [OF assms(1) m])
  have 2: "frame V p' (fst (snd (f x (p', br'))))" for x using assms(2) unfolding framed_br_def by blast
  show "frame V p (fst (snd (bindM m f (p, br))))"
    by (cases r) (use m 1 2 in \<open>auto simp: bindM_run intro: frame_trans\<close>)
qed

lemma framed_pointwise: "(\<And>p. \<exists>m. framed V m \<and> f p = m p) \<Longrightarrow> framed V f"
  unfolding framed_def by metis

lemma framed_br_pointwise: "(\<And>p br. \<exists>m. framed_br V m \<and> f (p, br) = m (p, br)) \<Longrightarrow> framed_br V f"
  unfolding framed_br_def by metis

lemma framed_change_ctx [framed_intros]:
  "(\<And>ctx. cx_tick (f ctx) = cx_tick ctx \<and> cx_prev_tick (f ctx) = cx_prev_tick ctx) \<Longrightarrow> framed V (change_ctx f)"
  by (simp add: framed_def frame_def change_ctx_def)

lemma framed_visit [framed_intros]:
  "framed V (visit (\<lambda>ctx. vi_on_packet V ctx c b))" "framed V (visit (\<lambda>ctx. vi_on_entity V ctx h e))"
  by (auto simp: framed_def frame_def visit_def map_errM_def zoomM_def silent_def split_beta)

lemma framed_br_lifts [framed_intros]:
  "framed V m \<Longrightarrow> framed_br V (on_parser m)" "framed_br V (on_packet_bits k)" "framed_br V (on_entities q)"
  by (auto simp: framed_def framed_br_def frame_def on_parser_def on_packet_bits_def on_entities_def on_reader_def
      map_errM_def zoomM_def split_beta)

lemma framed_if [framed_intros]:
  "framed V m \<Longrightarrow> framed V n \<Longrightarrow> framed V (if b then m else n)"
  "framed_br V k \<Longrightarrow> framed_br V l \<Longrightarrow> framed_br V (if b then k else l)"
  by simp_all

lemma framed_option [framed_intros]:
  "framed V m \<Longrightarrow> (\<And>x. framed V (f x)) \<Longrightarrow> framed V (case opt of None \<Rightarrow> m | Some x \<Rightarrow> f x)"
  "framed_br V k \<Longrightarrow> (\<And>x. framed_br V (g x)) \<Longrightarrow> framed_br V (case opt of None \<Rightarrow> k | Some x \<Rightarrow> g x)"
  by (simp_all split: option.split)

lemma framed_update_baseline [framed_intros]: "framed V (update_baseline E t c)"
  by (simp add: framed_def frame_def update_baseline_def map_errM_def zoomM_def split_beta)

lemma framed_table_changed [framed_intros]: "framed V (table_changed E i)"
  unfolding table_changed_def split_beta by (intro framed_intros)

lemma framed_update_table [framed_intros]: "framed V (update_table E i d n)"
  by (simp add: framed_def frame_def update_table_def Let_def split_beta)

lemma framed_created_string_data [framed_intros]: "framed V (created_string_data E msg)"
  by (simp add: framed_def frame_def created_string_data_def split: option.splits)

lemma framed_string_tables [framed_intros]:
  "framed V (handle_svc_create_string_table E m1)" "framed V (handle_svc_update_string_table E m2)"
  "framed V (handle_cmd_string_tables E ts)"
  unfolding handle_svc_create_string_table_def handle_svc_update_string_table_def handle_cmd_string_tables_def Let_def
  by (intro framed_intros; simp split: prod.splits)+

lemma framed_packet_entity [framed_intros]: "framed_br V (packet_entity E V classes sers i dh)"
proof -
  have "framed_br V (\<lambda>(p, br). on_entities (handle_create_with_filter (e_bits E) i classes
        (cx_cells (ps_ctx p)) (cx_instance_baseline (ps_ctx p)) sers (vi_should_track_entity V (ps_visitor p))) (p, br))"
    by (rule framed_br_pointwise) (metis case_prod_conv framed_br_lifts(3))
  then show ?thesis unfolding packet_entity_def visit_entity_def by (intro framed_intros)
qed

lemma framed_packet_entities_loop [framed_intros]: "framed_br V (packet_entities_loop E V classes sers n i)"
  by (induction n arbitrary: i) (auto simp: Let_def intro!: framed_intros)

lemma framed_local_br:
  assumes "framed_br V m" shows "framed V (\<lambda>p. case m (p, b p) of (r, (p, br)) \<Rightarrow> (r, p))"
  using assms by (auto simp: framed_def framed_br_def split_beta)

lemma framed_packet_entities [framed_intros]: "framed V (handle_svc_packet_entities E V msg)"
  unfolding handle_svc_packet_entities_def split_beta [of _ "_ :: entity_classes option \<times> serializer_map option"]
  by (intro framed_intros framed_local_br)

lemma framed_server_info [framed_intros]: "framed V (handle_svc_server_info t)"
  by (auto simp: handle_svc_server_info_def framed_def frame_def Let_def retM_def split: option.split)

lemma framed_packet_message [framed_intros]:
  fixes V :: "('v, 'e) visitor"
  shows "framed V (packet_message E V c b :: ('d, 'v, 'e, unit) parser_rm)"
proof (rule framed_pointwise)
  fix p :: "('d, 'v) parser"
  have fm: "framed V (if c = e_svc_create_string_table E then
       decode_msg (handle_svc_create_string_table E) (e_decode_create_string_table E b)
     else if c = e_svc_update_string_table E then
       decode_msg (handle_svc_update_string_table E) (e_decode_update_string_table E b)
     else if c = e_svc_packet_entities E \<and> \<not> ps_skip_entity_packets p then
       decode_msg (handle_svc_packet_entities E V) (e_decode_packet_entities E b)
     else if c = e_svc_server_info E then
       decode_msg handle_svc_server_info (e_decode_server_info E b)
     else retM ())" (is "framed V ?m")
    unfolding decode_msg_def by (intro framed_intros)
  show "\<exists>m. framed V m \<and> packet_message E V c b p = m p"
    by (intro exI [of _ ?m] conjI, rule fm) (simp add: packet_message_def retM_def)
qed

lemma framed_read_message [framed_intros]:
  fixes V :: "('v, 'e) visitor"
  shows "framed_br V (read_message B n :: ('s, 'd, 'v, 'e, u8 list) packet_rm)"
proof (rule framed_br_pointwise)
  fix p :: "('d, 'v) parser" and br :: "'s bit_reader"
  let ?m = "bindM (liftO (slice_to (ps_buf p) n)) (\<lambda>buf. bindM (on_packet_bits (read_bytes B buf)) (\<lambda>buf (p, br).
     (Ok buf, (p\<lparr>ps_buf := buf @ drop n (ps_buf p)\<rparr>, br))))"
  have "framed_br V ?m" by (intro framed_intros) (simp add: framed_br_def frame_def)
  then show "\<exists>m. framed_br V m \<and> read_message B n (p, br) = m (p, br)"
    by (intro exI [of _ ?m]) (simp add: read_message_def)
qed

lemma framed_packet_loop [framed_intros]:
  fixes V :: "('v, 'e) visitor" and E :: "('s, 'c) env"
  shows "framed_br V (packet_loop E V fuel :: ('s, 'd, 'v, 'e, unit) packet_rm)"
proof (induction fuel)
  case (Suc fuel)
  let ?m = "\<lambda>b. (if b then
       bindM (on_packet_bits (read_ubitvar (e_bits E))) (\<lambda>command.
       bindM (on_packet_bits (read_uvarint32 (e_bits E))) (\<lambda>n.
       bindM (read_message (e_bits E) (unat n)) (\<lambda>buf.
       seqM (on_parser (visit (\<lambda>ctx. vi_on_packet V ctx command buf)))
       (seqM (on_parser (packet_message E V command buf)) (packet_loop E V fuel)))))
     else retM ()) :: ('s, 'd, 'v, 'e, unit) packet_rm"
  have 1: "framed_br V (?m b)" for b by (intro framed_intros Suc)
  have 2: "packet_loop E V (Suc fuel) (p, br) = ?m (num_bits_left (e_bits E) br > 8) (p, br)" for p br
    unfolding packet_loop.simps prod.case retM_run [symmetric] by (rule if_distribR [symmetric])
  show ?case by (rule framed_br_pointwise) (rule exI, rule conjI [OF 1 2])
qed (simp add: framed_intros del: liftO_Ok)

lemma framed_cmd_packet [framed_intros]: "framed V (handle_cmd_packet E V data)"
  unfolding handle_cmd_packet_def Let_def by (intro framed_local_br framed_intros)

lemma framed_full_packet [framed_intros]: "framed V (handle_cmd_full_packet E V cmd)"
  unfolding handle_cmd_full_packet_def by (intro framed_intros)

lemma framed_init [framed_intros]: "framed V (handle_send_tables E d)" "framed V (handle_class_info E names)"
  unfolding handle_send_tables_def handle_class_info_def Let_def by (intro framed_intros; simp)+

lemma framed_match_cmd [framed_intros]: "framed V (match_cmd E D V cmd b)"
  unfolding match_cmd_def Let_def by (intro framed_intros)

text \<open>What a command does to the stream, the visitor and the tick: it reads its body and calls \<open>on_cmd\<close>.\<close>

lemma handle_cmd_frame:
  assumes "handle_cmd E D V h p = (Ok (), p')"
  obtains b d v where "ds_read_cmd D h (ps_demo_stream p) = (Ok b, d)"
    "vi_on_cmd V (ps_ctx p) h b (ps_visitor p) = (Ok (), v)"
    "frame V (p\<lparr>ps_demo_stream := d, ps_visitor := v\<rparr>) p'"
proof (rule bindM_OkE [OF assms [unfolded handle_cmd_def]], elim bindM_OkE [of "visit _"])
  fix b p1 u p2
  assume r: "on_stream PeCmd (ds_read_cmd D h) p = (Ok b, p1)"
    and c: "visit (\<lambda>ctx. vi_on_cmd V ctx h b) p1 = (Ok u, p2)"
    and m: "match_cmd E D V (ch_cmd h) b p2 = (Ok (), p')"
  obtain d where d: "ds_read_cmd D h (ps_demo_stream p) = (Ok b, d)" "p1 = p\<lparr>ps_demo_stream := d\<rparr>"
    using r by (auto simp: on_stream_def zoomM_Ok_iff)
  obtain v where v: "vi_on_cmd V (ps_ctx p) h b (ps_visitor p) = (Ok (), v)" "p2 = p1\<lparr>ps_visitor := v\<rparr>"
    using c d by (auto simp: visit_def zoomM_Ok_iff)
  show thesis by (rule that [OF d(1) v(1)]) (use framedD [OF framed_match_cmd m] d v in simp)
qed

subsection \<open>One round of a run\<close>

lemma zoom_stream_iff:
  "zoomM ps_demo_stream (\<lambda>d p. p\<lparr>ps_demo_stream := d\<rparr>) m p = (r, p') \<longleftrightarrow>
   (\<exists>d. m (ps_demo_stream p) = (r, d) \<and> p' = p\<lparr>ps_demo_stream := d\<rparr>)"
  by (cases "m (ps_demo_stream p)") (auto simp: zoomM_def)

lemma on_stream_Ok_iff:
  "on_stream f m p = (Ok x, p') \<longleftrightarrow> (\<exists>d. m (ps_demo_stream p) = (Ok x, d) \<and> p' = p\<lparr>ps_demo_stream := d\<rparr>)"
  by (simp add: on_stream_def zoom_stream_iff)

lemma end_of_run_Ok_iff:
  "end_of_run D err p = (Ok u, p') \<longleftrightarrow>
   (\<exists>d. at_eof_or_default D (ps_demo_stream p) = (Ok True, d) \<and> p' = p\<lparr>ps_demo_stream := d\<rparr>)"
proof -
  obtain r :: "(io_error, bool) outcome" and d where m: "at_eof_or_default D (ps_demo_stream p) = (r, d)" by (cases "at_eof_or_default D (ps_demo_stream p)")
  then show ?thesis
    by (cases r) (simp_all add: end_of_run_def on_stream_def zoomM_def map_errM_def bindM_def retM_def errM_def, blast)
qed

definition ticked :: "i32 \<Rightarrow> ('d, 'v) parser \<Rightarrow> ('d, 'v) parser" where
  "ticked t p = p\<lparr>ps_ctx := (ps_ctx p)\<lparr>cx_prev_tick := cx_tick (ps_ctx p), cx_tick := t\<rparr>\<rparr>"

lemma set_tick_run: "set_tick t p = (Ok (), ticked t p)"
  by (simp add: set_tick_def change_ctx_def ticked_def)

lemma ticked_simps [simp]:
  "ps_demo_stream (ticked t p) = ps_demo_stream p" "ps_visitor (ticked t p) = ps_visitor p"
  "ps_skip_entity_packets (ticked t p) = ps_skip_entity_packets p"
  "cx_tick (ps_ctx (ticked t p)) = t" "cx_prev_tick (ps_ctx (ticked t p)) = cx_tick (ps_ctx p)"
  by (simp_all add: ticked_def)

lemma run_seekableE:
  fixes V :: "('v, 'e) visitor" and p :: "('d, 'v) parser"
  assumes "run_seekable E D V handler fuel h p = (Ok (), p')"
  obtains (eof) err d d' where "ds_read_cmd_header D (ps_demo_stream p) = (Err err, d)"
      "at_eof_or_default D d = (Ok True, d')" "p' = p\<lparr>ps_demo_stream := d'\<rparr>"
  | (stop) cmd d h' p1 d' where "ds_read_cmd_header D (ps_demo_stream p) = (Ok cmd, d)"
      "handler h cmd (ticked (ch_tick cmd) (p\<lparr>ps_demo_stream := d\<rparr>)) = (Ok (None, h'), p1)"
      "unread_cmd_header D cmd (ps_demo_stream p1) = (Ok (), d')" "ps_demo_stream p' = d'" "ps_visitor p' = ps_visitor p1"
      "cx_tick (ps_ctx p') = cx_prev_tick (ps_ctx p1)"
  | (go) fuel' cmd d cf h' p1 p2 where "fuel = Suc fuel'" "ds_read_cmd_header D (ps_demo_stream p) = (Ok cmd, d)"
      "handler h cmd (ticked (ch_tick cmd) (p\<lparr>ps_demo_stream := d\<rparr>)) = (Ok (Some cf, h'), p1)"
      "dispatch E D V cf cmd p1 = (Ok (), p2)" "run_seekable E D V handler fuel' h' p2 = (Ok (), p')"
proof (cases fuel)
  case (Suc fuel')
  obtain r d where rd: "ds_read_cmd_header D (ps_demo_stream p) = (r, d)" by (cases "ds_read_cmd_header D (ps_demo_stream p)")
  then have z: "zoomM ps_demo_stream (\<lambda>d p. p\<lparr>ps_demo_stream := d\<rparr>) (ds_read_cmd_header D) p = (r, p\<lparr>ps_demo_stream := d\<rparr>)"
    by (simp add: zoom_stream_iff)
  show thesis
  proof (cases r)
    case (Ok cmd)
    obtain x p1 where hd: "handler h cmd (ticked (ch_tick cmd) (p\<lparr>ps_demo_stream := d\<rparr>)) = (Ok x, p1)"
      and rest: "(case x of (cf, h') \<Rightarrow> case cf of
          Some cf \<Rightarrow> seqM (dispatch E D V cf cmd) (run_seekable E D V handler fuel' h')
        | None \<Rightarrow> seqM (on_stream PeIo (unread_cmd_header D cmd))
            (change_ctx (\<lambda>ctx. ctx\<lparr>cx_tick := cx_prev_tick ctx\<rparr>))) p1 = (Ok (), p')"
      using assms z by (auto simp: Suc Ok bindM_run(1) [OF set_tick_run] elim: bindM_OkE)
    obtain cf h' where x: "x = (cf, h')" by (cases x)
    show thesis
    proof (cases cf)
      case None
      with rest x obtain d' where "unread_cmd_header D cmd (ps_demo_stream p1) = (Ok (), d')"
        "p' = p1\<lparr>ps_demo_stream := d', ps_ctx := (ps_ctx p1)\<lparr>cx_tick := cx_prev_tick (ps_ctx p1)\<rparr>\<rparr>"
        by (auto simp: bindM_Ok_iff on_stream_Ok_iff change_ctx_def)
      then show thesis by (intro stop [of cmd d h' p1 d']) (use rd Ok hd x None in simp_all)
    next
      case (Some cf')
      with rest x obtain u p2 where "dispatch E D V cf' cmd p1 = (Ok u, p2)" "run_seekable E D V handler fuel' h' p2 = (Ok (), p')"
        by (auto elim: bindM_OkE)
      then show thesis by (intro go [OF Suc, of cmd d cf' h' p1 p2]) (use rd Ok hd Some x in simp_all)
    qed
  next
    case (Err err)
    have "(end_of_run D err :: ('d, 'v, 'e, unit) parser_rm) (p\<lparr>ps_demo_stream := d\<rparr>) = (Ok (), p')" using assms z by (simp add: Suc Err)
    with eof rd Err show thesis by (auto simp: end_of_run_Ok_iff)
  qed (use assms z Suc in simp_all)
qed (use assms in simp)

text \<open>A plain run is a seekable run whose handler never stops.\<close>

lemma run_as_seekable:
  "run E D V handler fuel h =
   run_seekable E D V (\<lambda>h cmd. bindM (handler h cmd) (\<lambda>(cf, h). retM (Some cf, h))) fuel h"
proof (induction fuel arbitrary: h)
  case (Suc fuel)
  have *: "bindM (bindM (handler h cmd) (\<lambda>(cf, h). retM (Some cf, h)))
      (\<lambda>(cf, h). case cf of Some cf \<Rightarrow> seqM (dispatch E D V cf cmd) (g h) | None \<Rightarrow> k)
    = bindM (handler h cmd) (\<lambda>(cf, h). seqM (dispatch E D V cf cmd) (g h))" for h cmd g k
    unfolding bindM_assoc by (rule arg_cong [of _ _ "bindM _"]) auto
  show ?case unfolding run.simps run_seekable.simps Suc * ..
qed simp

subsection \<open>Runs over a stream that meets the contract\<close>

text \<open>The visitor that records the commands it is shown while it is collecting.\<close>

definition record_cmd :: "cmd_header \<Rightarrow> bool \<times> cmd_header list \<Rightarrow> bool \<times> cmd_header list" where
  "record_cmd h = (\<lambda>(collecting, hs). (collecting, if collecting then hs @ [h] else hs))"

definition recorder :: "(bool \<times> cmd_header list, 'e) visitor" where
  "recorder = visitor_default\<lparr>vi_set_collecting := \<lambda>b (_, hs). (b, hs),
     vi_on_cmd := \<lambda>ctx h data v. (Ok (), record_cmd h v)\<rparr>"

lemma recorder_simps [simp]:
  "vi_on_cmd recorder ctx h b v = (Ok (), record_cmd h v)" "vi_on_tick_end recorder ctx v = (Ok (), v)"
  "vi_set_collecting recorder on v = (on, snd v)" "silent recorder"
  by (simp_all add: recorder_def visitor_default_def silent_def retM_def split_beta)

lemma visit_tick_end_Ok:
  "visit (vi_on_tick_end V) p = (Ok (), p') \<Longrightarrow>
   \<exists>v. vi_on_tick_end V (ps_ctx p) (ps_visitor p) = (Ok (), v) \<and> p' = p\<lparr>ps_visitor := v\<rparr>"
  by (auto simp: visit_def zoomM_Ok_iff)

context stream_contract
begin

abbreviation pos :: "('d, 'v) parser \<Rightarrow> 'p" where "pos p \<equiv> view (ps_demo_stream p)"

lemma dispatch_pos:
  assumes "dispatch E D V cf h p = (Ok (), p')" "cf \<noteq> CfIgnore"
  shows "pos p' = after h (pos p) \<and> cx_tick (ps_ctx p') = cx_tick (ps_ctx p)
    \<and> cx_prev_tick (ps_ctx p') = cx_prev_tick (ps_ctx p)"
proof (cases cf)
  case CfHandle
  obtain p1 where c: "handle_cmd E D V h p = (Ok (), p1)"
    and t: "(if cx_prev_tick (ps_ctx p1) \<noteq> cx_tick (ps_ctx p1) then visit (vi_on_tick_end V) else retM ()) p1 = (Ok (), p')"
    using assms CfHandle by (auto simp: dispatch_def bindM_Ok_iff get_ctx_def)
  obtain b d v where "ds_read_cmd D h (ps_demo_stream p) = (Ok b, d)"
    "frame V (p\<lparr>ps_demo_stream := d, ps_visitor := v\<rparr>) p1" by (rule handle_cmd_frame [OF c])
  with t body_law show ?thesis by (auto simp: frame_def dest!: visit_tick_end_Ok split: if_splits)
next
  case CfSkip
  with assms skip_law show ?thesis by (auto simp: dispatch_def on_stream_Ok_iff)
qed (use assms in simp)

lemma dispatch_recorder:
  assumes "dispatch E D V cf h p = (Ok (), p')" and V: "V = recorder"
  shows "ps_visitor p' = (if cf = CfHandle then record_cmd h (ps_visitor p) else ps_visitor p)"
proof (cases cf)
  case CfHandle
  obtain p1 where c: "handle_cmd E D V h p = (Ok (), p1)"
    and t: "(if cx_prev_tick (ps_ctx p1) \<noteq> cx_tick (ps_ctx p1) then visit (vi_on_tick_end V) else retM ()) p1 = (Ok (), p')"
    using assms CfHandle by (auto simp: dispatch_def bindM_Ok_iff get_ctx_def)
  obtain b d v where "vi_on_cmd V (ps_ctx p) h b (ps_visitor p) = (Ok (), v)"
    "frame V (p\<lparr>ps_demo_stream := d, ps_visitor := v\<rparr>) p1" by (rule handle_cmd_frame [OF c])
  with t CfHandle show ?thesis by (auto simp: V frame_def dest!: visit_tick_end_Ok split: if_splits)
qed (use assms in \<open>auto simp: dispatch_def on_stream_Ok_iff\<close>)

lemma reset_Ok:
  assumes "parser_reset D p = (Ok (), p')"
  shows "pos p' = start (pos p) \<and> ps_visitor p' = ps_visitor p \<and> cx_tick (ps_ctx p') = - 1
    \<and> ps_skip_entity_packets p' = ps_skip_entity_packets p"
  using assms start_law by (auto simp: parser_reset_def bindM_Ok_iff zoom_stream_iff)

end

subsection \<open>The commands of a full packet\<close>

definition is_full_packet :: "demo_commands \<Rightarrow> cmd_header \<Rightarrow> bool" where
  "is_full_packet C h \<longleftrightarrow> ch_cmd h = dc_full_packet C"

text \<open>What the run for an ordinal records, from the state of its handler.\<close>

fun recorded :: "demo_commands \<Rightarrow> nat \<Rightarrow> nat \<Rightarrow> bool \<Rightarrow> cmd_header list \<Rightarrow> cmd_header list" where
  "recorded C k n c [] = []"
| "recorded C k n c (h # hs) =
     (if is_full_packet C h then
        (if n < k then recorded C k (Suc n) c hs
         else if n = k then h # recorded C k (Suc n) True hs
         else [])
      else if c then h # recorded C k n c hs
      else recorded C k n c hs)"

context stream_contract
begin

lemma run_full_packet_loop:
  assumes V: "V = recorder"
  shows "\<lbrakk>run_seekable E D V (run_full_packet_handler C V k) fuel (n, c) p = (Ok (), p');
      commands_from header_at after at_end (pos p) hs; fst (ps_visitor p) = c\<rbrakk> \<Longrightarrow>
    snd (ps_visitor p') = snd (ps_visitor p) @ recorded C k n c hs"
proof (induction fuel arbitrary: n c p hs)
  case (Suc fuel)
  from Suc.prems(1) show ?case
  proof (cases rule: run_seekableE)
    case (eof err d d')
    with header_law have "header_at (pos p) = (Err err, view d)" by blast
    with commands_from_eof [OF Suc.prems(2)] eof(3) show ?thesis by simp
  next
    case (stop cmd d h' p1 d')
    with header_law have "header_at (pos p) = (Ok cmd, view d)" by blast
    with commands_from_cmd [OF Suc.prems(2)] obtain hs' where "hs = cmd # hs'" by blast
    with stop show ?thesis
      by (auto simp: run_full_packet_handler_def is_full_packet_def set_collecting_def bindM_def retM_def split: if_splits)
  next
    case (go fuel' cmd d cf h' p1 p2)
    with header_law have "header_at (pos p) = (Ok cmd, view d)" by blast
    with commands_from_cmd [OF Suc.prems(2)] obtain hs' where hs: "hs = cmd # hs'"
      and rest: "commands_from header_at after at_end (after cmd (view d)) hs'" by blast
    obtain n' c' where h': "h' = (n', c')" by (cases h')
    have p1: "ps_demo_stream p1 = d" "snd (ps_visitor p1) = snd (ps_visitor p)" "fst (ps_visitor p1) = c'" "cf \<noteq> CfIgnore"
      and rec: "recorded C k n c hs = (if cf = CfHandle \<and> c' then cmd # recorded C k n' c' hs' else recorded C k n' c' hs')"
      using go(3) Suc.prems(3) V
      by (auto simp: h' hs run_full_packet_handler_def is_full_packet_def set_collecting_def bindM_def retM_def
          split: if_splits)
    have p2: "pos p2 = after cmd (view d)" using dispatch_pos [OF go(4) p1(4)] p1(1) by simp
    have v2: "ps_visitor p2 = (if cf = CfHandle then record_cmd cmd (ps_visitor p1) else ps_visitor p1)"
      by (rule dispatch_recorder [OF go(4) V])
    have "snd (ps_visitor p') = snd (ps_visitor p2) @ recorded C k n' c' hs'"
      by (rule Suc.IH) (use go(1,5) h' p2 v2 p1 rest in \<open>auto simp: record_cmd_def split_beta\<close>)
    with v2 rec p1 show ?thesis by (auto simp: record_cmd_def split_beta)
  qed
qed simp

lemma run_full_packet_records:
  assumes "run_full_packet E D V fuel k p = (Ok (), p')" and V: "V = recorder"
    and hs: "commands_from header_at after at_end (start (pos p)) hs" and v: "fst (ps_visitor p)"
  shows "snd (ps_visitor p') = snd (ps_visitor p) @ recorded (e_cmds E) k 0 (k = 0) hs"
proof -
  define collect :: "('d, bool \<times> cmd_header list) parser \<Rightarrow> ('d, bool \<times> cmd_header list) parser" where "collect = (\<lambda>p. if k \<noteq> 0 then p\<lparr>ps_visitor := vi_set_collecting V False (ps_visitor p),
      ps_skip_entity_packets := True\<rparr> else p)"
  have c: "(if k \<noteq> 0 then set_collecting V False else retM ()) p = (Ok (), collect p)" for p :: "('d, _) parser"
    by (simp add: collect_def set_collecting_def)
  obtain p1 where reset: "parser_reset D p = (Ok (), p1)"
    and main: "(case run_seekable E D V (run_full_packet_handler (e_cmds E) V k) fuel (0, k = 0) (collect p1) of
         (r, p) \<Rightarrow> (r, p\<lparr>ps_skip_entity_packets := False\<rparr>)) = (Ok (), p')"
    using assms(1) by (auto simp: run_full_packet_def bindM_Ok_iff c [simplified])
  define p2 where "p2 = collect p1"
  obtain r where run: "run_seekable E D V (run_full_packet_handler (e_cmds E) V k) fuel (0, k = 0) p2 = (Ok (), r)"
    and p': "p' = r\<lparr>ps_skip_entity_packets := False\<rparr>"
    using main by (auto simp: p2_def split_beta prod_eq_iff)
  have "pos p2 = start (pos p)" "fst (ps_visitor p2) = (k = 0)" "snd (ps_visitor p2) = snd (ps_visitor p)"
    using reset_Ok [OF reset] v V by (auto simp: p2_def collect_def)
  with run_full_packet_loop [OF V run] hs p' show ?thesis by auto
qed

lemma run_to_end_records:
  assumes V: "V = recorder"
  shows "\<lbrakk>run_to_end E D V fuel p = (Ok (), p'); fst (ps_visitor p)\<rbrakk> \<Longrightarrow>
    \<exists>hs. commands_from header_at after at_end (pos p) hs \<and> ps_visitor p' = (True, snd (ps_visitor p) @ hs)"
  unfolding run_to_end_def run_as_seekable
proof (induction fuel arbitrary: p)
  case (Suc fuel)
  from Suc.prems(1) show ?case
  proof (cases rule: run_seekableE)
    case (eof err d d')
    with header_law have "header_at (pos p) = (Err err, view d)" by blast
    moreover have "at_end (view d)" using eof_law [OF eof(2)] by simp
    ultimately show ?thesis using eof(3) Suc.prems(2)
      by (intro exI [of _ "[]"]) (auto simp: prod_eq_iff intro: commands_from.no_more)
  next
    case (go fuel' cmd d cf h' p1 p2)
    with header_law have h: "header_at (pos p) = (Ok cmd, view d)" by blast
    have p1: "p1 = ticked (ch_tick cmd) (p\<lparr>ps_demo_stream := d\<rparr>)" "cf = CfHandle" using go(3) by auto
    have "pos p2 = after cmd (view d)" "ps_visitor p2 = (True, snd (ps_visitor p) @ [cmd])"
      using dispatch_pos [OF go(4)] dispatch_recorder [OF go(4) V] p1 Suc.prems(2)
      by (auto simp: record_cmd_def split_beta prod_eq_iff)
    with Suc.IH [of p2] go(1,5) obtain hs where "commands_from header_at after at_end (after cmd (view d)) hs"
      "ps_visitor p' = (True, snd (ps_visitor p) @ cmd # hs)" by auto
    moreover have "commands_from header_at after at_end (pos p) (cmd # hs)"
      by (rule commands_from.one_more) (use h calculation in auto)
    ultimately show ?thesis by blast
  qed simp
qed simp

lemma scan_loop_ticks:
  "\<lbrakk>(scan_full_packets E D fuel ticks :: ('d, 'v, 'e, i32 list) parser_rm) p = (Ok ts, p'); commands_from header_at after at_end (pos p) hs\<rbrakk> \<Longrightarrow>
    ts = ticks @ map ch_tick (filter (is_full_packet (e_cmds E)) hs)"
proof (induction fuel arbitrary: ticks p hs)
  case (Suc fuel)
  obtain r d where rd: "ds_read_cmd_header D (ps_demo_stream p) = (r, d)" by (cases "ds_read_cmd_header D (ps_demo_stream p)")
  then have z: "zoomM ps_demo_stream (\<lambda>d p. p\<lparr>ps_demo_stream := d\<rparr>) (ds_read_cmd_header D) p = (r, p\<lparr>ps_demo_stream := d\<rparr>)"
    by (simp add: zoom_stream_iff)
  have h: "header_at (pos p) = (r, view d)" by (rule header_law [OF rd])
  show ?case
  proof (cases r)
    case (Ok cmd)
    from commands_from_cmd [OF Suc.prems(2), of cmd "view d"] h Ok obtain hs' where hs: "hs = cmd # hs'"
      and rest: "commands_from header_at after at_end (after cmd (view d)) hs'" by auto
    define ticks' where "ticks' = (if ch_cmd cmd = dc_full_packet (e_cmds E) then ticks @ [ch_tick cmd] else ticks)"
    obtain d2 where sk: "ds_skip_cmd D cmd d = (Ok (), d2)"
      and run: "(scan_full_packets E D fuel ticks' :: ('d, 'v, 'e, i32 list) parser_rm) (p\<lparr>ps_demo_stream := d2\<rparr>) = (Ok ts, p')"
      using Suc.prems(1) z by (auto simp: Ok ticks'_def bindM_Ok_iff on_stream_Ok_iff)
    have "ts = ticks' @ map ch_tick (filter (is_full_packet (e_cmds E)) hs')"
      by (rule Suc.IH [OF run]) (use skip_law [OF sk] rest in simp)
    then show ?thesis using is_full_packet_def [of "e_cmds E" cmd] by (simp add: hs ticks'_def)
  next
    case (Err err)
    with Suc.prems(1) z have "ts = ticks" by (auto simp: bindM_Ok_iff)
    with commands_from_eof [OF Suc.prems(2), of err "view d"] h Err show ?thesis by simp
  qed (use Suc.prems(1) z in simp_all)
qed simp

lemma scan_ticks:
  fixes p :: "('d, 'v) parser"
  assumes "(scan_full_packet_ticks E D fuel :: ('d, 'v, 'e, i32 list) parser_rm) p = (Ok ts, p')"
    and "commands_from header_at after at_end (start (pos p)) hs"
  shows "ts = map ch_tick (filter (is_full_packet (e_cmds E)) hs)"
proof -
  obtain p1 p2 where "parser_reset D p = (Ok (), p1)"
    "(scan_full_packets E D fuel [] :: ('d, 'v, 'e, i32 list) parser_rm) p1 = (Ok ts, p2)"
    using assms(1) by (auto simp: scan_full_packet_ticks_def bindM_Ok_iff)
  with scan_loop_ticks [of E fuel "[]" p1 ts p2 hs] reset_Ok [of p p1] assms(2) show ?thesis by auto
qed

end

text \<open>The recorded segments of all ordinals, in order, are the commands of the demo.\<close>

lemma recorded_past: "k < n \<Longrightarrow> recorded C k n True hs = takeWhile (\<lambda>h. \<not> is_full_packet C h) hs"
  by (induction hs) auto

lemma recorded_later:
  "concat (map (\<lambda>k. recorded C k n False hs) [n..<n + length (filter (is_full_packet C) hs)])
    = dropWhile (\<lambda>h. \<not> is_full_packet C h) hs"
proof (induction hs arbitrary: n)
  case (Cons h hs)
  show ?case
  proof (cases "is_full_packet C h")
    case True
    let ?m = "length (filter (is_full_packet C) hs)"
    have up: "[n..<n + Suc ?m] = n # [Suc n..<Suc n + ?m]" by (simp add: upt_rec)
    have later: "map (\<lambda>k. recorded C k n False (h # hs)) [Suc n..<Suc n + ?m]
        = map (\<lambda>k. recorded C k (Suc n) False hs) [Suc n..<Suc n + ?m]"
      using True by (intro map_cong) auto
    have count: "length (filter (is_full_packet C) (h # hs)) = Suc ?m" using True by simp
    have first: "recorded C n n False (h # hs) = h # takeWhile (\<lambda>h. \<not> is_full_packet C h) hs"
      using True recorded_past [of n "Suc n" C hs] by simp
    show ?thesis unfolding count up list.map concat.simps later first Cons.IH using True by simp
  qed (use Cons.IH [of n] in simp)
qed simp

lemma recorded_first:
  "recorded C 0 0 True hs = takeWhile (\<lambda>h. \<not> is_full_packet C h) hs @ recorded C 0 0 False hs"
  by (induction hs) auto

lemma recorded_none: "filter (is_full_packet C) hs = [] \<Longrightarrow> recorded C 0 0 True hs = hs"
  by (induction hs) (auto split: if_splits)

lemma recorded_partition:
  "concat (map (\<lambda>k. recorded C k 0 (k = 0) hs) [0..<max 1 (length (filter (is_full_packet C) hs))]) = hs"
proof (cases "filter (is_full_packet C) hs = []")
  case True
  then show ?thesis by (simp add: recorded_none)
next
  case False
  define m where "m = length (filter (is_full_packet C) hs)"
  have m: "m > 0" using False by (simp add: m_def)
  then have up: "[0..<m] = 0 # [Suc 0..<m]" by (simp add: upt_rec)
  have eq: "map (\<lambda>k. recorded C k 0 (k = 0) hs) [Suc 0..<m] = map (\<lambda>k. recorded C k 0 False hs) [Suc 0..<m]"
    by (intro map_cong) auto
  have "recorded C 0 0 False hs @ concat (map (\<lambda>k. recorded C k 0 (k = 0) hs) [Suc 0..<m])
      = dropWhile (\<lambda>h. \<not> is_full_packet C h) hs"
    unfolding eq using recorded_later [of C 0 hs] by (simp add: m_def [symmetric] up)
  with m show ?thesis by (simp add: m_def [symmetric] up recorded_first max_def)
qed

end
