(* ===== verification/ParserRuns.thy ===== *)
theory ParserRuns
  imports ParserLaws FieldMetadataLaws
begin

text \<open>
  Whole runs of the parser over demo files: where \<open>run_to_tick\<close> stops, what \<open>scan_full_packet_ticks\<close> lists, and
  that the runs for the single full packets divide the demo among them.
\<close>

subsection \<open>Running to a tick\<close>

lemma visit_keeps: "visit m p = (r, p') \<Longrightarrow> ps_demo_stream p' = ps_demo_stream p \<and> ps_ctx p' = ps_ctx p"
  by (auto simp: visit_def map_errM_def zoomM_def split: prod.splits)

context stream_contract
begin

lemma seek_full_packet_Ok:
  fixes V :: "('v, 'e) visitor" and p :: "('d, 'v) parser"
  assumes "seek_full_packet E D V h ahead p = (Ok (), p')"
  shows "pos p' = after h (pos p) \<and> cx_tick (ps_ctx p') = cx_tick (ps_ctx p)
    \<and> cx_prev_tick (ps_ctx p') = cx_prev_tick (ps_ctx p)"
  using assms unfolding seek_full_packet_def
proof (elim bindM_OkE)
  fix b p1 and u1 :: unit and p2 cmd p3 and u2 :: unit and p4
  assume rd: "on_stream PeCmd (ds_read_cmd D h) p = (Ok b, p1)"
    and v1: "visit (\<lambda>ctx. vi_on_cmd V ctx h b) p1 = (Ok u1, p2)"
    and d: "liftO (map_err PeDecodeCmd (ds_decode_cmd_full_packet D b)) p2 = (Ok cmd, p3)"
    and full: "handle_cmd_full_packet E V (if ahead then cmd\<lparr>cf_packet := None\<rparr> else cmd) p3 = (Ok u2, p4)"
    and v2: "visit (vi_on_tick_end V) p4 = (Ok (), p')"
  obtain d1 where d1: "ds_read_cmd D h (ps_demo_stream p) = (Ok b, d1)" "p1 = p\<lparr>ps_demo_stream := d1\<rparr>"
    using rd by (auto simp: on_stream_Ok_iff)
  have "p3 = p2" using d by (simp add: liftO_def)
  moreover have "frame V p3 p4" by (rule framedD [OF framed_full_packet full])
  ultimately show ?thesis using visit_keeps [OF v1] visit_keeps [OF v2] d1 body_law [OF d1(1)] by (simp add: frame_def)
qed

lemma run_to_tick_handler_Ok:
  fixes V :: "('v, 'e) visitor" and p :: "('d, 'v) parser"
  assumes "run_to_tick_handler E D V t flags cmd p = (Ok (cf, flags'), p1)"
  shows "(cf = None) = (t <s ch_tick cmd) \<and> cx_tick (ps_ctx p1) = cx_tick (ps_ctx p)
    \<and> cx_prev_tick (ps_ctx p1) = cx_prev_tick (ps_ctx p)
    \<and> pos p1 = (if cf = Some CfIgnore then after cmd (pos p) else pos p)"
proof -
  obtain a b where [simp]: "flags = (a, b)" by (cases flags)
  consider (past) "t <s ch_tick cmd" | (init) "\<not> t <s ch_tick cmd" "\<not> a"
    | (full) "\<not> t <s ch_tick cmd" "a" "ch_cmd cmd = dc_full_packet (e_cmds E)"
    | (other) "\<not> t <s ch_tick cmd" "a" "ch_cmd cmd \<noteq> dc_full_packet (e_cmds E)" by blast
  then show ?thesis
  proof cases
    case full
    let ?ahead = "cx_full_packet_interval (ps_ctx p) + 100 <s t - cx_tick (ps_ctx p)"
    have "seqM (seek_full_packet E D V cmd ?ahead) (retM (Some CfIgnore, (a, \<not> ?ahead))) p = (Ok (cf, flags'), p1)"
      using assms full by (simp add: run_to_tick_handler_def Let_def)
    then have "seek_full_packet E D V cmd ?ahead p = (Ok (), p1)" "cf = Some CfIgnore"
      by (auto simp: retM_def elim: bindM_OkE)
    then show ?thesis using seek_full_packet_Ok [of E V cmd ?ahead p p1] full(1) by simp
  qed (use assms in \<open>auto simp: run_to_tick_handler_def Let_def split: if_splits\<close>)
qed

lemma run_to_tick_loop:
  fixes V :: "('v, 'e) visitor" and p :: "('d, 'v) parser"
  assumes lawful
  shows "run_seekable E D V (run_to_tick_handler E D V t) fuel flags p = (Ok (), p') \<Longrightarrow>
    \<exists>hs r. commands_between header_at after (pos p) hs r \<and> (\<forall>h \<in> set hs. \<not> t <s ch_tick h)
      \<and> cx_tick (ps_ctx p') = last (cx_tick (ps_ctx p) # map ch_tick hs)
      \<and> (case header_at r of
           (Ok h, q) \<Rightarrow> t <s ch_tick h \<and> pos p' = r
         | (Err e, q) \<Rightarrow> at_end q
         | _ \<Rightarrow> False)"
proof (induction fuel arbitrary: flags p)
  case (Suc fuel)
  from Suc.prems show ?case
  proof (cases rule: run_seekableE)
    case (eof err d d')
    have "header_at (pos p) = (Err err, view d)" by (rule header_law [OF eof(1)])
    moreover have "at_end (view d)" using eof_law [OF eof(2)] by simp
    ultimately show ?thesis using eof(3)
      by (intro exI [of _ "[]"] exI [of _ "pos p"]) (simp add: commands_between.here)
  next
    case (stop cmd d flags' p1 d')
    have h: "header_at (pos p) = (Ok cmd, view d)" by (rule header_law [OF stop(1)])
    note p1 = run_to_tick_handler_Ok [OF stop(2)]
    have "view d' = pos p" by (rule unread_law [OF assms _ stop(3)]) (use h p1 in simp)
    then show ?thesis using stop(4,6) h p1
      by (intro exI [of _ "[]"] exI [of _ "pos p"]) (simp add: commands_between.here)
  next
    case (go fuel' cmd d cf flags' p1 p2)
    have h: "header_at (pos p) = (Ok cmd, view d)" by (rule header_law [OF go(2)])
    note p1 = run_to_tick_handler_Ok [OF go(3)]
    have p2: "pos p2 = after cmd (view d)" "cx_tick (ps_ctx p2) = ch_tick cmd"
    proof -
      have "pos p2 = (if cf = CfIgnore then pos p1 else after cmd (pos p1)) \<and> cx_tick (ps_ctx p2) = cx_tick (ps_ctx p1)"
      proof (cases "cf = CfIgnore")
        case True then show ?thesis using go(4) by (simp add: dispatch_def retM_def)
      next
        case False then show ?thesis using dispatch_pos [OF go(4)] by simp
      qed
      then show "pos p2 = after cmd (view d)" "cx_tick (ps_ctx p2) = ch_tick cmd" using p1 by (simp_all split: if_splits)
    qed
    have "run_seekable E D V (run_to_tick_handler E D V t) fuel flags' p2 = (Ok (), p')" using go(1,5) by simp
    from Suc.IH [OF this] obtain hs r where rest: "commands_between header_at after (pos p2) hs r"
      "\<forall>h \<in> set hs. \<not> t <s ch_tick h" "cx_tick (ps_ctx p') = last (cx_tick (ps_ctx p2) # map ch_tick hs)"
      "case header_at r of (Ok h, q) \<Rightarrow> t <s ch_tick h \<and> pos p' = r | (Err e, q) \<Rightarrow> at_end q | _ \<Rightarrow> False" by (elim exE conjE) (rule that)
    have "commands_between header_at after (pos p) (cmd # hs) r"
      by (rule commands_between.further) (use h rest(1) p2 in simp_all)
    with rest p1 p2 show ?thesis by (intro exI [of _ "cmd # hs"] exI [of _ r]) simp
  qed
qed simp

lemma run_to_tick_position:
  fixes V :: "('v, 'e) visitor" and p :: "('d, 'v) parser"
  assumes lawful "run_to_tick E D V fuel t p = (Ok (), p')"
  shows "\<exists>hs r. commands_between header_at after (start (pos p)) hs r \<and> (\<forall>h \<in> set hs. \<not> t <s ch_tick h)
      \<and> cx_tick (ps_ctx p') = last (- 1 # map ch_tick hs)
      \<and> (case header_at r of
           (Ok h, q) \<Rightarrow> t <s ch_tick h \<and> pos p' = r
         | (Err e, q) \<Rightarrow> at_end q
         | _ \<Rightarrow> False)"
proof -
  obtain p1 where reset: "parser_reset D p = (Ok (), p1)"
    and run: "run_seekable E D V (run_to_tick_handler E D V t) fuel (False, False) p1 = (Ok (), p')"
    using assms(2) by (auto simp: run_to_tick_def elim: bindM_OkE)
  from run_to_tick_loop [OF assms(1) run] reset_Ok [OF reset] show ?thesis by simp
qed

end

context stream_contract
begin

text \<open>Every run that ends well lists the same commands: they are determined by the position.\<close>

lemma commands_from_unique:
  "commands_from header_at after at_end q hs \<Longrightarrow> commands_from header_at after at_end q hs' \<Longrightarrow> hs' = hs"
proof (induction arbitrary: hs' rule: commands_from.induct)
  case (no_more q e q')
  then show ?case by (auto dest: commands_from_eof)
next
  case (one_more q h q' hs)
  from commands_from_cmd [OF one_more.prems one_more.hyps(1)] one_more.IH show ?case by blast
qed

lemma full_packets_concat:
  fixes p :: "('d, bool \<times> cmd_header list) parser"
  assumes all: "run_to_end E D recorder fuel p = (Ok (), p')" and start: "start (pos p) = pos p"
    and v: "ps_visitor p = (True, [])"
    and scan: "(scan_full_packet_ticks E D fuel' :: ('d, _, 'e, _) parser_rm) p = (Ok ticks, q)"
    and one: "\<forall>k < max 1 (length ticks). run_full_packet E D (recorder :: (_, 'f) visitor) (fuels k) k p = (Ok (), ps k)"
  shows "concat (map (\<lambda>k. snd (ps_visitor (ps k))) [0..<max 1 (length ticks)]) = snd (ps_visitor p')
    \<and> ticks = map ch_tick (filter (is_full_packet (e_cmds E)) (snd (ps_visitor p')))"
proof -
  obtain hs where hs: "commands_from header_at after at_end (pos p) hs" "snd (ps_visitor p') = hs"
    using run_to_end_records [OF refl all] v by auto
  have from_start: "commands_from header_at after at_end (start (pos p)) hs" using hs(1) start by simp
  have t: "ticks = map ch_tick (filter (is_full_packet (e_cmds E)) hs)" by (rule scan_ticks [OF scan from_start])
  have rec: "snd (ps_visitor (ps k)) = recorded (e_cmds E) k 0 (k = 0) hs" if "k < max 1 (length ticks)" for k
    using run_full_packet_records [OF one [rule_format, OF that] refl from_start] v by simp
  have "concat (map (\<lambda>k. snd (ps_visitor (ps k))) [0..<max 1 (length ticks)])
      = concat (map (\<lambda>k. recorded (e_cmds E) k 0 (k = 0) hs) [0..<max 1 (length ticks)])"
    by (rule arg_cong [of _ _ concat], rule map_cong) (use rec in auto)
  also have "\<dots> = hs" by (simp only: t length_map recorded_partition)
  finally have "concat (map (\<lambda>k. snd (ps_visitor (ps k))) [0..<max 1 (length ticks)]) = hs" .
  with hs t show ?thesis by simp
qed

end


subsection \<open>Demo files\<close>

text \<open>A parser that has just been created over a stream, with the recording visitor.\<close>

abbreviation recording :: "'d \<Rightarrow> ('d, bool \<times> cmd_header list) parser" where
  "recording f \<equiv> parser_from_stream f (True, [])"

text \<open>C2: the promise of \<open>run_full_packet\<close>.  For a demo file that has just been opened, the commands shown to the
  visitor by the runs for all ordinals that \<open>scan_full_packet_ticks\<close> finds, one after the other, are exactly the
  commands that one run to the end shows: none is lost, none is shown twice and the order is the same.\<close>

theorem full_packets_partition:
  assumes "rd_pos (df_rdr f) = 16"
    and "run_to_end E (demofile_stream (e_cmds E) uv (e_snap E) P) (recorder :: (_, 'e) visitor) fuel
      (recording f) = (Ok (), p)"
    and "(scan_full_packet_ticks E (demofile_stream (e_cmds E) uv (e_snap E) P) fuel'
      :: (_, _, 'e, i32 list) parser_rm) (recording f) = (Ok ticks, q)"
    and "\<forall>k < max 1 (length ticks).
      run_full_packet E (demofile_stream (e_cmds E) uv (e_snap E) P) (recorder :: (_, 'e) visitor) (fuels k) k
        (recording f) = (Ok (), ps k)"
  shows "concat (map (\<lambda>k. snd (ps_visitor (ps k))) [0..<max 1 (length ticks)]) = snd (ps_visitor p)"
proof -
  let ?p = "recording f"
  have "ps_demo_stream ?p = f" "ps_visitor ?p = (True, [])" by (simp_all add: parser_from_stream_def)
  moreover have "(df_rdr f)\<lparr>rd_pos := 16\<rparr> = df_rdr f" using assms(1) by simp
  ultimately show ?thesis by (intro df.full_packets_concat [OF assms(2) _ _ assms(3,4), THEN conjunct1]) simp_all
qed

text \<open>C35: \<open>scan_full_packet_ticks\<close> reads headers only, yet it lists the ticks of exactly the full packets that a
  run to the end handles, in their order.\<close>

theorem scan_lists_full_packets:
  assumes "rd_pos (df_rdr f) = 16"
    and "run_to_end E (demofile_stream (e_cmds E) uv (e_snap E) P) (recorder :: (_, 'e) visitor) fuel
      (recording f) = (Ok (), p)"
    and "(scan_full_packet_ticks E (demofile_stream (e_cmds E) uv (e_snap E) P) fuel'
      :: (_, _, 'e, i32 list) parser_rm) (recording f) = (Ok ticks, q)"
  shows "ticks = map ch_tick (filter (is_full_packet (e_cmds E)) (snd (ps_visitor p)))"
proof -
  let ?p = "recording f"
  have p: "ps_demo_stream ?p = f" "ps_visitor ?p = (True, [])" by (simp_all add: parser_from_stream_def)
  have start: "(df_rdr f)\<lparr>rd_pos := 16\<rparr> = df_rdr f" using assms(1) by simp
  obtain hs where "commands_from (varint_cmd_header (e_cmds E) uv) behind rdr_at_end (df_rdr f) hs" "snd (ps_visitor p) = hs"
    using df.run_to_end_records [OF refl assms(2)] p by auto
  moreover from this(1) have "commands_from (varint_cmd_header (e_cmds E) uv) behind rdr_at_end
      ((df_rdr (ps_demo_stream ?p))\<lparr>rd_pos := 16\<rparr>) hs" using p start by simp
  ultimately show ?thesis using df.scan_ticks [OF assms(3)] by simp
qed

text \<open>C4: \<open>run_to_tick\<close> stops in front of the first command behind the target tick, with every command before
  it read and the tick of the last of them in the context; if there is no such command it stops at the end
  of the file.\<close>

theorem run_to_tick_stops:
  assumes "counts_bytes uv"
    and "run_to_tick E (demofile_stream C uv Z P) V fuel t p = (Ok (), p')"
  shows "\<exists>hs r. commands_between (varint_cmd_header C uv) behind ((df_rdr (ps_demo_stream p))\<lparr>rd_pos := 16\<rparr>) hs r
      \<and> (\<forall>h \<in> set hs. \<not> t <s ch_tick h)
      \<and> cx_tick (ps_ctx p') = last (- 1 # map ch_tick hs)
      \<and> (case varint_cmd_header C uv r of
           (Ok h, q) \<Rightarrow> t <s ch_tick h \<and> df_rdr (ps_demo_stream p') = r
         | (Err e, q) \<Rightarrow> rdr_at_end q
         | _ \<Rightarrow> False)"
  by (rule df.run_to_tick_position [OF assms])


subsection \<open>An example\<close>

definition leb :: varint_consts where "leb = \<lparr>vc_continue_bit = 0x80, vc_payload_bits = 0x7F, vc_max_size = 5\<rparr>"

definition example_cmds :: demo_commands where
  "example_cmds = \<lparr>dc_known = (\<lambda>c. c < 14), dc_is_compressed = 64, dc_packet = 7, dc_signon_packet = 8,
     dc_send_tables = 4, dc_class_info = 5, dc_full_packet = 13, dc_sync_tick = 3\<rparr>"

definition example_env where
  "example_env = \<lparr>e_bits = ref_bitbuf, e_snap = \<lparr>snap_decompress = (\<lambda>_ _. None), snap_decompress_len = (\<lambda>_. None)\<rparr>,
     e_uvarint64 = (\<lambda>_. None), e_flattened = (\<lambda>_. None), e_charsor = ref_charsor, e_from_utf8 = (\<lambda>_. None),
     e_enum = (\<lambda>_. []), e_log2 = (\<lambda>x. x), e_cmds = example_cmds, e_svc_create_string_table = 44,
     e_svc_update_string_table = 45, e_svc_packet_entities = 55, e_svc_server_info = 40,
     e_decode_create_string_table = (\<lambda>_. None), e_decode_update_string_table = (\<lambda>_. None),
     e_decode_packet_entities = (\<lambda>_. None), e_decode_server_info = (\<lambda>_. None)\<rparr>"

text \<open>A sync tick, two full packets and a command after each, all with empty bodies.\<close>

definition example_demo :: "nat demo_file" where
  "example_demo = \<lparr>df_rdr = \<lparr>rd_data = replicate 16 0 @ [3, 0, 0, 13, 1, 0, 1, 2, 0, 13, 3, 0, 1, 4, 0], rd_pos = 16\<rparr>,
     df_buf = [], df_demo_header = \<lparr>dh_demofilestamp = DEMO_HEADER_ID, dh_fileinfo_offset = 0, dh_spawngroups_offset = 0\<rparr>,
     df_file_info = None\<rparr>"

definition example_protos :: "nat proto_decoders" where
  "example_protos = \<lparr>pr_send_tables = (\<lambda>_. None), pr_class_info = (\<lambda>_. None), pr_packet = (\<lambda>_. None),
     pr_full_packet = (\<lambda>_. Some \<lparr>cf_string_table = None, cf_packet = None\<rparr>), pr_file_info = (\<lambda>_. None),
     pr_playback_ticks = (\<lambda>_. 0)\<rparr>"

text \<open>A reader of the example at a position.\<close>

definition example_at :: "nat \<Rightarrow> reader" where
  "example_at n = (df_rdr example_demo)\<lparr>rd_pos := n\<rparr>"

definition example_header :: "i32 \<Rightarrow> i32 \<Rightarrow> cmd_header" where
  "example_header cmd tick = \<lparr>ch_cmd = cmd, ch_body_compressed = False, ch_tick = tick, ch_body_size = 0, ch_size = 3\<rparr>"

lemma example_headers:
  "varint_cmd_header example_cmds (read_uvarint_async leb) (example_at 16) = (Ok (example_header 3 0), example_at 19)"
  "varint_cmd_header example_cmds (read_uvarint_async leb) (example_at 19) = (Ok (example_header 13 1), example_at 22)"
  "varint_cmd_header example_cmds (read_uvarint_async leb) (example_at 22) = (Ok (example_header 1 2), example_at 25)"
  "varint_cmd_header example_cmds (read_uvarint_async leb) (example_at 25) = (Ok (example_header 13 3), example_at 28)"
  "varint_cmd_header example_cmds (read_uvarint_async leb) (example_at 28) = (Ok (example_header 1 4), example_at 31)"
  "varint_cmd_header example_cmds (read_uvarint_async leb) (example_at 31)
     = (Err (RchVarint (VeIo UnexpectedEof)), example_at 31)"
  by (simp_all add: varint_cmd_header_def cmd_try_from_def example_cmds_def liftO_def retM_def read_uvarint_async_def
      leb_def example_at_def example_demo_def read_exact_def map_errM_def bindM_def example_header_def)

abbreviation example_stream :: "nat demo_file seekable_stream" where
  "example_stream \<equiv> demofile_stream (e_cmds example_env) (read_uvarint_async leb) (e_snap example_env) example_protos"

lemma example_read_header:
  assumes "varint_cmd_header example_cmds (read_uvarint_async leb) (example_at n) = (r, example_at m)"
    and "ps_demo_stream p = example_demo\<lparr>df_rdr := example_at n\<rparr>"
  shows "zoomM ps_demo_stream (\<lambda>d p. p\<lparr>ps_demo_stream := d\<rparr>) (ds_read_cmd_header example_stream) p
    = (r, p\<lparr>ps_demo_stream := example_demo\<lparr>df_rdr := example_at m\<rparr>\<rparr>)"
  using assms by (simp add: zoom_stream_iff stream_simps demofile_read_cmd_header_def zoom_rdr example_env_def)

lemma example_handle:
  assumes "ps_demo_stream p = example_demo\<lparr>df_rdr := example_at n\<rparr>" "c \<in> {1, 3, 13}"
  shows "dispatch example_env example_stream recorder CfHandle (example_header c t) p
    = (Ok (), p\<lparr>ps_visitor := record_cmd (example_header c t) (ps_visitor p)\<rparr>)"
  using assms
  by (auto simp: dispatch_def handle_cmd_def on_stream_def zoomM_def map_errM_def bindM_def stream_simps demofile_read_cmd_def
    read_cmd_body_def example_header_def read_exact_def visit_def match_cmd_def example_env_def example_cmds_def
    demofile_stream_def demofile_decode_cmd_full_packet_def example_protos_def ok_or_def liftO_def handle_cmd_full_packet_def retM_def
    example_demo_def get_ctx_def Let_def)

lemma example_skip:
  assumes "ps_demo_stream p = example_demo\<lparr>df_rdr := example_at n\<rparr>"
  shows "dispatch example_env example_stream V CfSkip (example_header c t) p = (Ok (), p)"
  using assms
  by (cases p) (auto simp: dispatch_def on_stream_def zoomM_def map_errM_def bindM_def stream_simps demofile_skip_cmd_def rdr_skip_def
    on_rdr_def rdr_seek_def example_header_def example_at_def example_demo_def retM_def Let_def)

definition example_parser :: "nat \<Rightarrow> i32 \<Rightarrow> i32 \<Rightarrow> bool \<Rightarrow> bool \<times> cmd_header list \<Rightarrow> (nat demo_file, bool \<times> cmd_header list) parser" where
  "example_parser n t t' b v = (recording (example_demo\<lparr>df_rdr := example_at n\<rparr>))\<lparr>ps_visitor := v,
     ps_ctx := context_new\<lparr>cx_tick := t, cx_prev_tick := t'\<rparr>, ps_skip_entity_packets := b\<rparr>"

lemma example_parser_fields:
  "ps_demo_stream (example_parser n t t' b v) = example_demo\<lparr>df_rdr := example_at n\<rparr>" "ps_visitor (example_parser n t t' b v) = v"
  by (simp_all add: example_parser_def parser_from_stream_def)

lemma example_read:
  assumes "varint_cmd_header example_cmds (read_uvarint_async leb) (example_at n) = (r, example_at m)"
  shows "zoomM ps_demo_stream (\<lambda>d p. p\<lparr>ps_demo_stream := d\<rparr>) (demofile_read_cmd_header (e_cmds example_env) (read_uvarint_async leb)) (example_parser n t t' b v)
    = (r, example_parser m t t' b v)"
  using assms by (simp add: zoom_stream_iff demofile_read_cmd_header_def zoom_rdr example_env_def example_parser_def parser_from_stream_def)

lemmas example_reads = example_headers [THEN example_read]

lemma example_steps:
  "set_tick t'' (example_parser n t t' b v) = (Ok (), example_parser n t'' t b v)"
  "c \<in> {1, 3, 13} \<Longrightarrow> dispatch example_env example_stream recorder CfHandle (example_header c t'') (example_parser n t t' b v)
    = (Ok (), example_parser n t t' b (record_cmd (example_header c t'') v))"
  "dispatch example_env example_stream V CfSkip (example_header c t'') (example_parser n t t' b v) = (Ok (), example_parser n t t' b v)"
  "set_collecting recorder on (example_parser n t t' b v) = (Ok (), example_parser n t t' (\<not> on) (on, snd v))"
  "(example_parser n t t' b v)\<lparr>ps_skip_entity_packets := b'\<rparr> = example_parser n t t' b' v"
  by (simp_all add: set_tick_run ticked_def example_handle example_skip example_parser_fields)
    (simp_all add: example_parser_def parser_from_stream_def set_collecting_def)

lemma example_eof: "end_of_run example_stream err (example_parser 31 t t' b v) = (Ok (), example_parser 31 t t' b v)"
  unfolding end_of_run_Ok_iff
  by (rule exI [of _ "example_demo\<lparr>df_rdr := example_at 31\<rparr>"])
    (simp add: at_eof_or_default_def stream_simps demofile_is_at_eof_def on_rdr_def zoomM_def rdr_is_at_eof_ok
      example_parser_def parser_from_stream_def, simp add: rdr_at_end_def example_at_def example_demo_def)

lemma example_skip_body:
  "on_stream PeIo (demofile_skip_cmd (example_header c t'')) (example_parser n t t' b v) = (Ok (), example_parser n t t' b v)"
  using example_steps(3) [of recorder c t'' n t t' b v] by (simp add: dispatch_def stream_simps)

lemma example_reset: "map_errM PeIo (parser_reset example_stream) (example_parser n t t' b v) = (Ok (), example_parser 16 (- 1) (- 1) b v)"
  by (simp add: parser_reset_def bindM_def zoomM_def map_errM_def stream_simps demofile_seek_def on_rdr_def rdr_seek_def
    demofile_start_position_def example_parser_def parser_from_stream_def context_new_def entity_container_new_def entities_clear_def
    example_at_def Let_def)

lemma example_start: "recording example_demo = example_parser 16 (- 1) (- 1) False (True, [])"
  by (simp add: example_parser_def parser_from_stream_def context_new_def example_at_def example_demo_def)

definition example_commands :: "cmd_header list" where
  "example_commands = [example_header 3 0, example_header 13 1, example_header 1 2, example_header 13 3, example_header 1 4]"

lemma example_fields:
  "ch_tick (example_header c t) = t" "ch_cmd (example_header c t) = c"
  "dc_full_packet (e_cmds example_env) = 13" "dc_sync_tick (e_cmds example_env) = 3" "dc_send_tables (e_cmds example_env) = 4"
  "dc_class_info (e_cmds example_env) = 5" "dc_signon_packet (e_cmds example_env) = 8"
  by (simp_all add: example_header_def example_env_def example_cmds_def)

lemma example_unread:
  "m = n + 3 \<Longrightarrow> on_stream PeIo (unread_cmd_header example_stream (example_header c t'')) (example_parser m t t' b v)
    = (Ok (), example_parser n t t' b v)"
  by (simp add: on_stream_Ok_iff unread_cmd_header_def stream_simps demofile_seek_def on_rdr_def zoomM_def bindM_def rdr_seek_def
    example_header_def example_parser_def parser_from_stream_def example_at_def retM_def Let_def)

lemma example_untick: "change_ctx (\<lambda>ctx. ctx\<lparr>cx_tick := cx_prev_tick ctx\<rparr>) (example_parser n t t' b v) = (Ok (), example_parser n t' t' b v)"
  by (simp add: change_ctx_def example_parser_def)

text \<open>Loops with a numeral as fuel.\<close>

lemmas loops_numeral = run.simps(2) [of _ _ _ _ "pred_numeral k" for k, folded numeral_eq_Suc]
  run_seekable.simps(2) [of _ _ _ _ "pred_numeral k" for k, folded numeral_eq_Suc]
  scan_full_packets.simps(2) [of _ _ "pred_numeral k" for k, folded numeral_eq_Suc]

lemma example_run:
  "run_to_end example_env example_stream recorder 6 (recording example_demo)
    = (Ok (), example_parser 31 4 3 False (True, example_commands))"
  unfolding example_start run_to_end_def
  by (simp add: loops_numeral example_reads stream_simps bindM_run example_steps example_fields example_eof record_cmd_def example_commands_def)

lemma example_scan:
  "scan_full_packet_ticks example_env example_stream 6 (recording example_demo)
    = (Ok [1, 3], example_parser 16 (- 1) (- 1) False (True, []))"
  unfolding example_start scan_full_packet_ticks_def
  by (simp add: loops_numeral example_reads stream_simps bindM_run example_steps example_fields example_eof example_reset example_skip_body)

lemma example_segments:
  "run_full_packet example_env example_stream recorder 6 0 (recording example_demo)
    = (Ok (), example_parser 25 2 2 False (True, take 3 example_commands))"
  "run_full_packet example_env example_stream recorder 6 1 (recording example_demo)
    = (Ok (), example_parser 31 4 3 False (True, drop 3 example_commands))"
  unfolding example_start run_full_packet_def
  by (simp_all add: example_unread [of _ 25] example_untick record_cmd_def example_commands_def loops_numeral example_reads stream_simps bindM_run example_steps example_fields example_eof example_reset example_skip_body
   run_full_packet_handler_def)

theorem full_packets_partition_witness:
  "concat (map (\<lambda>k. snd (ps_visitor (snd (run_full_packet example_env example_stream recorder 6 k (recording example_demo)))))
      [0..<2]) = example_commands"
proof -
  have one: "\<forall>k < max 1 (length [1, 3 :: i32]). run_full_packet example_env example_stream recorder 6 k (recording example_demo)
      = (Ok (), snd (run_full_packet example_env example_stream recorder 6 k (recording example_demo)))"
    by (auto simp: less_Suc_eq example_segments example_segments(2) [simplified])
  have "rd_pos (df_rdr example_demo) = 16" by (simp add: example_demo_def)
  from full_packets_partition [OF this example_run example_scan one] show ?thesis
    by (simp add: example_parser_fields numeral_2_eq_2)
qed

theorem scan_lists_full_packets_witness:
  "scan_full_packet_ticks example_env example_stream 6 (recording example_demo)
    = (Ok (map ch_tick (filter (is_full_packet example_cmds) example_commands)), example_parser 16 (- 1) (- 1) False (True, []))"
proof -
  have "rd_pos (df_rdr example_demo) = 16" by (simp add: example_demo_def)
  from scan_lists_full_packets [OF this example_run example_scan] example_scan show ?thesis
    by (simp add: example_parser_fields example_env_def)
qed

lemma uvarint_async_loop_counts:
  "uvarint_async_loop K n c v r = (Ok (w, m), r') \<Longrightarrow> \<exists>k \<le> n. m = c + k \<and> r' = r\<lparr>rd_pos := rd_pos r + k\<rparr>"
proof (induction n arbitrary: c v r)
  case (Suc n)
  obtain buf r1 where r1: "read_exact 1 r = (Ok buf, r1)"
    and rest: "(let byte = hd buf; v = v OR push_bit (c * 7) (ucast (byte AND vc_payload_bits K))
     in if byte AND vc_continue_bit K = 0 then retM (v, c + 1) else uvarint_async_loop K n (c + 1) v) r1 = (Ok (w, m), r')"
    using Suc.prems by (auto elim: bindM_OkE)
  note step = read_exact_Ok [OF r1]
  show ?case
  proof (cases "hd buf AND vc_continue_bit K = 0")
    case False
    then have "uvarint_async_loop K n (c + 1) (v OR push_bit (c * 7) (ucast (hd buf AND vc_payload_bits K))) r1 = (Ok (w, m), r')"
      using rest by (simp add: Let_def)
    from Suc.IH [OF this] obtain k where "k \<le> n" "m = c + 1 + k" "r' = r1\<lparr>rd_pos := rd_pos r1 + k\<rparr>" by blast
    with step show ?thesis by (intro exI [of _ "Suc k"]) simp
  qed (use rest step in \<open>auto simp: Let_def\<close>)
qed (simp add: errM_def)

lemma read_uvarint_async_counts: "vc_max_size K \<le> 10 \<Longrightarrow> counts_bytes (read_uvarint_async K)"
  unfolding counts_bytes_def
proof (intro allI impI)
  fix r v n r'
  assume K: "vc_max_size K \<le> 10" and "read_uvarint_async K r = (Ok (v, n), r')"
  then obtain buf r1 where r1: "read_exact 1 r = (Ok buf, r1)"
    and rest: "(let byte = hd buf in if byte AND vc_continue_bit K = 0 then retM (ucast byte, 1)
      else uvarint_async_loop K (vc_max_size K - 1) 1 (ucast (byte AND vc_payload_bits K))) r1 = (Ok (v, n), r')"
    by (auto simp: read_uvarint_async_def elim: bindM_OkE)
  then show "r' = r\<lparr>rd_pos := rd_pos r + n\<rparr> \<and> n \<le> 10"
    using read_exact_Ok [OF r1] K by (auto simp: Let_def split: if_splits dest!: uvarint_async_loop_counts)
qed

lemma example_seek:
  "seek_full_packet example_env example_stream recorder (example_header 13 t'') ahead (example_parser n t t' b v)
    = (Ok (), example_parser n t t' b (record_cmd (example_header 13 t'') v))"
  by (simp add: seek_full_packet_def on_stream_def zoomM_def map_errM_def bindM_def stream_simps demofile_read_cmd_def
    read_cmd_body_def read_exact_def visit_def demofile_stream_def demofile_decode_cmd_full_packet_def example_protos_def
    ok_or_def liftO_def handle_cmd_full_packet_def retM_def Let_def example_parser_def parser_from_stream_def
    example_header_def example_demo_def)

lemma example_to_tick:
  "run_to_tick_handler example_env example_stream recorder 2 (False, False) (example_header 3 0) p = (Ok (Some CfHandle, (True, False)), p)"
  "run_to_tick_handler example_env example_stream recorder 2 (True, False) (example_header 13 1) (example_parser n 1 t' b v)
    = (Ok (Some CfIgnore, (True, True)), example_parser n 1 t' b (record_cmd (example_header 13 1) v))"
  "run_to_tick_handler example_env example_stream recorder 2 (True, True) (example_header 1 2) p = (Ok (Some CfHandle, (True, True)), p)"
  "run_to_tick_handler example_env example_stream recorder 2 (True, True) (example_header 13 3) p = (Ok (None, (True, True)), p)"
proof -
  have "cx_full_packet_interval (ps_ctx (example_parser n 1 t' b v)) = 0" "cx_tick (ps_ctx (example_parser n 1 t' b v)) = 1"
    by (simp_all add: example_parser_def context_new_def)
  then show
   "run_to_tick_handler example_env example_stream recorder 2 (True, False) (example_header 13 1) (example_parser n 1 t' b v)
    = (Ok (Some CfIgnore, (True, True)), example_parser n 1 t' b (record_cmd (example_header 13 1) v))"
    by (simp add: run_to_tick_handler_def example_fields bindM_run example_seek word_sless_alt)
qed (simp_all add: run_to_tick_handler_def example_fields word_sless_alt)

lemma example_ignore: "dispatch E D V CfIgnore h p = (Ok (), p)"
  by (simp add: dispatch_def)

theorem run_to_tick_stops_witness:
  "\<exists>p' hs r. run_to_tick example_env example_stream recorder 6 2 (recording example_demo) = (Ok (), p')
    \<and> commands_between (varint_cmd_header example_cmds (read_uvarint_async leb)) behind (example_at 16) hs r
    \<and> cx_tick (ps_ctx p') = last (- 1 # map ch_tick hs) \<and> cx_tick (ps_ctx p') = 2"
proof -
  have run: "run_to_tick example_env example_stream recorder 6 2 (recording example_demo)
      = (Ok (), example_parser 25 2 2 False (True, take 3 example_commands))"
    unfolding example_start run_to_tick_def
    by (simp add: loops_numeral example_reads stream_simps bindM_run example_steps example_fields example_reset
      example_unread [of _ 25] example_untick example_to_tick example_ignore record_cmd_def example_commands_def)
  have leb: "counts_bytes (read_uvarint_async leb)" by (rule read_uvarint_async_counts) (simp add: leb_def)
  have at: "(df_rdr (ps_demo_stream (recording example_demo)))\<lparr>rd_pos := 16\<rparr> = example_at 16"
    by (simp add: parser_from_stream_def example_at_def)
  obtain hs r where "commands_between (varint_cmd_header (e_cmds example_env) (read_uvarint_async leb)) behind (example_at 16) hs r"
    "cx_tick (ps_ctx (example_parser 25 2 2 False (True, take 3 example_commands))) = last (- 1 # map ch_tick hs)"
    using run_to_tick_stops [OF leb run] unfolding at by blast
  moreover have "e_cmds example_env = example_cmds" "cx_tick (ps_ctx (example_parser 25 2 2 False v)) = 2" for v
    by (simp_all add: example_env_def example_parser_def)
  ultimately show ?thesis using run by metis
qed
end
