(* ===== verification/PacketChannelLaws.thy ===== *)
theory PacketChannelLaws
  imports PacketChannel ParserRuns
begin

text \<open>
  The packet channel as a stream of bytes: \<open>bytes_left\<close> is what is still to be read, and nothing but it matters.
  While at least fifteen bytes are left a header is read exactly as from a file; with fewer the channel reports
  the end.
\<close>

subsection \<open>Buffering\<close>

definition pd_buffered :: "packet_demo \<Rightarrow> u8 list" where
  "pd_buffered s = drop (pd_offset s) (pd_current s)"

definition bytes_left :: "packet_demo \<Rightarrow> u8 list" where
  "bytes_left s = pd_buffered s @ concat (pd_source s)"

definition pd_ok :: "packet_demo \<Rightarrow> bool" where
  "pd_ok s \<longleftrightarrow> pd_offset s \<le> length (pd_current s)"

definition refilled :: "packet_demo \<Rightarrow> packet_demo \<Rightarrow> bool" where
  "refilled s s' \<longleftrightarrow> pd_ok s' \<and> bytes_left s' = bytes_left s \<and> pd_header_skipped s' = pd_header_skipped s
     \<and> pd_body_buf s' = pd_body_buf s \<and> pd_decompress_buf s' = pd_decompress_buf s"

lemma pd_remaining_buffered: "pd_remaining s = length (pd_buffered s)"
  by (simp add: pd_remaining_def pd_buffered_def)

lemma pd_append:
  assumes "pd_ok s"
  shows "pd_buffered (pd_append bytes s) = pd_buffered s @ bytes" "pd_ok (pd_append bytes s)"
    "pd_header_skipped (pd_append bytes s) = pd_header_skipped s" "pd_body_buf (pd_append bytes s) = pd_body_buf s"
    "pd_decompress_buf (pd_append bytes s) = pd_decompress_buf s"
  using assms by (simp_all add: pd_append_def pd_buffered_def pd_ok_def)

lemma with_source [simp]:
  "pd_buffered (s\<lparr>pd_source := source\<rparr>) = pd_buffered s" "pd_ok (s\<lparr>pd_source := source\<rparr>) = pd_ok s"
  "bytes_left (s\<lparr>pd_source := source\<rparr>) = pd_buffered s @ concat source"
  by (simp_all add: pd_buffered_def pd_ok_def bytes_left_def)

lemma pd_ensure_from:
  assumes "pd_ok s"
  shows "\<exists>s'. pd_ensure_from source n s = (if n \<le> length (pd_buffered s @ concat source) then Ok () else Err (RchIo UnexpectedEof), s')
    \<and> refilled (s\<lparr>pd_source := source\<rparr>) s'
    \<and> (n \<le> length (pd_buffered s @ concat source) \<longrightarrow> n \<le> length (pd_buffered s'))"
  using assms
proof (induction source arbitrary: s)
  case Nil
  then show ?case
    by (subst pd_ensure_from.simps) (auto simp: pd_remaining_buffered refilled_def)
next
  case (Cons bytes source)
  show ?case
  proof (cases "n \<le> pd_remaining s")
    case True
    then show ?thesis using Cons.prems
      by (subst pd_ensure_from.simps) (auto simp: pd_remaining_buffered refilled_def)
  next
    case False
    note a = pd_append [OF Cons.prems, of bytes]
    from Cons.IH [OF a(2)] False show ?thesis
      by (subst pd_ensure_from.simps) (auto simp: a refilled_def)
  qed
qed

lemma ensure_bytes:
  assumes "pd_ok s"
  obtains s' where "ensure_bytes n s = (if n \<le> length (bytes_left s) then Ok () else Err (RchIo UnexpectedEof), s')"
    "refilled s s'" "n \<le> length (bytes_left s) \<Longrightarrow> n \<le> length (pd_buffered s')"
proof -
  have "s\<lparr>pd_source := pd_source s\<rparr> = s" by simp
  then show thesis using that pd_ensure_from [OF assms, of "pd_source s" n] unfolding ensure_bytes_def bytes_left_def by metis
qed

subsection \<open>Varints\<close>

text \<open>A buffer and a reader whose next \<open>m\<close> bytes are the same.\<close>

definition same_next :: "nat \<Rightarrow> packet_demo \<Rightarrow> reader \<Rightarrow> bool" where
  "same_next m s r \<longleftrightarrow> m \<le> length (pd_buffered s) \<and> take m (pd_buffered s) = take m (drop (rd_pos r) (rd_data r))"

definition consumed :: "nat \<Rightarrow> packet_demo \<Rightarrow> packet_demo" where
  "consumed k s = s\<lparr>pd_offset := pd_offset s + k\<rparr>"

lemma buffered_consumed [simp]: "pd_buffered (consumed k s) = drop k (pd_buffered s)"
  by (simp add: pd_buffered_def consumed_def add.commute)

lemma consumed_consumed [simp]: "consumed k (consumed j s) = consumed (j + k) s" "consumed 0 s = s"
  by (simp_all add: consumed_def add.assoc)

lemma same_next_consumed:
  "same_next m s r \<Longrightarrow> k \<le> m \<Longrightarrow> same_next (m - k) (consumed k s) (r\<lparr>rd_pos := rd_pos r + k\<rparr>)"
  by (auto simp: same_next_def drop_take [symmetric] add.commute simp flip: drop_drop)

lemma read_byte:
  assumes "same_next (Suc m) s r"
  shows "\<exists>b. (pd_read_bytes 1 :: (_, read_cmd_header_error, _) rm) s = (Ok [b], consumed 1 s) \<and> read_exact 1 r = (Ok [b], r\<lparr>rd_pos := rd_pos r + 1\<rparr>)
    \<and> pd_remaining s \<noteq> 0"
proof -
  obtain b xs where b: "pd_buffered s = b # xs" using assms by (cases "pd_buffered s") (auto simp: same_next_def)
  then obtain ys where r: "drop (rd_pos r) (rd_data r) = b # ys"
    using assms by (cases "drop (rd_pos r) (rd_data r)") (auto simp: same_next_def)
  have "rd_pos r < length (rd_data r)" "pd_offset s < length (pd_current s)"
    using b r by (auto simp: pd_buffered_def dest: arg_cong [of _ _ length])
  then show ?thesis using b r
    by (auto simp: pd_read_bytes_def slice_range_def read_exact_def pd_remaining_buffered consumed_def pd_buffered_def
      drop_take [symmetric] take_Suc)
qed

text \<open>How the channel reports the errors of a varint.\<close>

definition channel_error :: "varint_error \<Rightarrow> read_cmd_header_error" where
  "channel_error e = (case e of VeIo io \<Rightarrow> RchIo io | VeMalformed \<Rightarrow> RchIo InvalidData)"

lemma varint_loops:
  assumes "same_next m s r" "c + m = 5" "0 < m"
  shows "\<exists>k \<le> m. \<exists>res. read_varint_loop (7 * c) v c s = (map_err channel_error res, consumed k s)
    \<and> uvarint_async_loop leb m c v r = (res, r\<lparr>rd_pos := rd_pos r + k\<rparr>)
    \<and> (\<forall>x n. res = Ok (x, n) \<longrightarrow> n = c + k)"
  using assms
proof (induction m arbitrary: s r c v)
  case (Suc m)
  obtain b where b: "(pd_read_bytes 1 :: (_, read_cmd_header_error, _) rm) s = (Ok [b], consumed 1 s)" "read_exact 1 r = (Ok [b], r\<lparr>rd_pos := rd_pos r + 1\<rparr>)"
    and rem: "pd_remaining s \<noteq> 0" using read_byte [OF Suc.prems(1)] by blast
  define w where "w = v OR push_bit (7 * c) (ucast (b AND 0x7F))"
  let ?more = "b AND 0x80 \<noteq> 0"
  have packet: "read_varint_loop (7 * c) v c s
      = (if \<not> ?more then retM (w, c + 1) else if m = 0 then errM (RchIo InvalidData)
         else read_varint_loop (7 * (c + 1)) w (c + 1)) (consumed 1 s)"
    using rem Suc.prems(2) b(1)
    by (subst read_varint_loop.simps) (auto simp: bindM_def Let_def w_def add.commute)
  have of_file: "uvarint_async_loop leb (Suc m) c v r
      = (if \<not> ?more then retM (w, c + 1) else uvarint_async_loop leb m (c + 1) w) (r\<lparr>rd_pos := rd_pos r + 1\<rparr>)"
    using b(2) by (simp add: bindM_def map_errM_def Let_def w_def leb_def mult.commute)
  show ?case
  proof (cases "?more \<and> m \<noteq> 0")
    case True
    have "same_next m (consumed 1 s) (r\<lparr>rd_pos := rd_pos r + 1\<rparr>)" using same_next_consumed [OF Suc.prems(1), of 1] by simp
    from Suc.IH [OF this, of "c + 1" w] Suc.prems(2) True obtain k res where "k \<le> m"
      "read_varint_loop (7 * (c + 1)) w (c + 1) (consumed 1 s) = (map_err channel_error res, consumed (Suc k) s)"
      "uvarint_async_loop leb m (c + 1) w (r\<lparr>rd_pos := rd_pos r + 1\<rparr>) = (res, r\<lparr>rd_pos := rd_pos r + Suc k\<rparr>)"
      "\<forall>x n. res = Ok (x, n) \<longrightarrow> n = c + 1 + k" by auto
    then show ?thesis unfolding packet of_file using True by (intro exI [of _ "Suc k"] conjI exI [of _ res]) auto
  next
    case False
    then show ?thesis unfolding packet of_file
      by (intro exI [of _ 1] conjI exI [of _ "if ?more then Err VeMalformed else Ok (w, c + 1)"])
        (auto simp: retM_def errM_def channel_error_def)
  qed
qed simp

lemma low_bits: "b AND 0x80 = 0 \<Longrightarrow> b AND 0x7F = b" for b :: u8
proof -
  assume "b AND 0x80 = 0"
  moreover have "0x80 OR 0x7F = (- 1 :: u8)" by simp
  then have "b AND (0x80 OR 0x7F) = b" by (simp only:) simp
  ultimately show ?thesis unfolding bit.conj_disj_distrib by simp
qed

lemma read_uvarint_async_loop: "read_uvarint_async leb = uvarint_async_loop leb 5 0 0"
proof -
  have five: "uvarint_async_loop leb 5 0 0 = uvarint_async_loop leb (Suc 4) 0 0" by simp
  show ?thesis
    unfolding read_uvarint_async_def five uvarint_async_loop.simps
    by (intro arg_cong [of _ _ "bindM _"] ext) (simp add: Let_def leb_def low_bits)
qed

lemma varint_mirrored:
  assumes "same_next m s r" "5 \<le> m"
  obtains k res where "k \<le> 5" "read_varint s = (map_err channel_error res, consumed k s)"
    "read_uvarint_async leb r = (res, r\<lparr>rd_pos := rd_pos r + k\<rparr>)" "\<And>x n. res = Ok (x, n) \<Longrightarrow> n = k"
    "same_next (m - k) (consumed k s) (r\<lparr>rd_pos := rd_pos r + k\<rparr>)"
proof -
  have "same_next 5 s r" using assms by (auto simp: same_next_def dest: arg_cong [of _ _ "take 5"])
  from varint_loops [OF this, of 0 0] obtain k res where "k \<le> 5" "read_varint s = (map_err channel_error res, consumed k s)"
    "read_uvarint_async leb r = (res, r\<lparr>rd_pos := rd_pos r + k\<rparr>)" "\<forall>x n. res = Ok (x, n) \<longrightarrow> n = k"
    by (auto simp: read_varint_def read_uvarint_async_loop)
  with same_next_consumed [OF assms(1), of k] assms(2) that show thesis by simp
qed

subsection \<open>Headers and bodies\<close>

text \<open>The channel's error for an error of the file's reader.\<close>

definition packet_error :: "read_cmd_header_error \<Rightarrow> read_cmd_header_error" where
  "packet_error e = (case e of RchVarint v \<Rightarrow> channel_error v | _ \<Rightarrow> e)"

definition packet_header :: "demo_commands \<Rightarrow> nat \<Rightarrow> (packet_demo, read_cmd_header_error, cmd_header) rm" where
  "packet_header C start_offset =
     bindM read_varint (\<lambda>(cmd_raw, _).
      let body_compressed = (cmd_raw AND dc_is_compressed C = dc_is_compressed C);
          cmd_value = (if body_compressed then cmd_raw AND NOT (dc_is_compressed C) else cmd_raw)
      in bindM (liftO (cmd_try_from C cmd_raw cmd_value)) (\<lambda>cmd.
         bindM read_varint (\<lambda>(tick, _).
         bindM read_varint (\<lambda>(body_size, _) s.
         (Ok \<lparr>ch_cmd = cmd, ch_body_compressed = body_compressed, ch_tick = tick, ch_body_size = body_size,
            ch_size = of_nat (pd_offset s - start_offset)\<rparr>, s)))))"

lemma packet_header_mirrored:
  assumes "same_next 15 s r"
  shows "\<exists>k \<le> 15. \<exists>res. packet_header C (pd_offset s) s = (map_err packet_error res, consumed k s)
    \<and> read_cmd_header_async C leb r = (res, r\<lparr>rd_pos := rd_pos r + k\<rparr>)"
proof -
  obtain k1 res1 where k1: "k1 \<le> 5" "read_varint s = (map_err channel_error res1, consumed k1 s)"
    "read_uvarint_async leb r = (res1, r\<lparr>rd_pos := rd_pos r + k1\<rparr>)" "\<And>x n. res1 = Ok (x, n) \<Longrightarrow> n = k1"
    "same_next (15 - k1) (consumed k1 s) (r\<lparr>rd_pos := rd_pos r + k1\<rparr>)" by (rule varint_mirrored [OF assms]) simp_all
  obtain k2 res2 where k2: "k2 \<le> 5" "read_varint (consumed k1 s) = (map_err channel_error res2, consumed (k1 + k2) s)"
    "read_uvarint_async leb (r\<lparr>rd_pos := rd_pos r + k1\<rparr>) = (res2, r\<lparr>rd_pos := rd_pos r + (k1 + k2)\<rparr>)"
    "\<And>x n. res2 = Ok (x, n) \<Longrightarrow> n = k2"
    "same_next (15 - (k1 + k2)) (consumed (k1 + k2) s) (r\<lparr>rd_pos := rd_pos r + (k1 + k2)\<rparr>)"
    by (rule varint_mirrored [OF k1(5)]) (use k1(1) in \<open>simp_all add: add.assoc\<close>)
  obtain k3 res3 where k3: "k3 \<le> 5" "read_varint (consumed (k1 + k2) s) = (map_err channel_error res3, consumed (k1 + k2 + k3) s)"
    "read_uvarint_async leb (r\<lparr>rd_pos := rd_pos r + (k1 + k2)\<rparr>) = (res3, r\<lparr>rd_pos := rd_pos r + (k1 + k2 + k3)\<rparr>)"
    "\<And>x n. res3 = Ok (x, n) \<Longrightarrow> n = k3"
    by (rule varint_mirrored [OF k2(5)]) (use k1(1) k2(1) in \<open>simp_all add: add.assoc\<close>)
  show ?thesis
  proof (cases res1)
    case (Ok x)
    obtain raw n1 where x: "x = (raw, n1)" by (cases x)
    with k1(4) Ok have n1: "n1 = k1" by simp
    define cmp where "cmp = (raw AND dc_is_compressed C = dc_is_compressed C)"
    define val where "val = (if cmp then raw AND NOT (dc_is_compressed C) else raw)"
    have p1: "packet_header C (pd_offset s) s = bindM (liftO (cmd_try_from C raw val)) (\<lambda>cmd.
         bindM read_varint (\<lambda>(tick, _). bindM read_varint (\<lambda>(body_size, _) s'.
         (Ok \<lparr>ch_cmd = cmd, ch_body_compressed = cmp, ch_tick = tick, ch_body_size = body_size,
            ch_size = of_nat (pd_offset s' - pd_offset s)\<rparr>, s')))) (consumed k1 s)"
      using k1(2) by (simp add: packet_header_def bindM_run Ok x Let_def cmp_def val_def)
    have f1: "read_cmd_header_async C leb r = bindM (liftO (cmd_try_from C raw val)) (\<lambda>cmd.
        bindM (map_errM RchVarint (read_uvarint_async leb)) (\<lambda>(tick, tick_n).
        bindM (map_errM RchVarint (read_uvarint_async leb)) (\<lambda>(body_size, body_size_n).
        retM \<lparr>ch_cmd = cmd, ch_body_compressed = cmp, ch_tick = tick, ch_body_size = body_size,
          ch_size = of_nat (k1 + tick_n + body_size_n)\<rparr>))) (r\<lparr>rd_pos := rd_pos r + k1\<rparr>)"
      using k1(3) by (simp add: read_cmd_header_async_varint varint_cmd_header_def bindM_def map_errM_def Ok x n1 Let_def cmp_def val_def)
    show ?thesis
    proof (cases "dc_known C val")
      case True
      have len: "of_nat (pd_offset (consumed (k1 + k2 + k3) s) - pd_offset s) = (of_nat (k1 + k2 + k3) :: u8)"
        by (simp add: consumed_def)
      show ?thesis
      proof (cases res2)
        case (Ok y)
        then obtain tick where "res2 = Ok (tick, k2)" using k2(4) by (cases y) simp
        then show ?thesis unfolding p1 f1
          using k2(1-3) k3 k1(1) True len
          by (intro exI [of _ "k1 + k2 + k3"], cases res3)
            (auto simp: cmd_try_from_def bindM_def map_errM_def packet_error_def retM_def split: prod.splits)
      qed (use k2(1-3) k1(1) True p1 f1 in \<open>auto simp: cmd_try_from_def bindM_def map_errM_def packet_error_def retM_def
          intro!: exI [of _ "k1 + k2"]\<close>)
    next
      case False
      then show ?thesis unfolding p1 f1 using k1(1)
        by (intro exI [of _ k1]) (simp add: cmd_try_from_def liftO_def bindM_def packet_error_def)
    qed
  qed (use k1 in \<open>auto simp: packet_header_def read_cmd_header_async_varint varint_cmd_header_def bindM_def map_errM_def
      packet_error_def intro!: exI [of _ k1]\<close>)
qed

text \<open>The bytes of the commands that are still to be read.\<close>

definition demo_left :: "packet_demo \<Rightarrow> u8 list" where
  "demo_left s = (if pd_header_skipped s then bytes_left s else drop 16 (bytes_left s))"

lemma skip_header:
  assumes "pd_ok s"
  obtains r s' where "skip_header_if_needed s = (r, s')"
    "r = Ok () \<Longrightarrow> pd_ok s' \<and> bytes_left s' = demo_left s \<and> pd_header_skipped s'"
    "r \<noteq> Ok () \<Longrightarrow> r = Err (RchIo UnexpectedEof) \<and> demo_left s = []"
    "15 \<le> length (demo_left s) \<Longrightarrow> r = Ok ()"
proof (cases "pd_header_skipped s")
  case True
  with assms show thesis by (intro that [of "Ok ()" s]) (simp_all add: skip_header_if_needed_def demo_left_def)
next
  case False
  obtain s1 where e: "ensure_bytes 16 s = (if 16 \<le> length (bytes_left s) then Ok () else Err (RchIo UnexpectedEof), s1)"
    and s1: "refilled s s1" "16 \<le> length (bytes_left s) \<Longrightarrow> 16 \<le> length (pd_buffered s1)"
    by (rule ensure_bytes [OF assms, of 16]) blast
  show thesis
  proof (cases "16 \<le> length (bytes_left s)")
    case True
    let ?s = "s1\<lparr>pd_offset := pd_offset s1 + 16, pd_header_skipped := True\<rparr>"
    have buf: "pd_buffered ?s = drop 16 (pd_buffered s1)" "pd_source ?s = pd_source s1" by (simp_all add: pd_buffered_def add.commute)
    have "bytes_left ?s = drop 16 (bytes_left s1)"
      using s1(2) [OF True] unfolding bytes_left_def buf by simp
    moreover have "bytes_left s1 = bytes_left s" using s1(1) by (simp add: refilled_def)
    ultimately have "bytes_left ?s = demo_left s" using False by (simp add: demo_left_def)
    moreover have "pd_ok ?s" using s1(2) [OF True] by (simp add: pd_ok_def pd_buffered_def)
    ultimately show thesis using True False e
      by (intro that [of "Ok ()" ?s]) (simp_all add: skip_header_if_needed_def bindM_def)
  next
    case short: False
    then show thesis using False e
      by (intro that [of "Err (RchIo UnexpectedEof)" s1]) (simp_all add: skip_header_if_needed_def bindM_def demo_left_def)
  qed
qed

text \<open>C6: however the bytes are cut into packets, a header is read from them as from a file: the same header or
  the same error, and the same bytes are left, as long as at least fifteen bytes are left before it.\<close>

theorem packet_channel_headers:
  assumes "pd_ok s" "15 \<le> length (demo_left s)" "drop (rd_pos r) (rd_data r) = demo_left s"
  shows "fst (packet_demo_read_cmd_header C s) = map_err packet_error (fst (read_cmd_header_async C leb r))
    \<and> demo_left (snd (packet_demo_read_cmd_header C s))
      = drop (rd_pos (snd (read_cmd_header_async C leb r))) (rd_data (snd (read_cmd_header_async C leb r)))"
proof -
  obtain s1 where s1: "skip_header_if_needed s = (Ok (), s1)" "pd_ok s1" "bytes_left s1 = demo_left s" "pd_header_skipped s1"
    using skip_header [OF assms(1)] assms(2) by metis
  obtain s2 where s2: "ensure_bytes 15 s1 = (Ok (), s2)" "refilled s1 s2" "15 \<le> length (pd_buffered s2)"
    using ensure_bytes [OF s1(2), of 15] s1(3) assms(2) by auto
  have left: "bytes_left s2 = drop (rd_pos r) (rd_data r)" using s2(2) s1(3) assms(3) by (simp add: refilled_def)
  have "same_next 15 s2 r" using s2(3) by (simp add: same_next_def left [symmetric] bytes_left_def)
  from packet_header_mirrored [OF this, of C] obtain k res where k: "k \<le> 15"
    "packet_header C (pd_offset s2) s2 = (map_err packet_error res, consumed k s2)"
    "read_cmd_header_async C leb r = (res, r\<lparr>rd_pos := rd_pos r + k\<rparr>)" by blast
  have h: "packet_demo_read_cmd_header C s = (map_err packet_error res, consumed k s2)"
    using s1(1) s2(1) k(2) by (simp add: packet_demo_read_cmd_header_def packet_header_def bindM_run)
  have "pd_header_skipped (consumed k s2)" "pd_source (consumed k s2) = pd_source s2"
    using s2(2) s1(4) by (simp_all add: refilled_def consumed_def)
  then have "demo_left (consumed k s2) = drop k (bytes_left s2)"
    using k(1) s2(3) by (simp add: demo_left_def bytes_left_def)
  then show ?thesis using h k(3) left by (simp add: add.commute)
qed

text \<open>C37: with fewer than fifteen bytes left the channel reports the end of the demo, although a header takes as
  few as three bytes: the last commands of a demo are never read.\<close>

theorem packet_channel_loses_tail:
  assumes "pd_ok s" "length (demo_left s) < 15"
  shows "fst (packet_demo_read_cmd_header C s) = Err (RchIo UnexpectedEof)"
proof -
  obtain x s1 where x: "skip_header_if_needed s = (x, s1)"
    and ok: "x = Ok () \<Longrightarrow> pd_ok s1 \<and> bytes_left s1 = demo_left s \<and> pd_header_skipped s1"
    and err: "x \<noteq> Ok () \<Longrightarrow> x = Err (RchIo UnexpectedEof) \<and> demo_left s = []"
    by (rule skip_header [OF assms(1)]) blast
  show ?thesis
  proof (cases "x = Ok ()")
    case True
    with ok obtain s2 where "ensure_bytes 15 s1 = (Err (RchIo UnexpectedEof), s2)"
      using ensure_bytes [of s1 15] assms(2) by (metis linorder_not_le)
    with x True show ?thesis by (simp add: packet_demo_read_cmd_header_def bindM_run)
  next
    case False
    with err x show ?thesis by (simp add: packet_demo_read_cmd_header_def bindM_run)
  qed
qed

definition example_packets :: "u8 list list" where
  "example_packets = [replicate 10 0, replicate 6 0 @ [3, 0, 0, 13, 1, 0, 1], [2, 0, 13, 3, 0, 1, 4, 0]]"

lemma packet_demo_new_left: "pd_ok (packet_demo_new source)" "demo_left (packet_demo_new source) = drop 16 (concat source)"
  by (simp_all add: packet_demo_new_def pd_ok_def demo_left_def bytes_left_def pd_buffered_def)

theorem packet_channel_headers_witness:
  "fst (packet_demo_read_cmd_header example_cmds (packet_demo_new example_packets)) = Ok (example_header 3 0)"
proof -
  have r: "drop (rd_pos (example_at 16)) (rd_data (example_at 16)) = demo_left (packet_demo_new example_packets)"
    "15 \<le> length (demo_left (packet_demo_new example_packets))"
    by (simp_all add: packet_demo_new_left example_packets_def example_at_def example_demo_def)
  from packet_channel_headers [OF packet_demo_new_left(1) r(2,1), of example_cmds] example_headers(1)
  show ?thesis by (simp add: read_cmd_header_async_varint)
qed

theorem packet_channel_loses_tail_witness:
  "fst (packet_demo_read_cmd_header example_cmds (packet_demo_new [replicate 16 0 @ [0, 5, 0]])) = Err (RchIo UnexpectedEof)
   \<and> fst (read_cmd_header_async example_cmds leb \<lparr>rd_data = replicate 16 0 @ [0, 5, 0], rd_pos = 16\<rparr>) = Ok (example_header 0 5)"
proof
  have "length (demo_left (packet_demo_new [replicate 16 0 @ [0, 5, 0]])) < 15" by (simp add: packet_demo_new_left)
  from packet_channel_loses_tail [OF packet_demo_new_left(1) this]
  show "fst (packet_demo_read_cmd_header example_cmds (packet_demo_new [replicate 16 0 @ [0, 5, 0]])) = Err (RchIo UnexpectedEof)" .
  show "fst (read_cmd_header_async example_cmds leb \<lparr>rd_data = replicate 16 0 @ [0, 5, 0], rd_pos = 16\<rparr>) = Ok (example_header 0 5)"
    by (simp add: read_cmd_header_async_varint varint_cmd_header_def cmd_try_from_def example_cmds_def liftO_def retM_def
      read_uvarint_async_def leb_def read_exact_def map_errM_def bindM_def example_header_def)
qed

subsection \<open>Writing headers\<close>

text \<open>The encoding that the readers undo: seven bits a byte, the lowest first.\<close>

function encode_uvarint :: "u32 \<Rightarrow> u8 list" where
  "encode_uvarint x = (if x < 128 then [ucast x] else (0x80 OR ucast (x AND 0x7F)) # encode_uvarint (drop_bit 7 x))"
  by pat_completeness auto

termination
proof (relation "measure unat")
  fix x :: u32
  assume "\<not> x < 128"
  then have "unat x \<ge> 128" by (simp add: word_less_nat_alt)
  then show "(drop_bit 7 x, x) \<in> measure unat" by (simp add: drop_bit_eq_div unat_div)
qed simp

declare encode_uvarint.simps [simp del]

lemma split_low: "x = (x AND 0x7F) OR push_bit 7 (drop_bit 7 x)" for x :: u32
proof (rule bit_word_eqI)
  have m: "0x7F = (mask 7 :: u32)" by (simp add: mask_eq_exp_minus_1)
  fix n
  assume "n < LENGTH(32)"
  then show "bit x n = bit ((x AND 0x7F) OR push_bit 7 (drop_bit 7 x)) n"
    unfolding m by (cases "n < 7") (auto simp: bit_simps)
qed

lemma bit_high: "bit (0x80 :: u8) n \<longleftrightarrow> n = 7"
proof -
  have "0x80 = (push_bit 7 1 :: u8)" by simp
  then show "bit (0x80 :: u8) n \<longleftrightarrow> n = 7" by (simp only: bit_push_bit_iff bit_1_iff) auto
qed

lemma unat_numeral_128: "unat (128 :: u32) = 128"
  by simp

lemma byte_bits:
  "(0x80 OR ucast (x AND 0x7F)) AND 0x80 \<noteq> (0 :: u8)" "ucast ((0x80 OR ucast (x AND 0x7F) :: u8) AND 0x7F) = x AND 0x7F" for x :: u32
proof -
  have m: "0x7F = (mask 7 :: u32)" "0x7F = (mask 7 :: u8)" by (simp_all add: mask_eq_exp_minus_1)
  define h :: u8 where "h = 0x80"
  have h: "bit h n \<longleftrightarrow> n = 7" for n unfolding h_def by (rule bit_high)
  show "ucast ((0x80 OR ucast (x AND 0x7F) :: u8) AND 0x7F) = x AND 0x7F"
    unfolding m h_def [symmetric] by (rule bit_word_eqI) (auto simp: bit_simps h)
  have "bit ((h OR ucast (x AND 0x7F)) AND h) 7" by (simp add: bit_simps h)
  then show "(0x80 OR ucast (x AND 0x7F)) AND 0x80 \<noteq> (0 :: u8)" unfolding h_def by auto
qed

lemma small_bits: "x < 128 \<Longrightarrow> (ucast x :: u8) AND 0x80 = 0" "x < 128 \<Longrightarrow> ucast ((ucast x :: u8) AND 0x7F) = x" for x :: u32
proof -
  assume x: "x < 128"
  have high: "\<not> bit x n" if "7 \<le> n" for n
  proof
    assume "bit x n"
    have "take_bit 7 x = x" using x by (simp add: take_bit_eq_mod mod_word_less)
    with \<open>bit x n\<close> that show False by (metis bit_take_bit_iff not_le)
  qed
  then have low: "bit x n \<Longrightarrow> n < 7" for n by (meson not_le)
  have m: "0x7F = (mask 7 :: u8)" by (simp add: mask_eq_exp_minus_1)
  define h :: u8 where "h = 0x80"
  have h: "bit h n \<longleftrightarrow> n = 7" for n unfolding h_def by (rule bit_high)
  show "(ucast x :: u8) AND 0x80 = 0"
    unfolding h_def [symmetric] by (rule bit_word_eqI) (use high in \<open>auto simp: bit_simps h\<close>)
  show "ucast ((ucast x :: u8) AND 0x7F) = x"
    unfolding m by (rule bit_word_eqI) (use low in \<open>fastforce simp: bit_simps\<close>)
qed

lemma loop_encoded:
  assumes "drop (rd_pos r) (rd_data r) = encode_uvarint x @ ys" "drop_bit (7 * m) x = 0" "0 < m"
  shows "uvarint_async_loop leb m c v r = (Ok (v OR push_bit (c * 7) x, c + length (encode_uvarint x)),
     r\<lparr>rd_pos := rd_pos r + length (encode_uvarint x)\<rparr>)"
  using assms
proof (induction m arbitrary: x r c v)
  case (Suc m)
  obtain b xs where b: "encode_uvarint x = b # xs" by (cases "encode_uvarint x") (simp_all add: encode_uvarint.simps [of x] split: if_splits)
  have rd: "read_exact 1 r = (Ok [b], r\<lparr>rd_pos := rd_pos r + 1\<rparr>)"
  proof -
    have "rd_pos r < length (rd_data r)" using Suc.prems(1) b by (metis append_Cons drop_all list.distinct(1) not_le)
    then show ?thesis using Suc.prems(1) b by (simp add: read_exact_def take_Suc)
  qed
  show ?case
  proof (cases "x < 128")
    case True
    with b have "b = ucast x" "xs = []" by (simp_all add: encode_uvarint.simps [of x])
    with True b rd show ?thesis
      by (simp add: bindM_def map_errM_def Let_def leb_def small_bits)
  next
    case False
    then have b': "b = 0x80 OR ucast (x AND 0x7F)" "xs = encode_uvarint (drop_bit 7 x)"
      using b by (simp_all add: encode_uvarint.simps [of x])
    have "m \<noteq> 0"
    proof
      assume "m = 0"
      with Suc.prems(2) have "drop_bit 7 x = 0" by simp
      then have "x div 128 = 0" by (simp add: drop_bit_eq_div)
      then have "unat x div 128 = 0" by (metis unat_0 unat_div unat_numeral_128)
      with False show False by (simp add: word_less_nat_alt)
    qed
    moreover have "drop_bit (7 * m) (drop_bit 7 x) = 0" using Suc.prems(2) by (simp add: add.commute)
    moreover have "drop (rd_pos r + 1) (rd_data r) = encode_uvarint (drop_bit 7 x) @ ys"
      using Suc.prems(1) b b' by (metis add.commute append_Cons drop_drop drop_Suc_Cons drop0 One_nat_def)
    ultimately have "uvarint_async_loop leb m (c + 1) (v OR push_bit (c * 7) (x AND 0x7F)) (r\<lparr>rd_pos := rd_pos r + 1\<rparr>)
      = (Ok ((v OR push_bit (c * 7) (x AND 0x7F)) OR push_bit ((c + 1) * 7) (drop_bit 7 x), c + 1 + length xs),
         r\<lparr>rd_pos := rd_pos r + 1 + length xs\<rparr>)" using Suc.IH [of "r\<lparr>rd_pos := rd_pos r + 1\<rparr>" "drop_bit 7 x" "c + 1"] b'(2) by simp
    moreover have "(v OR push_bit (c * 7) (x AND 0x7F)) OR push_bit ((c + 1) * 7) (drop_bit 7 x) = v OR push_bit (c * 7) x"
    proof -
      have "push_bit (c * 7) x = push_bit (c * 7) ((x AND 0x7F) OR push_bit 7 (drop_bit 7 x))" using split_low [of x] by simp
      then show ?thesis by (simp add: push_bit_or or.assoc add.commute)
    qed
    ultimately show ?thesis using rd b b' by (simp add: bindM_def map_errM_def Let_def leb_def byte_bits)
  qed
qed simp

lemma read_encoded:
  assumes "drop (rd_pos r) (rd_data r) = encode_uvarint x @ ys"
  shows "read_uvarint_async leb r = (Ok (x, length (encode_uvarint x)), r\<lparr>rd_pos := rd_pos r + length (encode_uvarint x)\<rparr>)"
proof -
  have "drop_bit (7 * 5) x = 0" by (rule bit_word_eqI) (auto simp: bit_simps dest: bit_imp_le_length)
  from loop_encoded [OF assms this, of 0 0] show ?thesis by (simp add: read_uvarint_async_loop)
qed

definition raw_cmd :: "demo_commands \<Rightarrow> cmd_header \<Rightarrow> u32" where
  "raw_cmd C h = (if ch_body_compressed h then ch_cmd h OR dc_is_compressed C else ch_cmd h)"

definition encode_header :: "demo_commands \<Rightarrow> cmd_header \<Rightarrow> u8 list" where
  "encode_header C h = encode_uvarint (raw_cmd C h) @ encode_uvarint (ch_tick h) @ encode_uvarint (ch_body_size h)"

lemma read_encoded_header:
  assumes "drop (rd_pos r) (rd_data r) = encode_header C h @ ys"
    and "dc_known C (ch_cmd h)" "ch_cmd h AND dc_is_compressed C = 0" "dc_is_compressed C \<noteq> 0"
    and "ch_size h = of_nat (length (encode_header C h))"
  shows "varint_cmd_header C (read_uvarint_async leb) r = (Ok h, r\<lparr>rd_pos := rd_pos r + length (encode_header C h)\<rparr>)"
proof -
  let ?a = "encode_uvarint (raw_cmd C h)" and ?b = "encode_uvarint (ch_tick h)" and ?c = "encode_uvarint (ch_body_size h)"
  have d1: "drop (rd_pos r) (rd_data r) = ?a @ (?b @ ?c @ ys)" using assms(1) by (simp add: encode_header_def)
  have d2: "drop (rd_pos r + length ?a) (rd_data r) = ?b @ (?c @ ys)"
    using arg_cong [OF d1, of "drop (length ?a)"] by (simp add: add.commute)
  have d3: "drop (rd_pos r + length ?a + length ?b) (rd_data r) = ?c @ ys"
    using arg_cong [OF d2, of "drop (length ?b)"] by (simp add: add.commute)
  note reads = read_encoded [OF d1] read_encoded [of "r\<lparr>rd_pos := rd_pos r + length ?a\<rparr>", simplified, OF d2]
    read_encoded [of "r\<lparr>rd_pos := rd_pos r + length ?a + length ?b\<rparr>", simplified, OF d3]
  let ?f = "dc_is_compressed C"
  have cmp: "(raw_cmd C h AND ?f = ?f) = ch_body_compressed h"
    using assms(3,4) by (auto simp: raw_cmd_def bit.conj_disj_distrib2)
  have cmd: "(if ch_body_compressed h then raw_cmd C h AND NOT ?f else raw_cmd C h) = ch_cmd h"
  proof (cases "ch_body_compressed h")
    case True
    have "ch_cmd h = ch_cmd h AND (?f OR NOT ?f)" by simp
    then have "ch_cmd h AND NOT ?f = ch_cmd h" unfolding bit.conj_disj_distrib assms(3) by simp
    with True show ?thesis by (simp add: raw_cmd_def bit.conj_disj_distrib2)
  qed (simp add: raw_cmd_def)
  have "ch_size h = of_nat (length ?a + length ?b + length ?c)" using assms(5) by (simp add: encode_header_def)
  then have "h = \<lparr>ch_cmd = ch_cmd h, ch_body_compressed = ch_body_compressed h, ch_tick = ch_tick h, ch_body_size = ch_body_size h,
    ch_size = of_nat (length ?a + length ?b + length ?c)\<rparr>" by (cases h) simp
  then show ?thesis
    unfolding varint_cmd_header_def
    using reads assms(2)
    by (simp add: bindM_def map_errM_def Let_def cmp cmd cmd_try_from_def retM_def encode_header_def add.assoc)
qed

text \<open>C34: a header that was written is read back as it was, whatever follows it: the command, whether its body is
  compressed, any tick (the initial -1 included), any body size and the number of bytes, so that it can be unread.\<close>

theorem cmd_header_roundtrip:
  assumes "drop (rd_pos r) (rd_data r) = encode_header C h @ ys"
    and "dc_known C (ch_cmd h)" "ch_cmd h AND dc_is_compressed C = 0" "dc_is_compressed C \<noteq> 0"
    and "ch_size h = of_nat (length (encode_header C h))"
  shows "read_cmd_header_async C leb r = (Ok h, r\<lparr>rd_pos := rd_pos r + length (encode_header C h)\<rparr>)"
  unfolding read_cmd_header_async_varint by (rule read_encoded_header [OF assms])

definition example_written :: cmd_header where
  "example_written = \<lparr>ch_cmd = 13, ch_body_compressed = True, ch_tick = 0xFFFFFFFF, ch_body_size = 300, ch_size = 8\<rparr>"

theorem cmd_header_roundtrip_witness:
  "read_cmd_header_async example_cmds leb \<lparr>rd_data = encode_header example_cmds example_written, rd_pos = 0\<rparr>
    = (Ok example_written, \<lparr>rd_data = encode_header example_cmds example_written, rd_pos = 8\<rparr>)"
proof -
  have len: "length (encode_header example_cmds example_written) = 8"
    by (simp add: encode_header_def example_written_def raw_cmd_def example_cmds_def encode_uvarint.simps)
  let ?r = "\<lparr>rd_data = encode_header example_cmds example_written, rd_pos = 0\<rparr>"
  have "drop (rd_pos ?r) (rd_data ?r) = encode_header example_cmds example_written @ []" by simp
  from cmd_header_roundtrip [OF this] len show ?thesis
    by (simp add: example_written_def example_cmds_def)
qed

end
