(* ===== verification/AsyncParser.thy ===== *)
theory AsyncParser
  imports Parser
begin

text \<open>
  \<open>AsyncStreamingParser\<close> of \<open>haste_core/src/parser.rs\<close>.  Its code repeats the handlers of \<open>Parser\<close>; waiting for
  the stream or the visitor is not modelled.  Its state is the record of \<open>Parser\<close>, whose flag
  \<open>ps_skip_entity_packets\<close> nothing here reads.

  The asynchronous visitor has the methods of the synchronous one.
\<close>

subsection \<open>String tables\<close>

definition async_handle_svc_create_string_table ::
    "('s, 'c) env \<Rightarrow> msg_create_string_table \<Rightarrow> ('d, 'v, 'e, unit) parser_rm" where
  "async_handle_svc_create_string_table E msg =
     bindM (get_ctx (\<lambda>ctx. length (cx_string_tables ctx))) (\<lambda>i.
     seqM (change_ctx (\<lambda>ctx. ctx\<lparr>cx_string_tables := create_string_table (mc_name msg)
       (mc_user_data_fixed_size msg) (mc_user_data_size msg) (mc_user_data_size_bits msg) (mc_flags msg)
       (mc_using_varint_bitcounts msg) (cx_string_tables ctx)\<rparr>))
     (bindM (created_string_data E msg) (\<lambda>string_data.
      seqM (update_table E i string_data (mc_num_entries msg))
      (table_changed E i))))"

definition async_handle_svc_update_string_table ::
    "('s, 'c) env \<Rightarrow> msg_update_string_table \<Rightarrow> ('d, 'v, 'e, unit) parser_rm" where
  "async_handle_svc_update_string_table E msg =
     (let table_id = as_usize (mu_table_id msg) in
      bindM (get_ctx (\<lambda>ctx. get_table table_id (cx_string_tables ctx))) (\<lambda>table.
      if table = None then errM PeStringTableNotFound
      else seqM (update_table E table_id (mu_string_data msg) (mu_num_changed_entries msg))
        (table_changed E table_id)))"

definition async_handle_cmd_string_tables :: "('s, 'c) env \<Rightarrow> proto_table list \<Rightarrow> ('d, 'v, 'e, unit) parser_rm" where
  "async_handle_cmd_string_tables E tables =
     seqM (change_ctx (\<lambda>ctx. case tables_full_update tables (cx_string_tables ctx, cx_cells ctx) of
       (ts, h) \<Rightarrow> ctx\<lparr>cx_string_tables := ts, cx_cells := h\<rparr>))
     (bindM (get_ctx cx_entity_classes) (\<lambda>classes. case classes of
       None \<Rightarrow> errM PeEntityClassesNotAvailable
     | Some entity_classes \<Rightarrow>
         bindM (get_ctx (\<lambda>ctx. find_table INSTANCE_BASELINE_TABLE_NAME (cx_string_tables ctx))) (\<lambda>table.
         case table of None \<Rightarrow> retM () | Some table \<Rightarrow> update_baseline E table entity_classes)))"

subsection \<open>Packets\<close>

text \<open>One entity of the message, by its delta header: the body of the loop in the asynchronous copy.\<close>

definition async_packet_entity ::
    "('s, 'c) env \<Rightarrow> ('v, 'e) visitor \<Rightarrow> entity_classes \<Rightarrow> serializer_map \<Rightarrow> i32 \<Rightarrow> delta_header
     \<Rightarrow> ('s, 'd, 'v, 'e, unit) packet_rm" where
  "async_packet_entity E V entity_classes serializers entity_index delta_header =
     (if delta_header = CREATE then
        bindM (\<lambda>(p, br). on_entities (handle_create_with_filter (e_bits E) entity_index entity_classes
            (cx_cells (ps_ctx p)) (cx_instance_baseline (ps_ctx p)) serializers
            (vi_should_track_entity V (ps_visitor p))) (p, br)) (\<lambda>maybe_index.
        case maybe_index of
          Some index \<Rightarrow>
            bindM (on_parser (get_ctx (\<lambda>ctx. entities_get (cx_entities ctx) index))) (\<lambda>entity.
            case entity of
              Some entity \<Rightarrow> on_parser (visit (\<lambda>ctx. vi_on_entity V ctx delta_header entity))
            | None \<Rightarrow> errM PeEntityNotFound)
        | None \<Rightarrow> retM ())
      else if delta_header = DELETE then
        bindM (on_entities (\<lambda>(ec, c). case handle_delete entity_index ec of (e, ec) \<Rightarrow> (Ok e, (ec, c)))) (\<lambda>entity.
        case entity of
          Some entity \<Rightarrow> on_parser (visit (\<lambda>ctx. vi_on_entity V ctx delta_header entity))
        | None \<Rightarrow> retM ())
      else if delta_header = LEAVE then
        bindM (on_entities (\<lambda>(ec, c). case handle_leave entity_index ec of (e, ec) \<Rightarrow> (Ok e, (ec, c)))) (\<lambda>entity.
        case entity of
          Some entity \<Rightarrow> on_parser (visit (\<lambda>ctx. vi_on_entity V ctx delta_header entity))
        | None \<Rightarrow> retM ())
      else if delta_header = UPDATE then
        bindM (on_entities (handle_update (e_bits E) entity_index)) (\<lambda>_.
        bindM (on_parser (get_ctx (\<lambda>ctx. entities_get (cx_entities ctx) entity_index))) (\<lambda>entity.
        case entity of
          Some entity \<Rightarrow> on_parser (visit (\<lambda>ctx. vi_on_entity V ctx delta_header entity))
        | None \<Rightarrow> retM ()))
      else retM ())"

fun async_packet_entities_loop ::
    "('s, 'c) env \<Rightarrow> ('v, 'e) visitor \<Rightarrow> entity_classes \<Rightarrow> serializer_map \<Rightarrow> nat \<Rightarrow> i32
     \<Rightarrow> ('s, 'd, 'v, 'e, unit) packet_rm" where
  "async_packet_entities_loop E V entity_classes serializers 0 entity_index = retM ()"
| "async_packet_entities_loop E V entity_classes serializers (Suc n) entity_index =
     bindM (on_packet_bits (read_ubitvar (e_bits E))) (\<lambda>v.
     let entity_index = entity_index + (v + 1) in
     bindM (on_packet_bits (delta_header_from_bit_reader (e_bits E))) (\<lambda>delta_header.
     seqM (async_packet_entity E V entity_classes serializers entity_index delta_header)
       (async_packet_entities_loop E V entity_classes serializers n entity_index)))"

definition async_handle_svc_packet_entities ::
    "('s, 'c) env \<Rightarrow> ('v, 'e) visitor \<Rightarrow> msg_packet_entities \<Rightarrow> ('d, 'v, 'e, unit) parser_rm" where
  "async_handle_svc_packet_entities E V msg =
     bindM (get_ctx (\<lambda>ctx. (cx_entity_classes ctx, cx_serializers ctx))) (\<lambda>(classes, serializers).
     case classes of None \<Rightarrow> errM PeEntityClassesNotAvailable | Some entity_classes \<Rightarrow>
     case serializers of None \<Rightarrow> errM PeSerializersNotAvailable | Some serializers \<Rightarrow>
     (\<lambda>p. case seqM (async_packet_entities_loop E V entity_classes serializers (nat (sint (mp_updated_entries msg))) (- 1))
            (on_packet_bits (is_overflowed (e_bits E)))
            (p, bit_reader_new (e_bits E) (mp_entity_data msg)) of
        (r, (p, br)) \<Rightarrow> (r, p)))"

text \<open>The arm for the server's information, written out in the \<open>match\<close> of the asynchronous copy.\<close>

definition async_server_info :: "f32 option \<Rightarrow> ('d, 'v, 'e, unit) parser_rm" where
  "async_server_info msg_tick_interval = (\<lambda>p. case msg_tick_interval of
     Some t \<Rightarrow>
       let p = p\<lparr>ps_ctx := (ps_ctx p)\<lparr>cx_tick_interval := t\<rparr>\<rparr>;
           ratio = fl_div binary32 DEFAULT_TICK_INTERVAL t;
           p = p\<lparr>ps_ctx := (ps_ctx p)\<lparr>cx_full_packet_interval := DEFAULT_FULL_PACKET_INTERVAL * fl_to_i32 ratio\<rparr>\<rparr>
       in (Ok (), p\<lparr>ps_field_decode_ctx := (ps_field_decode_ctx p)\<lparr>tick_interval := t\<rparr>\<rparr>)
   | None \<Rightarrow> (Ok (), p))"

definition async_packet_message ::
    "('s, 'c) env \<Rightarrow> ('v, 'e) visitor \<Rightarrow> u32 \<Rightarrow> u8 list \<Rightarrow> ('d, 'v, 'e, unit) parser_rm" where
  "async_packet_message E V command buf =
     (if command = e_svc_create_string_table E then
        decode_msg (async_handle_svc_create_string_table E) (e_decode_create_string_table E buf)
      else if command = e_svc_update_string_table E then
        decode_msg (async_handle_svc_update_string_table E) (e_decode_update_string_table E buf)
      else if command = e_svc_packet_entities E then
        decode_msg (async_handle_svc_packet_entities E V) (e_decode_packet_entities E buf)
      else if command = e_svc_server_info E then
        decode_msg async_server_info (e_decode_server_info E buf)
      else retM ())"

fun async_packet_loop ::
    "('s, 'c) env \<Rightarrow> ('v, 'e) visitor \<Rightarrow> nat \<Rightarrow> ('s, 'd, 'v, 'e, unit) packet_rm" where
  "async_packet_loop E V 0 = liftO OutOfFuel"
| "async_packet_loop E V (Suc fuel) = (\<lambda>(p, br).
     if num_bits_left (e_bits E) br > 8 then
       bindM (on_packet_bits (read_ubitvar (e_bits E))) (\<lambda>command.
       bindM (on_packet_bits (read_uvarint32 (e_bits E))) (\<lambda>n.
       bindM (read_message (e_bits E) (unat n)) (\<lambda>buf.
       seqM (on_parser (visit (\<lambda>ctx. vi_on_packet V ctx command buf)))
       (seqM (on_parser (async_packet_message E V command buf))
         (async_packet_loop E V fuel))))) (p, br)
     else (Ok (), (p, br)))"

definition async_handle_cmd_packet ::
    "('s, 'c) env \<Rightarrow> ('v, 'e) visitor \<Rightarrow> u8 list option \<Rightarrow> ('d, 'v, 'e, unit) parser_rm" where
  "async_handle_cmd_packet E V data = (\<lambda>p.
     let br = bit_reader_new (e_bits E) (case data of Some d \<Rightarrow> d | None \<Rightarrow> []) in
     case seqM (async_packet_loop E V (Suc (num_bits_left (e_bits E) br))) (on_packet_bits (is_overflowed (e_bits E))) (p, br) of
       (r, (p, br)) \<Rightarrow> (r, p))"

definition async_handle_cmd_full_packet ::
    "('s, 'c) env \<Rightarrow> ('v, 'e) visitor \<Rightarrow> cdemo_full_packet \<Rightarrow> ('d, 'v, 'e, unit) parser_rm" where
  "async_handle_cmd_full_packet E V cmd =
     seqM (case cf_string_table cmd of Some ts \<Rightarrow> async_handle_cmd_string_tables E ts | None \<Rightarrow> retM ())
       (case cf_packet cmd of Some packet \<Rightarrow> async_handle_cmd_packet E V packet | None \<Rightarrow> retM ())"

subsection \<open>Commands\<close>

text \<open>The arms for the send tables and the class info, once they are known to be missing.\<close>

definition async_send_tables ::
    "('s, 'c) env \<Rightarrow> 'd async_demo_stream \<Rightarrow> u8 list \<Rightarrow> ('d, 'v, 'e, unit) parser_rm" where
  "async_send_tables E A cmd_body =
     bindM (liftO (map_err PeDecodeCmd (as_decode_cmd_send_tables A cmd_body))) (\<lambda>cmd.
     bindM (liftO (map_err PeSerializers
       (flattened_serializers_parse (e_uvarint64 E) (e_flattened E) (e_charsor E) cmd))) (\<lambda>serializers.
     change_ctx (\<lambda>ctx. ctx\<lparr>cx_serializers := Some serializers\<rparr>)))"

definition async_class_info ::
    "('s, 'c) env \<Rightarrow> 'd async_demo_stream \<Rightarrow> u8 list \<Rightarrow> ('d, 'v, 'e, unit) parser_rm" where
  "async_class_info E A cmd_body =
     bindM (liftO (map_err PeDecodeCmd (as_decode_cmd_class_info A cmd_body))) (\<lambda>cmd.
     seqM (change_ctx (\<lambda>ctx. ctx\<lparr>cx_entity_classes := Some (entity_classes_parse (e_log2 E) cmd)\<rparr>))
     (bindM (get_ctx (\<lambda>ctx. (find_table INSTANCE_BASELINE_TABLE_NAME (cx_string_tables ctx), cx_entity_classes ctx)))
       (\<lambda>(string_table, classes).
      case string_table of
        None \<Rightarrow> retM ()
      | Some string_table \<Rightarrow> (case classes of
          None \<Rightarrow> errM PeEntityNotFound
        | Some entity_classes \<Rightarrow> update_baseline E string_table entity_classes))))"

definition async_match_cmd ::
    "('s, 'c) env \<Rightarrow> 'd async_demo_stream \<Rightarrow> ('v, 'e) visitor \<Rightarrow> i32 \<Rightarrow> u8 list \<Rightarrow> ('d, 'v, 'e, unit) parser_rm" where
  "async_match_cmd E A V cmd cmd_body = (let C = e_cmds E in
     if cmd = dc_packet C \<or> cmd = dc_signon_packet C then
       bindM (liftO (map_err PeDecodeCmd (as_decode_cmd_packet A cmd_body))) (async_handle_cmd_packet E V)
     else if cmd = dc_send_tables C then
       bindM (get_ctx (\<lambda>ctx. cx_serializers ctx \<noteq> None)) (\<lambda>known.
       if known then retM () else
       async_send_tables E A cmd_body)
     else if cmd = dc_class_info C then
       bindM (get_ctx (\<lambda>ctx. cx_entity_classes ctx \<noteq> None)) (\<lambda>known.
       if known then retM () else
       async_class_info E A cmd_body)
     else if cmd = dc_full_packet C then
       bindM (liftO (map_err PeDecodeCmd (as_decode_cmd_full_packet A cmd_body))) (async_handle_cmd_full_packet E V)
     else retM ())"

definition async_handle_cmd ::
    "('s, 'c) env \<Rightarrow> 'd async_demo_stream \<Rightarrow> ('v, 'e) visitor \<Rightarrow> cmd_header \<Rightarrow> ('d, 'v, 'e, unit) parser_rm" where
  "async_handle_cmd E A V cmd_header =
     bindM (on_stream PeCmd (as_read_cmd A cmd_header)) (\<lambda>cmd_body.
     seqM (visit (\<lambda>ctx. vi_on_cmd V ctx cmd_header cmd_body))
       (async_match_cmd E A V (ch_cmd cmd_header) cmd_body))"

subsection \<open>Running\<close>

text \<open>\<open>async_from_stream_with_visitor\<close>; and only the end of the input counts as the end of the demo.\<close>

definition async_parser_from_stream :: "'d \<Rightarrow> 'v \<Rightarrow> ('d, 'v) parser" where
  "async_parser_from_stream demo_stream v = \<lparr>ps_demo_stream = demo_stream,
     ps_buf = replicate DEMO_RECORD_BUFFER_SIZE 0, ps_visitor = v, ps_ctx = context_new,
     ps_field_decode_ctx = field_decode_context_default, ps_skip_entity_packets = False\<rparr>"

definition end_of_async_run :: "read_cmd_header_error \<Rightarrow> ('e parser_error, unit) outcome" where
  "end_of_async_run err = (if err = RchIo UnexpectedEof then Ok () else Err (PeCmdHeader err))"

fun run_internal ::
    "('s, 'c) env \<Rightarrow> 'd async_demo_stream \<Rightarrow> ('v, 'e) visitor \<Rightarrow> nat \<Rightarrow> bool \<Rightarrow> ('d, 'v, 'e, unit) parser_rm" where
  "run_internal E A V 0 reset_on_full_packet = liftO OutOfFuel"
| "run_internal E A V (Suc fuel) reset_on_full_packet = (\<lambda>p.
     case zoomM ps_demo_stream (\<lambda>d p. p\<lparr>ps_demo_stream := d\<rparr>) (as_read_cmd_header A) p of
       (Ok cmd_header, p) \<Rightarrow>
         seqM (set_tick (ch_tick cmd_header))
         (seqM (if reset_on_full_packet \<and> ch_cmd cmd_header = dc_full_packet (e_cmds E)
            then change_ctx (\<lambda>ctx. ctx\<lparr>cx_entities := entities_clear (cx_entities ctx)\<rparr>) else retM ())
         (seqM (async_handle_cmd E A V cmd_header)
         (bindM (get_ctx (\<lambda>ctx. cx_prev_tick ctx \<noteq> cx_tick ctx)) (\<lambda>tick_changed.
          seqM (if tick_changed then visit (vi_on_tick_end V) else retM ())
            (run_internal E A V fuel reset_on_full_packet))))) p
     | (Err err, p) \<Rightarrow> (end_of_async_run err, p)
     | (Panic x, p) \<Rightarrow> (Panic x, p)
     | (OutOfFuel, p) \<Rightarrow> (OutOfFuel, p))"

definition async_run_to_end ::
    "('s, 'c) env \<Rightarrow> 'd async_demo_stream \<Rightarrow> ('v, 'e) visitor \<Rightarrow> nat \<Rightarrow> ('d, 'v, 'e, unit) parser_rm" where
  "async_run_to_end E A V fuel = run_internal E A V fuel False"

definition run_to_end_final_state ::
    "('s, 'c) env \<Rightarrow> 'd async_demo_stream \<Rightarrow> ('v, 'e) visitor \<Rightarrow> nat \<Rightarrow> ('d, 'v, 'e, unit) parser_rm" where
  "run_to_end_final_state E A V fuel = run_internal E A V fuel True"

end
