(* ===== verification/AsyncParserLaws.thy ===== *)
theory AsyncParserLaws
  imports PacketChannelLaws AsyncParser
begin

text \<open>
  The streaming parser follows the parser.  A map \<open>f\<close> takes the states of a synchronous stream to those of an
  asynchronous one; \<open>mirrors f m m'\<close> says that \<open>m'\<close> does on the mapped state what \<open>m\<close> does, as long as no entity
  packets are skipped.  Every handler mirrors its copy, so whole runs do.
\<close>

subsection \<open>Mirrored operations\<close>

definition mapped :: "('d \<Rightarrow> 'a) \<Rightarrow> ('d, 'v) parser \<Rightarrow> ('a, 'v) parser" where
  "mapped f p = \<lparr>ps_demo_stream = f (ps_demo_stream p), ps_buf = ps_buf p, ps_visitor = ps_visitor p, ps_ctx = ps_ctx p,
     ps_field_decode_ctx = ps_field_decode_ctx p, ps_skip_entity_packets = ps_skip_entity_packets p\<rparr>"

lemma mapped_simps [simp]:
  "ps_demo_stream (mapped f p) = f (ps_demo_stream p)" "ps_buf (mapped f p) = ps_buf p"
  "ps_visitor (mapped f p) = ps_visitor p" "ps_ctx (mapped f p) = ps_ctx p"
  "ps_field_decode_ctx (mapped f p) = ps_field_decode_ctx p"
  "ps_skip_entity_packets (mapped f p) = ps_skip_entity_packets p"
  by (simp_all add: mapped_def)

lemma mapped_updates:
  "(mapped f p)\<lparr>ps_demo_stream := f d\<rparr> = mapped f (p\<lparr>ps_demo_stream := d\<rparr>)"
  "(mapped f p)\<lparr>ps_buf := b\<rparr> = mapped f (p\<lparr>ps_buf := b\<rparr>)"
  "(mapped f p)\<lparr>ps_visitor := v\<rparr> = mapped f (p\<lparr>ps_visitor := v\<rparr>)"
  "(mapped f p)\<lparr>ps_ctx := c\<rparr> = mapped f (p\<lparr>ps_ctx := c\<rparr>)"
  "(mapped f p)\<lparr>ps_field_decode_ctx := fd\<rparr> = mapped f (p\<lparr>ps_field_decode_ctx := fd\<rparr>)"
  by (simp_all add: mapped_def)

definition mirrors :: "('d \<Rightarrow> 'a) \<Rightarrow> ('d, 'v, 'e, 'x) parser_rm \<Rightarrow> ('a, 'v, 'e, 'x) parser_rm \<Rightarrow> bool" where
  "mirrors f m m' \<longleftrightarrow> (\<forall>p. \<not> ps_skip_entity_packets p \<longrightarrow>
     m' (mapped f p) = apsnd (mapped f) (m p) \<and> \<not> ps_skip_entity_packets (snd (m p)))"

definition mirrors_br ::
    "('d \<Rightarrow> 'a) \<Rightarrow> ('s, 'd, 'v, 'e, 'x) packet_rm \<Rightarrow> ('s, 'a, 'v, 'e, 'x) packet_rm \<Rightarrow> bool" where
  "mirrors_br f m m' \<longleftrightarrow> (\<forall>p br. \<not> ps_skip_entity_packets p \<longrightarrow>
     m' (mapped f p, br) = apsnd (apfst (mapped f)) (m (p, br)) \<and> \<not> ps_skip_entity_packets (fst (snd (m (p, br)))))"

lemma mirrorsD:
  "mirrors f m m' \<Longrightarrow> m p = (r, q) \<Longrightarrow> \<not> ps_skip_entity_packets p \<Longrightarrow>
   m' (mapped f p) = (r, mapped f q) \<and> \<not> ps_skip_entity_packets q"
  unfolding mirrors_def by (metis apsnd_conv snd_conv)

lemma mirrors_brD:
  "mirrors_br f m m' \<Longrightarrow> m (p, br) = (r, (q, br')) \<Longrightarrow> \<not> ps_skip_entity_packets p \<Longrightarrow>
   m' (mapped f p, br) = (r, (mapped f q, br')) \<and> \<not> ps_skip_entity_packets q"
  unfolding mirrors_br_def by (metis apfst_conv apsnd_conv fst_conv snd_conv)

lemma mirrorsI:
  "(\<And>p r q. m p = (r, q) \<Longrightarrow> \<not> ps_skip_entity_packets p \<Longrightarrow>
     m' (mapped f p) = (r, mapped f q) \<and> \<not> ps_skip_entity_packets q) \<Longrightarrow> mirrors f m m'"
  unfolding mirrors_def by (metis apsnd_conv prod.collapse)

lemma mirrors_brI:
  fixes m :: "('s, 'd, 'v, 'e, 'x) packet_rm"
  assumes "\<And>p br r q br'. m (p, br) = (r, (q, br')) \<Longrightarrow> \<not> ps_skip_entity_packets p \<Longrightarrow>
     m' (mapped f p, br) = (r, (mapped f q, br')) \<and> \<not> ps_skip_entity_packets q"
  shows "mirrors_br f m m'"
  unfolding mirrors_br_def
proof (intro allI impI)
  fix p :: "('d, 'v) parser" and br
  assume skip: "\<not> ps_skip_entity_packets p"
  obtain r q br' where m: "m (p, br) = (r, (q, br'))" by (metis prod.collapse)
  from assms [OF m skip] m
  show "m' (mapped f p, br) = apsnd (apfst (mapped f)) (m (p, br)) \<and> \<not> ps_skip_entity_packets (fst (snd (m (p, br))))"
    by simp
qed

lemma mirrors_br_pointwise:
  assumes "\<And>p br. mirrors_br f (k p) (k' p) \<and> m (p, br) = k p (p, br) \<and> m' (mapped f p, br) = k' p (mapped f p, br)"
  shows "mirrors_br f m m'"
  using assms unfolding mirrors_br_def by metis

named_theorems mirror_intros "operations that the streaming parser mirrors"

lemma mirrors_basic [mirror_intros]:
  "mirrors f (retM x) (retM x)" "mirrors f (errM e) (errM e)" "mirrors f (liftO r) (liftO r)"
  "mirrors f (get_ctx g) (get_ctx g)" "mirrors f (change_ctx c) (change_ctx c)"
  "mirrors_br f (retM x) (retM x)" "mirrors_br f (errM e) (errM e)" "mirrors_br f (liftO r) (liftO r)"
  by (simp_all add: mirrors_def mirrors_br_def retM_def errM_def liftO_def get_ctx_def change_ctx_def mapped_updates)

lemma mirrors_bindM [mirror_intros]:
  fixes m :: "('d, 'v, 'e, 'x) parser_rm"
  assumes "mirrors f m m'" "\<And>x. mirrors f (g x) (g' x)" shows "mirrors f (bindM m g) (bindM m' g')"
proof (rule mirrorsI)
  fix p :: "('d, 'v) parser" and r q
  assume b: "bindM m g p = (r, q)" and skip: "\<not> ps_skip_entity_packets p"
  obtain x p1 where m: "m p = (x, p1)" by (cases "m p")
  note m' = mirrorsD [OF assms(1) m skip]
  show "bindM m' g' (mapped f p) = (r, mapped f q) \<and> \<not> ps_skip_entity_packets q"
    using b m m' mirrorsD [OF assms(2)] by (cases x) (simp_all add: bindM_def)
qed

lemma mirrors_br_bindM [mirror_intros]:
  fixes m :: "('s, 'd, 'v, 'e, 'x) packet_rm"
  assumes "mirrors_br f m m'" "\<And>x. mirrors_br f (g x) (g' x)" shows "mirrors_br f (bindM m g) (bindM m' g')"
proof (rule mirrors_brI)
  fix p :: "('d, 'v) parser" and br r q br'
  assume b: "bindM m g (p, br) = (r, (q, br'))" and skip: "\<not> ps_skip_entity_packets p"
  obtain x p1 br1 where m: "m (p, br) = (x, (p1, br1))" by (metis prod.collapse)
  note m' = mirrors_brD [OF assms(1) m skip]
  show "bindM m' g' (mapped f p, br) = (r, (mapped f q, br')) \<and> \<not> ps_skip_entity_packets q"
    using b m m' mirrors_brD [OF assms(2)] by (cases x) (simp_all add: bindM_def)
qed

lemma mirrors_if [mirror_intros]:
  "mirrors f m m' \<Longrightarrow> mirrors f n n' \<Longrightarrow> mirrors f (if b then m else n) (if b then m' else n')"
  "mirrors_br f k k' \<Longrightarrow> mirrors_br f l l' \<Longrightarrow> mirrors_br f (if b then k else l) (if b then k' else l')"
  by simp_all

lemma mirrors_option [mirror_intros]:
  "mirrors f m m' \<Longrightarrow> (\<And>x. mirrors f (g x) (g' x)) \<Longrightarrow>
   mirrors f (case opt of None \<Rightarrow> m | Some x \<Rightarrow> g x) (case opt of None \<Rightarrow> m' | Some x \<Rightarrow> g' x)"
  "mirrors_br f k k' \<Longrightarrow> (\<And>x. mirrors_br f (l x) (l' x)) \<Longrightarrow>
   mirrors_br f (case opt of None \<Rightarrow> k | Some x \<Rightarrow> l x) (case opt of None \<Rightarrow> k' | Some x \<Rightarrow> l' x)"
  by (simp_all split: option.split)

lemma mirrors_prod [mirror_intros]:
  "(\<And>x y. mirrors f (g x y) (g' x y)) \<Longrightarrow> mirrors f (case z of (x, y) \<Rightarrow> g x y) (case z of (x, y) \<Rightarrow> g' x y)"
  by (simp add: split_beta)

lemma mirrors_visit [mirror_intros]: "mirrors f (visit m) (visit m)"
  by (simp add: mirrors_def visit_def map_errM_def zoomM_def mapped_updates split_beta)

lemma mirrors_on_stream [mirror_intros]:
  "(\<And>d. m' (f d) = apsnd f (m d)) \<Longrightarrow> mirrors f (on_stream e m) (on_stream e m')"
  by (simp add: mirrors_def on_stream_def map_errM_def zoomM_def mapped_updates split_beta)

lemma mirrors_br_lifts [mirror_intros]:
  "mirrors f m m' \<Longrightarrow> mirrors_br f (on_parser m) (on_parser m')"
  "mirrors_br f (on_packet_bits k) (on_packet_bits k)" "mirrors_br f (on_entities q) (on_entities q)"
  by (simp_all add: mirrors_def mirrors_br_def on_parser_def on_packet_bits_def on_entities_def on_reader_def
      map_errM_def zoomM_def mapped_updates split_beta)

subsection \<open>The handlers\<close>

lemma mirrors_update_baseline [mirror_intros]: "mirrors f (update_baseline E t c) (update_baseline E t c)"
  by (simp add: mirrors_def update_baseline_def map_errM_def zoomM_def mapped_updates split_beta)

lemma mirrors_table_changed [mirror_intros]: "mirrors f (table_changed E i) (table_changed E i)"
  unfolding table_changed_def by (intro mirror_intros)

lemma mirrors_update_table [mirror_intros]: "mirrors f (update_table E i d n) (update_table E i d n)"
  by (simp add: mirrors_def update_table_def Let_def mapped_updates split_beta)

lemma mirrors_created_string_data [mirror_intros]: "mirrors f (created_string_data E msg) (created_string_data E msg)"
  by (auto simp: mirrors_def created_string_data_def mapped_updates split: option.splits)

lemma mirrors_string_tables [mirror_intros]:
  "mirrors f (handle_svc_create_string_table E m1) (async_handle_svc_create_string_table E m1)"
  "mirrors f (handle_svc_update_string_table E m2) (async_handle_svc_update_string_table E m2)"
  "mirrors f (handle_cmd_string_tables E ts) (async_handle_cmd_string_tables E ts)"
  unfolding handle_svc_create_string_table_def handle_svc_update_string_table_def handle_cmd_string_tables_def
    async_handle_svc_create_string_table_def async_handle_svc_update_string_table_def
    async_handle_cmd_string_tables_def Let_def
  by (intro mirror_intros)+

lemma mirrors_packet_entity [mirror_intros]:
  "mirrors_br f (packet_entity E V classes sers i dh) (async_packet_entity E V classes sers i dh)"
proof -
  have "mirrors_br f
      (\<lambda>(p, br). on_entities (handle_create_with_filter (e_bits E) i classes (cx_cells (ps_ctx p))
        (cx_instance_baseline (ps_ctx p)) sers (vi_should_track_entity V (ps_visitor p))) (p, br))
      (\<lambda>(p, br). on_entities (handle_create_with_filter (e_bits E) i classes (cx_cells (ps_ctx p))
        (cx_instance_baseline (ps_ctx p)) sers (vi_should_track_entity V (ps_visitor p))) (p, br))"
    by (simp add: mirrors_br_def on_entities_def map_errM_def zoomM_def mapped_updates split_beta)
  then show ?thesis unfolding packet_entity_def async_packet_entity_def visit_entity_def by (intro mirror_intros)
qed

lemma mirrors_packet_entities_loop [mirror_intros]:
  "mirrors_br f (packet_entities_loop E V classes sers n i) (async_packet_entities_loop E V classes sers n i)"
  by (induction n arbitrary: i) (auto simp: Let_def intro!: mirror_intros)

lemma mirrors_local_br:
  assumes "mirrors_br f m m'"
  shows "mirrors f (\<lambda>p. case m (p, b) of (r, (p, br)) \<Rightarrow> (r, p)) (\<lambda>p. case m' (p, b) of (r, (p, br)) \<Rightarrow> (r, p))"
  using assms by (simp add: mirrors_def mirrors_br_def split_beta)

lemma mirrors_packet_entities [mirror_intros]:
  "mirrors f (handle_svc_packet_entities E V msg) (async_handle_svc_packet_entities E V msg)"
  unfolding handle_svc_packet_entities_def async_handle_svc_packet_entities_def
  by (intro mirror_intros mirrors_local_br)

lemma mirrors_server_info [mirror_intros]: "mirrors f (handle_svc_server_info t) (async_server_info t)"
  by (auto simp: mirrors_def handle_svc_server_info_def async_server_info_def Let_def retM_def mapped_updates split: option.split)

lemma mirrors_decode_msg [mirror_intros]:
  "(\<And>m. mirrors f (h m) (h' m)) \<Longrightarrow> mirrors f (decode_msg h msg) (decode_msg h' msg)"
  unfolding decode_msg_def by (intro mirror_intros)

lemma mirrors_packet_message [mirror_intros]:
  "mirrors f (packet_message E V c b) (async_packet_message E V c b)"
proof -
  have fm: "mirrors f (if c = e_svc_create_string_table E then
       decode_msg (handle_svc_create_string_table E) (e_decode_create_string_table E b)
     else if c = e_svc_update_string_table E then
       decode_msg (handle_svc_update_string_table E) (e_decode_update_string_table E b)
     else if c = e_svc_packet_entities E then
       decode_msg (handle_svc_packet_entities E V) (e_decode_packet_entities E b)
     else if c = e_svc_server_info E then
       decode_msg handle_svc_server_info (e_decode_server_info E b)
     else retM ()) (async_packet_message E V c b)" (is "mirrors f ?m _")
    unfolding async_packet_message_def by (intro mirror_intros)
  have "packet_message E V c b p = ?m p" if "\<not> ps_skip_entity_packets p" for p :: "(_, _) parser"
    using that by (simp add: packet_message_def retM_def)
  with fm show ?thesis unfolding mirrors_def by simp
qed

lemma mirrors_read_message [mirror_intros]: "mirrors_br f (read_message B n) (read_message B n)"
proof -
  have "mirrors_br f (on_packet_bits (read_bytes B buf)) (on_packet_bits (read_bytes B buf))" for buf
    by (intro mirror_intros)
  moreover have "mirrors_br f (\<lambda>(p, br). (Ok buf, (p\<lparr>ps_buf := buf @ drop n (ps_buf p)\<rparr>, br)))
      (\<lambda>(p, br). (Ok buf, (p\<lparr>ps_buf := buf @ drop n (ps_buf p)\<rparr>, br)))" for buf
    by (simp add: mirrors_br_def mapped_updates)
  ultimately have k: "mirrors_br f
      (bindM (liftO (slice_to b n)) (\<lambda>buf. bindM (on_packet_bits (read_bytes B buf)) (\<lambda>buf (p, br).
        (Ok buf, (p\<lparr>ps_buf := buf @ drop n (ps_buf p)\<rparr>, br)))))
      (bindM (liftO (slice_to b n)) (\<lambda>buf. bindM (on_packet_bits (read_bytes B buf)) (\<lambda>buf (p, br).
        (Ok buf, (p\<lparr>ps_buf := buf @ drop n (ps_buf p)\<rparr>, br)))))" for b
    by (intro mirror_intros)
  show ?thesis
    by (rule mirrors_br_pointwise) (rule conjI [OF k conjI]; simp only: read_message_def prod.case mapped_simps)
qed

lemma mirrors_packet_loop [mirror_intros]:
  "mirrors_br f (packet_loop E V fuel) (async_packet_loop E V fuel)"
proof (induction fuel)
  case 0
  then show ?case unfolding packet_loop.simps async_packet_loop.simps by (intro mirror_intros)
next
  case (Suc fuel)
  have "mirrors_br f
      (bindM (on_packet_bits (read_ubitvar (e_bits E))) (\<lambda>command.
       bindM (on_packet_bits (read_uvarint32 (e_bits E))) (\<lambda>n.
       bindM (read_message (e_bits E) (unat n)) (\<lambda>buf.
       seqM (on_parser (visit (\<lambda>ctx. vi_on_packet V ctx command buf)))
       (seqM (on_parser (packet_message E V command buf)) (packet_loop E V fuel))))))
      (bindM (on_packet_bits (read_ubitvar (e_bits E))) (\<lambda>command.
       bindM (on_packet_bits (read_uvarint32 (e_bits E))) (\<lambda>n.
       bindM (read_message (e_bits E) (unat n)) (\<lambda>buf.
       seqM (on_parser (visit (\<lambda>ctx. vi_on_packet V ctx command buf)))
       (seqM (on_parser (async_packet_message E V command buf)) (async_packet_loop E V fuel))))))"
    by (intro mirror_intros Suc)
  then show ?case unfolding packet_loop.simps async_packet_loop.simps mirrors_br_def by simp
qed

lemma mirrors_cmd_packet [mirror_intros]: "mirrors f (handle_cmd_packet E V data) (async_handle_cmd_packet E V data)"
  unfolding handle_cmd_packet_def async_handle_cmd_packet_def Let_def by (intro mirrors_local_br mirror_intros)

lemma mirrors_full_packet [mirror_intros]:
  "mirrors f (handle_cmd_full_packet E V cmd) (async_handle_cmd_full_packet E V cmd)"
  unfolding handle_cmd_full_packet_def async_handle_cmd_full_packet_def by (intro mirror_intros)

lemma mirrors_init [mirror_intros]:
  "as_decode_cmd_send_tables A = dec1 \<Longrightarrow>
    mirrors f (bindM (liftO (map_err PeDecodeCmd (dec1 b))) (handle_send_tables E)) (async_send_tables E A b)"
  "as_decode_cmd_class_info A = dec2 \<Longrightarrow>
    mirrors f (bindM (liftO (map_err PeDecodeCmd (dec2 b))) (handle_class_info E)) (async_class_info E A b)"
proof -
  assume "as_decode_cmd_send_tables A = dec1"
  then show "mirrors f (bindM (liftO (map_err PeDecodeCmd (dec1 b))) (handle_send_tables E)) (async_send_tables E A b)"
    unfolding handle_send_tables_def async_send_tables_def by (simp only:) (intro mirror_intros)
next
  assume dec: "as_decode_cmd_class_info A = dec2"
  have eq: "async_class_info E A b = bindM (liftO (map_err PeDecodeCmd (dec2 b))) (handle_class_info E)"
    unfolding async_class_info_def dec
    by (intro arg_cong [of _ _ "bindM _"] ext)
      (simp add: handle_class_info_def Let_def bindM_def change_ctx_def get_ctx_def split: option.split)
  show "mirrors f (bindM (liftO (map_err PeDecodeCmd (dec2 b))) (handle_class_info E)) (async_class_info E A b)"
    unfolding eq handle_class_info_def Let_def by (intro mirror_intros)
qed

text \<open>The two kinds of stream: reading through the map \<open>f\<close>, and testing for the end changes nothing.\<close>

definition reads_through :: "('d \<Rightarrow> 'a) \<Rightarrow> ('d, 'x) demo_stream_scheme \<Rightarrow> 'a async_demo_stream \<Rightarrow> bool" where
  "reads_through f D A \<longleftrightarrow>
     (\<forall>d. as_read_cmd_header A (f d) = apsnd f (ds_read_cmd_header D d))
   \<and> (\<forall>h d. as_read_cmd A h (f d) = apsnd f (ds_read_cmd D h d))
   \<and> as_decode_cmd_send_tables A = ds_decode_cmd_send_tables D \<and> as_decode_cmd_class_info A = ds_decode_cmd_class_info D
   \<and> as_decode_cmd_packet A = ds_decode_cmd_packet D \<and> as_decode_cmd_full_packet A = ds_decode_cmd_full_packet D
   \<and> (\<forall>d. \<exists>b. ds_is_at_eof D d = (Ok b, d))"

lemma mirrors_handle_cmd:
  assumes "reads_through f D A"
  shows "mirrors f (handle_cmd E D V h) (async_handle_cmd E A V h)"
proof -
  have "mirrors f (match_cmd E D V c b) (async_match_cmd E A V c b)" for c b
    unfolding match_cmd_def async_match_cmd_def Let_def assms [unfolded reads_through_def, THEN conjunct2, THEN conjunct2, THEN conjunct1]
    using assms by (auto simp: reads_through_def intro!: mirror_intros)
  then show ?thesis unfolding handle_cmd_def async_handle_cmd_def
    using assms by (intro mirror_intros) (simp_all add: reads_through_def)
qed

text \<open>Runs: equal but for an error while reading a header, where each decides in its own way whether it is the end.\<close>

definition ends_apart :: "('e parser_error, unit) outcome \<Rightarrow> ('e parser_error, unit) outcome \<Rightarrow> bool" where
  "ends_apart r r' \<longleftrightarrow> r' = r \<or> (\<exists>err. r \<in> {Ok (), Err (PeCmdHeader err)} \<and> r' = end_of_async_run err)"

lemma run_mirrored:
  assumes "reads_through f D A" "\<not> ps_skip_entity_packets p"
  shows "ends_apart (fst (run E D V (\<lambda>h c. retM (CfHandle, h)) fuel () p)) (fst (run_internal E A V fuel False (mapped f p)))
    \<and> snd (run_internal E A V fuel False (mapped f p)) = mapped f (snd (run E D V (\<lambda>h c. retM (CfHandle, h)) fuel () p))"
  using assms(2)
proof (induction fuel arbitrary: p)
  case 0
  then show ?case by (simp add: ends_apart_def liftO_def)
next
  case (Suc fuel)
  obtain r d where rd: "ds_read_cmd_header D (ps_demo_stream p) = (r, d)" by (cases "ds_read_cmd_header D (ps_demo_stream p)")
  then have rd': "as_read_cmd_header A (f (ps_demo_stream p)) = (r, f d)" using assms(1) by (simp add: reads_through_def)
  show ?case
  proof (cases r)
    case (Ok h)
    define p1 where "p1 = ticked (ch_tick h) (p\<lparr>ps_demo_stream := d\<rparr>)"
    have skip: "\<not> ps_skip_entity_packets p1" using Suc.prems by (simp add: p1_def)
    have disp: "mirrors f (dispatch E D V CfHandle h)
        (seqM (async_handle_cmd E A V h) (bindM (get_ctx (\<lambda>ctx. cx_prev_tick ctx \<noteq> cx_tick ctx)) (\<lambda>tick_changed.
        if tick_changed then visit (vi_on_tick_end V) else retM ())))"
      unfolding dispatch_def control_flow.case by (intro mirror_intros mirrors_handle_cmd assms(1))
    obtain x p2 where d2: "dispatch E D V CfHandle h p1 = (x, p2)" by (cases "dispatch E D V CfHandle h p1")
    note m = mirrorsD [OF disp d2 skip]
    have sync: "run E D V (\<lambda>h c. retM (CfHandle, h)) (Suc fuel) () p
        = seqM (dispatch E D V CfHandle h) (run E D V (\<lambda>h c. retM (CfHandle, h)) fuel ()) p1"
      by (simp add: zoomM_def rd Ok bindM_run(1) [OF set_tick_run] p1_def)
    have async: "run_internal E A V (Suc fuel) False (mapped f p)
        = seqM (seqM (async_handle_cmd E A V h) (bindM (get_ctx (\<lambda>ctx. cx_prev_tick ctx \<noteq> cx_tick ctx)) (\<lambda>tick_changed.
           if tick_changed then visit (vi_on_tick_end V) else retM ()))) (run_internal E A V fuel False) (mapped f p1)"
      by (simp add: zoomM_def rd' Ok bindM_run(1) [OF set_tick_run] p1_def mapped_updates bindM_assoc ticked_def)
    show ?thesis unfolding sync async
      using d2 m Suc.IH [of p2] by (cases x) (simp_all add: bindM_def ends_apart_def)
  next
    case (Err err)
    obtain b where b: "ds_is_at_eof D d = (Ok b, d)" using assms(1) unfolding reads_through_def by blast
    have "run E D V (\<lambda>h c. retM (CfHandle, h)) (Suc fuel) () p
        = (if b then Ok () else Err (PeCmdHeader err), p\<lparr>ps_demo_stream := d\<rparr>)"
      using rd b by (simp add: zoomM_def Err end_of_run_def on_stream_def at_eof_or_default_def map_errM_def bindM_def retM_def errM_def)
    moreover have "run_internal E A V (Suc fuel) False (mapped f p) = (end_of_async_run err, mapped f (p\<lparr>ps_demo_stream := d\<rparr>))"
      using rd' by (simp add: zoomM_def Err mapped_updates)
    ultimately show ?thesis by (auto simp: ends_apart_def)
  qed (use rd rd' in \<open>simp_all add: zoomM_def mapped_updates ends_apart_def\<close>)
qed


subsection \<open>Demo files\<close>

definition as_async :: "'i demo_file \<Rightarrow> async_demo_file" where
  "as_async f = \<lparr>adf_rdr = df_rdr f, adf_buf = df_buf f, adf_demo_header = df_demo_header f\<rparr>"

text \<open>What \<open>dungers\<close> documents of \<open>varint::read_uvarint32\<close>: an unsigned LEB128 number of at most five bytes.  The
  bytes are read one by one with \<open>read_exact\<close>; the number ends with the first byte below 128, every byte gives
  seven bits, least significant group first, in the 32 bits of the result; five bytes with continuation bits are
  malformed.  It is stated here by arithmetic on the bytes, without any of the loops of the code.\<close>

fun leb128_number :: "u8 list \<Rightarrow> nat" where
  "leb128_number [] = 0"
| "leb128_number (b # bs) = unat b mod 128 + 128 * leb128_number bs"

definition documented_uvarint32 :: "(reader, varint_error, u32 \<times> nat) rm" where
  "documented_uvarint32 = (\<lambda>r.
     let rest = drop (rd_pos r) (rd_data r);
         k = length (takeWhile (\<lambda>b. 128 \<le> b) rest)
     in if 5 \<le> k then (Err VeMalformed, r\<lparr>rd_pos := rd_pos r + 5\<rparr>)
        else if k < length rest
        then (Ok (of_nat (leb128_number (take (Suc k) rest)), Suc k), r\<lparr>rd_pos := rd_pos r + Suc k\<rparr>)
        else (Err (VeIo UnexpectedEof), r\<lparr>rd_pos := max (rd_pos r) (length (rd_data r))\<rparr>))"

lemma low_groups: "b AND 0x7F = take_bit 7 b" for b :: u8
  by (simp add: take_bit_eq_mask mask_eq_exp_minus_1)

lemma odd_div_128: "n < 256 \<Longrightarrow> odd (n div 128) \<longleftrightarrow> 128 \<le> n" for n :: nat
proof (cases "n < 128")
  case False
  assume "n < 256"
  with False obtain m where "n = 128 + m" "m < 128" using le_Suc_ex [of 128 n] by auto
  then show ?thesis by (simp add: div_add_self1)
qed simp

lemma continue_bit: "b AND 0x80 = 0 \<longleftrightarrow> b < 128" for b :: u8
proof -
  have "0x80 = (2 ^ 7 :: u8)" by simp
  then have "b AND 0x80 = 0 \<longleftrightarrow> \<not> bit b 7" by (simp only: and_exp_eq_0_iff_not_bit)
  moreover have "bit (unat b) 7 \<longleftrightarrow> bit b 7" by (simp add: bit_unsigned_iff)
  moreover have "bit (unat b) 7 \<longleftrightarrow> odd (unat b div 128)" by (simp add: bit_iff_odd)
  moreover have "odd (unat b div 128) \<longleftrightarrow> 128 \<le> unat b" using unsigned_less [of b, where ?'a = nat] by (intro odd_div_128) simp
  ultimately show ?thesis by (auto simp: word_less_nat_alt)
qed

lemma group_value: "(ucast (b AND 0x7F :: u8) :: u32) = of_nat (unat b mod 128)"
proof -
  have "unat (take_bit 7 b) = take_bit 7 (unat b)" by (simp add: unsigned_take_bit_eq)
  then have "unat (take_bit 7 b) = unat b mod 128" by (simp only: take_bit_eq_mod) simp
  then show ?thesis unfolding low_groups by (metis of_nat_unat)
qed

lemma groups_value: "(ucast (b AND 0x7F :: u8) :: u32) OR push_bit 7 (of_nat n) = of_nat (unat b mod 128 + 128 * n)"
proof -
  have "take_bit 7 (of_nat (unat b mod 128) :: u32) = of_nat (unat b mod 128)"
  proof -
    have "take_bit 7 (unat b mod 128) = unat b mod 128" by (simp add: take_bit_eq_mod)
    then show ?thesis by (simp only: take_bit_of_nat)
  qed
  then have "bit (of_nat (unat b mod 128) :: u32) i \<Longrightarrow> i < 7" for i by (metis bit_take_bit_iff)
  then have "(of_nat (unat b mod 128) :: u32) AND push_bit 7 (of_nat n) = 0"
    by (intro bit_word_eqI) (fastforce simp only: bit_and_iff bit_push_bit_iff bit_0_eq bot_apply bot_bool_def)
  then have "(of_nat (unat b mod 128) :: u32) + push_bit 7 (of_nat n) = of_nat (unat b mod 128) OR push_bit 7 (of_nat n)"
    by (rule disjunctive_add_eq_or)
  then show ?thesis unfolding group_value by (simp add: push_bit_eq_mult mult.commute)
qed

lemma loop_documented:
  fixes r :: reader and m c :: nat and v :: u32
  defines "rest \<equiv> drop (rd_pos r) (rd_data r)"
  shows "uvarint_async_loop leb m c v r =
     (if m \<le> length (takeWhile (\<lambda>b. 128 \<le> b) rest) then (Err VeMalformed, r\<lparr>rd_pos := rd_pos r + m\<rparr>)
      else if length (takeWhile (\<lambda>b. 128 \<le> b) rest) < length rest
      then (Ok (v OR push_bit (c * 7) (of_nat (leb128_number (take (Suc (length (takeWhile (\<lambda>b. 128 \<le> b) rest))) rest))),
                c + Suc (length (takeWhile (\<lambda>b. 128 \<le> b) rest))),
            r\<lparr>rd_pos := rd_pos r + Suc (length (takeWhile (\<lambda>b. 128 \<le> b) rest))\<rparr>)
      else (Err (VeIo UnexpectedEof), r\<lparr>rd_pos := max (rd_pos r) (length (rd_data r))\<rparr>))"
  unfolding rest_def
proof (induction m arbitrary: r c v)
  case (Suc m)
  let ?k = "\<lambda>r. length (takeWhile (\<lambda>b. 128 \<le> b) (drop (rd_pos r) (rd_data r)))"
  show ?case
  proof (cases "rd_pos r < length (rd_data r)")
    case False
    then show ?thesis by (simp add: bindM_def map_errM_def read_exact_def)
  next
    case True
    define b where "b = rd_data r ! rd_pos r"
    define r1 where "r1 = r\<lparr>rd_pos := rd_pos r + 1\<rparr>"
    have rest: "drop (rd_pos r) (rd_data r) = b # drop (rd_pos r1) (rd_data r1)"
      using True by (simp add: b_def r1_def Cons_nth_drop_Suc)
    have step: "uvarint_async_loop leb (Suc m) c v r
        = (let w = v OR push_bit (c * 7) (ucast (b AND 0x7F)) in if b < 128 then (Ok (w, Suc c), r1) else uvarint_async_loop leb m (Suc c) w r1)"
      using True by (simp add: bindM_def map_errM_def read_exact_def Let_def leb_def retM_def r1_def continue_bit rest take_Suc)
    have or_groups: "(v OR push_bit (c * 7) (ucast (b AND 0x7F))) OR push_bit (Suc c * 7) (of_nat n)
        = v OR push_bit (c * 7) (of_nat (unat b mod 128 + 128 * n))" for n
      unfolding groups_value [symmetric] by (simp add: push_bit_or or.assoc add.commute)
    have pos: "max (rd_pos r1) (length (rd_data r1)) = max (rd_pos r) (length (rd_data r))" using True by (simp add: r1_def)
    show ?thesis
    proof (cases "b < 128")
      case b: True
      then show ?thesis using or_groups [of 0] unfolding step rest by (simp add: Let_def r1_def)
    next
      case b: False
      note IH = Suc.IH [of "Suc c" "v OR push_bit (c * 7) (ucast (b AND 0x7F))" r1, unfolded or_groups pos]
      have "128 \<le> b" using b by simp
      then show ?thesis unfolding step rest Let_def IH by (simp add: r1_def or_groups b)
    qed
  qed
qed (simp add: errM_def)

lemma read_uvarint_async_documented: "read_uvarint_async leb = documented_uvarint32"
  by (rule ext) (simp only: read_uvarint_async_loop loop_documented documented_uvarint32_def Let_def mult_0 push_bit_0_id id_apply or.left_neutral add_0)

lemma demofile_reads_through:
  assumes "uv = documented_uvarint32"
  shows "reads_through as_async (demofile_stream C uv Z P) (async_demofile_stream C leb Z P)"
proof -
  have "\<exists>b. demofile_is_at_eof f = (Ok b, f)" for f :: "'i demo_file"
    by (simp add: demofile_is_at_eof_def on_rdr_def zoomM_def rdr_is_at_eof_ok)
  then show ?thesis unfolding assms read_uvarint_async_documented [symmetric]
    by (auto simp: reads_through_def demofile_stream_def async_demofile_stream_def demofile_read_cmd_header_def
      async_demofile_read_cmd_header_def read_cmd_header_async_varint demofile_read_cmd_def async_demofile_read_cmd_body on_rdr_def
      zoomM_def as_async_def demofile_decode_cmd_send_tables_def demofile_decode_cmd_class_info_def
      demofile_decode_cmd_packet_def demofile_decode_cmd_full_packet_def split: prod.splits)
qed

text \<open>C3: let the varint reader of \<open>dungers\<close> do what it documents (\<open>documented_uvarint32\<close>).  Then the streaming parser
  over an asynchronous demo file, which has varint reader, headers, bodies and handlers of its own, does what
  the parser does over the same bytes read synchronously: the same calls of the visitor, the same context and
  the same position, command for command, whatever the demo holds and also when a handler fails.  Only the
  verdict on a header that cannot be read may differ.\<close>

theorem streaming_parser_follows:
  assumes "uv = documented_uvarint32" "\<not> ps_skip_entity_packets p"
  shows "ends_apart (fst (run_to_end E (demofile_stream C uv Z P) V fuel p))
      (fst (async_run_to_end E (async_demofile_stream C leb Z P) V fuel (mapped as_async p)))
    \<and> snd (async_run_to_end E (async_demofile_stream C leb Z P) V fuel (mapped as_async p))
      = mapped as_async (snd (run_to_end E (demofile_stream C uv Z P) V fuel p))"
  unfolding run_to_end_def async_run_to_end_def by (rule run_mirrored [OF demofile_reads_through [OF assms(1)] assms(2)])

definition no_io :: "('r, read_cmd_header_error, 'a) rm \<Rightarrow> bool" where
  "no_io m \<longleftrightarrow> (\<forall>s e. fst (m s) \<noteq> Err (RchIo e))"

lemma no_io_bindM: "no_io m \<Longrightarrow> (\<And>x. no_io (f x)) \<Longrightarrow> no_io (bindM m f)"
  by (auto simp: no_io_def bindM_def split: prod.splits outcome.splits) (metis fst_conv)+

lemma no_io_map_errM: "no_io (map_errM RchVarint uv)"
  unfolding no_io_def map_errM_def
proof (intro allI)
  fix s e
  obtain r s' where "uv s = (r, s')" by (cases "uv s")
  then show "fst (case uv s of (r, s') \<Rightarrow> (map_err RchVarint r, s')) \<noteq> Err (RchIo e)" by (cases r) simp_all
qed

lemma varint_cmd_header_no_io: "no_io (varint_cmd_header C uv)"
proof -
  have "no_io (liftO (cmd_try_from C raw cmd))" "no_io (retM x)" for raw cmd and x :: 'b
    by (simp_all add: no_io_def liftO_def retM_def cmd_try_from_def)
  then show ?thesis unfolding varint_cmd_header_def Let_def split_beta by (intro no_io_bindM no_io_map_errM)
qed

lemma bindM_never_Ok: "(\<And>x s. fst (f x s) \<noteq> Ok y) \<Longrightarrow> fst (bindM m f s) \<noteq> Ok y"
  by (simp add: bindM_def split: prod.split outcome.split)

lemma run_internal_no_end:
  assumes "no_io (as_read_cmd_header A)"
  shows "fst (run_internal E A V fuel b p) \<noteq> Ok ()"
proof (induction fuel arbitrary: p)
  case (Suc fuel)
  obtain r d where rd: "as_read_cmd_header A (ps_demo_stream p) = (r, d)" by (cases "as_read_cmd_header A (ps_demo_stream p)")
  show ?case
  proof (cases r)
    case (Ok h)
    with rd show ?thesis by (simp add: zoomM_def split del: if_split) (intro bindM_never_Ok Suc)
  next
    case (Err e)
    with rd assms have "e \<noteq> RchIo UnexpectedEof" unfolding no_io_def by (metis fst_conv)
    with rd Err show ?thesis by (simp add: zoomM_def end_of_async_run_def)
  qed (use rd in \<open>simp_all add: zoomM_def\<close>)
qed (simp add: liftO_def)

text \<open>C36: over an asynchronous demo file the streaming parser never reports success: the end of the file is met
  while reading a varint and arrives as an error of the varint reader, which the run does not take for the
  end of the demo.\<close>

theorem streaming_demofile_never_succeeds:
  "fst (async_run_to_end E (async_demofile_stream C K Z P) V fuel p) \<noteq> Ok ()
   \<and> fst (run_to_end_final_state E (async_demofile_stream C K Z P) V fuel p) \<noteq> Ok ()"
proof -
  have "no_io (as_read_cmd_header (async_demofile_stream C K Z P))"
    using varint_cmd_header_no_io [of C "read_uvarint_async K"]
    by (auto simp: async_demofile_stream_def async_demofile_read_cmd_header_def read_cmd_header_async_varint zoomM_def no_io_def
      split: prod.splits) (metis fst_conv)
  then show ?thesis unfolding async_run_to_end_def run_to_end_final_state_def by (intro conjI run_internal_no_end)
qed

theorem streaming_parser_follows_witness:
  "fst (run_to_end example_env (demofile_stream (e_cmds example_env) documented_uvarint32 (e_snap example_env) example_protos)
       (recorder :: (_, unit) visitor) 6 (recording example_demo)) = Ok ()
   \<and> ps_visitor (snd (async_run_to_end example_env
       (async_demofile_stream (e_cmds example_env) leb (e_snap example_env) example_protos) (recorder :: (_, unit) visitor) 6
       (mapped as_async (recording example_demo)))) = (True, example_commands)"
proof -
  have "\<not> ps_skip_entity_packets (recording example_demo)" by (simp add: parser_from_stream_def)
  from streaming_parser_follows [OF refl this, of example_env "e_cmds example_env" "e_snap example_env" example_protos "recorder :: (_, unit) visitor" 6]
  show ?thesis by (simp add: example_run example_parser_fields flip: read_uvarint_async_documented)
qed

end
