(* ===== verification/BroadcastHttp.thy ===== *)
theory BroadcastHttp
  imports StreamContract
begin

text \<open>
  \<open>haste_broadcast/src/broadcasthttp.rs\<close>: broadcasts over HTTP.  What lies outside the program is the record
  \<open>world\<close>: the clock, sleeping, the HTTP client, \<open>http::Uri\<close> and \<open>serde_json\<close>, over a state of its own.
  Instants and durations are in milliseconds; adding a duration to an instant panics beyond the largest instant.

  A request is its URL.  A response is its status and its body, which can fail by itself.
\<close>

definition MAX_DELTAFRAME_RETRIES :: nat where "MAX_DELTAFRAME_RETRIES = 5"
definition MAX_TRANSIENT_RETRIES :: nat where "MAX_TRANSIENT_RETRIES = 10"
definition TRANSIENT_RETRY_INITIAL_DELAY :: nat where "TRANSIENT_RETRY_INITIAL_DELAY = 500"
definition TRANSIENT_RETRY_MAX_DELAY :: nat where "TRANSIENT_RETRY_MAX_DELAY = 10 * 1000"

text \<open>The request headers, by their names.\<close>

fun digits :: "nat \<Rightarrow> rstr" where
  "digits n = (if n < 10 then [48 + n] else digits (n div 10) @ [48 + n mod 10])"

declare digits.simps [simp del]

definition default_headers :: "u32 \<Rightarrow> (rstr \<times> rstr) list" where
  "default_headers app_id =
     [(str_lit ''user-agent'', str_lit ''Valve/Steam HTTP Client 1.0 ('' @ digits (unat app_id) @ str_lit '')''),
      (str_lit ''accept'', str_lit ''text/html,*/*;q=0.9''),
      (str_lit ''accept-encoding'', str_lit ''gzip,identity,*;q=0''),
      (str_lit ''accept-charset'', str_lit ''ISO-8859-1,utf-8,*;q=0.7'')]"

subsection \<open>The client\<close>

record sync_response =
  sr_tick :: i32
  sr_endtick :: i32
  sr_maxtick :: i32
  sr_rtdelay :: f32
  sr_rcvage :: f32
  sr_fragment :: i32
  sr_signup_fragment :: i32
  sr_tps :: i32
  sr_keyframe_interval :: i32
  sr_map :: rstr
  sr_protocol :: i32

datatype fragment_type = FtDelta | FtFull

datatype 'x http_error = HeBuildRequest | HeHttpClient 'x | HeStatusCode nat | HeJson

record ('w, 'x) world =
  wo_now :: "'w \<Rightarrow> nat \<times> 'w"
  wo_sleep :: "nat \<Rightarrow> 'w \<Rightarrow> 'w"
  wo_execute :: "rstr \<Rightarrow> 'w \<Rightarrow> ('x + (nat \<times> ('x + u8 list))) \<times> 'w"
  wo_uri_ok :: "rstr \<Rightarrow> bool"
  wo_json :: "u8 list \<Rightarrow> sync_response option"
  wo_max_instant :: nat

definition is_client_error :: "nat \<Rightarrow> bool" where "is_client_error status \<longleftrightarrow> 400 \<le> status \<and> status < 500"
definition is_server_error :: "nat \<Rightarrow> bool" where "is_server_error status \<longleftrightarrow> 500 \<le> status \<and> status < 600"
definition NOT_FOUND :: nat where "NOT_FOUND = 404"

definition is_transient :: "'x http_error \<Rightarrow> bool" where
  "is_transient e = (case e of
     HeStatusCode status \<Rightarrow> is_server_error status
   | HeHttpClient _ \<Rightarrow> True
   | HeBuildRequest \<Rightarrow> False
   | HeJson \<Rightarrow> False)"

type_synonym ('w, 'x, 'a) http_rm = "('w, 'x http_error, 'a) rm"

definition get_once :: "('w, 'x) world \<Rightarrow> rstr \<Rightarrow> ('w, 'x, u8 list) http_rm" where
  "get_once W url = (\<lambda>w.
     if \<not> wo_uri_ok W url then (Err HeBuildRequest, w)
     else case wo_execute W url w of
       (Inl e, w) \<Rightarrow> (Err (HeHttpClient e), w)
     | (Inr (status, body), w) \<Rightarrow>
         if is_client_error status \<or> is_server_error status then (Err (HeStatusCode status), w)
         else (case body of Inl e \<Rightarrow> (Err (HeHttpClient e), w) | Inr bytes \<Rightarrow> (Ok bytes, w)))"

function get_loop :: "('w, 'x) world \<Rightarrow> rstr \<Rightarrow> nat \<Rightarrow> nat \<Rightarrow> ('w, 'x, u8 list) http_rm" where
  "get_loop W url attempt delay = (\<lambda>w. case get_once W url w of
     (Err err, w) \<Rightarrow>
       if is_transient err \<and> attempt < MAX_TRANSIENT_RETRIES
       then get_loop W url (attempt + 1) (min (delay * 2) TRANSIENT_RETRY_MAX_DELAY) (wo_sleep W delay w)
       else (Err err, w)
   | r \<Rightarrow> r)"
  by pat_completeness auto

termination
  by (relation "measure (\<lambda>(W, url, attempt, delay). MAX_TRANSIENT_RETRIES - attempt)") auto

declare get_loop.simps [simp del]

definition http_get :: "('w, 'x) world \<Rightarrow> rstr \<Rightarrow> ('w, 'x, u8 list) http_rm" where
  "http_get W url = get_loop W url 0 TRANSIENT_RETRY_INITIAL_DELAY"

text \<open>\<open>format!\<close> of a number.\<close>

definition display_i32 :: "i32 \<Rightarrow> rstr" where
  "display_i32 i = (if sint i < 0 then 45 # digits (nat (- sint i)) else digits (nat (sint i)))"

definition get_sync :: "('w, 'x) world \<Rightarrow> rstr \<Rightarrow> ('w, 'x, sync_response) http_rm" where
  "get_sync W base_url =
     bindM (http_get W (base_url @ str_lit ''/sync'')) (\<lambda>body. liftO (ok_or HeJson (wo_json W body)))"

definition get_start :: "('w, 'x) world \<Rightarrow> rstr \<Rightarrow> i32 \<Rightarrow> ('w, 'x, u8 list) http_rm" where
  "get_start W base_url signup_fragment =
     (if sint signup_fragment \<ge> 0
      then http_get W (base_url @ str_lit ''/'' @ display_i32 signup_fragment @ str_lit ''/start'')
      else liftO (Panic AssertFailed))"

definition get_fragment :: "('w, 'x) world \<Rightarrow> rstr \<Rightarrow> i32 \<Rightarrow> fragment_type \<Rightarrow> ('w, 'x, u8 list) http_rm" where
  "get_fragment W base_url fragment typ =
     (let path = (case typ of FtDelta \<Rightarrow> str_lit ''delta'' | FtFull \<Rightarrow> str_lit ''full'') in
      http_get W (base_url @ str_lit ''/'' @ display_i32 fragment @ str_lit ''/'' @ path))"

subsection \<open>The state of a stream\<close>

text \<open>\<open>Reader<Bytes>\<close> and \<open>Cursor<Vec<u8>>\<close> are both readers over bytes; the former forgets what has been read, so
  only the rest of it can be seen.\<close>

datatype stream_state = SsStop | SsStart | SsFullframe | SsDeltaframes nat nat bool

datatype stream_buffer = SbLast "reader option" | SbSeekable reader

record broadcast_http =
  bh_base_url :: rstr
  bh_stream_fragment :: i32
  bh_keyframe_interval :: nat
  bh_signup_fragment :: i32
  bh_sync_response :: sync_response
  bh_stream_state :: stream_state
  bh_stream_buffer :: stream_buffer
  bh_total_ticks :: "i32 option"

text \<open>\<open>Duration::from_secs(keyframe_interval as u64)\<close>\<close>

definition start_streaming :: "('w, 'x) world \<Rightarrow> rstr \<Rightarrow> ('w, 'x, broadcast_http) http_rm" where
  "start_streaming W base_url =
     bindM (get_sync W base_url) (\<lambda>sync_response.
     retM \<lparr>bh_base_url = base_url, bh_stream_fragment = sr_fragment sync_response,
       bh_keyframe_interval = 1000 * unat (scast (sr_keyframe_interval sync_response) :: u64),
       bh_signup_fragment = sr_signup_fragment sync_response, bh_sync_response = sync_response,
       bh_stream_state = SsStart, bh_stream_buffer = SbLast None, bh_total_ticks = None\<rparr>)"

definition start_streaming_and_buffer :: "('w, 'x) world \<Rightarrow> rstr \<Rightarrow> ('w, 'x, broadcast_http) http_rm" where
  "start_streaming_and_buffer W base_url =
     bindM (start_streaming W base_url) (\<lambda>this.
     retM (this\<lparr>bh_stream_buffer := SbSeekable \<lparr>rd_data = [], rd_pos = 0\<rparr>\<rparr>))"

type_synonym ('w, 'x, 'a) stream_rm = "('w \<times> broadcast_http, 'x http_error, 'a) rm"

definition on_world :: "('w, 'x, 'a) http_rm \<Rightarrow> ('w, 'x, 'a) stream_rm" where
  "on_world = zoomM fst (\<lambda>w (_, s). (w, s))"

definition now :: "('w, 'x) world \<Rightarrow> ('w, 'x, nat) stream_rm" where
  "now W = on_world (\<lambda>w. case wo_now W w of (t, w) \<Rightarrow> (Ok t, w))"

definition set_state :: "stream_state \<Rightarrow> ('w, 'x, unit) stream_rm" where
  "set_state st = (\<lambda>(w, s). (Ok (), (w, s\<lparr>bh_stream_state := st\<rparr>)))"

definition handle_start :: "('w, 'x) world \<Rightarrow> ('w, 'x, u8 list) stream_rm" where
  "handle_start W = (\<lambda>(w, s).
     bindM (on_world (get_start W (bh_base_url s) (bh_signup_fragment s))) (\<lambda>stream_signup.
     seqM (set_state SsFullframe) (retM stream_signup)) (w, s))"

definition handle_fullframe :: "('w, 'x) world \<Rightarrow> ('w, 'x, u8 list) stream_rm" where
  "handle_fullframe W = (\<lambda>(w, s).
     bindM (on_world (get_fragment W (bh_base_url s) (bh_stream_fragment s) FtFull)) (\<lambda>full.
     bindM (now W) (\<lambda>t.
     seqM (set_state (SsDeltaframes 0 t True)) (retM full))) (w, s))"

subsection \<open>Deltaframes\<close>

text \<open>\<open>start + self.keyframe_interval\<close>\<close>

definition instant_add :: "('w, 'x) world \<Rightarrow> nat \<Rightarrow> nat \<Rightarrow> ('e, nat) outcome" where
  "instant_add W t d = (if t + d \<le> wo_max_instant W then Ok (t + d) else Panic ExplicitPanic)"

text \<open>The waiting before a fetch when the stream does not catch up: \<open>True\<close> says that the time has passed.\<close>

definition await_fetch :: "('w, 'x) world \<Rightarrow> nat \<Rightarrow> ('w, 'x, bool) stream_rm" where
  "await_fetch W fetch_after =
     bindM (now W) (\<lambda>t.
     if t - fetch_after > 0 then retM True
     else bindM (now W) (\<lambda>t. seqM (on_world (\<lambda>w. (Ok (), wo_sleep W (fetch_after - t) w))) (retM False)))"

text \<open>The flag \<open>catchup\<close> with which the fragment is fetched.  If the time has passed it is set and the loop goes
  round again, where it is found set.\<close>

definition catching_up :: "('w, 'x) world \<Rightarrow> nat \<Rightarrow> nat \<Rightarrow> bool \<Rightarrow> ('w, 'x, bool) stream_rm" where
  "catching_up W num_retries fetch_after catchup =
     (if catchup then retM True
      else bindM (await_fetch W fetch_after) (\<lambda>passed.
        if passed then seqM (set_state (SsDeltaframes num_retries fetch_after True)) (retM True)
        else retM False))"

text \<open>A fetch of the pending fragment, with the instant at which it started.\<close>

definition fetch_delta :: "('w, 'x) world \<Rightarrow> ('w, 'x, nat \<times> ('x http_error, u8 list) outcome) stream_rm" where
  "fetch_delta W =
     bindM (now W) (\<lambda>start (w, s).
     case on_world (get_fragment W (bh_base_url s) (bh_stream_fragment s) FtDelta) (w, s) of
       (r, ws) \<Rightarrow> (Ok (start, r), ws))"

definition next_fetch :: "('w, 'x) world \<Rightarrow> nat \<Rightarrow> ('w, 'x, nat) stream_rm" where
  "next_fetch W start = (\<lambda>(w, s). (instant_add W start (bh_keyframe_interval s), (w, s)))"

definition next_fragment :: "('w, 'x, unit) stream_rm" where
  "next_fragment = (\<lambda>(w, s). (Ok (), (w, s\<lparr>bh_stream_fragment := bh_stream_fragment s + 1\<rparr>)))"

text \<open>The rounds of the loop, on the contents of its state.\<close>

function deltaframes_loop ::
    "('w, 'x) world \<Rightarrow> nat \<Rightarrow> nat \<Rightarrow> bool \<Rightarrow> ('w, 'x, u8 list) stream_rm" where
  "deltaframes_loop W num_retries fetch_after catchup =
     bindM (catching_up W num_retries fetch_after catchup) (\<lambda>catchup.
     bindM (fetch_delta W) (\<lambda>(start, r). case r of
       Ok delta \<Rightarrow>
         seqM next_fragment
         (bindM (next_fetch W start) (\<lambda>fetch_after.
          seqM (set_state (SsDeltaframes 0 fetch_after catchup)) (retM delta)))
     | Err e \<Rightarrow>
         if e = HeStatusCode NOT_FOUND then
           (if MAX_DELTAFRAME_RETRIES \<le> num_retries then errM (HeStatusCode NOT_FOUND)
            else bindM (next_fetch W start) (\<lambda>fetch_after.
              seqM (set_state (SsDeltaframes (num_retries + 1) fetch_after False))
                (deltaframes_loop W (num_retries + 1) fetch_after False)))
         else errM e
     | Panic p \<Rightarrow> liftO (Panic p)
     | OutOfFuel \<Rightarrow> liftO OutOfFuel))"
  by pat_completeness auto

termination
  by (relation "measure (\<lambda>(W, num_retries, fetch_after, catchup). MAX_DELTAFRAME_RETRIES - num_retries)") auto

declare deltaframes_loop.simps [simp del]

definition handle_deltaframes :: "('w, 'x) world \<Rightarrow> ('w, 'x, u8 list) stream_rm" where
  "handle_deltaframes W = (\<lambda>(w, s). case bh_stream_state s of
     SsDeltaframes num_retries fetch_after catchup \<Rightarrow> deltaframes_loop W num_retries fetch_after catchup (w, s)
   | _ \<Rightarrow> (Panic UnreachableCode, (w, s)))"

subsection \<open>Packets\<close>

text \<open>\<open>Cursor::write_all\<close> at the position of the cursor, padding with zeros behind the end.\<close>

definition cursor_write :: "u8 list \<Rightarrow> reader \<Rightarrow> reader" where
  "cursor_write packet c =
     c\<lparr>rd_data := take (rd_pos c) (rd_data c @ replicate (rd_pos c - length (rd_data c)) 0) @ packet
         @ drop (rd_pos c + length packet) (rd_data c),
       rd_pos := rd_pos c + length packet\<rparr>"

definition buffer_packet :: "u8 list \<Rightarrow> broadcast_http \<Rightarrow> broadcast_http" where
  "buffer_packet packet s = (case bh_stream_buffer s of
     SbLast _ \<Rightarrow> s\<lparr>bh_stream_buffer := SbLast (Some \<lparr>rd_data = packet, rd_pos = 0\<rparr>)\<rparr>
   | SbSeekable c \<Rightarrow> s\<lparr>bh_stream_buffer := SbSeekable (cursor_write packet c), bh_total_ticks := None\<rparr>)"

definition next_packet ::
    "('w, 'x) world \<Rightarrow> 'w \<times> broadcast_http \<Rightarrow> ('x http_error, u8 list) outcome option \<times> ('w \<times> broadcast_http)" where
  "next_packet W = (\<lambda>(w, s).
     if bh_stream_state s = SsStop then (None, (w, s))
     else case (case bh_stream_state s of
         SsStart \<Rightarrow> handle_start W
       | SsFullframe \<Rightarrow> handle_fullframe W
       | _ \<Rightarrow> handle_deltaframes W) (w, s) of
       (Ok packet, (w, s)) \<Rightarrow> (Some (Ok packet), (w, buffer_packet packet s))
     | (Err err, (w, s)) \<Rightarrow>
         (if err = HeStatusCode NOT_FOUND then None else Some (Err err), (w, s\<lparr>bh_stream_state := SsStop\<rparr>))
     | (r, ws) \<Rightarrow> (Some r, ws))"

subsection \<open>As a demo stream\<close>

definition on_buffer :: "(reader, 'e, 'a) rm \<Rightarrow> (broadcast_http, 'e, 'a) rm" where
  "on_buffer m = (\<lambda>s. case bh_stream_buffer s of
     SbLast None \<Rightarrow> (Panic ExplicitPanic, s)
   | SbLast (Some r) \<Rightarrow> (case m r of (x, r) \<Rightarrow> (x, s\<lparr>bh_stream_buffer := SbLast (Some r)\<rparr>))
   | SbSeekable c \<Rightarrow> (case m c of (x, c) \<Rightarrow> (x, s\<lparr>bh_stream_buffer := SbSeekable c\<rparr>)))"

text \<open>Of a cursor the end is also behind its last byte; for \<open>Bytes\<close> that is the same.\<close>

definition http_is_at_eof :: "(broadcast_http, io_error, bool) rm" where
  "http_is_at_eof = on_buffer (\<lambda>r. (Ok (length (rd_data r) \<le> rd_pos r), r))"

definition http_read_cmd_header :: "demo_commands \<Rightarrow> (broadcast_http, read_cmd_header_error, cmd_header) rm" where
  "http_read_cmd_header C = on_buffer (broadcast_read_cmd_header C)"

text \<open>The position of a cursor can be behind the end; the subtraction or the slice panics then.\<close>

definition http_read_cmd :: "cmd_header \<Rightarrow> (broadcast_http, read_cmd_error, u8 list) rm" where
  "http_read_cmd cmd_header = on_buffer (\<lambda>r.
     let n = unat (ch_body_size cmd_header) in
     if length (rd_data r) < rd_pos r then (Panic IndexOutOfBounds, r)
     else if length (rd_data r) - rd_pos r < n then (Err (RcIo UnexpectedEof), r)
     else (Ok (take n (drop (rd_pos r) (rd_data r))), r\<lparr>rd_pos := rd_pos r + n\<rparr>))"

definition http_skip_cmd :: "cmd_header \<Rightarrow> (broadcast_http, io_error, unit) rm" where
  "http_skip_cmd cmd_header = (\<lambda>s. case bh_stream_buffer s of
     SbSeekable c \<Rightarrow> on_buffer (rdr_skip cmd_header) s
   | SbLast _ \<Rightarrow> on_buffer (\<lambda>r.
       let n = unat (ch_body_size cmd_header) in
       if length (rd_data r) - rd_pos r < n then (Err UnexpectedEof, r)
       else (Ok (), r\<lparr>rd_pos := rd_pos r + n\<rparr>)) s)"

definition seekable :: "(reader, 'e, 'a) rm \<Rightarrow> (broadcast_http, 'e, 'a) rm" where
  "seekable m = (\<lambda>s. case bh_stream_buffer s of
     SbLast _ \<Rightarrow> (Panic ExplicitPanic, s)
   | SbSeekable c \<Rightarrow> (case m c of (x, c) \<Rightarrow> (x, s\<lparr>bh_stream_buffer := SbSeekable c\<rparr>)))"

definition http_seek :: "seek_from \<Rightarrow> (broadcast_http, io_error, nat) rm" where
  "http_seek from = seekable (rdr_seek from)"

definition http_stream_position :: "(broadcast_http, io_error, nat) rm" where
  "http_stream_position = seekable rdr_position"

definition http_stream_len :: "(broadcast_http, io_error, nat) rm" where
  "http_stream_len = seekable (\<lambda>c. (Ok (length (rd_data c)), c))"

text \<open>The position is only asked for when the stream is seekable; otherwise the call panics.\<close>

definition http_start_position :: "broadcast_http \<Rightarrow> nat" where
  "http_start_position s = 0"

definition http_stream :: "demo_commands \<Rightarrow> 'i proto_decoders \<Rightarrow> broadcast_http seekable_stream" where
  "http_stream C P = \<lparr>
     ds_is_at_eof = http_is_at_eof,
     ds_read_cmd_header = http_read_cmd_header C,
     ds_read_cmd = http_read_cmd,
     ds_decode_cmd_send_tables = broadcast_decode_cmd_send_tables,
     ds_decode_cmd_class_info = broadcast_decode_cmd_class_info P,
     ds_decode_cmd_packet = broadcast_decode_cmd_packet,
     ds_decode_cmd_full_packet = broadcast_decode_cmd_full_packet,
     ds_skip_cmd = http_skip_cmd,
     ds_seek = http_seek,
     ds_stream_position = http_stream_position,
     ds_start_position = http_start_position\<rparr>"

definition http_total_ticks :: "demo_commands \<Rightarrow> 'i proto_decoders \<Rightarrow> nat \<Rightarrow> (broadcast_http, any_error, i32) rm" where
  "http_total_ticks C P fuel = (\<lambda>s. case bh_stream_buffer s of
     SbLast _ \<Rightarrow> (Panic ExplicitPanic, s)
   | SbSeekable _ \<Rightarrow> (case bh_total_ticks s of
       Some t \<Rightarrow> (Ok t, s)
     | None \<Rightarrow> bindM (scan_for_last_tick (http_stream C P) fuel)
         (\<lambda>t s. (Ok t, s\<lparr>bh_total_ticks := Some t\<rparr>)) s))"

end
