(* ===== verification/BroadcastHttpLaws.thy ===== *)
theory BroadcastHttpLaws
  imports BroadcastHttp
begin

text \<open>
  Laws of \<open>BroadcastHttp\<close>: how often a request is repeated, in which order the packets of a broadcast are
  delivered and when a stream ends; and what becomes of the packets that are buffered for seeking.
\<close>

subsection \<open>Requests\<close>

definition failed_transiently :: "('x http_error, 'a) outcome \<Rightarrow> bool" where
  "failed_transiently r = (case r of Err e \<Rightarrow> is_transient e | _ \<Rightarrow> False)"

text \<open>The delays between the requests, and the world after \<open>k\<close> requests that failed.\<close>

fun backoff :: "nat \<Rightarrow> nat" where
  "backoff 0 = TRANSIENT_RETRY_INITIAL_DELAY"
| "backoff (Suc k) = min (backoff k * 2) TRANSIENT_RETRY_MAX_DELAY"

fun after_failures :: "('w, 'x) world \<Rightarrow> rstr \<Rightarrow> nat \<Rightarrow> 'w \<Rightarrow> 'w" where
  "after_failures W url 0 w = w"
| "after_failures W url (Suc k) w = wo_sleep W (backoff k) (snd (get_once W url (after_failures W url k w)))"

lemma get_loop_step:
  "get_loop W url attempt delay w =
     (if failed_transiently (fst (get_once W url w)) \<and> attempt < MAX_TRANSIENT_RETRIES
      then get_loop W url (Suc attempt) (min (delay * 2) TRANSIENT_RETRY_MAX_DELAY) (wo_sleep W delay (snd (get_once W url w)))
      else get_once W url w)"
  by (subst get_loop.simps) (auto simp: failed_transiently_def split: prod.split outcome.split)

lemma get_loop_requests:
  assumes "attempt \<le> MAX_TRANSIENT_RETRIES"
  shows "\<exists>k. attempt \<le> k \<and> k \<le> MAX_TRANSIENT_RETRIES
    \<and> get_loop W url attempt (backoff attempt) (after_failures W url attempt w) = get_once W url (after_failures W url k w)
    \<and> (\<forall>i. attempt \<le> i \<and> i < k \<longrightarrow> failed_transiently (fst (get_once W url (after_failures W url i w))))
    \<and> (k = MAX_TRANSIENT_RETRIES \<or> \<not> failed_transiently (fst (get_once W url (after_failures W url k w))))"
  using assms
proof (induction "MAX_TRANSIENT_RETRIES - attempt" arbitrary: attempt)
  case 0
  then have "attempt = MAX_TRANSIENT_RETRIES" by simp
  moreover have "get_loop W url attempt d v = get_once W url v" if "\<not> attempt < MAX_TRANSIENT_RETRIES" for d v
    using that by (subst get_loop_step) simp
  ultimately show ?case by (intro exI [of _ attempt]) auto
next
  case (Suc n)
  let ?w = "after_failures W url attempt w"
  show ?case
  proof (cases "failed_transiently (fst (get_once W url ?w))")
    case True
    have step: "get_loop W url attempt (backoff attempt) ?w
        = get_loop W url (Suc attempt) (backoff (Suc attempt)) (after_failures W url (Suc attempt) w)"
      using True Suc.hyps(2) by (subst get_loop_step) auto
    have "n = MAX_TRANSIENT_RETRIES - Suc attempt" "Suc attempt \<le> MAX_TRANSIENT_RETRIES" using Suc.hyps(2) by simp_all
    from Suc.hyps(1) [OF this] obtain k where k: "Suc attempt \<le> k" "k \<le> MAX_TRANSIENT_RETRIES"
      "get_loop W url (Suc attempt) (backoff (Suc attempt)) (after_failures W url (Suc attempt) w)
         = get_once W url (after_failures W url k w)"
      "\<forall>i. Suc attempt \<le> i \<and> i < k \<longrightarrow> failed_transiently (fst (get_once W url (after_failures W url i w)))"
      "k = MAX_TRANSIENT_RETRIES \<or> \<not> failed_transiently (fst (get_once W url (after_failures W url k w)))" by blast
    have "\<forall>i. attempt \<le> i \<and> i < k \<longrightarrow> failed_transiently (fst (get_once W url (after_failures W url i w)))"
      using True k(4) by (metis le_antisym not_less_eq_eq)
    with k step show ?thesis by (metis Suc_leD)
  next
    case False
    then have "get_loop W url attempt (backoff attempt) ?w = get_once W url ?w" by (subst get_loop_step) simp
    with False Suc.prems show ?thesis by (intro exI [of _ attempt]) auto
  qed
qed

lemma http_get_requests:
  "\<exists>k \<le> MAX_TRANSIENT_RETRIES. http_get W url w = get_once W url (after_failures W url k w)
    \<and> (\<forall>i < k. failed_transiently (fst (get_once W url (after_failures W url i w))))
    \<and> (k = MAX_TRANSIENT_RETRIES \<or> \<not> failed_transiently (fst (get_once W url (after_failures W url k w))))"
  using get_loop_requests [of 0 W url w] by (auto simp: http_get_def)

text \<open>C38: a URL is requested until it is answered without a transient failure, at most eleven times, and the
  caller gets the answer to the last request; between two requests the client sleeps 500 ms, then twice as
  long each time, but never more than ten seconds.\<close>

theorem http_get_retries:
  "\<exists>k \<le> MAX_TRANSIENT_RETRIES. http_get W url w = get_once W url (after_failures W url k w)
    \<and> (\<forall>i < k. failed_transiently (fst (get_once W url (after_failures W url i w))))
    \<and> (k = MAX_TRANSIENT_RETRIES \<or> \<not> failed_transiently (fst (http_get W url w)))"
  using http_get_requests by metis

subsection \<open>Packets\<close>

lemma http_get_no_fuel: "fst (http_get W url w) \<noteq> OutOfFuel" "fst (http_get W url w) \<noteq> Panic p"
proof -
  have "fst (get_once W url w) \<noteq> OutOfFuel \<and> fst (get_once W url w) \<noteq> Panic p" for w
    by (simp add: get_once_def split: prod.split sum.split)
  then show "fst (http_get W url w) \<noteq> OutOfFuel" "fst (http_get W url w) \<noteq> Panic p" using http_get_requests [of W url w] by metis+
qed

text \<open>The URLs of the packets of a stream, in the order in which they are asked for.\<close>

definition start_url :: "broadcast_http \<Rightarrow> rstr" where
  "start_url s = bh_base_url s @ str_lit ''/'' @ display_i32 (bh_signup_fragment s) @ str_lit ''/start''"

definition full_url :: "broadcast_http \<Rightarrow> rstr" where
  "full_url s = bh_base_url s @ str_lit ''/'' @ display_i32 (bh_stream_fragment s) @ str_lit ''/'' @ str_lit ''full''"

definition delta_url :: "broadcast_http \<Rightarrow> rstr" where
  "delta_url s = bh_base_url s @ str_lit ''/'' @ display_i32 (bh_stream_fragment s) @ str_lit ''/'' @ str_lit ''delta''"

text \<open>One round of \<open>handle_deltaframes\<close>: whether the time to fetch has passed, the flag \<open>catchup\<close>, the instant of
  the fetch, its result and the world after it.\<close>

definition delta_round ::
    "('w, 'x) world \<Rightarrow> rstr \<Rightarrow> nat \<Rightarrow> bool \<Rightarrow> 'w \<Rightarrow> bool \<times> bool \<times> nat \<times> ('x http_error, u8 list) outcome \<times> 'w" where
  "delta_round W url fetch_after catchup w =
     (case (if catchup then (False, True, w)
            else case wo_now W w of (t1, w1) \<Rightarrow>
              if fetch_after < t1 then (True, True, w1)
              else case wo_now W w1 of (t2, w2) \<Rightarrow> (False, False, wo_sleep W (fetch_after - t2) w2)) of
        (passed, catchup, w) \<Rightarrow>
          (case wo_now W w of (start, w) \<Rightarrow> (case http_get W url w of (r, w) \<Rightarrow> (passed, catchup, start, r, w))))"

lemma catching_up_run:
  "catching_up W n t c (w, s) =
     (if c then (Ok True, (w, s))
      else case wo_now W w of (t1, w1) \<Rightarrow>
        if t < t1 then (Ok True, (w1, s\<lparr>bh_stream_state := SsDeltaframes n t True\<rparr>))
        else case wo_now W w1 of (t2, w2) \<Rightarrow> (Ok False, (wo_sleep W (t - t2) w2, s)))"
  by (simp add: catching_up_def await_fetch_def now_def on_world_def zoomM_def bindM_def set_state_def retM_def
      split: prod.split)

lemma fetch_delta_run:
  "fetch_delta W (w, s) = (case wo_now W w of (start, w) \<Rightarrow> (case http_get W (delta_url s) w of (r, w) \<Rightarrow>
     (Ok (start, r), (w, s))))"
  by (simp add: fetch_delta_def now_def on_world_def zoomM_def bindM_def get_fragment_def delta_url_def split: prod.split)

lemma delta_url_simps:
  "delta_url (s\<lparr>bh_stream_state := st\<rparr>) = delta_url s"
  by (simp add: delta_url_def)

lemma deltaframes_round:
  assumes "delta_round W (delta_url s) t c w = (passed, c', start, r, w')"
    and "s' = (if passed then s\<lparr>bh_stream_state := SsDeltaframes n t True\<rparr> else s)"
  shows "deltaframes_loop W n t c (w, s) = (case r of
      Ok delta \<Rightarrow>
        (case instant_add W start (bh_keyframe_interval s) of
           Ok t' \<Rightarrow> (Ok delta, (w', s\<lparr>bh_stream_fragment := bh_stream_fragment s + 1, bh_stream_state := SsDeltaframes 0 t' c'\<rparr>))
         | Panic p \<Rightarrow> (Panic p, (w', s'\<lparr>bh_stream_fragment := bh_stream_fragment s + 1\<rparr>))
         | x \<Rightarrow> (OutOfFuel, (w', s')))
    | Err e \<Rightarrow>
        if e = HeStatusCode NOT_FOUND \<and> n < MAX_DELTAFRAME_RETRIES then
          (case instant_add W start (bh_keyframe_interval s) of
             Ok t' \<Rightarrow> deltaframes_loop W (n + 1) t' False (w', s\<lparr>bh_stream_state := SsDeltaframes (n + 1) t' False\<rparr>)
           | Panic p \<Rightarrow> (Panic p, (w', s'))
           | x \<Rightarrow> (OutOfFuel, (w', s')))
        else (Err e, (w', s'))
    | Panic p \<Rightarrow> (Panic p, (w', s'))
    | OutOfFuel \<Rightarrow> (OutOfFuel, (w', s')))"
proof -
  obtain w1 where 1: "catching_up W n t c (w, s) = (Ok c', (w1, s'))"
    and 2: "fetch_delta W (w1, s') = (Ok (start, r), (w', s'))"
    using assms unfolding delta_round_def catching_up_run fetch_delta_run
    by (auto simp: delta_url_simps split: if_splits prod.splits)
  have s': "bh_stream_fragment s' = bh_stream_fragment s" "bh_keyframe_interval s' = bh_keyframe_interval s"
    "s'\<lparr>bh_stream_state := st\<rparr> = s\<lparr>bh_stream_state := st\<rparr>"
    "s'\<lparr>bh_stream_fragment := f, bh_stream_state := st\<rparr> = s\<lparr>bh_stream_fragment := f, bh_stream_state := st\<rparr>" for st f
    using assms(2) by simp_all
  show ?thesis
    by (subst deltaframes_loop.simps)
      (simp add: 1 2 s' bindM_def next_fetch_def next_fragment_def set_state_def retM_def errM_def liftO_def
        instant_add_def linorder_not_less split: outcome.split)
qed


lemma delta_round_answer:
  "delta_round W url t c w = (passed, c', start, r, w') \<Longrightarrow> \<exists>v. http_get W url v = (r, w')"
  by (auto simp: delta_round_def split: prod.splits if_splits)

text \<open>What can become of a fetch of the pending fragment; only the end of it changes the stream but for its state.\<close>

definition fetched :: "('w, 'x) world \<Rightarrow> broadcast_http \<Rightarrow> ('x http_error, u8 list) outcome \<Rightarrow> broadcast_http \<Rightarrow> bool" where
  "fetched W s r s' = (case r of
     Ok delta \<Rightarrow> (\<exists>v. fst (http_get W (delta_url s) v) = Ok delta)
       \<and> (\<exists>t c. s' = s\<lparr>bh_stream_fragment := bh_stream_fragment s + 1, bh_stream_state := SsDeltaframes 0 t c\<rparr>)
   | Err e \<Rightarrow> (\<exists>v. fst (http_get W (delta_url s) v) = Err e) \<and> (\<exists>st. s' = s\<lparr>bh_stream_state := st\<rparr>)
   | Panic p \<Rightarrow> p = ExplicitPanic
   | OutOfFuel \<Rightarrow> False)"

lemma fetchedI:
  "fst (http_get W (delta_url s) v) = Ok delta \<Longrightarrow>
     fetched W s (Ok delta) (s\<lparr>bh_stream_fragment := bh_stream_fragment s + 1, bh_stream_state := SsDeltaframes 0 t c\<rparr>)"
  "fst (http_get W (delta_url s) v) = Err e \<Longrightarrow> fetched W s (Err e) s"
  "fst (http_get W (delta_url s) v) = Err e \<Longrightarrow> fetched W s (Err e) (s\<lparr>bh_stream_state := st\<rparr>)"
  "fetched W s (Panic ExplicitPanic) s'"
  unfolding fetched_def outcome.case
  by (blast, (intro conjI, blast, rule exI [of _ "bh_stream_state s"], simp), blast, rule refl)

lemma fetched_state: "fetched W (s\<lparr>bh_stream_state := st\<rparr>) r s' \<Longrightarrow> fetched W s r s'"
  by (auto simp: fetched_def delta_url_simps split: outcome.splits)

lemma deltaframes_fetched:
  "deltaframes_loop W n t c (w, s) = (r, (w', s')) \<Longrightarrow> fetched W s r s'"
proof (induction "MAX_DELTAFRAME_RETRIES - n" arbitrary: n t c w s r w' s' rule: less_induct)
  case less
  obtain passed c1 start x w1 where round: "delta_round W (delta_url s) t c w = (passed, c1, start, x, w1)" by (metis prod.collapse)
  obtain v where v: "http_get W (delta_url s) v = (x, w1)" using delta_round_answer [OF round] by blast
  have x: "x \<noteq> OutOfFuel" "x \<noteq> Panic p" for p using http_get_no_fuel [of W "delta_url s" v] v by simp_all
  show ?case
  proof (cases x)
    case (Ok delta)
    with less.prems v show ?thesis
      by (subst (asm) deltaframes_round [OF round refl])
        (auto simp: instant_add_def split: if_splits intro: fetchedI(1-3) [where v = v] fetchedI(4))
  next
    case (Err e)
    show ?thesis
    proof (cases "e = HeStatusCode NOT_FOUND \<and> n < MAX_DELTAFRAME_RETRIES")
      case True
      show ?thesis
      proof (cases "start + bh_keyframe_interval s \<le> wo_max_instant W")
        case fits: True
        let ?t = "start + bh_keyframe_interval s"
        from fits True Err less.prems
        have rec: "deltaframes_loop W (n + 1) ?t False (w1, s\<lparr>bh_stream_state := SsDeltaframes (n + 1) ?t False\<rparr>) = (r, (w', s'))"
          by (subst (asm) deltaframes_round [OF round refl]) (simp add: instant_add_def)
        from True have "MAX_DELTAFRAME_RETRIES - (n + 1) < MAX_DELTAFRAME_RETRIES - n" by (intro diff_less_mono2) auto
        from less.hyps [OF this rec] show ?thesis by (rule fetched_state)
      next
        case False
        with True Err less.prems show ?thesis
          by (subst (asm) deltaframes_round [OF round refl]) (auto simp: instant_add_def intro: fetchedI(1-3) [where v = v] fetchedI(4))
      qed
    next
      case False
      with Err less.prems v show ?thesis
        by (subst (asm) deltaframes_round [OF round refl])
          (auto simp: intro: fetchedI(1-3) [where v = v] fetchedI(4) split: if_splits)
    qed
  qed (use x in simp_all)
qed


text \<open>The URL of the pending packet, and what a delivery does to the stream apart from its buffer.\<close>

definition pending_url :: "broadcast_http \<Rightarrow> rstr" where
  "pending_url s = (case bh_stream_state s of
     SsStart \<Rightarrow> start_url s | SsFullframe \<Rightarrow> full_url s | _ \<Rightarrow> delta_url s)"

definition advanced :: "broadcast_http \<Rightarrow> broadcast_http \<Rightarrow> bool" where
  "advanced s s' = (case bh_stream_state s of
     SsStop \<Rightarrow> False
   | SsStart \<Rightarrow> s' = s\<lparr>bh_stream_state := SsFullframe\<rparr>
   | SsFullframe \<Rightarrow> (\<exists>t. s' = s\<lparr>bh_stream_state := SsDeltaframes 0 t True\<rparr>)
   | SsDeltaframes _ _ _ \<Rightarrow>
       (\<exists>t c. s' = s\<lparr>bh_stream_fragment := bh_stream_fragment s + 1, bh_stream_state := SsDeltaframes 0 t c\<rparr>))"

lemma handle_start_run:
  "handle_start W (w, s) =
     (if sint (bh_signup_fragment s) < 0 then (Panic AssertFailed, (w, s))
      else case http_get W (start_url s) w of
        (Ok b, w) \<Rightarrow> (Ok b, (w, s\<lparr>bh_stream_state := SsFullframe\<rparr>))
      | (r, w) \<Rightarrow> (r, (w, s)))"
  by (auto simp: handle_start_def get_start_def on_world_def zoomM_def bindM_def liftO_def set_state_def retM_def
      start_url_def split: prod.split outcome.split)

lemma handle_fullframe_run:
  "handle_fullframe W (w, s) =
     (case http_get W (full_url s) w of
        (Ok b, w) \<Rightarrow> (case wo_now W w of (t, w) \<Rightarrow> (Ok b, (w, s\<lparr>bh_stream_state := SsDeltaframes 0 t True\<rparr>)))
      | (r, w) \<Rightarrow> (r, (w, s)))"
  by (auto simp: handle_fullframe_def get_fragment_def now_def on_world_def zoomM_def bindM_def set_state_def retM_def
      full_url_def split: prod.split outcome.split)

definition handled :: "('w, 'x) world \<Rightarrow> broadcast_http \<Rightarrow> ('x http_error, u8 list) outcome \<Rightarrow> broadcast_http \<Rightarrow> bool" where
  "handled W s r s' = (case r of
     Ok b \<Rightarrow> (\<exists>v. fst (http_get W (pending_url s) v) = Ok b) \<and> advanced s s'
   | Err e \<Rightarrow> (\<exists>v. fst (http_get W (pending_url s) v) = Err e)
   | Panic p \<Rightarrow> True
   | OutOfFuel \<Rightarrow> False)"

lemma handlers_handled:
  "bh_stream_state s = SsStart \<Longrightarrow> handle_start W (w, s) = (r, (w', s')) \<Longrightarrow> handled W s r s'"
  "bh_stream_state s = SsFullframe \<Longrightarrow> handle_fullframe W (w, s) = (r, (w', s')) \<Longrightarrow> handled W s r s'"
  "bh_stream_state s = SsDeltaframes n t c \<Longrightarrow> handle_deltaframes W (w, s) = (r, (w', s')) \<Longrightarrow> handled W s r s'"
proof -
  assume "bh_stream_state s = SsStart" "handle_start W (w, s) = (r, (w', s'))"
  then show "handled W s r s'" using http_get_no_fuel [of W "start_url s" w]
    by (auto simp: handled_def advanced_def pending_url_def handle_start_run split: if_splits prod.splits outcome.splits)
      (metis fst_conv)+
next
  assume "bh_stream_state s = SsFullframe" "handle_fullframe W (w, s) = (r, (w', s'))"
  then show "handled W s r s'" using http_get_no_fuel [of W "full_url s" w]
    by (auto simp: handled_def advanced_def pending_url_def handle_fullframe_run split: prod.splits outcome.splits)
      (metis fst_conv)+
next
  assume st: "bh_stream_state s = SsDeltaframes n t c" and "handle_deltaframes W (w, s) = (r, (w', s'))"
  then have "fetched W s r s'" by (intro deltaframes_fetched [of W n t c w]) (simp add: handle_deltaframes_def)
  with st show "handled W s r s'"
    by (auto simp: handled_def advanced_def pending_url_def fetched_def split: outcome.splits)
qed

lemma next_packet_run:
  assumes "next_packet W (w, s) = (r, (w', s'))"
  obtains (stopped) "bh_stream_state s = SsStop" "r = None" "w' = w" "s' = s"
  | (delivered) b s1 where "r = Some (Ok b)" "\<exists>v. fst (http_get W (pending_url s) v) = Ok b" "advanced s s1" "s' = buffer_packet b s1"
  | (ended) e where "bh_stream_state s \<noteq> SsStop" "r = (if e = HeStatusCode NOT_FOUND then None else Some (Err e))"
      "\<exists>v. fst (http_get W (pending_url s) v) = Err e" "bh_stream_state s' = SsStop"
  | (panicked) p where "r = Some (Panic p)"
proof (cases "bh_stream_state s = SsStop")
  case True
  with assms have "r = None" "w' = w" "s' = s" by (simp_all add: next_packet_def)
  with True show thesis by (rule stopped)
next
  case False
  obtain x w1 s1 where x: "(case bh_stream_state s of SsStart \<Rightarrow> handle_start W | SsFullframe \<Rightarrow> handle_fullframe W
      | _ \<Rightarrow> handle_deltaframes W) (w, s) = (x, (w1, s1))" by (metis prod.collapse)
  have h: "handled W s x s1" using x False handlers_handled by (cases "bh_stream_state s") auto
  have r: "next_packet W (w, s) = (case x of
      Ok packet \<Rightarrow> (Some (Ok packet), (w1, buffer_packet packet s1))
    | Err e \<Rightarrow> (if e = HeStatusCode NOT_FOUND then None else Some (Err e), (w1, s1\<lparr>bh_stream_state := SsStop\<rparr>))
    | _ \<Rightarrow> (Some x, (w1, s1)))"
    using False x by (simp add: next_packet_def split: outcome.split)
  show thesis
  proof (cases x)
    case (Ok b)
    with r assms have "r = Some (Ok b)" "s' = buffer_packet b s1" by simp_all
    moreover from h Ok have "\<exists>v. fst (http_get W (pending_url s) v) = Ok b" "advanced s s1" by (simp_all add: handled_def)
    ultimately show thesis using delivered by blast
  next
    case (Err e)
    with r assms have "r = (if e = HeStatusCode NOT_FOUND then None else Some (Err e))" "bh_stream_state s' = SsStop" by auto
    moreover from h Err have "\<exists>v. fst (http_get W (pending_url s) v) = Err e" by (simp add: handled_def)
    ultimately show thesis using ended False by blast
  next
    case (Panic p)
    with r assms have "r = Some (Panic p)" by simp
    then show thesis by (rule panicked)
  next
    case OutOfFuel
    with h show thesis by (simp add: handled_def)
  qed
qed

subsection \<open>The order of the packets\<close>

primrec next_packets ::
    "('w, 'x) world \<Rightarrow> nat \<Rightarrow> 'w \<times> broadcast_http \<Rightarrow> ('x http_error, u8 list) outcome option list \<times> ('w \<times> broadcast_http)" where
  "next_packets W 0 ws = ([], ws)"
| "next_packets W (Suc n) ws =
     (case next_packet W ws of (r, ws) \<Rightarrow> (case next_packets W n ws of (rs, ws) \<Rightarrow> (r # rs, ws)))"

text \<open>Packet 0 is the signup fragment, packet 1 the full fragment and the others are deltas, the first of them
  that of the full fragment.\<close>

definition packet_url :: "broadcast_http \<Rightarrow> nat \<Rightarrow> rstr" where
  "packet_url s i =
     (if i = 0 then start_url s
      else if i = 1 then full_url s
      else delta_url (s\<lparr>bh_stream_fragment := bh_stream_fragment s + of_nat (i - 2)\<rparr>))"

fun buffered :: "stream_buffer \<Rightarrow> u8 list list \<Rightarrow> stream_buffer" where
  "buffered (SbLast x) pkts = SbLast (if pkts = [] then x else Some \<lparr>rd_data = last pkts, rd_pos = 0\<rparr>)"
| "buffered (SbSeekable c) pkts = SbSeekable \<lparr>rd_data = rd_data c @ concat pkts, rd_pos = rd_pos c + length (concat pkts)\<rparr>"

text \<open>The stream \<open>s\<close> after the delivery of \<open>pkts\<close> by a stream that began as \<open>s0\<close>.\<close>

definition after_packets :: "broadcast_http \<Rightarrow> u8 list list \<Rightarrow> broadcast_http \<Rightarrow> bool" where
  "after_packets s0 pkts s \<longleftrightarrow>
     bh_base_url s = bh_base_url s0 \<and> bh_signup_fragment s = bh_signup_fragment s0
     \<and> bh_stream_fragment s = bh_stream_fragment s0 + of_nat (length pkts - 2)
     \<and> bh_stream_buffer s = buffered (bh_stream_buffer s0) pkts
     \<and> (case length pkts of 0 \<Rightarrow> bh_stream_state s = SsStart | Suc 0 \<Rightarrow> bh_stream_state s = SsFullframe
        | _ \<Rightarrow> \<exists>t c. bh_stream_state s = SsDeltaframes 0 t c)"

definition at_buffer_end :: "stream_buffer \<Rightarrow> bool" where
  "at_buffer_end b = (case b of SbLast _ \<Rightarrow> True | SbSeekable c \<Rightarrow> rd_pos c = length (rd_data c))"

lemma buffered_snoc:
  "at_buffer_end b \<Longrightarrow> bh_stream_buffer s = buffered b pkts \<Longrightarrow>
     bh_stream_buffer (buffer_packet p s) = buffered b (pkts @ [p])"
  by (cases b) (auto simp: at_buffer_end_def buffer_packet_def cursor_write_def)

lemma buffer_packet_simps:
  "bh_base_url (buffer_packet p s) = bh_base_url s" "bh_signup_fragment (buffer_packet p s) = bh_signup_fragment s"
  "bh_stream_fragment (buffer_packet p s) = bh_stream_fragment s" "bh_stream_state (buffer_packet p s) = bh_stream_state s"
  "bh_keyframe_interval (buffer_packet p s) = bh_keyframe_interval s"
  by (simp_all add: buffer_packet_def split: stream_buffer.split)

lemma after_packets_snoc:
  assumes "after_packets s0 pkts s" "at_buffer_end (bh_stream_buffer s0)" "next_packet W (w, s) = (Some (Ok b), (w', s'))"
  shows "after_packets s0 (pkts @ [b]) s' \<and> (\<exists>v. fst (http_get W (packet_url s0 (length pkts)) v) = Ok b)"
  using assms(3)
proof (cases rule: next_packet_run)
  case (delivered b' s1)
  then have b: "b' = b" by simp
  have "bh_stream_buffer s1 = bh_stream_buffer s" using delivered(3) by (auto simp: advanced_def split: stream_state.splits)
  with assms(1,2) delivered(4) b have buf: "bh_stream_buffer s' = buffered (bh_stream_buffer s0) (pkts @ [b])"
    by (simp add: buffered_snoc after_packets_def)
  consider "pkts = []" | p where "pkts = [p]" | p q rs where "pkts = p # q # rs" by (metis list.exhaust)
  then show ?thesis
  proof cases
    case 3
    with assms(1) delivered b buf show ?thesis
      by (auto simp: after_packets_def advanced_def pending_url_def packet_url_def buffer_packet_simps delta_url_def)
  qed (use assms(1) delivered b buf in \<open>auto simp: after_packets_def advanced_def pending_url_def packet_url_def
      buffer_packet_simps start_url_def full_url_def delta_url_def\<close>)
qed (auto split: if_splits)


lemma next_packets_append:
  "after_packets s0 pkts0 s \<Longrightarrow> at_buffer_end (bh_stream_buffer s0) \<Longrightarrow>
   next_packets W n (w, s) = (map (Some \<circ> Ok) pkts, (w', s')) \<Longrightarrow>
     after_packets s0 (pkts0 @ pkts) s'
     \<and> (\<forall>i < length pkts. \<exists>v. fst (http_get W (packet_url s0 (length pkts0 + i)) v) = Ok (pkts ! i))"
proof (induction n arbitrary: pkts0 pkts w s)
  case (Suc n)
  obtain r w1 s1 where 1: "next_packet W (w, s) = (r, (w1, s1))" by (metis prod.collapse)
  obtain rs where 2: "next_packets W n (w1, s1) = (rs, (w', s'))" "map (Some \<circ> Ok) pkts = r # rs"
    using Suc.prems(3) 1 by (auto split: prod.splits)
  then obtain b bs where b: "pkts = b # bs" "r = Some (Ok b)" "rs = map (Some \<circ> Ok) bs" by (cases pkts) auto
  have s1: "after_packets s0 (pkts0 @ [b]) s1" and v: "\<exists>v. fst (http_get W (packet_url s0 (length pkts0)) v) = Ok b"
    using after_packets_snoc [OF Suc.prems(1,2) 1 [unfolded b(2)]] by simp_all
  have "\<exists>v. fst (http_get W (packet_url s0 (length pkts0 + i)) v) = Ok (pkts ! i)" if "i < length pkts" for i
  proof (cases i)
    case (Suc j)
    then show ?thesis using Suc.IH [OF s1 Suc.prems(2) 2(1) [unfolded b(3)]] that b(1) by auto
  qed (use v b(1) in simp)
  then show ?case using Suc.IH [OF s1 Suc.prems(2) 2(1) [unfolded b(3)]] b(1) by auto
qed simp

lemma start_streaming_Ok:
  assumes "start_streaming W base_url w = (Ok s, w')"
  shows "after_packets s [] s" "bh_stream_buffer s = SbLast None" "bh_base_url s = base_url"
    "bh_stream_fragment s = sr_fragment (bh_sync_response s)" "bh_signup_fragment s = sr_signup_fragment (bh_sync_response s)"
  using assms by (auto simp: start_streaming_def bindM_def retM_def after_packets_def split: prod.splits outcome.splits)

lemma start_and_buffer_Ok:
  assumes "start_streaming_and_buffer W base_url w = (Ok s, w')"
  obtains s0 where "start_streaming W base_url w = (Ok s0, w')"
    "s = s0\<lparr>bh_stream_buffer := SbSeekable \<lparr>rd_data = [], rd_pos = 0\<rparr>\<rparr>"
  using assms by (auto simp: start_streaming_and_buffer_def bindM_def retM_def split: prod.splits outcome.splits)

lemma fresh_stream:
  assumes "start_streaming W base_url w = (Ok s, w') \<or> start_streaming_and_buffer W base_url w = (Ok s, w')"
  shows "after_packets s [] s" "at_buffer_end (bh_stream_buffer s)" "bh_base_url s = base_url"
    "bh_stream_fragment s = sr_fragment (bh_sync_response s)" "bh_signup_fragment s = sr_signup_fragment (bh_sync_response s)"
proof -
  have "after_packets s [] s \<and> at_buffer_end (bh_stream_buffer s) \<and> bh_base_url s = base_url
    \<and> bh_stream_fragment s = sr_fragment (bh_sync_response s) \<and> bh_signup_fragment s = sr_signup_fragment (bh_sync_response s)"
    using assms
  proof
    assume a: "start_streaming W base_url w = (Ok s, w')"
    show ?thesis using start_streaming_Ok [OF a] by (simp add: at_buffer_end_def)
  next
    assume "start_streaming_and_buffer W base_url w = (Ok s, w')"
    then obtain s0 where a: "start_streaming W base_url w = (Ok s0, w')"
      and s: "s = s0\<lparr>bh_stream_buffer := SbSeekable \<lparr>rd_data = [], rd_pos = 0\<rparr>\<rparr>" by (rule start_and_buffer_Ok)
    show ?thesis using start_streaming_Ok [OF a] by (simp add: s after_packets_def at_buffer_end_def)
  qed
  then show "after_packets s [] s" "at_buffer_end (bh_stream_buffer s)" "bh_base_url s = base_url"
    "bh_stream_fragment s = sr_fragment (bh_sync_response s)" "bh_signup_fragment s = sr_signup_fragment (bh_sync_response s)"
    by simp_all
qed

text \<open>C8: the packets of a broadcast are delivered in order and without a gap, whatever is retried in between:
  first the start fragment, then the full fragment that the relay named, then the delta fragments from the
  same number on; each packet is the body of an answer to the request for its URL.\<close>

theorem packets_in_order:
  assumes "start_streaming W base_url w = (Ok s, w1) \<or> start_streaming_and_buffer W base_url w = (Ok s, w1)"
    and "next_packets W n (w1, s) = (map (Some \<circ> Ok) packets, (w2, s2))"
  defines "resp \<equiv> bh_sync_response s"
  shows "\<forall>i < length packets. \<exists>v. fst (http_get W
      (base_url @ str_lit ''/'' @
        (if i = 0 then display_i32 (sr_signup_fragment resp) @ str_lit ''/start''
         else if i = 1 then display_i32 (sr_fragment resp) @ str_lit ''/full''
         else display_i32 (sr_fragment resp + of_nat (i - 2)) @ str_lit ''/delta'')) v) = Ok (packets ! i)"
proof -
  have urls: "packet_url s i = base_url @ str_lit ''/'' @
        (if i = 0 then display_i32 (sr_signup_fragment resp) @ str_lit ''/start''
         else if i = 1 then display_i32 (sr_fragment resp) @ str_lit ''/full''
         else display_i32 (sr_fragment resp + of_nat (i - 2)) @ str_lit ''/delta'')" for i
    using fresh_stream [OF assms(1)]
    by (simp add: packet_url_def start_url_def full_url_def delta_url_def resp_def str_lit_def)
  show ?thesis using next_packets_append [OF fresh_stream(1,2) [OF assms(1)] assms(2)] by (simp add: urls)
qed

text \<open>C40: what can be read after some packets.  A stream that does not buffer holds the last packet from its
  beginning.  A stream that buffers holds all packets one after the other, but its cursor stands behind the
  last one: it is at its end, so that nothing of a packet can be read unless the caller seeks back.\<close>

theorem buffered_packets:
  assumes "start_streaming W base_url w = (Ok s, w1) \<or> start_streaming_and_buffer W base_url w = (Ok s, w1)"
    and "next_packets W n (w1, s) = (map (Some \<circ> Ok) packets, (w2, s2))" "packets \<noteq> []"
  shows "(case bh_stream_buffer s of
       SbLast _ \<Rightarrow> bh_stream_buffer s2 = SbLast (Some \<lparr>rd_data = last packets, rd_pos = 0\<rparr>)
     | SbSeekable _ \<Rightarrow>
         bh_stream_buffer s2 = SbSeekable \<lparr>rd_data = concat packets, rd_pos = length (concat packets)\<rparr>
         \<and> http_is_at_eof s2 = (Ok True, s2))"
proof -
  have after: "bh_stream_buffer s2 = buffered (bh_stream_buffer s) packets"
    using next_packets_append [OF fresh_stream(1,2) [OF assms(1)] assms(2)] by (simp add: after_packets_def)
  from assms(1) show ?thesis
  proof
    assume a: "start_streaming W base_url w = (Ok s, w1)"
    with after assms(3) show ?thesis by (simp add: start_streaming_Ok(2))
  next
    assume "start_streaming_and_buffer W base_url w = (Ok s, w1)"
    then have "bh_stream_buffer s = SbSeekable \<lparr>rd_data = [], rd_pos = 0\<rparr>" by (rule start_and_buffer_Ok) simp
    with after show ?thesis by (simp add: http_is_at_eof_def on_buffer_def)
  qed
qed

text \<open>A packet that arrives after the caller has sought back in a buffering stream is written where the
  cursor stands: it overwrites the packets buffered there.\<close>

theorem packet_overwrites_buffer:
  assumes "bh_stream_buffer s = SbSeekable c" "k < length (rd_data c)"
    and "http_seek (SeekStart k) s = (Ok j, s1)"
    and "next_packet W (w, s1) = (Some (Ok packet), (w', s2))"
  shows "bh_stream_buffer s2 = SbSeekable \<lparr>rd_data = take k (rd_data c) @ packet @ drop (k + length packet) (rd_data c),
      rd_pos = k + length packet\<rparr>"
proof -
  have b: "bh_stream_buffer s1 = SbSeekable (c\<lparr>rd_pos := k\<rparr>)"
    using assms(1,3) by (auto simp: http_seek_def seekable_def rdr_seek_def)
  from assms(4) show ?thesis
  proof (cases rule: next_packet_run)
    case (delivered b' s')
    then have "bh_stream_buffer s' = bh_stream_buffer s1" by (auto simp: advanced_def split: stream_state.splits)
    with b delivered assms(2) show ?thesis by (simp add: buffer_packet_def cursor_write_def)
  qed (auto split: if_splits)
qed

text \<open>C39: once \<open>next_packet\<close> has returned \<open>None\<close> or an error, the stream has ended for good: every later call
  returns \<open>None\<close>, sends no request and changes nothing.\<close>

theorem ended_for_good:
  assumes "next_packet W (w, s) = (r, (w1, s1))" "r = None \<or> r = Some (Err e)"
  shows "next_packets W n (w1, s1) = (replicate n None, (w1, s1))"
proof -
  have "bh_stream_state s1 = SsStop" using assms(1)
    by (cases rule: next_packet_run) (use assms(2) in auto)
  then show ?thesis by (induction n) (simp_all add: next_packet_def)
qed


subsection \<open>Late fragments\<close>

text \<open>A clock that agrees with the world: it does not run backwards, a reading of it lies between its values before
  and after, sleeping lasts as long as it should and nothing takes more than \<open>d\<close> besides.\<close>

definition keeps_time :: "('w, 'x) world \<Rightarrow> ('w \<Rightarrow> nat) \<Rightarrow> nat \<Rightarrow> bool" where
  "keeps_time W clock d \<longleftrightarrow>
     (\<forall>w. clock w \<le> fst (wo_now W w) \<and> fst (wo_now W w) \<le> clock (snd (wo_now W w)) \<and> clock (snd (wo_now W w)) \<le> clock w + d)
     \<and> (\<forall>n w. clock w + n \<le> clock (wo_sleep W n w) \<and> clock (wo_sleep W n w) \<le> clock w + n + d)
     \<and> (\<forall>url w. clock w \<le> clock (snd (wo_execute W url w)) \<and> clock (snd (wo_execute W url w)) \<le> clock w + d)"

text \<open>The relay answers with the body from the instant \<open>t\<close> on; before, it may also answer that there is none.\<close>

definition published :: "('w, 'x) world \<Rightarrow> ('w \<Rightarrow> nat) \<Rightarrow> rstr \<Rightarrow> nat \<Rightarrow> u8 list \<Rightarrow> bool" where
  "published W clock url t body \<longleftrightarrow> wo_uri_ok W url \<and>
     (\<forall>w. fst (wo_execute W url w) = Inr (200, Inr body)
        \<or> clock w < t \<and> (\<exists>b. fst (wo_execute W url w) = Inr (NOT_FOUND, b)))"

lemma http_get_published:
  assumes "published W clock url t body"
  shows "http_get W url w = (Ok body, snd (wo_execute W url w))
    \<or> http_get W url w = (Err (HeStatusCode NOT_FOUND), snd (wo_execute W url w)) \<and> clock w < t"
proof -
  have not_transient: "http_get W url w = get_once W url w" if "\<not> failed_transiently (fst (get_once W url w))"
    using that by (simp add: http_get_def get_loop_step)
  from assms consider "fst (wo_execute W url w) = Inr (200, Inr body)"
    | b where "clock w < t" "fst (wo_execute W url w) = Inr (NOT_FOUND, b)"
    unfolding published_def by blast
  then show ?thesis
  proof cases
    case 1
    then have "get_once W url w = (Ok body, snd (wo_execute W url w))" using assms
      by (cases "wo_execute W url w") (simp add: get_once_def published_def is_client_error_def is_server_error_def)
    with not_transient show ?thesis by (simp add: failed_transiently_def)
  next
    case 2
    then have "get_once W url w = (Err (HeStatusCode NOT_FOUND), snd (wo_execute W url w))" using assms
      by (cases "wo_execute W url w")
        (simp add: get_once_def published_def is_client_error_def is_server_error_def NOT_FOUND_def)
    with not_transient 2 show ?thesis
      by (simp add: failed_transiently_def is_transient_def is_server_error_def NOT_FOUND_def)
  qed
qed

lemma delta_round_timed:
  assumes time: "keeps_time W clock d" and pub: "published W clock url t body"
    and round: "delta_round W url f c w = (passed, c', start, r, w')"
  shows "(if c then clock w else f) \<le> start" "start \<le> clock w'" "clock w' \<le> max (clock w) f + 6 * d"
    "r = Ok body \<or> r = Err (HeStatusCode NOT_FOUND) \<and> start < t"
proof -
  obtain v where waited: "(if c then (False, True, w)
            else case wo_now W w of (t1, w1) \<Rightarrow>
              if f < t1 then (True, True, w1)
              else case wo_now W w1 of (t2, w2) \<Rightarrow> (False, False, wo_sleep W (f - t2) w2)) = (passed, c', v)"
    and req: "start = fst (wo_now W v)" "http_get W url (snd (wo_now W v)) = (r, w')"
    using round by (auto simp: delta_round_def split: prod.splits)
  note now = keeps_time_def [THEN iffD1, OF time, THEN conjunct1, rule_format]
    and sleep = keeps_time_def [THEN iffD1, OF time, THEN conjunct2, THEN conjunct1, rule_format]
    and exec = keeps_time_def [THEN iffD1, OF time, THEN conjunct2, THEN conjunct2, rule_format]
  have v: "(if c then clock w else f) \<le> clock v \<and> clock v \<le> max (clock w) f + 4 * d"
  proof (cases c)
    case False
    let ?w1 = "snd (wo_now W w)" let ?t2 = "fst (wo_now W ?w1)" and ?w2 = "snd (wo_now W ?w1)"
    show ?thesis
    proof (cases "f < fst (wo_now W w)")
      case True
      then have "v = ?w1" using waited False by (simp add: split_beta)
      then show ?thesis using now [of w] True False by auto
    next
      case le: False
      then have "v = wo_sleep W (f - ?t2) ?w2" using waited False by (simp add: split_beta)
      then show ?thesis using now [of w] now [of ?w1] sleep [of ?w2 "f - ?t2"] le False by auto
    qed
  qed (use waited in auto)
  have w': "w' = snd (wo_execute W url (snd (wo_now W v)))"
    and r: "r = Ok body \<or> r = Err (HeStatusCode NOT_FOUND) \<and> clock (snd (wo_now W v)) < t"
    using http_get_published [OF pub, of "snd (wo_now W v)"] req(2) by auto
  show "(if c then clock w else f) \<le> start" using v now [of v] req(1) by linarith
  show "start \<le> clock w'" using now [of v] exec [of "snd (wo_now W v)" url] unfolding req(1) w' by linarith
  show "clock w' \<le> max (clock w) f + 6 * d" using v now [of v] exec [of "snd (wo_now W v)" url] unfolding w' by linarith
  show "r = Ok body \<or> r = Err (HeStatusCode NOT_FOUND) \<and> start < t" using r now [of v] req(1) by linarith
qed


lemma deltaframes_delivers:
  assumes time: "keeps_time W clock d" and pub: "published W clock (delta_url s) t body"
  shows "n \<le> MAX_DELTAFRAME_RETRIES \<Longrightarrow>
    t \<le> (if c then clock w else f) + (MAX_DELTAFRAME_RETRIES - n) * bh_keyframe_interval s \<Longrightarrow>
    max (clock w) f + (MAX_DELTAFRAME_RETRIES + 1 - n) * (bh_keyframe_interval s + 6 * d) \<le> wo_max_instant W \<Longrightarrow>
    \<exists>w' s'. deltaframes_loop W n f c (w, s\<lparr>bh_stream_state := SsDeltaframes n f c\<rparr>) = (Ok body, (w', s'))"
proof (induction "MAX_DELTAFRAME_RETRIES - n" arbitrary: n f c w)
  case (0 n f c w)
  let ?s = "s\<lparr>bh_stream_state := SsDeltaframes n f c\<rparr>"
  obtain passed c1 start r w1 where round: "delta_round W (delta_url ?s) f c w = (passed, c1, start, r, w1)"
    by (metis prod.collapse)
  note timed = delta_round_timed [OF time pub round [unfolded delta_url_simps]]
  have "n = MAX_DELTAFRAME_RETRIES" using 0 by simp
  with 0 timed have "r = Ok body" "start + bh_keyframe_interval s \<le> wo_max_instant W" by auto
  then show ?case by (subst deltaframes_round [OF round refl]) (simp add: instant_add_def)
next
  case (Suc k n f c w)
  let ?s = "s\<lparr>bh_stream_state := SsDeltaframes n f c\<rparr>" and ?I = "bh_keyframe_interval s" and ?J = "bh_keyframe_interval s + 6 * d"
  obtain passed c1 start r w1 where round: "delta_round W (delta_url ?s) f c w = (passed, c1, start, r, w1)"
    by (metis prod.collapse)
  note timed = delta_round_timed [OF time pub round [unfolded delta_url_simps]]
  have k: "MAX_DELTAFRAME_RETRIES - n = Suc k" "MAX_DELTAFRAME_RETRIES + 1 - n = Suc (Suc k)"
    "MAX_DELTAFRAME_RETRIES - (n + 1) = k" "MAX_DELTAFRAME_RETRIES + 1 - (n + 1) = Suc k" "n < MAX_DELTAFRAME_RETRIES"
    using Suc.hyps(2) by auto
  have t: "t \<le> start + ?I + k * ?I" using Suc.prems(2) timed(1) k(1) by simp
  have upper: "max (clock w1) (start + ?I) + Suc k * ?J \<le> wo_max_instant W"
  proof -
    have "max (clock w1) (start + ?I) \<le> max (clock w) f + ?J" using timed(2,3) by simp
    moreover have "max (clock w) f + ?J + Suc k * ?J \<le> wo_max_instant W" using Suc.prems(3) k(2) by simp
    ultimately show ?thesis by linarith
  qed
  then have fits: "start + ?I \<le> wo_max_instant W" by simp
  from timed(4) show ?case
  proof
    assume "r = Ok body"
    with fits show ?thesis by (subst deltaframes_round [OF round refl]) (simp add: instant_add_def)
  next
    assume "r = Err (HeStatusCode NOT_FOUND) \<and> start < t"
    moreover have "\<exists>w' s'. deltaframes_loop W (n + 1) (start + ?I) False
        (w1, s\<lparr>bh_stream_state := SsDeltaframes (n + 1) (start + ?I) False\<rparr>) = (Ok body, (w', s'))"
      by (rule Suc.hyps(1)) (use k t upper in simp_all)
    ultimately show ?thesis using fits k(5)
      by (subst deltaframes_round [OF round refl]) (simp add: instant_add_def)
  qed
qed

text \<open>C7: a fragment that comes late is not lost.  If the relay publishes the pending delta fragment no later than
  five keyframe intervals after the time from which the stream may fetch it (the time of the call while it
  catches up), the call delivers it, however often the relay has answered before that there is no such fragment.\<close>

theorem late_fragment_delivered:
  assumes "keeps_time W clock d" "published W clock (delta_url s) t body"
    and "bh_stream_state s = SsDeltaframes 0 fetch_after catchup"
    and "t \<le> (if catchup then clock w else fetch_after) + 5 * bh_keyframe_interval s"
    and "max (clock w) fetch_after + 6 * (bh_keyframe_interval s + 6 * d) \<le> wo_max_instant W"
  shows "\<exists>w' s'. next_packet W (w, s) = (Some (Ok body), (w', s'))
    \<and> bh_stream_fragment s' = bh_stream_fragment s + 1"
proof -
  have s: "s\<lparr>bh_stream_state := SsDeltaframes 0 fetch_after catchup\<rparr> = s" using assms(3) by simp
  obtain w' s' where "deltaframes_loop W 0 fetch_after catchup (w, s) = (Ok body, (w', s'))"
    using deltaframes_delivers [OF assms(1,2), of 0 catchup w fetch_after] assms(4,5) s
    by (auto simp: MAX_DELTAFRAME_RETRIES_def)
  then have n: "next_packet W (w, s) = (Some (Ok body), (w', buffer_packet body s'))"
    using assms(3) by (simp add: next_packet_def handle_deltaframes_def)
  then show ?thesis
  proof (cases rule: next_packet_run)
    case (delivered b s1)
    then show ?thesis using n assms(3) by (auto simp: advanced_def buffer_packet_simps)
  qed (auto split: if_splits)
qed

subsection \<open>An example\<close>

text \<open>The client of the tests, which answers with the queued statuses, and a relay whose answers are the URLs and on
  which one fragment appears late.\<close>

definition mock_client :: "(nat option list, unit) world" where
  "mock_client = \<lparr>wo_now = (\<lambda>q. (0, q)), wo_sleep = (\<lambda>_ q. q),
     wo_execute = (\<lambda>url q. case q of
       [] \<Rightarrow> (Inl (), [])
     | None # q \<Rightarrow> (Inl (), q)
     | Some status # q \<Rightarrow> (Inr (status, Inr [111, 107]), q)),
     wo_uri_ok = (\<lambda>_. True), wo_json = (\<lambda>_. None), wo_max_instant = 2 ^ 62\<rparr>"

lemma mock_answer: "http_get mock_client (str_lit ''http://relay/1/delta'') [Some 502, None, Some 200] = (Ok [111, 107], [])"
  by (simp add: http_get_def get_loop_step get_once_def mock_client_def failed_transiently_def is_transient_def
      is_client_error_def is_server_error_def MAX_TRANSIENT_RETRIES_def)

definition relay_sync :: sync_response where
  "relay_sync = \<lparr>sr_tick = 0, sr_endtick = 0, sr_maxtick = 0, sr_rtdelay = f_zero, sr_rcvage = f_zero, sr_fragment = 9,
     sr_signup_fragment = 0, sr_tps = 60, sr_keyframe_interval = 3, sr_map = [], sr_protocol = 5\<rparr>"

definition relay :: "(nat, unit) world" where
  "relay = \<lparr>wo_now = (\<lambda>t. (t, t)), wo_sleep = (\<lambda>d t. t + d),
     wo_execute = (\<lambda>url t. if url = str_lit ''tv/10/delta'' \<and> t < 14000 then (Inr (404, Inr []), t)
       else (Inr (200, Inr (map of_nat url)), t)),
     wo_uri_ok = (\<lambda>_. True), wo_json = (\<lambda>_. Some relay_sync), wo_max_instant = 2 ^ 62\<rparr>"

definition relay_stream :: broadcast_http where
  "relay_stream = \<lparr>bh_base_url = str_lit ''tv'', bh_stream_fragment = 9, bh_keyframe_interval = 3000, bh_signup_fragment = 0,
     bh_sync_response = relay_sync, bh_stream_state = SsStart, bh_stream_buffer = SbLast None, bh_total_ticks = None\<rparr>"

lemma relay_get:
  "http_get relay url t = (if url = str_lit ''tv/10/delta'' \<and> t < 14000 then (Err (HeStatusCode NOT_FOUND), t)
     else (Ok (map of_nat url), t))"
  by (simp add: http_get_def get_loop_step get_once_def relay_def failed_transiently_def is_transient_def
      is_client_error_def is_server_error_def NOT_FOUND_def)

lemma relay_stream_fields:
  "bh_base_url relay_stream = str_lit ''tv''" "bh_keyframe_interval relay_stream = 3000" "bh_stream_fragment relay_stream = 9"
  "bh_signup_fragment relay_stream = 0" "bh_stream_state relay_stream = SsStart" "bh_sync_response relay_stream = relay_sync"
  by (simp_all add: relay_stream_def)

lemma relay_start: "start_streaming relay (str_lit ''tv'') 0 = (Ok relay_stream, 0)"
proof -
  have "str_lit ''tv'' @ str_lit ''/sync'' \<noteq> str_lit ''tv/10/delta''" by (simp add: str_lit_def)
  moreover have "wo_json relay x = Some relay_sync" for x by (simp add: relay_def)
  ultimately show ?thesis
    by (simp add: start_streaming_def get_sync_def bindM_def relay_get liftO_def retM_def ok_or_def relay_stream_def relay_sync_def)
qed

lemma relay_start_and_buffer:
  "start_streaming_and_buffer relay (str_lit ''tv'') 0
     = (Ok (relay_stream\<lparr>bh_stream_buffer := SbSeekable \<lparr>rd_data = [], rd_pos = 0\<rparr>\<rparr>), 0)"
  by (simp add: start_streaming_and_buffer_def bindM_def relay_start retM_def)

lemma relay_round:
  "delta_round relay url f c t =
     (let t' = (if c \<or> f < t then t else f)
      in (\<not> c \<and> f < t, c \<or> f < t, t', fst (http_get relay url t'), t'))"
  by (simp add: delta_round_def relay_get) (simp add: relay_def Let_def)

lemma relay_delta:
  assumes "t' = (if c \<or> f < t then t else f)" "t' + bh_keyframe_interval s \<le> 2 ^ 62"
  shows "delta_url s \<noteq> str_lit ''tv/10/delta'' \<or> 14000 \<le> t' \<Longrightarrow> deltaframes_loop relay n f c (t, s)
      = (Ok (map of_nat (delta_url s)), (t', s\<lparr>bh_stream_fragment := bh_stream_fragment s + 1,
          bh_stream_state := SsDeltaframes 0 (t' + bh_keyframe_interval s) (c \<or> f < t)\<rparr>))"
    and "delta_url s = str_lit ''tv/10/delta'' \<Longrightarrow> t' < 14000 \<Longrightarrow> n < MAX_DELTAFRAME_RETRIES \<Longrightarrow>
      deltaframes_loop relay n f c (t, s) = deltaframes_loop relay (n + 1) (t' + bh_keyframe_interval s) False
        (t', s\<lparr>bh_stream_state := SsDeltaframes (n + 1) (t' + bh_keyframe_interval s) False\<rparr>)"
proof -
  have round: "delta_round relay (delta_url s) f c t
      = (\<not> c \<and> f < t, c \<or> f < t, t', fst (http_get relay (delta_url s) t'), t')"
    using assms(1) by (simp add: relay_round Let_def)
  have max: "wo_max_instant relay = 2 ^ 62" by (simp add: relay_def)
  show "deltaframes_loop relay n f c (t, s)
      = (Ok (map of_nat (delta_url s)), (t', s\<lparr>bh_stream_fragment := bh_stream_fragment s + 1,
          bh_stream_state := SsDeltaframes 0 (t' + bh_keyframe_interval s) (c \<or> f < t)\<rparr>))"
    if "delta_url s \<noteq> str_lit ''tv/10/delta'' \<or> 14000 \<le> t'"
    using that assms(2) by (subst deltaframes_round [OF round refl]) (auto simp: relay_get instant_add_def max)
  show "deltaframes_loop relay n f c (t, s) = deltaframes_loop relay (n + 1) (t' + bh_keyframe_interval s) False
        (t', s\<lparr>bh_stream_state := SsDeltaframes (n + 1) (t' + bh_keyframe_interval s) False\<rparr>)"
    if "delta_url s = str_lit ''tv/10/delta''" "t' < 14000" "n < MAX_DELTAFRAME_RETRIES"
    using that assms(2) by (subst deltaframes_round [OF round refl]) (auto simp: relay_get instant_add_def max)
qed

abbreviation relay_urls :: "rstr list" where
  "relay_urls \<equiv> map str_lit [''tv/0/start'', ''tv/9/full'', ''tv/9/delta'', ''tv/10/delta'']"

lemma relay_display: "display_i32 0 = str_lit ''0''" "display_i32 9 = str_lit ''9''" "display_i32 10 = str_lit ''10''"
  by (simp_all add: display_i32_def digits.simps str_lit_def)

lemma relay_now: "wo_now relay t = (t, t)" by (simp add: relay_def)

lemma relay_deltas:
  "bh_base_url s = str_lit ''tv'' \<Longrightarrow> bh_keyframe_interval s = 3000 \<Longrightarrow> bh_stream_fragment s = 9 \<Longrightarrow>
     deltaframes_loop relay 0 0 True (0, s)
       = (Ok (map of_nat (str_lit ''tv/9/delta'')), (0, s\<lparr>bh_stream_fragment := 10, bh_stream_state := SsDeltaframes 0 3000 True\<rparr>))"
  "bh_base_url s = str_lit ''tv'' \<Longrightarrow> bh_keyframe_interval s = 3000 \<Longrightarrow> bh_stream_fragment s = 10 \<Longrightarrow>
     deltaframes_loop relay 0 3000 True (0, s)
       = (Ok (map of_nat (str_lit ''tv/10/delta'')), (15000, s\<lparr>bh_stream_fragment := 11, bh_stream_state := SsDeltaframes 0 18000 False\<rparr>))"
proof -
  assume s: "bh_base_url s = str_lit ''tv''" "bh_keyframe_interval s = 3000" "bh_stream_fragment s = 9"
  then have "delta_url s = str_lit ''tv/9/delta''" by (simp add: delta_url_def relay_display) (simp add: str_lit_def)
  then show "deltaframes_loop relay 0 0 True (0, s)
       = (Ok (map of_nat (str_lit ''tv/9/delta'')), (0, s\<lparr>bh_stream_fragment := 10, bh_stream_state := SsDeltaframes 0 3000 True\<rparr>))"
    using s by (subst relay_delta(1) [OF refl]) (simp_all add: str_lit_def)
next
  assume s: "bh_base_url s = str_lit ''tv''" "bh_keyframe_interval s = 3000" "bh_stream_fragment s = 10"
  then have u: "delta_url (s\<lparr>bh_stream_state := st\<rparr>) = str_lit ''tv/10/delta''" "delta_url s = str_lit ''tv/10/delta''" for st
    by (simp_all add: delta_url_def relay_display) (simp_all add: str_lit_def)
  show "deltaframes_loop relay 0 3000 True (0, s)
       = (Ok (map of_nat (str_lit ''tv/10/delta'')), (15000, s\<lparr>bh_stream_fragment := 11, bh_stream_state := SsDeltaframes 0 18000 False\<rparr>))"
    by (simp add: relay_delta(2) [OF refl] s u MAX_DELTAFRAME_RETRIES_def)
      (subst relay_delta(1) [OF refl], simp_all add: s u)
qed

text \<open>The packets of this relay; the last of them after five answers that there is none.\<close>

lemma relay_next_packets:
  assumes "bh_base_url s = str_lit ''tv''" "bh_keyframe_interval s = 3000" "bh_stream_fragment s = 9"
    "bh_signup_fragment s = 0" "bh_stream_state s = SsStart"
  shows "fst (next_packets relay 4 (0, s)) = map (Some \<circ> Ok) (map (map of_nat) relay_urls)"
proof -
  define s1 where "s1 = buffer_packet (map of_nat (str_lit ''tv/0/start'')) (s\<lparr>bh_stream_state := SsFullframe\<rparr>)"
  define s2 where "s2 = buffer_packet (map of_nat (str_lit ''tv/9/full'')) (s1\<lparr>bh_stream_state := SsDeltaframes 0 0 True\<rparr>)"
  define s3 where "s3 = buffer_packet (map of_nat (str_lit ''tv/9/delta''))
    (s2\<lparr>bh_stream_fragment := 10, bh_stream_state := SsDeltaframes 0 3000 True\<rparr>)"
  define s4 where "s4 = buffer_packet (map of_nat (str_lit ''tv/10/delta''))
    (s3\<lparr>bh_stream_fragment := 11, bh_stream_state := SsDeltaframes 0 18000 False\<rparr>)"
  note defs = s1_def s2_def s3_def s4_def
  have urls: "start_url s = str_lit ''tv/0/start''" "full_url s1 = str_lit ''tv/9/full''"
    using assms by (simp_all add: start_url_def full_url_def defs buffer_packet_simps relay_display) (simp_all add: str_lit_def)
  have other: "str_lit ''tv/0/start'' \<noteq> str_lit ''tv/10/delta''" "str_lit ''tv/9/full'' \<noteq> str_lit ''tv/10/delta''"
    by (simp_all add: str_lit_def)
  have st: "bh_stream_state s1 = SsFullframe" by (simp add: s1_def buffer_packet_simps)
  have "next_packet relay (0, s) = (Some (Ok (map of_nat (str_lit ''tv/0/start''))), (0, s1))"
    using assms urls other by (simp add: next_packet_def handle_start_run relay_get s1_def)
  moreover have "next_packet relay (0, s1) = (Some (Ok (map of_nat (str_lit ''tv/9/full''))), (0, s2))"
    using urls other st by (simp add: next_packet_def handle_fullframe_run relay_get relay_now s2_def)
  moreover have "next_packet relay (0, s2) = (Some (Ok (map of_nat (str_lit ''tv/9/delta''))), (0, s3))"
    using assms by (simp add: next_packet_def handle_deltaframes_def s3_def relay_deltas(1) defs buffer_packet_simps)
  moreover have "next_packet relay (0, s3) = (Some (Ok (map of_nat (str_lit ''tv/10/delta''))), (15000, s4))"
    using assms by (simp add: next_packet_def handle_deltaframes_def s4_def relay_deltas(2) defs buffer_packet_simps)
  ultimately show ?thesis by (simp add: eval_nat_numeral(2,3))
qed


theorem http_get_retries_witness:
  "(\<exists>k \<le> MAX_TRANSIENT_RETRIES.
      http_get mock_client (str_lit ''http://relay/1/delta'') [Some 502, None, Some 200]
        = get_once mock_client (str_lit ''http://relay/1/delta'')
            (after_failures mock_client (str_lit ''http://relay/1/delta'') k [Some 502, None, Some 200]))
   \<and> http_get mock_client (str_lit ''http://relay/1/delta'') [Some 502, None, Some 200] = (Ok [111, 107], [])"
  using http_get_retries [of mock_client "str_lit ''http://relay/1/delta''" "[Some 502, None, Some 200]"] mock_answer by blast

theorem packets_in_order_witness:
  "\<exists>v. fst (http_get relay (str_lit ''tv/10/delta'') v) = Ok (map of_nat (str_lit ''tv/10/delta''))"
proof -
  let ?s2 = "snd (next_packets relay 4 (0, relay_stream))"
  have run: "next_packets relay 4 (0, relay_stream) = (map (Some \<circ> Ok) (map (map of_nat) relay_urls), (fst ?s2, snd ?s2))"
    using relay_next_packets [of relay_stream] by (metis prod.collapse relay_stream_fields)
  note urls = packets_in_order [OF disjI1 [OF relay_start] run, unfolded relay_stream_fields]
  from urls [rule_format, of 3] show ?thesis
    by (simp add: relay_sync_def relay_display) (simp add: str_lit_def eval_nat_numeral)
qed

theorem buffered_packets_witness:
  "\<exists>s2. bh_stream_buffer s2 = SbSeekable
      \<lparr>rd_data = concat (map (map of_nat) relay_urls), rd_pos = length (concat (map (map of_nat) relay_urls))\<rparr>
    \<and> http_is_at_eof s2 = (Ok True, s2)"
proof -
  let ?s = "relay_stream\<lparr>bh_stream_buffer := SbSeekable \<lparr>rd_data = [], rd_pos = 0\<rparr>\<rparr>"
  let ?s2 = "snd (next_packets relay 4 (0, ?s))"
  have run: "next_packets relay 4 (0, ?s) = (map (Some \<circ> Ok) (map (map of_nat) relay_urls), (fst ?s2, snd ?s2))"
    using relay_next_packets [of ?s] by (simp add: relay_stream_fields prod_eq_iff)
  show ?thesis
    using buffered_packets [OF disjI2 [OF relay_start_and_buffer] run] by auto
qed

theorem packet_overwrites_buffer_witness:
  "\<exists>s2 :: broadcast_http. bh_stream_buffer s2 = SbSeekable \<lparr>rd_data = map of_nat (str_lit ''tv/9/full'') @ [7, 7], rd_pos = 9\<rparr>"
proof -
  let ?s = "relay_stream\<lparr>bh_stream_state := SsFullframe,
    bh_stream_buffer := SbSeekable \<lparr>rd_data = replicate 11 7, rd_pos = 11\<rparr>\<rparr>"
  let ?s1 = "?s\<lparr>bh_stream_buffer := SbSeekable \<lparr>rd_data = replicate 11 7, rd_pos = 0\<rparr>\<rparr>"
  have seek: "http_seek (SeekStart 0) ?s = (Ok 0, ?s1)" by (simp add: http_seek_def seekable_def rdr_seek_def)
  have url: "full_url ?s1 = str_lit ''tv/9/full''"
    by (simp add: full_url_def relay_stream_fields relay_display) (simp add: str_lit_def)
  have "\<exists>w' s2. next_packet relay (0, s) = (Some (Ok (map of_nat (str_lit ''tv/9/full''))), (w', s2))"
    if "bh_stream_state s = SsFullframe" "full_url s = str_lit ''tv/9/full''" for s
  proof -
    have "str_lit ''tv/9/full'' \<noteq> str_lit ''tv/10/delta''" by (simp add: str_lit_def)
    with that show ?thesis by (simp add: next_packet_def handle_fullframe_run relay_get relay_now)
  qed
  from this [of ?s1] obtain w' s2 where packet:
    "next_packet relay (0, ?s1) = (Some (Ok (map of_nat (str_lit ''tv/9/full''))), (w', s2))" using url by auto
  have "bh_stream_buffer ?s = SbSeekable \<lparr>rd_data = replicate 11 7, rd_pos = 11\<rparr>" by simp
  from packet_overwrites_buffer [OF this _ seek packet] show ?thesis by (auto simp: str_lit_def eval_nat_numeral)
qed

theorem ended_for_good_witness:
  "next_packets mock_client 3 ([Some 200], relay_stream\<lparr>bh_stream_state := SsStop\<rparr>)
     = ([None, None, None], ([Some 200], relay_stream\<lparr>bh_stream_state := SsStop\<rparr>))"
proof -
  have "next_packet mock_client ([Some 404, Some 200], relay_stream) = (None, ([Some 200], relay_stream\<lparr>bh_stream_state := SsStop\<rparr>))"
    by (simp add: next_packet_def handle_start_run relay_stream_fields http_get_def get_loop_step get_once_def mock_client_def
        failed_transiently_def is_transient_def is_client_error_def is_server_error_def NOT_FOUND_def)
  from ended_for_good [OF this, of _ 3] show ?thesis by (simp add: eval_nat_numeral)
qed

theorem late_fragment_delivered_witness:
  "\<exists>w' s'. next_packet relay (0, relay_stream\<lparr>bh_stream_fragment := 10, bh_stream_state := SsDeltaframes 0 0 True\<rparr>)
      = (Some (Ok (map of_nat (str_lit ''tv/10/delta''))), (w', s')) \<and> bh_stream_fragment s' = 11"
proof -
  let ?s = "relay_stream\<lparr>bh_stream_fragment := 10, bh_stream_state := SsDeltaframes 0 0 True\<rparr>"
  have url: "delta_url ?s = str_lit ''tv/10/delta''"
    by (simp add: delta_url_def relay_stream_fields relay_display) (simp add: str_lit_def)
  have "keeps_time relay (\<lambda>t. t) 0" by (simp add: keeps_time_def relay_def)
  moreover have "published relay (\<lambda>t. t) (delta_url ?s) 14000 (map of_nat (str_lit ''tv/10/delta''))"
    unfolding url by (simp add: published_def relay_def NOT_FOUND_def)
  ultimately show ?thesis
    using late_fragment_delivered [of relay "\<lambda>t. t" 0 ?s 14000 _ 0 True 0] by (simp add: relay_stream_fields) (simp add: relay_def)
qed

end
