(* ===== verification/ParserEnds.thy ===== *)
theory ParserEnds
  imports ParserRuns FieldDecoderLaws FieldOpTreeLaws
begin

text \<open>
  Runs of the parser end.  No handler runs out of the fuel that it passes to its own loops, and a run takes no more
  rounds than the stream has bytes.
\<close>

subsection \<open>Operations without loops\<close>

lemma outcome_no_fuel [simp]:
  "slice_to xs n \<noteq> OutOfFuel" "slice_range xs i j \<noteq> OutOfFuel" "ok_or e x \<noteq> OutOfFuel"
  by (simp_all add: slice_to_def slice_range_def ok_or_def split: option.split)

lemma no_fuel_prod [fuel_intros]: "(\<And>a b. no_fuel (f a b)) \<Longrightarrow> no_fuel (case x of (a, b) \<Rightarrow> f a b)"
  by (cases x) simp

lemma no_fuel_option [fuel_intros]:
  "no_fuel m \<Longrightarrow> (\<And>x. no_fuel (f x)) \<Longrightarrow> no_fuel (case opt of None \<Rightarrow> m | Some x \<Rightarrow> f x)"
  by (cases opt) simp_all

lemma no_fuel_ignoreM [fuel_intros]: "no_fuel m \<Longrightarrow> no_fuel (ignoreM m)"
  by (auto simp: no_fuel_def ignoreM_def split: prod.split outcome.split) (metis fst_conv)

lemma no_fuel_pointwise: "(\<And>s. \<exists>m. no_fuel m \<and> f s = m s) \<Longrightarrow> no_fuel f"
  unfolding no_fuel_def by metis

subsection \<open>String tables\<close>

lemma table_no_fuel [fuel_intros]:
  "no_fuel m \<Longrightarrow> no_fuel (table_bits m)" "no_fuel (get_table_part f)" "no_fuel (change_table g)"
  unfolding table_bits_def by (intro fuel_intros, assumption)
    (simp_all add: no_fuel_def get_table_part_def change_table_def split: prod.split)

lemma read_string_at_no_fuel [fuel_intros]:
  assumes "cursor_laws B"
  shows "no_fuel (read_string_at B off)"
proof -
  have at: "no_fuel (\<lambda>((t, h), br). case read_string B False (tail, br) of (r, (tail, br)) \<Rightarrow>
      (map_err StBitReader r, ((t\<lparr>st_string_buf := take off buf @ tail\<rparr>, h), br)))" for buf tail
  proof (rule no_fuelI)
    fix s s'
    show "(\<lambda>((t, h), br). case read_string B False (tail, br) of (r, (tail, br)) \<Rightarrow>
        (map_err StBitReader r, ((t\<lparr>st_string_buf := take off buf @ tail\<rparr>, h), br))) s \<noteq> (OutOfFuel, s')"
      using no_fuelD [OF read_string_no_fuel [OF assms]] by (cases s) (auto split: prod.splits)
  qed
  show ?thesis unfolding read_string_at_def by (intro fuel_intros at; simp add: slice_range_def)
qed

lemma entry_no_fuel [fuel_intros]:
  assumes "cursor_laws B"
  shows "no_fuel (read_entry_index B i)" "no_fuel (copy_from_history k n)"
    "no_fuel (push_history h)" "no_fuel (read_fixed_user_data B)" "no_fuel (decompress_user_data Z len)"
  unfolding read_entry_index_def copy_from_history_def push_history_def read_fixed_user_data_def
    decompress_user_data_def
  by (intro fuel_intros assms; simp)+

lemma read_sized_no_fuel [fuel_intros]: "cursor_laws B \<Longrightarrow> no_fuel (read_sized_user_data B Z)"
  unfolding read_sized_user_data_def by (intro fuel_intros; simp)

lemma read_entry_no_fuel [fuel_intros]:
  "cursor_laws B \<Longrightarrow> no_fuel (read_user_data B Z)" "cursor_laws B \<Longrightarrow> no_fuel (read_entry_string B h)"
  unfolding read_entry_string_def read_user_data_def by (intro fuel_intros; simp)+

lemma parse_entries_no_fuel: "cursor_laws B \<Longrightarrow> no_fuel (parse_entries B Z n i h)"
proof (induction n arbitrary: i h)
  case (Suc n)
  show ?case unfolding parse_entries.simps
    by (intro fuel_intros Suc.IH Suc.prems) (simp add: no_fuel_def)
qed (simp add: fuel_intros)

lemma parse_update_no_fuel [fuel_intros]: "cursor_laws B \<Longrightarrow> no_fuel (parse_update B Z n)"
  unfolding parse_update_def by (rule parse_entries_no_fuel)


subsection \<open>Entities\<close>

lemma walk_no_fuel [simp]: "walk_path data is fk \<noteq> OutOfFuel" "skip_walk data is f \<noteq> OutOfFuel"
proof -
  have step: "walk_step data i fk \<noteq> OutOfFuel" for i fk
    by (simp add: walk_step_def bindO_OutOfFuel_iff split: prod.split)
  show "walk_path data is fk \<noteq> OutOfFuel"
    by (induction "is" arbitrary: fk) (simp_all add: bindO_OutOfFuel_iff step)
  show "skip_walk data is f \<noteq> OutOfFuel"
    by (induction "is" arbitrary: f) (simp_all add: bindO_OutOfFuel_iff)
qed

lemma decode_fields_no_fuel [fuel_intros]:
  assumes "cursor_laws B" shows "no_fuel (decode_fields B fps)"
proof (induction fps)
  case (Cons fp fps)
  have "no_fuel (decode_field B fp)"
  proof (rule no_fuel_pointwise, clarsimp)
    show "\<exists>m. no_fuel m \<and> decode_field B fp ((entity, fs), (ctx, br)) = m ((entity, fs), (ctx, br))" for entity fs ctx br
      unfolding decode_field_def case_prod_conv
      by (rule exI, rule conjI [rotated], rule refl)
        (intro fuel_intros field_decode_no_fuel assms, simp_all add: find_field_def bindO_OutOfFuel_iff no_fuel_def split_beta)
  qed
  then show ?case by (simp add: Cons.IH fuel_intros)
qed (simp add: fuel_intros)

lemma entity_parse_no_fuel [fuel_intros]:
  assumes "cursor_laws B" shows "no_fuel (entity_parse B)"
  unfolding entity_parse_def
proof (intro fuel_intros assms)
  show "no_fuel (\<lambda>((entity, fps), cb). bindM (liftO (slice_to fps n)) (decode_fields B) ((entity, fps), cb))" for n
  proof (rule no_fuel_pointwise, clarsimp)
    show "\<exists>m. no_fuel m \<and> bindM (liftO (slice_to fps n)) (decode_fields B) ((entity, fps), (ctx, br)) = m ((entity, fps), (ctx, br))"
      for entity fps ctx br
      by (intro exI conjI [rotated], rule refl, intro fuel_intros assms) simp
  qed
qed

lemma skip_fields_no_fuel [fuel_intros]:
  assumes "cursor_laws B" shows "no_fuel (skip_fields B sz fps)"
  by (induction fps) (auto simp: skip_field_def bindO_OutOfFuel_iff intro!: fuel_intros field_skip_bits_no_fuel assms)

lemma skip_entity_fields_no_fuel [fuel_intros]:
  assumes "cursor_laws B" shows "no_fuel (skip_entity_fields B sz)"
  unfolding skip_entity_fields_def
proof (intro fuel_intros assms)
  show "no_fuel (\<lambda>(fps, br). bindM (liftO (slice_to fps n)) (skip_fields B sz) (fps, br))" for n
  proof (rule no_fuel_pointwise, clarsimp)
    show "\<exists>m. no_fuel m \<and> bindM (liftO (slice_to fps n)) (skip_fields B sz) (fps, br) = m (fps, br)" for fps br
      by (intro exI conjI [rotated], rule refl, intro fuel_intros assms) simp
  qed
qed


lemma no_fuelD_fst: "no_fuel m \<Longrightarrow> fst (m s) \<noteq> OutOfFuel"
  by (simp add: no_fuel_def)

lemma parse_with_no_fuel:
  assumes "cursor_laws B" shows "fst (parse_with B entity s) \<noteq> OutOfFuel"
  using entity_parse_no_fuel [OF assms, THEN no_fuelD_fst] by (simp add: parse_with_def split_beta)

lemma on_br_no_fuel [fuel_intros]: "no_fuel m \<Longrightarrow> no_fuel (on_br m)" "cursor_laws B \<Longrightarrow> no_fuel (skip_with B sz)"
  unfolding on_br_def skip_with_def by (intro fuel_intros; assumption)+

lemma overflowed_no_fuel [fuel_intros]: "cursor_laws B \<Longrightarrow> no_fuel (is_overflowed B)"
  using bb_no_fuel(6) [of B, THEN no_fuel_on_inner] unfolding no_fuel_def is_overflowed_def by blast

lemma entity_from_baseline_no_fuel [fuel_intros]:
  assumes "cursor_laws B" shows "no_fuel (entity_from_baseline B h ib i c sz)"
  using parse_with_no_fuel [OF assms] overflowed_no_fuel [OF assms, THEN no_fuelD_fst]
  by (simp add: no_fuel_def entity_from_baseline_def split_beta bindO_OutOfFuel_iff split: option.split outcome.split)

lemma create_no_fuel [fuel_intros]:
  assumes "cursor_laws B"
  shows "no_fuel (create_entity B h ib i c sz)" "no_fuel (read_create_header B ec)" "no_fuel (handle_update B i)"
proof -
  show "no_fuel (create_entity B h ib i c sz)" unfolding create_entity_def
  proof (intro fuel_intros assms)
    show "no_fuel (\<lambda>s. case parse_with B entity s of (r, entity, s) \<Rightarrow>
       bindM (liftO r) (\<lambda>_ (ec, cb). (Ok i, (ec\<lparr>ec_entities := (ec_entities ec)(i \<mapsto> entity)\<rparr>, cb))) s)" for entity
    proof (rule no_fuel_pointwise, goal_cases)
      case (1 s)
      obtain r e s' where r: "parse_with B entity s = (r, e, s')" by (metis prod.exhaust)
      then have "r \<noteq> OutOfFuel" using parse_with_no_fuel [OF assms, of entity s] by simp
      then show ?case by (intro exI [of _ "\<lambda>_. bindM (liftO r) (\<lambda>_ (ec, cb). (Ok i, (ec\<lparr>ec_entities := (ec_entities ec)(i \<mapsto> e)\<rparr>, cb))) s'"])
        (simp add: r no_fuel_def bindM_def liftO_def split_beta split: outcome.split)
    qed
  qed
  show "no_fuel (read_create_header B ec)" unfolding read_create_header_def
    by (intro fuel_intros assms) (simp add: try_into_i32_def)
  show "no_fuel (handle_update B i)"
    using on_br_no_fuel(2) [OF assms, THEN no_fuelD_fst] parse_with_no_fuel [OF assms]
    by (simp add: no_fuel_def handle_update_def bindM_def retM_def split_beta split: option.split outcome.split)
qed

lemma create_with_filter_no_fuel [fuel_intros]:
  assumes "cursor_laws B" shows "no_fuel (handle_create_with_filter B i ec h ib sers track)"
  unfolding handle_create_with_filter_def
  by (intro fuel_intros assms) (simp_all add: class_serializer_def bindO_OutOfFuel_iff no_fuel_def split_beta)


subsection \<open>Handlers\<close>

text \<open>What is assumed of the external parts: the cursor keeps its laws and the visitor returns.\<close>

definition visitor_returns :: "('v, 'e) visitor \<Rightarrow> bool" where
  "visitor_returns V \<longleftrightarrow> (\<forall>ctx h e. no_fuel (vi_on_entity V ctx h e)) \<and> (\<forall>ctx h b. no_fuel (vi_on_cmd V ctx h b))
     \<and> (\<forall>ctx c b. no_fuel (vi_on_packet V ctx c b)) \<and> (\<forall>ctx. no_fuel (vi_on_tick_end V ctx))"

lemma visit_no_fuel: "(\<And>ctx. no_fuel (m ctx)) \<Longrightarrow> no_fuel (visit m)"
  by (simp add: no_fuel_def visit_def map_errM_def zoomM_def split_beta map_err_OutOfFuel_iff)

lemma visits_no_fuel [fuel_intros]:
  assumes "visitor_returns V"
  shows "no_fuel (visit (\<lambda>ctx. vi_on_cmd V ctx h b))" "no_fuel (visit (\<lambda>ctx. vi_on_packet V ctx c b))"
    "no_fuel (visit (vi_on_tick_end V))" "no_fuel (visit_entity V dh e)"
  unfolding visit_entity_def on_parser_def
  by (intro fuel_intros visit_no_fuel; use assms in \<open>simp add: visitor_returns_def\<close>)+

lemma parser_no_fuel [fuel_intros]:
  "no_fuel (get_ctx f)" "no_fuel (change_ctx g)" "no_fuel (set_tick t)"
  "no_fuel m \<Longrightarrow> no_fuel (on_stream k m)" "no_fuel n \<Longrightarrow> no_fuel (on_parser n)" "no_fuel b \<Longrightarrow> no_fuel (on_packet_bits b)"
  "no_fuel q \<Longrightarrow> no_fuel (on_entities q)"
  unfolding on_stream_def on_parser_def on_packet_bits_def on_entities_def set_tick_def
  by (simp_all add: no_fuel_def get_ctx_def change_ctx_def map_errM_def on_reader_def zoomM_def split_beta map_err_OutOfFuel_iff)

lemma baseline_items_no_fuel: "fst (baseline_items u items data) \<noteq> OutOfFuel"
  by (induction u items data rule: baseline_items.induct) (simp_all split: option.split)

lemma update_baseline_no_fuel [fuel_intros]: "no_fuel (update_baseline E t c)" "no_fuel (table_changed E i)"
proof -
  show ub: "no_fuel (update_baseline E t c)" for t c
    unfolding update_baseline_def by (intro fuel_intros) (simp add: no_fuel_def instance_baseline_update_def baseline_items_no_fuel)
  show "no_fuel (table_changed E i)" unfolding table_changed_def by (intro fuel_intros ub)
qed

lemma string_table_handlers_no_fuel [fuel_intros]:
  assumes "cursor_laws (e_bits E)"
  shows "no_fuel (handle_svc_create_string_table E m1)" "no_fuel (handle_svc_update_string_table E m2)"
    "no_fuel (handle_cmd_string_tables E ts)"
proof -
  have ut: "no_fuel (update_table E i d n)" for i d n
    using parse_update_no_fuel [OF assms, THEN no_fuelD_fst] overflowed_no_fuel [OF assms, THEN no_fuelD_fst]
    by (simp add: no_fuel_def update_table_def Let_def split_beta bindO_OutOfFuel_iff map_err_OutOfFuel_iff)
  have sd: "no_fuel (created_string_data E m)" for m
    by (simp add: no_fuel_def created_string_data_def split: option.split)
  show "no_fuel (handle_svc_create_string_table E m1)" "no_fuel (handle_svc_update_string_table E m2)"
    "no_fuel (handle_cmd_string_tables E ts)"
    unfolding handle_svc_create_string_table_def handle_svc_update_string_table_def handle_cmd_string_tables_def Let_def
    by (intro fuel_intros ut sd)+
qed

lemma packet_entity_no_fuel [fuel_intros]:
  assumes "cursor_laws (e_bits E)" "visitor_returns V"
  shows "no_fuel (packet_entity E V classes sers i dh)"
proof -
  have "no_fuel (\<lambda>(p, br). on_entities (handle_create_with_filter (e_bits E) i classes
        (cx_cells (ps_ctx p)) (cx_instance_baseline (ps_ctx p)) sers (vi_should_track_entity V (ps_visitor p))) (p, br))"
  proof (rule no_fuel_pointwise, clarsimp)
    show "\<exists>m. no_fuel m \<and> on_entities (handle_create_with_filter (e_bits E) i classes
        (cx_cells (ps_ctx p)) (cx_instance_baseline (ps_ctx p)) sers (vi_should_track_entity V (ps_visitor p))) (p, br) = m (p, br)"
      for p br by (intro exI conjI [rotated], rule refl, intro fuel_intros assms)
  qed
  then show ?thesis unfolding packet_entity_def
    by (intro fuel_intros assms; simp add: no_fuel_def handle_delete_def handle_leave_def split_beta)
qed

lemma no_fuel_local_br: "no_fuel m \<Longrightarrow> no_fuel (\<lambda>p. case m (p, b p) of (r, (p, br)) \<Rightarrow> (r, p))"
  by (simp add: no_fuel_def split_beta)

lemma packet_entities_no_fuel [fuel_intros]:
  assumes "cursor_laws (e_bits E)" "visitor_returns V"
  shows "no_fuel (handle_svc_packet_entities E V msg)"
proof -
  have dh: "no_fuel (delta_header_from_bit_reader (e_bits E))"
    unfolding delta_header_from_bit_reader_def by (intro fuel_intros assms) simp
  have loop: "no_fuel (packet_entities_loop E V classes sers n i)" for classes sers n i
    by (induction n arbitrary: i) (auto simp: Let_def intro!: fuel_intros dh assms)
show ?thesis unfolding handle_svc_packet_entities_def
    by (intro fuel_intros no_fuel_local_br loop assms)
qed


lemma message_no_fuel [fuel_intros]:
  "no_fuel (handle_svc_server_info t)" "(\<And>x. no_fuel (f x)) \<Longrightarrow> no_fuel (decode_msg f m)"
  unfolding decode_msg_def
  by (simp add: handle_svc_server_info_def no_fuel_def Let_def retM_def split: option.split) (intro fuel_intros)

lemma packet_message_no_fuel [fuel_intros]:
  fixes V :: "('v, 'e) visitor"
  assumes "cursor_laws (e_bits E)" "visitor_returns V"
  shows "no_fuel (packet_message E V c b :: ('d, 'v, 'e, unit) parser_rm)"
proof (rule no_fuel_pointwise)
  fix p :: "('d, 'v) parser"
  let ?m = "if c = e_svc_create_string_table E then
       decode_msg (handle_svc_create_string_table E) (e_decode_create_string_table E b)
     else if c = e_svc_update_string_table E then
       decode_msg (handle_svc_update_string_table E) (e_decode_update_string_table E b)
     else if c = e_svc_packet_entities E \<and> \<not> ps_skip_entity_packets p then
       decode_msg (handle_svc_packet_entities E V) (e_decode_packet_entities E b)
     else if c = e_svc_server_info E then
       decode_msg handle_svc_server_info (e_decode_server_info E b)
     else retM ()"
  have "no_fuel ?m" by (intro fuel_intros assms)
  moreover have "packet_message E V c b p = ?m p" by (simp add: packet_message_def retM_def)
  ultimately show "\<exists>m. no_fuel m \<and> packet_message E V c b p = m p" by blast
qed

text \<open>The loop over the messages of a packet reads at least one byte a round.\<close>

lemma on_packet_bits_Ok:
  "on_packet_bits m (p, br) = (Ok x, (p', br')) \<Longrightarrow> p' = p \<and> m br = (Ok x, br')"
  by (auto simp: on_packet_bits_def on_reader_def map_errM_def zoomM_def map_err_Ok_iff split: prod.splits)

lemma on_parser_Ok: "on_parser m (p, br) = (Ok x, (p', br')) \<Longrightarrow> br' = br"
  by (auto simp: on_parser_def zoomM_def split: prod.splits)

lemma read_message_no_fuel [fuel_intros]:
  assumes "cursor_laws B"
  shows "no_fuel (read_message B n)"
proof (rule no_fuel_pointwise, clarsimp)
  show "\<exists>m. no_fuel m \<and> read_message B n (p, br) = m (p, br)" for p br
    unfolding read_message_def case_prod_conv
    by (rule exI, rule conjI [rotated], rule refl) (intro fuel_intros assms, simp_all add: no_fuel_def split_beta)
qed

lemma read_message_left:
  assumes "cursor_laws B" "read_message B n (p, br) = (Ok x, (p', br'))"
  shows "num_bits_left B br' \<le> num_bits_left B br"
proof -
  from assms(2) obtain buf y where "read_bytes B buf br = (Ok y, br')"
    by (auto simp: read_message_def liftO_def elim!: bindM_OkE dest!: on_packet_bits_Ok)
  with read_moves(5) [OF assms(1)] obtain k where "adv B k br br'" by (blast elim: movesE)
  from adv_left [OF assms(1) this] show ?thesis by simp
qed

lemma packet_loop_fuel:
  fixes E :: "('s, 'c) env" and V :: "('v, 'e) visitor" and p :: "('d, 'v) parser"
  assumes E: "cursor_laws (e_bits E)" "visitor_returns V"
  shows "num_bits_left (e_bits E) br < fuel \<Longrightarrow>
    (packet_loop E V fuel :: ('s, 'd, 'v, 'e, unit) packet_rm) (p, br) \<noteq> (OutOfFuel, pb)"
proof (induction fuel arbitrary: p br)
  case (Suc fuel)
  let ?B = "e_bits E"
  let ?read = "on_packet_bits (read_ubitvar ?B) :: ('s, 'd, 'v, 'e, _) packet_rm"
    and ?size = "on_packet_bits (read_uvarint32 ?B) :: ('s, 'd, 'v, 'e, _) packet_rm"
    and ?message = "\<lambda>n. read_message ?B n :: ('s, 'd, 'v, 'e, _) packet_rm"
    and ?visit = "\<lambda>c b. on_parser (visit (\<lambda>ctx. vi_on_packet V ctx c b)) :: ('s, 'd, 'v, 'e, unit) packet_rm"
    and ?handle = "\<lambda>c b. on_parser (packet_message E V c b) :: ('s, 'd, 'v, 'e, unit) packet_rm"
  have steps: "no_fuel ?read" "no_fuel ?size" "no_fuel (?message n)" "no_fuel (?visit c b)" "no_fuel (?handle c b)" for n c b
    by (intro fuel_intros E)+
  show ?case
  proof
    assume "(packet_loop E V (Suc fuel) :: ('s, 'd, 'v, 'e, unit) packet_rm) (p, br) = (OutOfFuel, pb)"
    then have "bindM ?read (\<lambda>c. bindM ?size (\<lambda>n. bindM (?message (unat n)) (\<lambda>b.
        seqM (?visit c b) (seqM (?handle c b) (packet_loop E V fuel))))) (p, br) = (OutOfFuel, pb)"
      by (simp split: if_splits)
    then obtain c s1 n s2 b s3 s4 s5 where s: "?read (p, br) = (Ok c, s1)" "?size s1 = (Ok n, s2)"
      "?message (unat n) s2 = (Ok b, s3)" "?visit c b s3 = (Ok (), s4)" "?handle c b s4 = (Ok (), s5)"
      "(packet_loop E V fuel :: ('s, 'd, 'v, 'e, unit) packet_rm) s5 = (OutOfFuel, pb)"
      by (elim bindM_OutOfFuelE) (auto simp: steps [THEN no_fuelD])
    obtain p1 br1 p2 br2 p3 br3 p4 br4 p5 br5 where
      "s1 = (p1, br1)" "s2 = (p2, br2)" "s3 = (p3, br3)" "s4 = (p4, br4)" "s5 = (p5, br5)" by (metis prod.exhaust)
    with s have 1: "?read (p, br) = (Ok c, (p1, br1))"
      and 2: "?size (p1, br1) = (Ok n, (p2, br2))" and 3: "?message (unat n) (p2, br2) = (Ok b, (p3, br3))"
      and 4: "?visit c b (p3, br3) = (Ok (), (p4, br4))" "?handle c b (p4, br4) = (Ok (), (p5, br5))"
      and loop: "(packet_loop E V fuel :: ('s, 'd, 'v, 'e, unit) packet_rm) (p5, br5) = (OutOfFuel, pb)" by simp_all
    obtain k where "adv ?B k br br1"
      using read_ubitvar_moves [OF E(1)] on_packet_bits_Ok [OF 1] by (blast elim: movesE)
    moreover obtain l where "l > 0" "adv ?B l br1 br2"
      using read_moves(6) [OF E(1)] on_packet_bits_Ok [OF 2] by (blast elim: moves_onE)
    ultimately have "num_bits_left ?B br2 < num_bits_left ?B br" using adv_left [OF E(1)] by fastforce
    with read_message_left [OF E(1) 3] 4 [THEN on_parser_Ok] Suc.prems have "num_bits_left ?B br5 < fuel" by simp
    from Suc.IH [OF this] loop show False by blast
  qed
qed (simp add: liftO_def)

lemma bindM_fst_no_fuel: "fst (m s) \<noteq> OutOfFuel \<Longrightarrow> (\<And>x. no_fuel (f x)) \<Longrightarrow> fst (bindM m f s) \<noteq> OutOfFuel"
  by (cases "m s"; cases "fst (m s)") (auto simp: bindM_def no_fuel_def)

lemma handle_cmd_packet_no_fuel [fuel_intros]:
  fixes V :: "('v, 'e) visitor"
  assumes "cursor_laws (e_bits E)" "visitor_returns V"
  shows "no_fuel (handle_cmd_packet E V data :: ('d, 'v, 'e, unit) parser_rm)"
proof -
  have "fst (packet_loop E V (Suc (num_bits_left (e_bits E) br)) (p, br)) \<noteq> OutOfFuel" for p :: "('d, 'v) parser" and br
    using packet_loop_fuel [OF assms lessI, of br p] by (metis prod.collapse)
  then have "fst (seqM (packet_loop E V (Suc (num_bits_left (e_bits E) br))) (on_packet_bits (is_overflowed (e_bits E))) (p, br)) \<noteq> OutOfFuel"
    for p :: "('d, 'v) parser" and br by (intro bindM_fst_no_fuel fuel_intros assms)
  then show ?thesis by (simp add: no_fuel_def handle_cmd_packet_def Let_def split_beta)
qed

lemma full_packet_no_fuel [fuel_intros]:
  assumes "cursor_laws (e_bits E)" "visitor_returns V"
  shows "no_fuel (handle_cmd_full_packet E V cmd)"
  unfolding handle_cmd_full_packet_def by (intro fuel_intros assms)

text \<open>The metadata of a field, and the serializers.\<close>

lemma quantized_float_new_no_fuel: "quantized_float_new a b c d \<noteq> OutOfFuel"
  using quantized_float_new_outcome [of a b c d] by (auto split: outcome.splits)

lemma f32_decoder_new_no_fuel: "f32_decoder_new f \<noteq> OutOfFuel"
  using quantized_float_new_no_fuel
  by (auto simp: f32_decoder_new_def quantized_float_decoder_new_def Let_def split: option.splits)

lemma visit_ident_no_fuel: "visit_ident ident field \<noteq> OutOfFuel"
proof -
  have "vector3_decoder_new f \<noteq> OutOfFuel" "qangle_decoder_new f \<noteq> OutOfFuel" for f
    using f32_decoder_new_no_fuel
    by (auto simp: vector3_decoder_new_def qangle_decoder_new_def Let_def split: option.splits)
  then show ?thesis using f32_decoder_new_no_fuel
    by (simp add: visit_ident_def non_special_def visit_pointer_def constructed_def bindO_OutOfFuel_iff map_err_OutOfFuel_iff)
qed

lemma visit_any_no_fuel:
  "visit_any e field \<noteq> OutOfFuel" "visit_template e a field \<noteq> OutOfFuel" "visit_array e l field \<noteq> OutOfFuel"
  by (induction e field and e a field and e l field rule: visit_any_visit_template_visit_array.induct)
    (subst visit_any.simps visit_template.simps visit_array.simps;
     simp add: visit_ident_no_fuel visit_pointer_def non_special_def bindO_OutOfFuel_iff array_length_outcome(1)
      split: vt_expr.split)+

lemma get_field_metadata_no_fuel:
  assumes "charsor_laws C view" shows "get_field_metadata C field s \<noteq> OutOfFuel"
  using vartype_parse_outcome [OF assms, of s]
  by (auto simp: get_field_metadata_def bindO_OutOfFuel_iff map_err_OutOfFuel_iff visit_any_no_fuel split: outcome.splits)

lemma flattened_serializers_parse_no_fuel [fuel_intros]:
  assumes C: "charsor_laws C view" shows "flattened_serializers_parse uv dec C data \<noteq> OutOfFuel"
proof -
  have field: "flattened_field_new C msg pf \<noteq> OutOfFuel" for msg pf
    using get_field_metadata_no_fuel [OF C]
    by (simp add: flattened_field_new_def Let_def bindO_OutOfFuel_iff split_beta)
  have fields: "add_fields C msg sm is fm acc \<noteq> OutOfFuel" for msg sm "is" fm acc
    by (induction "is" arbitrary: fm acc)
      (simp_all add: field bindO_OutOfFuel_iff map_err_OutOfFuel_iff Let_def split: option.split)
  have "add_serializers C msg ss fm sm \<noteq> OutOfFuel" for msg ss fm sm
    by (induction ss arbitrary: fm sm)
      (simp_all add: fields bindO_OutOfFuel_iff flattened_serializer_new_def split_beta)
  then show ?thesis by (simp add: flattened_serializers_parse_def parse_serializers_def bindO_OutOfFuel_iff split_beta)
qed

subsection \<open>Commands\<close>

text \<open>The operations of a stream return.\<close>

definition stream_returns :: "'d seekable_stream \<Rightarrow> bool" where
  "stream_returns D \<longleftrightarrow> no_fuel (ds_is_at_eof D) \<and> no_fuel (ds_read_cmd_header D)
     \<and> (\<forall>h. no_fuel (ds_read_cmd D h) \<and> no_fuel (ds_skip_cmd D h)) \<and> (\<forall>s. no_fuel (ds_seek D s))
     \<and> (\<forall>b. ds_decode_cmd_send_tables D b \<noteq> OutOfFuel \<and> ds_decode_cmd_class_info D b \<noteq> OutOfFuel
        \<and> ds_decode_cmd_packet D b \<noteq> OutOfFuel \<and> ds_decode_cmd_full_packet D b \<noteq> OutOfFuel)"

lemma stream_no_fuel [fuel_intros]:
  assumes "stream_returns D"
  shows "no_fuel (ds_read_cmd_header D)" "no_fuel (ds_read_cmd D h)" "no_fuel (ds_skip_cmd D h)" "no_fuel (ds_seek D s)"
    "no_fuel (at_eof_or_default D)" "no_fuel (unread_cmd_header D h)"
proof -
  show "no_fuel (ds_read_cmd_header D)" "no_fuel (ds_read_cmd D h)" "no_fuel (ds_skip_cmd D h)"
    and seek: "no_fuel (ds_seek D s)" for s using assms by (simp_all add: stream_returns_def)
  show "no_fuel (unread_cmd_header D h)" unfolding unread_cmd_header_def by (intro fuel_intros seek)
  show "no_fuel (at_eof_or_default D)" using assms
    by (auto simp: stream_returns_def no_fuel_def at_eof_or_default_def split: prod.split outcome.split) (metis fst_conv)
qed

lemma handle_cmd_no_fuel [fuel_intros]:
  assumes E: "cursor_laws (e_bits E)" "charsor_laws (e_charsor E) view" "visitor_returns V" and D: "stream_returns D"
  shows "no_fuel (handle_cmd E D V h)"
proof -
  have d: "ds_decode_cmd_send_tables D b \<noteq> OutOfFuel" "ds_decode_cmd_class_info D b \<noteq> OutOfFuel"
    "ds_decode_cmd_packet D b \<noteq> OutOfFuel" "ds_decode_cmd_full_packet D b \<noteq> OutOfFuel" for b
    using D by (simp_all add: stream_returns_def)
  show ?thesis
    unfolding handle_cmd_def match_cmd_def Let_def handle_send_tables_def handle_class_info_def
    by (intro fuel_intros E(1,3) D; use d flattened_serializers_parse_no_fuel [OF E(2)] in \<open>simp add: map_err_OutOfFuel_iff\<close>)
qed

lemma dispatch_no_fuel [fuel_intros]:
  assumes "cursor_laws (e_bits E)" "charsor_laws (e_charsor E) view" "visitor_returns V" "stream_returns D"
  shows "no_fuel (dispatch E D V cf h)" "no_fuel (end_of_run D err)"
proof -
  show "no_fuel (dispatch E D V cf h)" unfolding dispatch_def
    by (cases cf; simp only: control_flow.case) (intro fuel_intros handle_cmd_no_fuel [OF assms] assms(3,4))+
  show "no_fuel (end_of_run D err)" unfolding end_of_run_def by (intro fuel_intros assms(4))
qed


subsection \<open>Streams whose commands end\<close>

text \<open>A stream whose operations return and on which every command takes something of what is left of it.\<close>

locale ending_stream = stream_contract +
  fixes left :: "'b \<Rightarrow> nat" and ends :: bool
  assumes returns_law: "ends \<Longrightarrow> stream_returns D"
    and left_law: "\<lbrakk>ends; header_at q = (Ok h, q')\<rbrakk> \<Longrightarrow> left (after h q') < left q"

context ending_stream
begin

text \<open>The handler of a seekable run may only take the body of the command that it then ignores.\<close>

lemma run_seekable_fuel:
  fixes E :: "('s, 'c) env" and V :: "('v, 'e) visitor" and p :: "('a, 'v) parser"
  assumes E: "cursor_laws (e_bits E)" "charsor_laws (e_charsor E) cview" "visitor_returns V" and ends
    and handler: "\<And>h cmd. no_fuel (handler h cmd)"
    and keeps: "\<And>h cmd p cf h' p1. handler h cmd p = (Ok (Some cf, h'), p1) \<Longrightarrow>
      pos p1 = (if cf = CfIgnore then after cmd (pos p) else pos p)"
  shows "left (pos p) < fuel \<Longrightarrow> run_seekable E D V handler fuel h p \<noteq> (OutOfFuel, p')"
proof (induction fuel arbitrary: h p)
  case (Suc fuel)
  note D = returns_law [OF \<open>ends\<close>]
  obtain r d where rd: "ds_read_cmd_header D (ps_demo_stream p) = (r, d)" by (cases "ds_read_cmd_header D (ps_demo_stream p)")
  then have z: "zoomM ps_demo_stream (\<lambda>d p. p\<lparr>ps_demo_stream := d\<rparr>) (ds_read_cmd_header D) p = (r, p\<lparr>ps_demo_stream := d\<rparr>)"
    by (simp add: zoom_stream_iff)
  show ?case
  proof (cases r)
    case (Ok cmd)
    show ?thesis
    proof
      assume "run_seekable E D V handler (Suc fuel) h p = (OutOfFuel, p')"
      then have "bindM (handler h cmd) (\<lambda>(cf, h). case cf of
            Some cf \<Rightarrow> seqM (dispatch E D V cf cmd) (run_seekable E D V handler fuel h)
          | None \<Rightarrow> seqM (on_stream PeIo (unread_cmd_header D cmd))
                (change_ctx (\<lambda>ctx. ctx\<lparr>cx_tick := cx_prev_tick ctx\<rparr>))) (ticked (ch_tick cmd) (p\<lparr>ps_demo_stream := d\<rparr>)) = (OutOfFuel, p')"
        using z Ok by (simp add: bindM_run(1) [OF set_tick_run])
      then obtain x p1 where h: "handler h cmd (ticked (ch_tick cmd) (p\<lparr>ps_demo_stream := d\<rparr>)) = (Ok x, p1)"
        and rest: "(case x of (cf, h) \<Rightarrow> case cf of
            Some cf \<Rightarrow> seqM (dispatch E D V cf cmd) (run_seekable E D V handler fuel h)
          | None \<Rightarrow> seqM (on_stream PeIo (unread_cmd_header D cmd))
                (change_ctx (\<lambda>ctx. ctx\<lparr>cx_tick := cx_prev_tick ctx\<rparr>))) p1 = (OutOfFuel, p')"
        by (elim bindM_OutOfFuelE) (simp_all add: handler [THEN no_fuelD])
      obtain cf h' where x: "x = (cf, h')" by (cases x)
      show False
      proof (cases cf)
        case None
        have "no_fuel (seqM (on_stream PeIo (unread_cmd_header D cmd)) (change_ctx (\<lambda>ctx. ctx\<lparr>cx_tick := cx_prev_tick ctx\<rparr>))
            :: ('a, 'v, 'e, unit) parser_rm)" by (intro fuel_intros D)
        with rest x None show False by (simp add: no_fuelD)
      next
        case (Some cf')
        with rest x have "seqM (dispatch E D V cf' cmd) (run_seekable E D V handler fuel h') p1 = (OutOfFuel, p')" by simp
        then obtain p2 where d2: "dispatch E D V cf' cmd p1 = (Ok (), p2)" and run: "run_seekable E D V handler fuel h' p2 = (OutOfFuel, p')"
          using dispatch_no_fuel(1) [OF E D, THEN no_fuelD] by (elim bindM_OutOfFuelE) auto
        have p1: "pos p1 = (if cf' = CfIgnore then after cmd (view d) else view d)" using keeps [of h cmd _ cf' h' p1] h x Some by simp
        have "pos p2 = after cmd (view d)"
        proof (cases "cf' = CfIgnore")
          case True
          with d2 p1 show ?thesis by (simp add: dispatch_def retM_def)
        qed (use p1 dispatch_pos [OF d2] in simp)
        with left_law [OF \<open>ends\<close>, of "pos p"] header_law [OF rd [unfolded Ok]] Suc.prems have "left (pos p2) < fuel" by fastforce
        from Suc.IH [OF this] run show False by blast
      qed
    qed
  next
    case (Err err)
    have "no_fuel (end_of_run D err :: ('a, 'v, 'e, unit) parser_rm)" by (rule dispatch_no_fuel(2) [OF E D])
    with z Err show ?thesis by (simp add: no_fuelD)
  next
    case OutOfFuel
    then show ?thesis using rd stream_no_fuel(1) [OF D, THEN no_fuelD] by simp
  qed (use z in simp)
qed simp


lemma seqM_fuel:
  "seqM m n s = (OutOfFuel, s'') \<Longrightarrow> m s \<noteq> (OutOfFuel, s'') \<Longrightarrow> \<exists>s'. m s = (Ok (), s') \<and> n s' = (OutOfFuel, s'')"
  by (erule bindM_OutOfFuelE) auto

lemma runs_fuel:
  fixes E :: "('s, 'c) env" and V :: "('v, 'e) visitor" and p :: "('a, 'v) parser"
  assumes E: "cursor_laws (e_bits E)" "charsor_laws (e_charsor E) cview" "visitor_returns V" and ends
  shows "left (pos p) < fuel \<Longrightarrow> run_to_end E D V fuel p \<noteq> (OutOfFuel, p')"
    and "left (start (pos p)) < fuel \<Longrightarrow> run_to_tick E D V fuel t p \<noteq> (OutOfFuel, p')"
    and "left (start (pos p)) < fuel \<Longrightarrow> run_full_packet E D V fuel k p \<noteq> (OutOfFuel, p')"
proof -
  note D = returns_law [OF \<open>ends\<close>] and loop = run_seekable_fuel [OF E \<open>ends\<close>]
  have reset: "no_fuel (parser_reset D :: (('a, 'v) parser, io_error, unit) rm)"
    unfolding parser_reset_def
  proof (intro fuel_intros)
    show "no_fuel (\<lambda>p. zoomM ps_demo_stream (\<lambda>d p. p\<lparr>ps_demo_stream := d\<rparr>) (ds_seek D (SeekStart (ds_start_position D (ps_demo_stream p)))) p)"
      by (rule no_fuel_pointwise) (intro exI conjI [rotated], rule refl, intro fuel_intros D)
  qed (simp add: no_fuel_def)
  have "run_seekable E D V (\<lambda>h cmd. bindM (retM (CfHandle, h)) (\<lambda>(cf, h). retM (Some cf, h))) fuel () p \<noteq> (OutOfFuel, p')"
    if "left (pos p) < fuel"
    by (rule loop [OF _ _ that]) (simp_all add: no_fuel_def retM_def bindM_def)
  then show "run_to_end E D V fuel p \<noteq> (OutOfFuel, p')" if "left (pos p) < fuel"
    using that unfolding run_to_end_def run_as_seekable by blast
  show "run_to_tick E D V fuel t p \<noteq> (OutOfFuel, p')" if "left (start (pos p)) < fuel"
  proof
    have handler: "no_fuel (run_to_tick_handler E D V t flags cmd)" for flags cmd
    proof (rule no_fuel_pointwise)
      fix q :: "('a, 'v) parser"
      have "no_fuel (seek_full_packet E D V cmd ahead)" for ahead unfolding seek_full_packet_def
        by (intro fuel_intros D E(1,3)) (use D in \<open>simp add: stream_returns_def map_err_OutOfFuel_iff\<close>)
      then have "no_fuel (seqM (seek_full_packet E D V cmd ahead) (retM x))" for ahead and x :: "control_flow option \<times> bool \<times> bool"
        by (intro fuel_intros)
      then have "fst (run_to_tick_handler E D V t flags cmd q) \<noteq> OutOfFuel"
        by (simp add: run_to_tick_handler_def Let_def no_fuel_def split: prod.split)
      then show "\<exists>m. no_fuel m \<and> run_to_tick_handler E D V t flags cmd q = m q"
        by (intro exI [of _ "\<lambda>_. run_to_tick_handler E D V t flags cmd q"]) (simp add: no_fuel_def)
    qed
    assume "run_to_tick E D V fuel t p = (OutOfFuel, p')"
    then obtain p1 where "parser_reset D p = (Ok (), p1)"
      and run: "run_seekable E D V (run_to_tick_handler E D V t) fuel (False, False) p1 = (OutOfFuel, p')"
      unfolding run_to_tick_def by (elim bindM_OutOfFuelE) (auto simp: reset [THEN no_fuelD])
    with reset_Ok that have "left (pos p1) < fuel" by metis
    moreover have "pos q1 = (if cf = CfIgnore then after cmd (pos q) else pos q)"
      if "run_to_tick_handler E D V t h cmd q = (Ok (Some cf, h'), q1)" for h cmd q cf h' q1
      using run_to_tick_handler_Ok [OF that] by auto
    ultimately show False using loop [of "run_to_tick_handler E D V t"] handler run by blast
  qed
  show "run_full_packet E D V fuel k p \<noteq> (OutOfFuel, p')" if "left (start (pos p)) < fuel"
  proof
    assume "run_full_packet E D V fuel k p = (OutOfFuel, p')"
    from seqM_fuel [OF this [unfolded run_full_packet_def]] obtain p1 where "parser_reset D p = (Ok (), p1)"
      and rest: "seqM (if k \<noteq> 0 then set_collecting V False else retM ())
        (\<lambda>p. case run_seekable E D V (run_full_packet_handler (e_cmds E) V k) fuel (0, k = 0) p of
           (r, p) \<Rightarrow> (r, p\<lparr>ps_skip_entity_packets := False\<rparr>)) p1 = (OutOfFuel, p')"
      by (auto simp: reset [THEN no_fuelD])
    with reset_Ok that have p1: "left (pos p1) < fuel" by metis
    define p2 where "p2 = (if k = 0 then p1 else p1\<lparr>ps_visitor := vi_set_collecting V False (ps_visitor p1), ps_skip_entity_packets := True\<rparr>)"
    have "pos p2 = pos p1" by (simp add: p2_def)
    obtain q where run: "run_seekable E D V (run_full_packet_handler (e_cmds E) V k) fuel (0, k = 0) p2 = (OutOfFuel, q)"
      using seqM_fuel [OF rest] by (cases "k = 0") (auto simp: p2_def set_collecting_def retM_def split: prod.splits)
    from p1 \<open>pos p2 = pos p1\<close> have left2: "left (pos p2) < fuel" by simp
    have "no_fuel (run_full_packet_handler (e_cmds E) V k h cmd :: ('a, 'v, 'e, _) parser_rm)" for h cmd
      by (simp add: run_full_packet_handler_def split_beta no_fuel_def set_collecting_def bindM_def retM_def)
    moreover have "pos q1 = (if cf = CfIgnore then after cmd (pos q) else pos q)"
      if "(run_full_packet_handler (e_cmds E) V k h cmd :: ('a, 'v, 'e, _) parser_rm) q = (Ok (Some cf, h'), q1)"
      for h cmd q cf h' q1
      using that by (auto simp: run_full_packet_handler_def split_beta set_collecting_def bindM_def retM_def split: if_splits)
    ultimately show False using loop [OF _ _ left2, of "run_full_packet_handler (e_cmds E) V k"] run by blast
  qed
qed

end


text \<open>A varint reader that returns, and that has read at least one of the bytes that are there if it succeeds.\<close>

definition reads_ahead :: "(reader, varint_error, u32 \<times> nat) rm \<Rightarrow> bool" where
  "reads_ahead uv \<longleftrightarrow> no_fuel uv \<and> (\<forall>r v r'. uv r = (Ok v, r') \<longrightarrow>
     rd_data r' = rd_data r \<and> rd_pos r < rd_pos r' \<and> rd_pos r' \<le> length (rd_data r))"

definition rdr_left :: "reader \<Rightarrow> nat" where
  "rdr_left r = length (rd_data r) - rd_pos r"

lemma reader_no_fuel [fuel_intros]:
  "no_fuel (read_exact n)" "no_fuel (rdr_seek s)" "no_fuel rdr_position" "no_fuel (rdr_skip h)" "no_fuel rdr_is_at_eof"
proof -
  show basic: "no_fuel (read_exact n)" "no_fuel (rdr_seek s)" "no_fuel rdr_position" for n s
    by (simp_all add: no_fuel_def read_exact_def rdr_seek_def rdr_position_def Let_def)
  show "no_fuel (rdr_skip h)" "no_fuel rdr_is_at_eof" unfolding rdr_skip_def rdr_is_at_eof_def by (intro fuel_intros basic)+
qed

lemma cmd_header_no_fuel [fuel_intros]: "no_fuel uv \<Longrightarrow> no_fuel (varint_cmd_header C uv)" "no_fuel (broadcast_read_cmd_header C)"
  unfolding varint_cmd_header_def broadcast_read_cmd_header_def Let_def
  by (intro fuel_intros; simp add: cmd_try_from_def)+

lemma read_cmd_body_no_fuel [fuel_intros]: "no_fuel (read_cmd_body Z h)"
  using reader_no_fuel(1) [THEN no_fuelD]
  by (auto simp: no_fuel_def read_cmd_body_def Let_def split: prod.splits outcome.splits option.splits)

lemma demofile_no_fuel [fuel_intros]:
  "no_fuel demofile_is_at_eof" "no_fuel (demofile_read_cmd Z h)" "no_fuel (demofile_skip_cmd h)" "no_fuel (demofile_seek s)"
  unfolding demofile_is_at_eof_def demofile_read_cmd_def demofile_skip_cmd_def demofile_seek_def on_rdr_def by (intro fuel_intros)+

lemma files_return: "no_fuel uv \<Longrightarrow> stream_returns (demofile_stream C uv Z P)" "stream_returns (broadcastfile_stream C P)"
proof -
  show "stream_returns (demofile_stream C uv Z P)" if "no_fuel uv"
    using that by (simp add: stream_returns_def demofile_stream_def demofile_read_cmd_header_def on_rdr_def fuel_intros
        demofile_decode_cmd_send_tables_def demofile_decode_cmd_class_info_def demofile_decode_cmd_packet_def demofile_decode_cmd_full_packet_def)
  have "no_fuel broadcastfile_is_at_eof" "no_fuel (broadcastfile_read_cmd_header C)" "no_fuel (broadcastfile_read_cmd h)"
    "no_fuel (broadcastfile_skip_cmd h)" "no_fuel (broadcastfile_seek s)" for h s
    unfolding broadcastfile_is_at_eof_def broadcastfile_read_cmd_header_def broadcastfile_read_cmd_def broadcastfile_skip_cmd_def
      broadcastfile_seek_def on_bf_rdr_def
    by (intro fuel_intros; simp add: no_fuel_def)+
  then show "stream_returns (broadcastfile_stream C P)"
    by (simp add: stream_returns_def broadcastfile_stream_def broadcast_decode_cmd_send_tables_def
        broadcast_decode_cmd_class_info_def broadcast_decode_cmd_packet_def broadcast_decode_cmd_full_packet_def)
qed

lemma left_behind: "rd_data q' = rd_data q \<Longrightarrow> rd_pos q < rd_pos q' \<Longrightarrow> rd_pos q' \<le> length (rd_data q) \<Longrightarrow>
    rdr_left (behind h q') < rdr_left q"
  by (simp add: rdr_left_def behind_def)

interpretation ending_df: ending_stream "demofile_stream C uv Z P" df_rdr "varint_cmd_header C uv" behind rdr_at_end
  "\<lambda>r. r\<lparr>rd_pos := 16\<rparr>" "counts_bytes uv" rdr_left "reads_ahead uv"
proof unfold_locales
  fix q h q'
  assume uv: "reads_ahead uv" and "varint_cmd_header C uv q = (Ok h, q')"
  then obtain c n1 r1 t n2 r2 z n3 where "uv q = (Ok (c, n1), r1)" "uv r1 = (Ok (t, n2), r2)" "uv r2 = (Ok (z, n3), q')"
    by (elim varint_cmd_headerE)
  with uv have "rd_data r1 = rd_data q \<and> rd_pos q < rd_pos r1" "rd_data r2 = rd_data r1 \<and> rd_pos r1 < rd_pos r2"
    "rd_data q' = rd_data r2 \<and> rd_pos r2 < rd_pos q' \<and> rd_pos q' \<le> length (rd_data r2)" unfolding reads_ahead_def by blast+
  then show "rdr_left (behind h q') < rdr_left q" by (intro left_behind) auto
qed (simp add: reads_ahead_def files_return)

interpretation ending_bf: ending_stream "broadcastfile_stream C P" bf_rdr "broadcast_read_cmd_header C" behind rdr_at_end
  "\<lambda>r. r\<lparr>rd_pos := 0\<rparr>" True rdr_left True
proof unfold_locales
  fix q h q'
  assume "broadcast_read_cmd_header C q = (Ok h, q')"
  then show "rdr_left (behind h q') < rdr_left q"
    by (intro left_behind) (auto simp: broadcast_read_cmd_header_def Let_def liftO_def read_exact_def elim!: bindM_OkE split: if_splits)
qed (simp add: files_return)

text \<open>C5: parsing a demo file always ends.  Whatever the bytes of the file, whatever the messages in it decode to
  and also if the demo is corrupt, a run to the end, a run to a tick and the run for a full packet take at most
  as many rounds as the file has bytes behind the place where they start, and none of the loops of the handlers,
  which have as much fuel as their input has bits, runs out of it.\<close>

theorem parser_runs_end:
  fixes V :: "('v, 'e) visitor"
  assumes "cursor_laws (e_bits E)" "charsor_laws (e_charsor E) view" "visitor_returns V" "reads_ahead uv"
  shows "fst (run_to_end E (demofile_stream C uv Z P) V (Suc (rdr_left (df_rdr (ps_demo_stream p)))) p) \<noteq> OutOfFuel
    \<and> fst (run_to_tick E (demofile_stream C uv Z P) V (Suc (length (rd_data (df_rdr (ps_demo_stream p))))) t p) \<noteq> OutOfFuel
    \<and> fst (run_full_packet E (demofile_stream C uv Z P) V (Suc (length (rd_data (df_rdr (ps_demo_stream p))))) k p) \<noteq> OutOfFuel"
proof -
  have "rdr_left ((df_rdr (ps_demo_stream p))\<lparr>rd_pos := 16\<rparr>) < Suc (length (rd_data (df_rdr (ps_demo_stream p))))"
    by (simp add: rdr_left_def)
  with ending_df.runs_fuel [OF assms, of p] show ?thesis by (metis lessI prod.collapse)
qed

lemma read_exact_ahead:
  "read_exact (Suc n) r = (Ok b, r') \<Longrightarrow> rd_data r' = rd_data r \<and> rd_pos r < rd_pos r' \<and> rd_pos r' \<le> length (rd_data r)"
  by (auto simp: read_exact_def split: if_splits)

lemma uvarint_async_loop_ahead:
  "uvarint_async_loop K n c v r = (Ok x, r') \<Longrightarrow>
     rd_data r' = rd_data r \<and> rd_pos r < rd_pos r' \<and> rd_pos r' \<le> length (rd_data r)"
proof (induction n arbitrary: c v r)
  case (Suc n)
  obtain buf r1 where r1: "read_exact (Suc 0) r = (Ok buf, r1)"
    and rest: "(let byte = hd buf; v = v OR push_bit (c * 7) (ucast (byte AND vc_payload_bits K))
     in if byte AND vc_continue_bit K = 0 then retM (v, c + 1) else uvarint_async_loop K n (c + 1) v) r1 = (Ok x, r')"
    using Suc.prems by (auto elim: bindM_OkE)
  show ?case
  proof (cases "hd buf AND vc_continue_bit K = 0")
    case False
    then have "uvarint_async_loop K n (c + 1) (v OR push_bit (c * 7) (ucast (hd buf AND vc_payload_bits K))) r1 = (Ok x, r')"
      using rest by (simp add: Let_def)
    from Suc.IH [OF this] read_exact_ahead [OF r1] show ?thesis by auto
  qed (use rest read_exact_ahead [OF r1] in \<open>auto simp: Let_def\<close>)
qed (simp add: errM_def)

text \<open>The varint reader of the repository is one.\<close>

lemma read_uvarint_async_ahead: "reads_ahead (read_uvarint_async K)"
  unfolding reads_ahead_def
proof (intro conjI allI impI)
  have "no_fuel (uvarint_async_loop K n c v)" for n c v
    by (induction n arbitrary: c v) (auto simp: Let_def intro!: fuel_intros)
  then show "no_fuel (read_uvarint_async K)" unfolding read_uvarint_async_def Let_def by (intro fuel_intros)
next
  fix r v r'
  assume "read_uvarint_async K r = (Ok v, r')"
  then obtain buf r1 where "read_exact (Suc 0) r = (Ok buf, r1)"
    and rest: "(let byte = hd buf in if byte AND vc_continue_bit K = 0 then retM (ucast byte, 1)
      else uvarint_async_loop K (vc_max_size K - 1) 1 (ucast (byte AND vc_payload_bits K))) r1 = (Ok v, r')"
    by (auto simp: read_uvarint_async_def elim: bindM_OkE)
  from read_exact_ahead [OF this(1)] rest
  show "rd_data r' = rd_data r" "rd_pos r < rd_pos r'" "rd_pos r' \<le> length (rd_data r)"
    by (auto simp: Let_def split: if_splits dest!: uvarint_async_loop_ahead)
qed

lemma example_returns:
  "visitor_returns (recorder :: (_, unit) visitor)" "cursor_laws (e_bits example_env)" "charsor_laws (e_charsor example_env) ref_view"
  using ref_cursor_laws ref_charsor_laws
  by (simp_all add: visitor_returns_def no_fuel_def recorder_def visitor_default_def retM_def example_env_def)

theorem parser_runs_end_witness:
  "fst (run_to_tick example_env example_stream (recorder :: (_, unit) visitor) (Suc 31) 2 (recording example_demo)) \<noteq> OutOfFuel"
proof -
  have "length (rd_data (df_rdr (ps_demo_stream (recording example_demo)))) = 31"
    by (simp add: parser_from_stream_def example_demo_def)
  then show ?thesis using parser_runs_end [OF example_returns(2,3,1) read_uvarint_async_ahead] by metis
qed

end
