(* ===== verification/HttpRuns.thy ===== *)
theory HttpRuns
  imports BroadcastHttpLaws ParserEnds
begin

text \<open>
  A broadcast over HTTP meets the interface \<open>stream_contract\<close>, so that what is proved of runs of the parser over any
  stream holds of the buffered packets.  The position is the buffer itself.
\<close>

subsection \<open>The stream as a buffer\<close>

fun buf_map :: "(reader \<Rightarrow> reader) \<Rightarrow> stream_buffer \<Rightarrow> stream_buffer" where
  "buf_map f (SbLast r) = SbLast (map_option f r)"
| "buf_map f (SbSeekable c) = SbSeekable (f c)"

fun buf_header ::
    "demo_commands \<Rightarrow> stream_buffer \<Rightarrow> (read_cmd_header_error, cmd_header) outcome \<times> stream_buffer" where
  "buf_header C (SbLast None) = (Panic ExplicitPanic, SbLast None)"
| "buf_header C (SbLast (Some r)) = (case broadcast_read_cmd_header C r of (x, r) \<Rightarrow> (x, SbLast (Some r)))"
| "buf_header C (SbSeekable c) = (case broadcast_read_cmd_header C c of (x, c) \<Rightarrow> (x, SbSeekable c))"

fun buf_at_end :: "stream_buffer \<Rightarrow> bool" where
  "buf_at_end (SbLast None) = False"
| "buf_at_end (SbLast (Some r)) = (length (rd_data r) \<le> rd_pos r)"
| "buf_at_end (SbSeekable c) = (length (rd_data c) \<le> rd_pos c)"

fun buf_left :: "stream_buffer \<Rightarrow> nat" where
  "buf_left (SbLast None) = 0"
| "buf_left (SbLast (Some r)) = rdr_left r"
| "buf_left (SbSeekable c) = rdr_left c"

lemma on_buffer_cases:
  assumes "on_buffer m s = (x, s')"
  obtains (none) "bh_stream_buffer s = SbLast None" "x = Panic ExplicitPanic" "s' = s"
  | (last) r r' where "bh_stream_buffer s = SbLast (Some r)" "m r = (x, r')" "bh_stream_buffer s' = SbLast (Some r')"
  | (seekable) c c' where "bh_stream_buffer s = SbSeekable c" "m c = (x, c')" "bh_stream_buffer s' = SbSeekable c'"
  using assms by (auto simp: on_buffer_def split: stream_buffer.splits option.splits prod.splits)

lemma seekable_Ok:
  "seekable m s = (Ok x, s') \<Longrightarrow>
     \<exists>c c'. bh_stream_buffer s = SbSeekable c \<and> m c = (Ok x, c') \<and> bh_stream_buffer s' = SbSeekable c'"
  by (auto simp: seekable_def split: stream_buffer.splits prod.splits)

lemma http_stream_simps:
  "ds_is_at_eof (http_stream C P) = http_is_at_eof" "ds_read_cmd_header (http_stream C P) = http_read_cmd_header C"
  "ds_read_cmd (http_stream C P) = http_read_cmd" "ds_skip_cmd (http_stream C P) = http_skip_cmd"
  "ds_seek (http_stream C P) = http_seek" "ds_start_position (http_stream C P) = http_start_position"
  by (simp_all add: http_stream_def)

lemma http_body_Ok:
  "http_read_cmd h s = (Ok b, s') \<Longrightarrow> bh_stream_buffer s' = buf_map (behind h) (bh_stream_buffer s)"
  "http_skip_cmd h s = (Ok (), s') \<Longrightarrow> bh_stream_buffer s' = buf_map (behind h) (bh_stream_buffer s)"
proof -
  show "bh_stream_buffer s' = buf_map (behind h) (bh_stream_buffer s)" if "http_read_cmd h s = (Ok b, s')"
    using that unfolding http_read_cmd_def
    by (cases rule: on_buffer_cases) (auto simp: Let_def behind_def split: if_splits)
  show "bh_stream_buffer s' = buf_map (behind h) (bh_stream_buffer s)" if "http_skip_cmd h s = (Ok (), s')"
  proof (cases "bh_stream_buffer s")
    case (SbLast r)
    with that have "on_buffer (\<lambda>r. let n = unat (ch_body_size h) in
       if length (rd_data r) - rd_pos r < n then (Err UnexpectedEof, r) else (Ok (), r\<lparr>rd_pos := rd_pos r + n\<rparr>)) s = (Ok (), s')"
      by (simp add: http_skip_cmd_def)
    then show ?thesis by (cases rule: on_buffer_cases) (auto simp: Let_def behind_def split: if_splits)
  next
    case (SbSeekable c)
    with that have "on_buffer (rdr_skip h) s = (Ok (), s')" by (simp add: http_skip_cmd_def)
    then show ?thesis by (cases rule: on_buffer_cases) (auto simp: SbSeekable dest: rdr_skip_Ok)
  qed
qed

interpretation hs: stream_contract "http_stream C P" bh_stream_buffer "buf_header C" "\<lambda>h. buf_map (behind h)" buf_at_end
  "buf_map (\<lambda>r. r\<lparr>rd_pos := 0\<rparr>)" True
proof unfold_locales
  show "buf_header C (bh_stream_buffer d) = (r, bh_stream_buffer d')" if "ds_read_cmd_header (http_stream C P) d = (r, d')" for d r d'
    using that unfolding http_stream_simps http_read_cmd_header_def by (cases rule: on_buffer_cases) simp_all
  show "bh_stream_buffer d' = buf_map (behind h) (bh_stream_buffer d)" if "ds_read_cmd (http_stream C P) h d = (Ok b, d')" for h d b d'
    using that by (simp add: http_stream_simps http_body_Ok(1))
  show "bh_stream_buffer d' = buf_map (behind h) (bh_stream_buffer d)" if "ds_skip_cmd (http_stream C P) h d = (Ok (), d')" for h d d'
    using that by (simp add: http_stream_simps http_body_Ok(2))
  show "eof = buf_at_end (bh_stream_buffer d)" if "at_eof_or_default (http_stream C P) d = (Ok eof, d')" for d eof d'
    using that by (auto simp: at_eof_or_default_def http_stream_simps http_is_at_eof_def on_buffer_def
        split: stream_buffer.splits option.splits)
  show "bh_stream_buffer d' = buf_map (\<lambda>r. r\<lparr>rd_pos := 0\<rparr>) (bh_stream_buffer d)"
    if "ds_seek (http_stream C P) (SeekStart (ds_start_position (http_stream C P) d)) d = (Ok n, d')" for d n d'
    using that by (auto simp: http_stream_simps http_seek_def http_start_position_def dest!: seekable_Ok seek_Ok(1))
  show "bh_stream_buffer d' = q"
    if "buf_header C q = (Ok h, bh_stream_buffer d)" "unread_cmd_header (http_stream C P) h d = (Ok (), d')" for q h d d'
  proof -
    from that(2) obtain n where "http_seek (SeekCurrent (- int (unat (ch_size h)))) d = (Ok n, d')"
      by (auto simp: unread_cmd_header_def http_stream_simps retM_def elim: bindM_OkE)
    then obtain c c' where "bh_stream_buffer d = SbSeekable c" "bh_stream_buffer d' = SbSeekable c'"
      "rdr_seek (SeekCurrent (- int (unat (ch_size h)))) c = (Ok n, c')" unfolding http_seek_def by (auto dest!: seekable_Ok)
    with that(1) show ?thesis
      by (cases "(C, q)" rule: buf_header.cases) (auto split: prod.splits dest!: seek_Ok(2) broadcast_cmd_header_size)
  qed
qed


lemma broadcast_header_left: "broadcast_read_cmd_header C q = (Ok h, q') \<Longrightarrow> rdr_left (behind h q') < rdr_left q"
  by (rule ending_bf.left_law [OF TrueI])

lemma on_buffer_no_fuel [fuel_intros]: "no_fuel m \<Longrightarrow> no_fuel (on_buffer m)" "no_fuel m \<Longrightarrow> no_fuel (seekable m)"
  by (auto simp: no_fuel_def on_buffer_def seekable_def split: stream_buffer.split option.split prod.split) (metis fst_conv)+

lemma http_returns: "stream_returns (http_stream C P)"
proof -
  have plain: "no_fuel http_is_at_eof" "no_fuel (http_read_cmd_header C)" "no_fuel (http_read_cmd h)" "no_fuel (http_seek s)" for h s
    unfolding http_is_at_eof_def http_read_cmd_header_def http_read_cmd_def http_seek_def
    by (intro fuel_intros; simp add: no_fuel_def Let_def)+
  moreover have "no_fuel (http_skip_cmd h)" for h
  proof (rule no_fuel_pointwise)
    let ?bytes = "\<lambda>r. let n = unat (ch_body_size h) in
       if length (rd_data r) - rd_pos r < n then (Err UnexpectedEof, r) else (Ok (), r\<lparr>rd_pos := rd_pos r + n\<rparr>)"
    have "no_fuel (on_buffer ?bytes)" "no_fuel (on_buffer (rdr_skip h))"
      by (intro fuel_intros; simp add: no_fuel_def Let_def)+
    then show "\<exists>m. no_fuel m \<and> http_skip_cmd h s = m s" for s
      by (cases "bh_stream_buffer s") (auto simp: http_skip_cmd_def)
  qed
  ultimately show ?thesis
    by (simp add: stream_returns_def http_stream_def broadcast_decode_cmd_send_tables_def
        broadcast_decode_cmd_class_info_def broadcast_decode_cmd_packet_def broadcast_decode_cmd_full_packet_def)
qed

interpretation ending_hs: ending_stream "http_stream C P" bh_stream_buffer "buf_header C" "\<lambda>h. buf_map (behind h)" buf_at_end
  "buf_map (\<lambda>r. r\<lparr>rd_pos := 0\<rparr>)" True buf_left True
proof unfold_locales
  show "buf_left (buf_map (behind h) q') < buf_left q" if "buf_header C q = (Ok h, q')" for q h q'
    using that by (cases "(C, q)" rule: buf_header.cases) (auto split: prod.splits dest!: broadcast_header_left)
qed (rule http_returns)


subsection \<open>Running over the buffered packets\<close>

lemma buffered_commands:
  "commands_between (buf_header C) (\<lambda>h. buf_map (behind h)) q hs q' \<Longrightarrow> q = SbSeekable c \<Longrightarrow>
     \<exists>c'. q' = SbSeekable c' \<and> commands_between (broadcast_read_cmd_header C) behind c hs c'"
proof (induction arbitrary: c rule: commands_between.induct)
  case (here q)
  then show ?case by (auto intro: commands_between.here)
next
  case (further q h q' hs r)
  then obtain c1 where "broadcast_read_cmd_header C c = (Ok h, c1)" "q' = SbSeekable c1" by (auto split: prod.splits)
  with further.IH [of "behind h c1"] show ?case by (auto intro: commands_between.further)
qed

text \<open>C9: from the network to the commands.  When a parser over a buffering broadcast is run to a tick after some
  packets have arrived, the run ends: it takes at most as many rounds as bytes are buffered.  And if it succeeds
  it has read the commands of all the packets, one packet after the other from the beginning of the first, and
  stops in front of the first command behind the tick or at the end of the last packet.\<close>

theorem buffered_run_to_tick:
  fixes V :: "('v, 'e) visitor"
  assumes "start_streaming_and_buffer W base_url w = (Ok s, w1)"
    and "next_packets W n (w1, s) = (map (Some \<circ> Ok) packets, (w2, ps_demo_stream p))"
    and "cursor_laws (e_bits E)" "charsor_laws (e_charsor E) view" "visitor_returns V"
    and "length (concat packets) < fuel"
  shows "case run_to_tick E (http_stream C P) V fuel t p of
      (Ok (), p') \<Rightarrow> \<exists>hs r.
        commands_between (broadcast_read_cmd_header C) behind \<lparr>rd_data = concat packets, rd_pos = 0\<rparr> hs r
        \<and> (\<forall>h \<in> set hs. \<not> t <s ch_tick h)
        \<and> cx_tick (ps_ctx p') = last (- 1 # map ch_tick hs)
        \<and> (case broadcast_read_cmd_header C r of
             (Ok h, q) \<Rightarrow> t <s ch_tick h \<and> bh_stream_buffer (ps_demo_stream p') = SbSeekable r
           | (Err e, q) \<Rightarrow> length (rd_data q) \<le> rd_pos q
           | _ \<Rightarrow> False)
    | (r, p') \<Rightarrow> r \<noteq> OutOfFuel"
proof -
  have "bh_stream_buffer s = SbSeekable \<lparr>rd_data = [], rd_pos = 0\<rparr>" by (rule start_and_buffer_Ok [OF assms(1)]) simp
  then have "bh_stream_buffer (ps_demo_stream p) = SbSeekable \<lparr>rd_data = concat packets, rd_pos = length (concat packets)\<rparr>"
    using next_packets_append [OF fresh_stream(1,2) [OF disjI2 [OF assms(1)]] assms(2)] by (simp add: after_packets_def)
  then have start: "buf_map (\<lambda>r. r\<lparr>rd_pos := 0\<rparr>) (bh_stream_buffer (ps_demo_stream p)) = SbSeekable \<lparr>rd_data = concat packets, rd_pos = 0\<rparr>"
    by simp
  obtain x p' where x: "run_to_tick E (http_stream C P) V fuel t p = (x, p')" by (rule prod.exhaust)
  have fuel: "x \<noteq> OutOfFuel"
    using ending_hs.runs_fuel(2) [OF assms(3-5) TrueI, of p fuel C P t p', unfolded start] assms(6) x by (auto simp: rdr_left_def)
  show ?thesis
  proof (cases "x = Ok ()")
    case True
    obtain hs q where q: "commands_between (buf_header C) (\<lambda>h. buf_map (behind h)) (SbSeekable \<lparr>rd_data = concat packets, rd_pos = 0\<rparr>) hs q"
      "\<forall>h \<in> set hs. \<not> t <s ch_tick h" "cx_tick (ps_ctx p') = last (- 1 # map ch_tick hs)"
      "case buf_header C q of (Ok h, q') \<Rightarrow> t <s ch_tick h \<and> bh_stream_buffer (ps_demo_stream p') = q
         | (Err e, q') \<Rightarrow> buf_at_end q' | _ \<Rightarrow> False"
      using hs.run_to_tick_position [OF TrueI x [unfolded True], unfolded start] by (elim exE conjE) (rule that)
    from buffered_commands [OF q(1) refl] obtain r where r: "q = SbSeekable r"
      "commands_between (broadcast_read_cmd_header C) behind \<lparr>rd_data = concat packets, rd_pos = 0\<rparr> hs r" by blast
    with q show ?thesis unfolding x True prod.case outcome.case unit.case
      by (intro exI [of _ hs] exI [of _ r]) (auto split: prod.splits outcome.splits)
  qed (use fuel x in \<open>auto split: outcome.split\<close>)
qed


subsection \<open>An example\<close>

text \<open>A relay whose every answer is the same two commands with empty bodies, a sync tick of tick 1 and one of tick 5.\<close>

definition command_bytes :: "u8 list" where
  "command_bytes = [3, 1, 0, 0, 0, 0, 0, 0, 0, 0, 3, 5, 0, 0, 0, 0, 0, 0, 0, 0]"

definition command_relay :: "(unit, unit) world" where
  "command_relay = \<lparr>wo_now = (\<lambda>t. (0, t)), wo_sleep = (\<lambda>d t. t),
     wo_execute = (\<lambda>url t. (Inr (200, Inr command_bytes), t)),
     wo_uri_ok = (\<lambda>_. True), wo_json = (\<lambda>_. Some relay_sync), wo_max_instant = 2 ^ 62\<rparr>"

definition command_stream :: "reader \<Rightarrow> broadcast_http" where
  "command_stream c = relay_stream\<lparr>bh_stream_state := SsFullframe, bh_stream_buffer := SbSeekable c, bh_total_ticks := None\<rparr>"

definition command_header :: "i32 \<Rightarrow> cmd_header" where
  "command_header t = \<lparr>ch_cmd = 3, ch_body_compressed = False, ch_tick = t, ch_body_size = 0, ch_size = 10\<rparr>"

lemma command_get: "http_get command_relay url t = (Ok command_bytes, t)"
  by (simp add: http_get_def get_loop_step get_once_def command_relay_def failed_transiently_def
      is_client_error_def is_server_error_def)

lemma command_start:
  "start_streaming_and_buffer command_relay (str_lit ''tv'') ()
     = (Ok (relay_stream\<lparr>bh_stream_buffer := SbSeekable \<lparr>rd_data = [], rd_pos = 0\<rparr>\<rparr>), ())"
proof -
  have "wo_json command_relay x = Some relay_sync" for x by (simp add: command_relay_def)
  then show ?thesis
    by (simp add: start_streaming_and_buffer_def start_streaming_def get_sync_def bindM_def command_get liftO_def retM_def
        ok_or_def relay_stream_def relay_sync_def)
qed

lemma command_packets:
  "next_packets command_relay 1 ((), relay_stream\<lparr>bh_stream_buffer := SbSeekable \<lparr>rd_data = [], rd_pos = 0\<rparr>\<rparr>)
     = (map (Some \<circ> Ok) [command_bytes], ((), command_stream \<lparr>rd_data = command_bytes, rd_pos = 20\<rparr>))"
  by (simp add: next_packet_def handle_start_run relay_stream_fields command_get buffer_packet_def cursor_write_def command_stream_def)
    (simp add: command_bytes_def)

lemma command_headers:
  "broadcast_read_cmd_header example_cmds \<lparr>rd_data = command_bytes, rd_pos = 0\<rparr>
     = (Ok (command_header 1), \<lparr>rd_data = command_bytes, rd_pos = 10\<rparr>)"
  "broadcast_read_cmd_header example_cmds \<lparr>rd_data = command_bytes, rd_pos = 10\<rparr>
     = (Ok (command_header 5), \<lparr>rd_data = command_bytes, rd_pos = 20\<rparr>)"
  by (simp_all add: broadcast_read_cmd_header_def command_bytes_def read_exact_def bindM_def map_errM_def liftO_def retM_def
      cmd_try_from_def example_cmds_def command_header_def)


definition command_parser :: "nat \<Rightarrow> i32 \<Rightarrow> i32 \<Rightarrow> bool \<times> cmd_header list \<Rightarrow> (broadcast_http, bool \<times> cmd_header list) parser" where
  "command_parser n t t' v = (parser_from_stream (command_stream \<lparr>rd_data = command_bytes, rd_pos = n\<rparr>) v)\<lparr>
     ps_ctx := context_new\<lparr>cx_tick := t, cx_prev_tick := t'\<rparr>\<rparr>"

abbreviation buffered_stream :: "broadcast_http seekable_stream" where
  "buffered_stream \<equiv> http_stream (e_cmds example_env) example_protos"

lemma command_steps:
  "map_errM PeIo (parser_reset buffered_stream) (command_parser n t t' v) = (Ok (), command_parser 0 (- 1) (- 1) v)"
  "set_tick t'' (command_parser n t t' v) = (Ok (), command_parser n t'' t v)"
  "change_ctx (\<lambda>ctx. ctx\<lparr>cx_tick := cx_prev_tick ctx\<rparr>) (command_parser n t t' v) = (Ok (), command_parser n t' t' v)"
  "on_stream PeIo (unread_cmd_header buffered_stream (command_header t'')) (command_parser 20 t t' v) = (Ok (), command_parser 10 t t' v)"
  "dispatch example_env buffered_stream recorder CfHandle (command_header t'') (command_parser 10 t t' v)
     = (Ok (), command_parser 10 t t' (record_cmd (command_header t'') v))"
proof -
  show "map_errM PeIo (parser_reset buffered_stream) (command_parser n t t' v) = (Ok (), command_parser 0 (- 1) (- 1) v)"
    by (simp add: parser_reset_def bindM_def zoomM_def map_errM_def http_stream_simps http_seek_def seekable_def rdr_seek_def
      http_start_position_def command_parser_def command_stream_def parser_from_stream_def context_new_def entity_container_new_def
      entities_clear_def Let_def)
  show "on_stream PeIo (unread_cmd_header buffered_stream (command_header t'')) (command_parser 20 t t' v) = (Ok (), command_parser 10 t t' v)"
    by (simp add: on_stream_Ok_iff unread_cmd_header_def http_stream_simps http_seek_def seekable_def bindM_def rdr_seek_def
      command_header_def command_parser_def command_stream_def parser_from_stream_def retM_def Let_def)
  show "dispatch example_env buffered_stream recorder CfHandle (command_header t'') (command_parser 10 t t' v)
     = (Ok (), command_parser 10 t t' (record_cmd (command_header t'') v))"
    by (simp add: dispatch_def handle_cmd_def on_stream_def zoomM_def map_errM_def bindM_def http_stream_simps http_read_cmd_def
      on_buffer_def command_header_def visit_def match_cmd_def example_env_def example_cmds_def command_parser_def
      command_stream_def parser_from_stream_def retM_def get_ctx_def Let_def)
      (simp add: command_bytes_def)
qed (simp_all add: set_tick_run ticked_def change_ctx_def command_parser_def)

lemma command_read:
  assumes "broadcast_read_cmd_header example_cmds \<lparr>rd_data = command_bytes, rd_pos = n\<rparr> = (r, \<lparr>rd_data = command_bytes, rd_pos = m\<rparr>)"
  shows "zoomM ps_demo_stream (\<lambda>d p. p\<lparr>ps_demo_stream := d\<rparr>) (http_read_cmd_header (e_cmds example_env)) (command_parser n t t' v)
    = (r, command_parser m t t' v)"
  using assms by (simp add: zoom_stream_iff http_read_cmd_header_def on_buffer_def example_env_def command_parser_def
    command_stream_def parser_from_stream_def)

lemmas command_reads = command_headers [THEN command_read]

lemma command_to_tick:
  "run_to_tick_handler example_env buffered_stream recorder 2 (False, False) (command_header 1) p = (Ok (Some CfHandle, (True, False)), p)"
  "run_to_tick_handler example_env buffered_stream recorder 2 (True, False) (command_header 5) p = (Ok (None, (True, False)), p)"
  by (simp_all add: run_to_tick_handler_def command_header_def example_fields word_sless_alt)

theorem buffered_run_to_tick_witness:
  "\<exists>p' hs r. run_to_tick example_env buffered_stream recorder 21 2 (command_parser 20 (- 1) (- 1) (True, [])) = (Ok (), p')
    \<and> commands_between (broadcast_read_cmd_header example_cmds) behind \<lparr>rd_data = concat [command_bytes], rd_pos = 0\<rparr> hs r
    \<and> cx_tick (ps_ctx p') = last (- 1 # map ch_tick hs) \<and> cx_tick (ps_ctx p') = 1"
proof -
  have run: "run_to_tick example_env buffered_stream recorder 21 2 (command_parser 20 (- 1) (- 1) (True, []))
      = (Ok (), command_parser 10 1 1 (True, [command_header 1]))"
    unfolding run_to_tick_def
    by (simp add: loops_numeral http_stream_simps bindM_run command_steps command_reads command_to_tick record_cmd_def)
      (simp add: command_header_def command_steps(2) [unfolded command_header_def])
  have ds: "ps_demo_stream (command_parser 20 (- 1) (- 1) (True, [])) = command_stream \<lparr>rd_data = command_bytes, rd_pos = 20\<rparr>"
    by (simp add: command_parser_def parser_from_stream_def)
  have "length (concat [command_bytes]) < 21" by (simp add: command_bytes_def)
  note result = buffered_run_to_tick [OF command_start command_packets [folded ds] example_returns(2,3,1) this,
      of "e_cmds example_env" 2 example_protos, unfolded run prod.case outcome.case unit.case]
  obtain hs r where "commands_between (broadcast_read_cmd_header (e_cmds example_env)) behind \<lparr>rd_data = concat [command_bytes], rd_pos = 0\<rparr> hs r"
    "cx_tick (ps_ctx (command_parser 10 1 1 (True, [command_header 1]))) = last (- 1 # map ch_tick hs)"
    using result by (elim exE conjE) (rule that)
  moreover have "e_cmds example_env = example_cmds" "cx_tick (ps_ctx (command_parser 10 1 1 v)) = 1" for v
    by (simp_all add: example_env_def command_parser_def)
  ultimately show ?thesis using run by metis
qed

end
