(* ===== verification/WireFormat.thy ===== *)
theory WireFormat
  imports FieldDecoderLaws
begin

text \<open>
  How the values of fields look on the wire, for the decoders whose format is fixed by the bits alone, and that
  \<open>decode\<close> reads them back.  \<open>wire_laws\<close> adds to \<open>value_laws\<close> what the crate \<open>dungers\<close> documents of its other reads:
  bits and bytes into a buffer, LEB128 and zigzag integers, a new reader and the check for overflow.
\<close>

subsection \<open>Variable-length integers\<close>

text \<open>LEB128: seven bits a byte, least significant first, the top bit says that more follow.\<close>

fun leb128 :: "nat \<Rightarrow> u8 list" where
  "leb128 n = (if n < 128 then [of_nat n] else of_nat (128 + n mod 128) # leb128 (n div 128))"

declare leb128.simps [simp del]

text \<open>Zigzag: the sign in the lowest bit.\<close>

definition zigzag_code :: "'a::len word \<Rightarrow> nat" where
  "zigzag_code v = nat (if 0 \<le> sint v then 2 * sint v else - 2 * sint v - 1)"

definition integer_laws :: "'s bitbuf \<Rightarrow> ('s \<Rightarrow> bool list) \<Rightarrow> bool" where
  "integer_laws B bits \<longleftrightarrow>
     (\<forall>s v r. bits s = string_bits (leb128 (unat v)) @ r \<longrightarrow>
        (\<exists>s'. bb_read_uvarint32 B s = (Ok v, s') \<and> bits s' = r)) \<and>
     (\<forall>s v r. bits s = string_bits (leb128 (unat v)) @ r \<longrightarrow>
        (\<exists>s'. bb_read_uvarint B s = (Ok v, s') \<and> bits s' = r)) \<and>
     (\<forall>s v r. bits s = string_bits (leb128 (zigzag_code v)) @ r \<longrightarrow>
        (\<exists>s'. bb_read_varint64 B s = (Ok v, s') \<and> bits s' = r))"

text \<open>Reads into a buffer, which keeps what it holds behind the bytes that are written.  A reader starts at the first
  bit of the data, it has not overflowed where a successful read can leave it, and it counts the bits that are left.\<close>

definition buffer_laws :: "'s bitbuf \<Rightarrow> ('s \<Rightarrow> bool list) \<Rightarrow> bool" where
  "buffer_laws B bits \<longleftrightarrow>
     (\<forall>s buf bs r. bits s = bs @ r \<longrightarrow> bs \<noteq> [] \<longrightarrow> length bs \<le> 8 * length buf \<longrightarrow>
        (\<exists>s'. bb_read_bits B buf (length bs) s
           = (Ok (bytes_of_bits ((length bs + 7) div 8) bs @ drop ((length bs + 7) div 8) buf), s') \<and> bits s' = r)) \<and>
     (\<forall>s buf bytes r. bits s = string_bits bytes @ r \<longrightarrow> bytes \<noteq> [] \<longrightarrow> length bytes = length buf \<longrightarrow>
        (\<exists>s'. bb_read_bytes B buf s = (Ok bytes, s') \<and> bits s' = r)) \<and>
     (\<forall>data. 8 * length data < 2 ^ 64 \<longrightarrow> bits (bb_new B data) = string_bits data) \<and>
     (\<forall>data k s. bb_seek_relative B (int k) (bb_new B data) = (Ok (), s) \<longrightarrow> bb_is_overflowed B s = (Ok (), s)) \<and>
     (\<forall>s. bb_num_bits_left B s = length (bits s))"

definition wire_laws :: "'s bitbuf \<Rightarrow> ('s \<Rightarrow> bool list) \<Rightarrow> bool" where
  "wire_laws B bits \<longleftrightarrow> cursor_laws B \<and> value_laws B bits \<and> integer_laws B bits \<and> buffer_laws B bits"

lemma wire_lawsD: "wire_laws B bits \<Longrightarrow> cursor_laws B" "wire_laws B bits \<Longrightarrow> value_laws B bits"
  by (simp_all add: wire_laws_def)

lemma reads_on_inner:
  "(\<And>s r. bits s = bs @ r \<Longrightarrow> \<exists>s'. m s = (Ok x, s') \<and> bits s' = r) \<Longrightarrow> reads bits (on_inner m) bs x"
  by (fastforce simp: reads_def bits_ahead_def on_inner_def zoomM_def)

lemma reads_integers [reads_intros]:
  assumes "wire_laws B bits"
  shows "reads bits (read_uvarint32 B) (string_bits (leb128 (unat v))) v"
    and "reads bits (read_uvarint64 B) (string_bits (leb128 (unat w))) w"
    and "reads bits (read_varint64 B) (string_bits (leb128 (zigzag_code i))) i"
  using assms unfolding wire_laws_def integer_laws_def read_uvarint32_def read_uvarint64_def read_varint64_def
  by (intro reads_on_inner; blast)+

lemma reads_buffers [reads_intros]:
  assumes "wire_laws B bits"
  shows "length bs = n \<Longrightarrow> 0 < n \<Longrightarrow> n \<le> 8 * length buf \<Longrightarrow>
      reads bits (read_bits B buf n) bs (bytes_of_bits ((n + 7) div 8) bs @ drop ((n + 7) div 8) buf)"
    and "length bytes = length buf \<Longrightarrow> buf \<noteq> [] \<Longrightarrow> reads bits (read_bytes B buf) (string_bits bytes) bytes"
proof -
  have b: "buffer_laws B bits" using assms by (simp add: wire_laws_def)
  note read = b [unfolded buffer_laws_def, THEN conjunct1, rule_format]
    b [unfolded buffer_laws_def, THEN conjunct2, THEN conjunct1, rule_format]
  show "reads bits (read_bits B buf n) bs (bytes_of_bits ((n + 7) div 8) bs @ drop ((n + 7) div 8) buf)"
    if "length bs = n" "0 < n" "n \<le> 8 * length buf"
    unfolding read_bits_def using read(1) [of _ bs _ buf] that by (intro reads_on_inner) auto
  show "reads bits (read_bytes B buf) (string_bits bytes) bytes" if "length bytes = length buf" "buf \<noteq> []"
  proof -
    from that have "bytes \<noteq> []" by auto
    from read(2) [OF _ this that(1)] show ?thesis unfolding read_bytes_def by (intro reads_on_inner)
  qed
qed

lemma bits_ahead_new:
  "wire_laws B bits \<Longrightarrow> 8 * length data < 2 ^ 64 \<Longrightarrow> bits_ahead bits (bit_reader_new B data) = string_bits data"
  by (simp add: wire_laws_def buffer_laws_def bits_ahead_def bit_reader_new_def)

lemma bits_left: "wire_laws B bits \<Longrightarrow> num_bits_left B s = length (bits_ahead bits s)"
  by (simp add: wire_laws_def buffer_laws_def bits_ahead_def num_bits_left_def)

lemma not_overflowed:
  assumes "wire_laws B bits" "adv B k (bit_reader_new B data) s"
  shows "is_overflowed B s = (Ok (), s\<lparr>br_did_check_overflow := True\<rparr>)"
  using assms by (auto simp: wire_laws_def buffer_laws_def adv_def bit_reader_new_def is_overflowed_def on_inner_def zoomM_def)

subsection \<open>Floats\<close>

text \<open>The values that a quantized float writes as a flag: the flags are asked one after the other.\<close>

definition qf_flagged :: "quantized_float \<Rightarrow> f32 list" where
  "qf_flagged qf =
     (if has_flag (qf_encode_flags qf) QFE_ROUNDDOWN then [qf_low_value qf] else [])
     @ (if has_flag (qf_encode_flags qf) QFE_ROUNDUP then [qf_high_value qf] else [])
     @ (if has_flag (qf_encode_flags qf) QFE_ENCODE_ZERO_EXACTLY then [f_zero] else [])"

definition qf_step :: "quantized_float \<Rightarrow> u64 \<Rightarrow> f32" where
  "qf_step qf v = fl_add binary32 (qf_low_value qf)
     (fl_mul binary32 (fl_sub binary32 (qf_high_value qf) (qf_low_value qf))
       (fl_mul binary32 (f32_of_u64 v) (qf_decode_mul qf)))"

text \<open>A component of a unit vector, an angle and, from two components of a unit vector, the third.\<close>

definition normal_float :: "bool \<Rightarrow> bool list \<Rightarrow> f32" where
  "normal_float neg bs = signed_float neg (fl_mul binary32 (f32_of_u64 (word_of_bits bs)) NORMAL_RESOLUTION)"

definition angle_float :: "'s bitbuf \<Rightarrow> bool list \<Rightarrow> f32" where
  "angle_float B bs = fl_mul binary32 (f32_of_u64 (word_of_bits bs))
     (fl_div binary32 (fl_of_int binary32 360) (fl_of_int binary32 (bb_get_bit_for_bit_num B (length bs))))"

definition normal_rest :: "bool \<Rightarrow> f32 \<Rightarrow> f32 \<Rightarrow> f32" where
  "normal_rest neg x y =
     (let sq = fl_add binary32 (fl_mul binary32 x x) (fl_mul binary32 y y); one = fl_of_int binary32 1
      in signed_float neg (if fl_lt sq one then fl_sqrt binary32 (fl_sub binary32 one sq) else f_zero))"

lemma reads_bitnormal:
  "value_laws B bits \<Longrightarrow> length bs = 11 \<Longrightarrow> reads bits (read_bitnormal B) (neg # bs) (normal_float neg bs)"
  unfolding read_bitnormal_def
  by (intro reads_bindM_bool reads_bindM_last [OF reads_ubit64])
    (simp_all add: NORMAL_FRACTIONAL_BITS_def normal_float_def signed_float_def Let_def)

lemma reads_bitangle:
  "value_laws B bits \<Longrightarrow> length bs = n \<Longrightarrow> 0 < n \<Longrightarrow> n \<le> 64 \<Longrightarrow> reads bits (read_bitangle B n) bs (angle_float B bs)"
  unfolding read_bitangle_def Let_def
  by (intro reads_bindM_last [OF reads_ubit64]) (simp_all add: angle_float_def)

inductive coded_f32 :: "f32 \<Rightarrow> f32_decoder \<Rightarrow> bool list \<Rightarrow> f32 \<Rightarrow> bool" for interval where
  no_scale: "coded_f32 interval F32NoScale (bits_from_to (w :: u32) 0 32) (f32_from_bits w)"
| coord: "unat i \<le> 2 ^ 14 \<Longrightarrow> unat f < 32 \<Longrightarrow> coded_f32 interval F32Coord (encode_bitcoord neg i f) (coord_float neg i f)"
| normal: "length bs = 11 \<Longrightarrow> coded_f32 interval F32Normal (neg # bs) (normal_float neg bs)"
| simulation_time: "coded_f32 interval F32SimulationTime (string_bits (leb128 (unat (v :: u32))))
    (fl_mul binary32 (fl_of_int binary32 (uint v)) interval)"
| flagged: "i < length (qf_flagged qf) \<Longrightarrow>
    coded_f32 interval (F32Quantized qf) (replicate i False @ [True]) (qf_flagged qf ! i)"
| quantized: "length bs = qf_bits qf \<Longrightarrow> 0 < qf_bits qf \<Longrightarrow> qf_bits qf \<le> 64 \<Longrightarrow>
    coded_f32 interval (F32Quantized qf) (replicate (length (qf_flagged qf)) False @ bs) (qf_step qf (word_of_bits bs))"

inductive_cases coded_f32E: "coded_f32 interval d bs x"

lemma reads_if_flag:
  assumes "value_laws B bits"
  shows "reads bits early [] x \<Longrightarrow> flag \<Longrightarrow> reads bits (flag_or B flag early rest) [True] x"
    and "reads bits rest bs x \<Longrightarrow> reads bits (flag_or B flag early rest) ((if flag then [False] else []) @ bs) x"
  by (auto simp: flag_or_def intro!: reads_bindM_bool [OF assms])

lemma reads_f32_from_bits: "reads bits (read_bitfloat B) (bits_from_to (w :: u32) 0 32) (f32_from_bits w)" if "value_laws B bits"
proof -
  have "reads bits (read_ubit64 B 32) (bits_from_to w 0 32) (word_of_bits (bits_from_to w 0 32))"
    by (rule reads_ubit64 [OF that]) simp_all
  moreover have "word_of_bits (bits_from_to w 0 32) = (ucast w :: u64)"
    by (rule word_of_bits_whole) (auto dest: bit_imp_le_length)
  ultimately show ?thesis
    unfolding read_bitfloat_def by (auto intro!: reads_bindM_last simp: try_into_u32_ucast)
qed

lemma reads_flags:
  assumes "value_laws B bits"
  defines "decide \<equiv> \<lambda>fs rest. foldr (\<lambda>(flag, v). flag_or B flag (retM v)) fs rest"
  shows "i < length (filter fst fs) \<Longrightarrow> reads bits (decide fs rest) (replicate i False @ [True]) (map snd (filter fst fs) ! i)"
    and "reads bits rest bs x \<Longrightarrow> reads bits (decide fs rest) (replicate (length (filter fst fs)) False @ bs) x"
proof (induction fs arbitrary: i)
  case (Cons f fs)
  { case 1
    with Cons(1) [of "i - 1"] Cons(1) [of i] show ?case
      by (cases f; cases i) (auto simp: decide_def flag_or_def intro!: reads_bindM_bool [OF assms(1)] reads_retM)
  next
    case 2
    with Cons(2) show ?case
      by (cases f) (auto simp: decide_def flag_or_def intro!: reads_bindM_bool [OF assms(1)])
  }
qed (simp_all add: decide_def)

lemma reads_quantized:
  assumes "value_laws B bits"
  shows "i < length (qf_flagged qf) \<Longrightarrow> reads bits (qf_decode B qf) (replicate i False @ [True]) (qf_flagged qf ! i)"
    and "length bs = qf_bits qf \<Longrightarrow> 0 < qf_bits qf \<Longrightarrow> qf_bits qf \<le> 64 \<Longrightarrow>
      reads bits (qf_decode B qf) (replicate (length (qf_flagged qf)) False @ bs) (qf_step qf (word_of_bits bs))"
proof -
  define fs where "fs = [(has_flag (qf_encode_flags qf) QFE_ROUNDDOWN, qf_low_value qf),
    (has_flag (qf_encode_flags qf) QFE_ROUNDUP, qf_high_value qf),
    (has_flag (qf_encode_flags qf) QFE_ENCODE_ZERO_EXACTLY, f_zero)]"
  define rest where "rest = bindM (read_ubit64 B (qf_bits qf)) (\<lambda>v. retM (qf_step qf v))"
  have decode: "qf_decode B qf = foldr (\<lambda>(flag, v). flag_or B flag (retM v)) fs rest"
    by (simp add: qf_decode_def fs_def rest_def qf_step_def Let_def)
  have flagged: "qf_flagged qf = map snd (filter fst fs)"
    by (simp add: qf_flagged_def fs_def)
  show "i < length (qf_flagged qf) \<Longrightarrow> reads bits (qf_decode B qf) (replicate i False @ [True]) (qf_flagged qf ! i)"
    using reads_flags(1) [OF assms, of i fs rest] by (simp add: decode flagged)
  assume "length bs = qf_bits qf" "0 < qf_bits qf" "qf_bits qf \<le> 64"
  then have "reads bits rest bs (qf_step qf (word_of_bits bs))"
    unfolding rest_def by (intro reads_bindM_last [OF reads_ubit64 [OF assms]]) simp_all
  from reads_flags(2) [OF assms this, of fs]
  show "reads bits (qf_decode B qf) (replicate (length (qf_flagged qf)) False @ bs) (qf_step qf (word_of_bits bs))"
    by (simp add: decode flagged)
qed

subsection \<open>Reading with a context\<close>

text \<open>\<open>m\<close> reads the bits \<open>bs\<close> and returns \<open>x\<close>, in the context \<open>ctx\<close>, which it keeps.\<close>

definition reads_in ::
    "('s \<Rightarrow> bool list) \<Rightarrow> 'c \<Rightarrow> ('c \<times> 's bit_reader, 'e, 'a) rm \<Rightarrow> bool list \<Rightarrow> 'a \<Rightarrow> bool" where
  "reads_in bits ctx m bs x \<longleftrightarrow>
     (\<forall>s r. bits_ahead bits s = bs @ r \<longrightarrow> (\<exists>s'. m (ctx, s) = (Ok x, (ctx, s')) \<and> bits_ahead bits s' = r))"

lemma reads_in_retM: "reads_in bits ctx (retM x) [] x"
  by (simp add: reads_in_def)

lemma reads_in_on_reader: "reads bits m bs x \<Longrightarrow> reads_in bits ctx (on_reader m) bs x"
  by (fastforce simp: reads_in_def reads_def on_reader_def zoomM_def)

lemma reads_in_map_errM: "reads_in bits ctx m bs x \<Longrightarrow> reads_in bits ctx (map_errM f m) bs x"
  by (simp add: reads_in_def)

lemma reads_in_dec_bits: "reads bits m bs x \<Longrightarrow> reads_in bits ctx (dec_bits m) bs x"
  unfolding dec_bits_def by (intro reads_in_map_errM reads_in_on_reader)

lemma reads_in_bindM:
  assumes "reads_in bits ctx m bs x" "reads_in bits ctx (f x) bs' y"
  shows "reads_in bits ctx (bindM m f) (bs @ bs') y"
  unfolding reads_in_def
proof (intro allI impI)
  fix s r assume "bits_ahead bits s = (bs @ bs') @ r"
  then obtain s1 where "m (ctx, s) = (Ok x, (ctx, s1))" "bits_ahead bits s1 = bs' @ r"
    using assms(1) unfolding reads_in_def by (metis append.assoc)
  with assms(2) show "\<exists>s'. bindM m f (ctx, s) = (Ok y, (ctx, s')) \<and> bits_ahead bits s' = r"
    unfolding reads_in_def by (metis bindM_run(1))
qed

lemma reads_in_last: "reads_in bits ctx m bs x \<Longrightarrow> f x = retM y \<Longrightarrow> reads_in bits ctx (bindM m f) bs y"
  using reads_in_bindM [of bits ctx m bs x f "[]" y] by (simp add: reads_in_retM)

lemma f32_decode_reads:
  assumes laws: "wire_laws B bits" and "coded_f32 (tick_interval ctx) d bs x"
  shows "reads_in bits ctx (dec_f32 B d) bs x"
  using assms(2) unfolding dec_f32_def
proof (intro reads_in_map_errM, cases rule: coded_f32.cases)
  case (no_scale w)
  then show "reads_in bits ctx (f32_decode B d) bs x"
    by (simp add: f32_decode_def reads_in_on_reader reads_f32_from_bits wire_lawsD(2) [OF laws])
next
  case (normal bs' neg)
  with reads_bitnormal [OF wire_lawsD(2) [OF laws]] show "reads_in bits ctx (f32_decode B d) bs x"
    by (simp add: f32_decode_def reads_in_on_reader)
next
  case (coord i f neg)
  with reads_bitcoord [OF wire_lawsD(2) [OF laws]] show "reads_in bits ctx (f32_decode B d) bs x"
    by (simp add: f32_decode_def reads_in_on_reader)
next
  case (simulation_time v)
  show "reads_in bits ctx (f32_decode B d) bs x" unfolding reads_in_def
  proof (intro allI impI)
    fix s r assume "bits_ahead bits s = bs @ r"
    then obtain s' where "read_uvarint32 B s = (Ok v, s')" "bits_ahead bits s' = r"
      using readsD [OF reads_integers(1) [OF laws]] simulation_time by blast
    then show "\<exists>s'. f32_decode B d (ctx, s) = (Ok x, (ctx, s')) \<and> bits_ahead bits s' = r"
      by (auto simp: simulation_time f32_decode_def bindM_def on_reader_def zoomM_def)
  qed
qed (simp_all add: f32_decode_def reads_in_on_reader reads_quantized wire_lawsD(2) [OF laws])

subsection \<open>Values of fields\<close>

text \<open>The optional components of angles and vectors: whether they fit, their bits and their values.\<close>

definition normal_small :: "(bool \<times> bool list) option \<Rightarrow> bool" where
  "normal_small x = (case x of None \<Rightarrow> True | Some (neg, bs) \<Rightarrow> length bs = 11)"
definition normal_part :: "(bool \<times> bool list) option \<Rightarrow> bool list" where
  "normal_part x = (case x of None \<Rightarrow> [] | Some (neg, bs) \<Rightarrow> neg # bs)"
definition normal_value :: "(bool \<times> bool list) option \<Rightarrow> f32" where
  "normal_value x = (case x of None \<Rightarrow> f_zero | Some (neg, bs) \<Rightarrow> normal_float neg bs)"

definition coord_small :: "(bool \<times> u64 \<times> u64) option \<Rightarrow> bool" where
  "coord_small x = (case x of None \<Rightarrow> True | Some (neg, i, f) \<Rightarrow> unat i \<le> 2 ^ 14 \<and> unat f < 32)"
definition coord_part :: "(bool \<times> u64 \<times> u64) option \<Rightarrow> bool list" where
  "coord_part x = (case x of None \<Rightarrow> [] | Some (neg, i, f) \<Rightarrow> encode_bitcoord neg i f)"
definition coord_value :: "(bool \<times> u64 \<times> u64) option \<Rightarrow> f32" where
  "coord_value x = (case x of None \<Rightarrow> f_zero | Some (neg, i, f) \<Rightarrow> coord_float neg i f)"

definition angle_small :: "bool list option \<Rightarrow> bool" where
  "angle_small x = (case x of None \<Rightarrow> True | Some bs \<Rightarrow> length bs = 20)"
definition angle_part :: "bool list option \<Rightarrow> bool list" where
  "angle_part x = (case x of None \<Rightarrow> [] | Some bs \<Rightarrow> bs)"
definition angle_value :: "'s bitbuf \<Rightarrow> bool list option \<Rightarrow> f32" where
  "angle_value B x = (case x of None \<Rightarrow> f_zero | Some bs \<Rightarrow> angle_float B bs)"

lemma reads_parts:
  assumes "value_laws B bits"
  shows "normal_small x \<Longrightarrow> reads bits (if x \<noteq> None then read_bitnormal B else retM f_zero) (normal_part x) (normal_value x)"
    and "coord_small y \<Longrightarrow> reads bits (if y \<noteq> None then read_bitcoord B else retM f_zero) (coord_part y) (coord_value y)"
    and "angle_small z \<Longrightarrow> reads_in bits ctx (angle_if B (z \<noteq> None)) (angle_part z) (angle_value B z)"
  using assms
  by (auto simp: normal_small_def normal_part_def normal_value_def coord_small_def coord_part_def coord_value_def
      angle_small_def angle_part_def angle_value_def angle_if_def split: option.splits
      intro!: reads_retM reads_bitnormal reads_bitcoord reads_in_retM reads_in_dec_bits reads_bitangle)

inductive coded :: "'s bitbuf \<Rightarrow> f32 \<Rightarrow> field_decoder \<Rightarrow> bool list \<Rightarrow> field_value \<Rightarrow> bool" for B interval where
  bool: "coded B interval BoolDecoder [b] (FvBool b)"
| signed: "coded B interval I64Decoder (string_bits (leb128 (zigzag_code i))) (FvI64 i)"
| unsigned: "coded B interval (U64Decoder U64Varint) (string_bits (leb128 (unat u))) (FvU64 u)"
| fixed: "length bytes = 8 \<Longrightarrow> coded B interval (U64Decoder U64Fixed64) (string_bits bytes) (FvU64 (from_le_bytes bytes))"
| string: "0 \<notin> set cs \<Longrightarrow> coded B interval StringDecoder (string_bits (cs @ [0])) (FvString cs)"
| float: "coded_f32 interval d bs x \<Longrightarrow> coded B interval (F32Decoder d) bs (FvF32 x)"
| vector2: "coded_f32 interval d b1 x \<Longrightarrow> coded_f32 interval d b2 y \<Longrightarrow>
    coded B interval (Vector2Decoder d) (b1 @ b2) (FvVector2 (x, y))"
| vector3: "coded_f32 interval d b1 x \<Longrightarrow> coded_f32 interval d b2 y \<Longrightarrow> coded_f32 interval d b3 z \<Longrightarrow>
    coded B interval (Vector3Decoder (Vector3Default d)) (b1 @ b2 @ b3) (FvVector3 (x, y, z))"
| vector4: "coded_f32 interval d b1 x \<Longrightarrow> coded_f32 interval d b2 y \<Longrightarrow> coded_f32 interval d b3 z \<Longrightarrow>
    coded_f32 interval d b4 w \<Longrightarrow>
    coded B interval (Vector4Decoder d) (b1 @ b2 @ b3 @ b4) (FvVector4 (x, y, z, w))"
| unit_vector: "normal_small x \<Longrightarrow> normal_small y \<Longrightarrow>
    coded B interval (Vector3Decoder Vector3Normal)
      ([x \<noteq> None, y \<noteq> None] @ normal_part x @ normal_part y @ [neg])
      (FvVector3 (normal_value x, normal_value y, normal_rest neg (normal_value x) (normal_value y)))"
| pitch_yaw: "length b1 = n \<Longrightarrow> length b2 = n \<Longrightarrow> 0 < n \<Longrightarrow> n \<le> 64 \<Longrightarrow>
    coded B interval (QAngleDecoder (QAnglePitchYaw n)) (b1 @ b2) (FvQAngle (angle_float B b1, angle_float B b2, f_zero))"
| bit_count: "length b1 = n \<Longrightarrow> length b2 = n \<Longrightarrow> length b3 = n \<Longrightarrow> 0 < n \<Longrightarrow> n \<le> 64 \<Longrightarrow>
    coded B interval (QAngleDecoder (QAngleBitCount n)) (b1 @ b2 @ b3)
      (FvQAngle (angle_float B b1, angle_float B b2, angle_float B b3))"
| no_bit_count: "coord_small x \<Longrightarrow> coord_small y \<Longrightarrow> coord_small z \<Longrightarrow>
    coded B interval (QAngleDecoder QAngleNoBitCount)
      ([x \<noteq> None, y \<noteq> None, z \<noteq> None] @ coord_part x @ coord_part y @ coord_part z)
      (FvQAngle (coord_value x, coord_value y, coord_value z))"
| precise: "angle_small x \<Longrightarrow> angle_small y \<Longrightarrow> angle_small z \<Longrightarrow>
    coded B interval (QAngleDecoder QAnglePrecise)
      ([x \<noteq> None, y \<noteq> None, z \<noteq> None] @ angle_part x @ angle_part y @ angle_part z)
      (FvQAngle (angle_value B x, angle_value B y, angle_value B z))"

lemma string_to_end_value:
  assumes laws: "value_laws B bits"
  shows "\<lbrakk>bits_ahead bits s = string_bits (cs @ [0]) @ r; 0 \<notin> set cs;
     fst (read_string_to_end_loop B False fuel n (buf, s)) \<noteq> OutOfFuel\<rbrakk>
   \<Longrightarrow> \<exists>s'. read_string_to_end_loop B False fuel n (buf, s) = (Ok (n + length cs), (buf @ cs, s')) \<and> bits_ahead bits s' = r"
proof (induction cs arbitrary: s fuel buf n)
  case Nil
  then obtain k where "fuel = Suc k" by (cases fuel) (auto simp: rm_simps)
  moreover obtain s' where "read_byte B s = (Ok 0, s')" "bits_ahead bits s' = r"
    using read_byte_ahead [OF laws, of s 0 r] Nil by (auto simp: string_bits_def)
  ultimately show ?case by (simp add: on_reader_def zoomM_def rm_simps ends_string_def)
next
  case (Cons c cs)
  then obtain k where k: "fuel = Suc k" by (cases fuel) (auto simp: rm_simps)
  obtain s' where s': "read_byte B s = (Ok c, s')" "bits_ahead bits s' = string_bits (cs @ [0]) @ r"
    using read_byte_ahead [OF laws, of s c "string_bits (cs @ [0]) @ r"] Cons.prems by (auto simp: string_bits_def)
  have run: "read_string_to_end_loop B False fuel n (buf, s) = read_string_to_end_loop B False k (Suc n) (buf @ [c], s')"
    using s'(1) Cons.prems(2) by (simp add: k on_reader_def zoomM_def rm_simps ends_string_def)
  from Cons.IH [OF s'(2), of k "Suc n" "buf @ [c]"] Cons.prems(2,3) show ?case unfolding run by auto
qed

lemma string_decode_reads:
  assumes laws: "wire_laws B bits" and "0 \<notin> set cs" "string_buf ctx = []"
  shows "reads_in bits ctx (string_decode B) (string_bits (cs @ [0])) (FvString cs)"
  unfolding reads_in_def
proof (intro allI impI)
  fix s r assume ahead: "bits_ahead bits s = string_bits (cs @ [0]) @ r"
  have "fst (read_string_to_end B False ([], s)) \<noteq> OutOfFuel"
    using read_string_to_end_no_fuel [OF wire_lawsD(1) [OF laws]] unfolding no_fuel_def by blast
  then have "fst (read_string_to_end_loop B False (Suc (num_bits_left B s)) 0 ([], s)) \<noteq> OutOfFuel"
    unfolding read_string_to_end_def snd_conv .
  from string_to_end_value [OF wire_lawsD(2) [OF laws] ahead assms(2) this]
  obtain s' where s': "read_string_to_end B False ([], s) = (Ok (length cs), (cs, s'))" "bits_ahead bits s' = r"
    unfolding read_string_to_end_def snd_conv by auto
  moreover have "ctx\<lparr>string_buf := []\<rparr> = ctx" using assms(3) by (cases ctx) simp
  ultimately show "\<exists>s'. string_decode B (ctx, s) = (Ok (FvString cs), (ctx, s')) \<and> bits_ahead bits s' = r"
    using assms(3) by (auto simp: string_decode_def slice_to_def)
qed

lemma reads_in_bool:
  "value_laws B bits \<Longrightarrow> reads_in bits ctx (f b) bs y \<Longrightarrow> reads_in bits ctx (bindM (dec_bits (read_bool B)) f) (b # bs) y"
  using reads_in_bindM [where f = f, OF reads_in_dec_bits [OF reads_bool [of B bits b]]] by fastforce

lemma field_decode_reads:
  assumes laws: "wire_laws B bits" and ctx: "string_buf ctx = []" and "coded B (tick_interval ctx) d bs v"
  shows "reads_in bits ctx (field_decode B d) bs v"
proof -
  note V = wire_lawsD(2) [OF laws]
  note angle = reads_in_dec_bits [OF reads_bitangle [OF V]] and part = reads_parts [OF V]
    and float = f32_decode_reads [OF laws]
  show ?thesis
    using assms(3)
  proof (cases rule: coded.cases)
    case (fixed bytes)
    then show ?thesis
      using reads_in_dec_bits [OF reads_buffers(2) [OF laws, of bytes "replicate 8 0"]]
      by (simp add: field_decode_def u64_decode_def, intro reads_in_last [where x = bytes]) simp_all
  next
    case (string cs)
    then show ?thesis by (simp add: field_decode_def string_decode_reads laws ctx)
  next
    case (unit_vector x y neg)
    have "reads bits (read_bitvec3normal B) ([x \<noteq> None, y \<noteq> None] @ normal_part x @ normal_part y @ [neg])
        (normal_value x, normal_value y, normal_rest neg (normal_value x) (normal_value y))"
      unfolding read_bitvec3normal_def append.simps
      by (intro reads_bindM_bool V reads_bindM [OF part(1)])
        (auto simp: unit_vector normal_rest_def signed_float_def Let_def intro!: reads_retM)
    then show ?thesis unfolding unit_vector field_decode_def field_decoder.case vector3_decode_def vector3_decoder.case
      by (intro reads_in_last [OF reads_in_dec_bits]) simp_all
  next
    case (pitch_yaw b1 n b2)
    then show ?thesis unfolding pitch_yaw(1-3) field_decode_def field_decoder.case qangle_decode_def qangle_decoder.case
      by (intro reads_in_bindM [OF angle reads_in_last [OF angle]]) simp_all
  next
    case (bit_count b1 n b2 b3)
    then show ?thesis unfolding bit_count(1-3) field_decode_def field_decoder.case qangle_decode_def qangle_decoder.case
      by (intro reads_in_bindM [OF angle reads_in_bindM [OF angle reads_in_last [OF angle]]]) simp_all
  next
    case (no_bit_count x y z)
    have "reads bits (read_bitvec3coord B) ([x \<noteq> None, y \<noteq> None, z \<noteq> None] @ coord_part x @ coord_part y @ coord_part z)
        (coord_value x, coord_value y, coord_value z)"
      unfolding read_bitvec3coord_def append.simps
      by (intro reads_bindM_bool V reads_bindM [OF part(2) reads_bindM [OF part(2) reads_bindM_last [OF part(2)]]] no_bit_count) simp_all
    then show ?thesis unfolding no_bit_count field_decode_def field_decoder.case qangle_decode_def qangle_decoder.case
      by (intro reads_in_last [OF reads_in_dec_bits]) simp_all
  next
    case (precise x y z)
    show ?thesis unfolding precise(1-3) field_decode_def field_decoder.case qangle_decode_def qangle_decoder.case append.simps
      by (intro reads_in_bool V reads_in_bindM [OF part(3) reads_in_bindM [OF part(3) reads_in_last [OF part(3)]]] precise) simp_all
  next
    case (vector2 d b1 x b2 y)
    then show ?thesis unfolding vector2 field_decode_def field_decoder.case vector2_decode_def
      by (intro reads_in_bindM reads_in_last [OF float] float) simp_all
  next
    case (vector3 d b1 x b2 y b3 z)
    then show ?thesis unfolding vector3 field_decode_def field_decoder.case vector3_decode_def vector3_decoder.case
      by (intro reads_in_bindM reads_in_last [OF float] float) simp_all
  next
    case (vector4 d b1 x b2 y b3 z b4 w)
    then show ?thesis unfolding vector4 field_decode_def field_decoder.case vector4_decode_def
      by (intro reads_in_bindM reads_in_last [OF float] float) simp_all
  qed (auto simp: field_decode_def u64_decode_def intro!: reads_in_last reads_in_dec_bits reads_bool reads_integers
      f32_decode_reads wire_lawsD(2) laws)
qed

subsection \<open>The reference reader\<close>

lemma string_bits_Cons: "string_bits (c # cs) = bits_from_to c 0 8 @ string_bits cs"
  by (simp add: string_bits_def)

lemma bits_byte: "take 7 (bits_from_to (b :: u8) 0 8) = bits_from_to b 0 7" "bits_from_to b 0 8 ! 7 = bit b 7"
  by (simp_all add: bits_from_to_def take_map)

text \<open>A byte of seven bits of \<open>n\<close> and the bit that says whether more follow.\<close>

lemma leb128_byte:
  "n < 128 \<Longrightarrow> \<not> bit (of_nat n :: u8) 7" "bit (of_nat (128 + n mod 128) :: u8) 7"
  "j < 7 \<Longrightarrow> bit (of_nat (128 + n mod 128) :: u8) j \<longleftrightarrow> bit n j"
proof -
  have seven: "bit (128 :: nat) j \<longleftrightarrow> j = 7" for j using bit_exp_iff [where 'a = nat and m = 7] by (simp add: possible_bit_nat)
  have "n mod 128 = take_bit 7 n" by (simp add: take_bit_eq_mod)
  moreover have "128 + take_bit 7 n = 128 OR take_bit 7 n"
    by (subst disjunctive_add) (auto simp: bit_take_bit_iff seven)
  ultimately have more: "bit (128 + n mod 128) j \<longleftrightarrow> j = 7 \<or> j < 7 \<and> bit n j" for j
    by (auto simp: bit_or_iff seven bit_take_bit_iff)
  have "n < 128 \<Longrightarrow> take_bit 7 n = n" by (simp add: take_bit_nat_eq_self)
  then show "n < 128 \<Longrightarrow> \<not> bit (of_nat n :: u8) 7" by (metis bit_of_nat_iff bit_take_bit_iff less_irrefl)
  show "bit (of_nat (128 + n mod 128) :: u8) 7" "j < 7 \<Longrightarrow> bit (of_nat (128 + n mod 128) :: u8) j \<longleftrightarrow> bit n j"
    by (simp_all add: bit_of_nat_iff more del: of_nat_add)
qed

lemma word_of_low_bits:
  "(\<And>j. j < 7 \<Longrightarrow> bit b j \<longleftrightarrow> bit n j) \<Longrightarrow> (word_of_bits (bits_from_to (b :: u8) 0 7) :: u64) = of_nat (n mod 128)"
proof (rule bit_word_eqI)
  fix j assume b: "\<And>j. j < 7 \<Longrightarrow> bit b j \<longleftrightarrow> bit n j" and "j < LENGTH(64)"
  have "n mod 128 = take_bit 7 n" by (simp add: take_bit_eq_mod)
  with b [of j] show "bit (word_of_bits (bits_from_to b 0 7) :: u64) j \<longleftrightarrow> bit (of_nat (n mod 128) :: u64) j"
    using \<open>j < LENGTH(64)\<close> by (auto simp: bit_word_of_bits_from_to bit_of_nat_iff bit_take_bit_iff)
qed

lemma seven_and_rest: "push_bit (7 * i) (of_nat (n mod 128)) OR push_bit (7 * Suc i) (of_nat (n div 128)) = (push_bit (7 * i) (of_nat n) :: u64)"
proof (rule bit_word_eqI)
  fix j assume "j < LENGTH(64)"
  have "n mod 128 = take_bit 7 n" "n div 128 = drop_bit 7 n" by (simp_all add: take_bit_eq_mod drop_bit_eq_div)
  moreover have "7 * i \<le> j \<Longrightarrow> \<not> 7 * Suc i \<le> j \<longleftrightarrow> j - 7 * i < 7" by auto
  moreover have "7 * Suc i \<le> j \<Longrightarrow> 7 + (j - 7 * Suc i) = j - 7 * i" by auto
  ultimately show "bit (push_bit (7 * i) (of_nat (n mod 128)) OR push_bit (7 * Suc i) (of_nat (n div 128)) :: u64) j
      \<longleftrightarrow> bit (push_bit (7 * i) (of_nat n) :: u64) j"
    using \<open>j < LENGTH(64)\<close> by (auto simp: bit_or_iff bit_push_bit_iff bit_of_nat_iff bit_take_bit_iff bit_drop_bit_eq)
qed

lemma ref_uvarint_value:
  "ref_bits s = string_bits (leb128 n) @ r \<Longrightarrow> n < 128 ^ fuel \<Longrightarrow> 0 < fuel \<Longrightarrow>
   \<exists>s'. ref_uvarint fuel i acc s = (Ok (acc OR push_bit (7 * i) (of_nat n)), s') \<and> ref_bits s' = r"
proof (induction n arbitrary: fuel i acc s rule: leb128.induct)
  case (1 n)
  obtain k where k: "fuel = Suc k" using 1(4) by (cases fuel) auto
  show ?case
  proof (cases "n < 128")
    case True
    have "ref_bits s = bits_from_to (of_nat n :: u8) 0 8 @ r" using 1(2) True by (subst (asm) leb128.simps) (simp add: string_bits_Cons string_bits_def)
    from ref_take_bits [OF this] obtain s' where s': "ref_take 8 s = (Ok (bits_from_to (of_nat n :: u8) 0 8), s')" "ref_bits s' = r"
      by (auto simp: bits_from_to_def)
    have "(word_of_bits (bits_from_to (of_nat n :: u8) 0 7) :: u64) = of_nat n"
      using word_of_low_bits [of "of_nat n" n] True by (simp add: bit_of_nat_iff)
    with s' leb128_byte(1) [OF True] show ?thesis by (simp add: k bindM_def bits_byte Let_def retM_def)
  next
    case False
    then have "ref_bits s = bits_from_to (of_nat (128 + n mod 128) :: u8) 0 8 @ string_bits (leb128 (n div 128)) @ r"
      using 1(2) by (subst (asm) leb128.simps) (simp add: string_bits_Cons)
    from ref_take_bits [OF this] obtain s1 where s1: "ref_take 8 s = (Ok (bits_from_to (of_nat (128 + n mod 128) :: u8) 0 8), s1)"
      "ref_bits s1 = string_bits (leb128 (n div 128)) @ r" by (auto simp: bits_from_to_def)
    have low: "(word_of_bits (bits_from_to (of_nat (128 + n mod 128) :: u8) 0 7) :: u64) = of_nat (n mod 128)"
      by (rule word_of_low_bits) (rule leb128_byte(3))
    have "n div 128 < 128 ^ k" using 1(3) k by (simp add: less_mult_imp_div_less mult.commute)
    moreover have "0 < k" using 1(3) False k by (cases k) auto
    ultimately show ?thesis using s1(1) leb128_byte(2) [of n] low
      1(1) [OF False s1(2), of k "Suc i" "acc OR push_bit (7 * i) (of_nat (n mod 128))"]
      by (simp add: k bindM_def bits_byte Let_def or.assoc seven_and_rest del: of_nat_add mult_Suc_right)
  qed
qed

lemma drop_one_bit: "m < 2 ^ 63 \<Longrightarrow> b < 2 \<Longrightarrow> drop_bit 1 (of_nat (2 * m + b)) = (of_nat m :: u64)"
proof -
  assume m: "m < 2 ^ 63" "b < 2"
  have half: "unat (drop_bit 1 w) = unat w div 2" for w :: u64
    by (subst unat_drop_bit_eq) (simp add: drop_bit_eq_div)
  have "unat (of_nat (2 * m + b) :: u64) = 2 * m + b" "unat (of_nat m :: u64) = m"
    using m by (simp_all add: unat_of_nat del: of_nat_add of_nat_mult)
  with m half [of "of_nat (2 * m + b)"] show ?thesis by (simp only: word_unat_eq_iff)
qed

lemma zigzag_value: "zigzag (of_nat (zigzag_code v)) = (v :: i64)"
proof (cases "0 \<le> sint v")
  case True
  define m where "m = nat (sint v)"
  have m: "m < 2 ^ 63" "zigzag_code v = 2 * m + 0" "v = of_nat m"
    using True sint_lt [of v] by (simp_all add: m_def zigzag_code_def)
  have "even (of_nat (2 * m) :: u64)" by simp
  then have "(of_nat (2 * m) :: u64) AND 1 = 0" by (simp only: and_one_eq even_iff_mod_2_eq_zero)
  with drop_one_bit [OF m(1), of 0] show ?thesis unfolding zigzag_def m(2) by (simp flip: m(3))
next
  case False
  define m where "m = nat (- sint v - 1)"
  have m: "m < 2 ^ 63" "zigzag_code v = 2 * m + 1" "v = NOT (of_nat m)"
    using False sint_ge [of v] by (simp_all add: m_def zigzag_code_def not_eq_complement)
  have "(of_nat (2 * m + 1) :: u64) AND 1 = 1"
    by (rule bit_word_eqI) (auto simp: bit_and_iff bit_1_iff bit_of_nat_iff bit_0 simp del: of_nat_mult of_nat_add)
  with drop_one_bit [OF m(1), of 1] show ?thesis unfolding zigzag_def m(2) by (simp add: m(3) [symmetric])
qed

text \<open>The reader of the witnesses meets the laws.\<close>

lemma ref_integer_laws: "integer_laws ref_bitbuf ref_bits"
  unfolding integer_laws_def
proof (intro conjI allI impI)
  note decoded = ref_uvarint_value [where i = 0 and acc = 0, simplified]
  show "\<exists>s'. bb_read_uvarint32 ref_bitbuf s = (Ok v, s') \<and> ref_bits s' = r"
    if "ref_bits s = string_bits (leb128 (unat v)) @ r" for s v r
    using decoded [OF that, of 5] unsigned_less [of v, where 'a = nat] by (auto simp: ref_bitbuf_def bindM_def retM_def ucast_up_ucast is_up ucast_id)
  show "\<exists>s'. bb_read_uvarint ref_bitbuf s = (Ok v, s') \<and> ref_bits s' = r"
    if "ref_bits s = string_bits (leb128 (unat v)) @ r" for s v r
    using decoded [OF that, of 10] unsigned_less [of v, where 'a = nat] by (auto simp: ref_bitbuf_def)
  show "\<exists>s'. bb_read_varint64 ref_bitbuf s = (Ok v, s') \<and> ref_bits s' = r"
    if "ref_bits s = string_bits (leb128 (zigzag_code v)) @ r" for s v r
  proof -
    have "zigzag_code v < 128 ^ 10" using sint_range_size [of v] by (auto simp: zigzag_code_def word_size)
    with decoded [OF that, of 10] show ?thesis by (auto simp: ref_bitbuf_def bindM_def retM_def zigzag_value)
  qed
qed

lemma bytes_of_string_bits: "bytes_of_bits (length bytes) (string_bits bytes) = bytes"
proof (induction bytes)
  case (Cons b bytes)
  have "word_of_bits (bits_from_to b 0 8) = b" by (rule bit_word_eqI) (simp add: bit_word_of_bits_from_to)
  with Cons show ?case by (simp add: string_bits_Cons)
qed (simp add: string_bits_def)

lemma length_string_bits [simp]: "length (string_bits cs) = 8 * length cs"
  by (induction cs) (simp_all add: string_bits_Cons, simp add: string_bits_def)

lemma ref_buffer_laws: "buffer_laws ref_bitbuf ref_bits"
  unfolding buffer_laws_def
proof (intro conjI allI impI)
  show "\<exists>s'. bb_read_bits ref_bitbuf buf (length bs) s
      = (Ok (bytes_of_bits ((length bs + 7) div 8) bs @ drop ((length bs + 7) div 8) buf), s') \<and> ref_bits s' = r"
    if "ref_bits s = bs @ r" "bs \<noteq> []" "length bs \<le> 8 * length buf" for s buf bs r
    using ref_take_bits [OF that(1,2)] that(3) by (auto simp: ref_bitbuf_def bindM_def retM_def)
  show "\<exists>s'. bb_read_bytes ref_bitbuf buf s = (Ok bytes, s') \<and> ref_bits s' = r"
    if "ref_bits s = string_bits bytes @ r" "bytes \<noteq> []" "length bytes = length buf" for s buf bytes r
  proof -
    have "string_bits bytes \<noteq> []" using that(2) by (metis length_string_bits length_0_conv mult_eq_0_iff zero_neq_numeral)
    from ref_take_bits [OF that(1) this] that(3) bytes_of_string_bits [of bytes] show ?thesis
      by (auto simp: ref_bitbuf_def bindM_def retM_def)
  qed
  show "ref_bits (bb_new ref_bitbuf data) = string_bits data" if "8 * length data < 2 ^ 64" for data
  proof -
    have "bits_of_bytes data = string_bits data" by (simp add: bits_of_bytes_def string_bits_def bits_from_to_def)
    with that show ?thesis by (simp add: ref_bits_def ref_bitbuf_def)
  qed
  show "bb_is_overflowed ref_bitbuf s = (Ok (), s)"
    if "bb_seek_relative ref_bitbuf (int k) (bb_new ref_bitbuf data) = (Ok (), s)" for data k s
    using that by (auto simp: ref_seek_iff ref_room_def split: if_splits) (auto simp: ref_bitbuf_def)
  show "bb_num_bits_left ref_bitbuf s = length (ref_bits s)" for s
    by (auto simp: ref_bitbuf_def ref_bits_def ref_room_def)
qed

lemma ref_wire_laws: "wire_laws ref_bitbuf ref_bits"
  by (simp add: wire_laws_def ref_cursor_laws ref_value_laws ref_integer_laws ref_buffer_laws)

text \<open>C18: whatever decoder a field has, the value that is written in the decoder's format is the value that is read
  back: flags, integers in LEB128 and zigzag, fixed words, strings, floats of all five kinds, vectors and angles.
  The reader stops behind the last bit of the value, and \<open>skip\<close> stops there too.\<close>

theorem field_value_roundtrip:
  assumes laws: "wire_laws B bits" and ctx: "string_buf ctx = []"
    and v: "coded B (tick_interval ctx) d bs v" and s: "bits_ahead bits s = bs @ r"
  shows "\<exists>s'. field_decode B d (ctx, s) = (Ok v, (ctx, s')) \<and> field_skip B d (ctx, s) = (Ok (), (ctx, s'))
    \<and> bits_ahead bits s' = r"
proof -
  obtain s' where "field_decode B d (ctx, s) = (Ok v, (ctx, s'))" "bits_ahead bits s' = r"
    using field_decode_reads [OF laws ctx v] s unfolding reads_in_def by blast
  with skip_follows_decode [OF wire_lawsD(1) [OF laws]] show ?thesis by blast
qed

theorem field_value_roundtrip_witness:
  "\<exists>s'. field_decode ref_bitbuf I64Decoder (field_decode_context_default, bit_reader_new ref_bitbuf [143, 3, 77])
      = (Ok (FvI64 (- 200)), (field_decode_context_default, s'))
    \<and> bits_ahead ref_bits s' = string_bits [77]"
proof -
  have "leb128 (zigzag_code (- 200 :: i64)) = [143, 3]" by (simp add: zigzag_code_def leb128.simps)
  then have v: "coded ref_bitbuf f_zero I64Decoder (string_bits [143, 3]) (FvI64 (- 200))"
    using coded.signed [of ref_bitbuf f_zero "- 200"] by simp
  have "bits_ahead ref_bits (bit_reader_new ref_bitbuf [143, 3, 77]) = string_bits [143, 3] @ string_bits [77]"
    using bits_ahead_new [OF ref_wire_laws, of "[143, 3, 77]"] by (simp add: string_bits_def)
  from field_value_roundtrip [OF ref_wire_laws _ _ this, of field_decode_context_default I64Decoder "FvI64 (- 200)"] v show ?thesis
    by (auto simp: field_decode_context_default_def)
qed

end
