(* ===== verification/EntityUpdates.thy ===== *)
theory EntityUpdates
  imports EntityContainerLaws WireFormat
begin

text \<open>
  What an update of an entity says: the paths of the changed fields, then their values.  Parsing it overlays the
  values on the fields that the entity has, whether it is an update of a live entity, a class baseline or the
  fields of an entity that is created.
\<close>

subsection \<open>Consuming bits\<close>

definition consumed ::
    "'s bitbuf \<Rightarrow> ('s \<Rightarrow> bool list) \<Rightarrow> bool list \<Rightarrow> 's bit_reader \<Rightarrow> 's bit_reader \<Rightarrow> bool" where
  "consumed B bits bs s s' \<longleftrightarrow> bits_ahead bits s = bs @ bits_ahead bits s' \<and> (\<exists>k. adv B k s s')"

lemma consumed_refl: "cursor_laws B \<Longrightarrow> consumed B bits [] s s"
  using adv_refl by (fastforce simp: consumed_def)

lemma consumed_trans:
  "cursor_laws B \<Longrightarrow> consumed B bits bs s s' \<Longrightarrow> consumed B bits bs' s' s'' \<Longrightarrow> consumed B bits (bs @ bs') s s''"
  unfolding consumed_def using adv_trans by fastforce

lemma reads_consumed:
  assumes "reads bits m bs x" "moves B m" "bits_ahead bits s = bs @ r"
  obtains s' where "m s = (Ok x, s')" "consumed B bits bs s s'" "bits_ahead bits s' = r"
proof -
  obtain s' where "m s = (Ok x, s')" "bits_ahead bits s' = r" using readsD [OF assms(1,3)] by blast
  with assms(2,3) that show thesis by (auto simp: consumed_def moves_def)
qed

lemma field_consumed:
  assumes laws: "wire_laws B bits" and "string_buf ctx = []" "coded B (tick_interval ctx) d bs v" "bits_ahead bits s = bs @ r"
  obtains s' where "field_decode B d (ctx, s) = (Ok v, (ctx, s'))" "consumed B bits bs s s'" "bits_ahead bits s' = r"
proof -
  obtain s' where s': "field_decode B d (ctx, s) = (Ok v, (ctx, s'))" "bits_ahead bits s' = r"
    using field_decode_reads [OF laws assms(2,3)] assms(4) unfolding reads_in_def by blast
  with decoder.agree [OF wire_lawsD(1) [OF laws] s'(1)] assms(4) that show thesis by (auto simp: consumed_def)
qed

lemma paths_consumed:
  assumes laws: "wire_laws B bits" and "path_stream bits B field_path_default cs ps" "bits_ahead bits s = cs @ r"
    and "length ps \<le> length fps"
  obtains s' where "read_field_paths B (fps, s) = (Ok (length ps), (ps @ drop (length ps) fps, s'))"
    "consumed B bits cs s s'" "bits_ahead bits s' = r"
proof -
  obtain s' where s': "read_field_paths B (fps, s) = (Ok (length ps), (ps @ drop (length ps) fps, s'))" "bits_ahead bits s' = r"
    using read_field_paths_stream [OF wire_lawsD [OF laws] assms(2-4)] by blast
  obtain tree nd where "read_field_paths B (fps, s) = read_field_paths_loop B tree (Suc (num_bits_left B s)) field_path_default 0 nd (fps, s)"
    by (rule read_field_paths_run)
  from read_field_paths_loop_Ok [OF wire_lawsD(1) [OF laws] trans [OF this [symmetric] s'(1)] path_ok_default]
  have "\<exists>k. adv B k s s'" by (simp add: paths_ok_def)
  with s' assms(3) that show thesis by (auto simp: consumed_def)
qed

subsection \<open>Updates\<close>

text \<open>The values of the fields that the paths lead to, with their keys.\<close>

inductive fields_coded ::
    "'s bitbuf \<Rightarrow> f32 \<Rightarrow> serializer \<Rightarrow> field_path list \<Rightarrow> bool list \<Rightarrow> (u64 \<times> field_value) list \<Rightarrow> bool" for B interval sz where
  no_fields: "fields_coded B interval sz [] [] []"
| a_field: "find_field sz fp = Ok (field, key) \<Longrightarrow> coded B interval (fm_decoder (sf_metadata field)) bs v \<Longrightarrow>
    fields_coded B interval sz fps bs' kvs \<Longrightarrow> fields_coded B interval sz (fp # fps) (bs @ bs') ((key, v) # kvs)"

text \<open>An update on the wire, of at most as many fields as the slice for the paths has places.\<close>

definition update_coded ::
    "'s bitbuf \<Rightarrow> ('s \<Rightarrow> bool list) \<Rightarrow> f32 \<Rightarrow> serializer \<Rightarrow> bool list \<Rightarrow> (u64 \<times> field_value) list \<Rightarrow> bool" where
  "update_coded B bits interval sz bs kvs \<longleftrightarrow> (\<exists>cs ps vs. path_stream bits B field_path_default cs ps
     \<and> fields_coded B interval sz ps vs kvs \<and> length ps \<le> 4096 \<and> bs = cs @ vs)"

definition overlay :: "(u64 \<times> field_value) list \<Rightarrow> (u64 \<rightharpoonup> field_value) \<Rightarrow> (u64 \<rightharpoonup> field_value)" where
  "overlay kvs m = fold (\<lambda>(k, v) m. m(k \<mapsto> v)) kvs m"

lemma overlay_simps [simp]: "overlay [] m = m" "overlay ((k, v) # kvs) m = overlay kvs (m(k \<mapsto> v))"
  by (simp_all add: overlay_def)

lemma overlay_lookup: "overlay kvs m k = (case map_of (rev kvs) k of Some v \<Rightarrow> Some v | None \<Rightarrow> m k)"
  by (induction kvs arbitrary: m) (auto simp: map_add_def split: option.split)

definition updated :: "(u64 \<times> field_value) list \<Rightarrow> entity \<Rightarrow> entity" where
  "updated kvs e = e\<lparr>en_fields := overlay kvs (en_fields e)\<rparr>"

lemma updated_simps [simp]:
  "en_serializer (updated kvs e) = en_serializer e" "en_index (updated kvs e) = en_index e"
  "en_fields (updated kvs e) = overlay kvs (en_fields e)" "updated [] e = e"
  by (simp_all add: updated_def)

lemma updated_Cons: "updated ((k, v) # kvs) e = updated kvs (e\<lparr>en_fields := (en_fields e)(k \<mapsto> v)\<rparr>)"
  by (simp add: updated_def)

lemma decode_fields_value:
  assumes laws: "wire_laws B bits" and ctx: "string_buf ctx = []"
  shows "fields_coded B (tick_interval ctx) sz ps bs kvs \<Longrightarrow> en_serializer e = sz \<Longrightarrow> bits_ahead bits s = bs @ r \<Longrightarrow>
    \<exists>s'. decode_fields B ps ((e, fps), (ctx, s)) = (Ok (), ((updated kvs e, fps), (ctx, s')))
      \<and> consumed B bits bs s s' \<and> bits_ahead bits s' = r"
proof (induction arbitrary: e s rule: fields_coded.induct)
  case no_fields
  then show ?case using consumed_refl [OF wire_lawsD(1) [OF laws]] by simp
next
  case (a_field fp field key bs v ps bs' kvs)
  obtain s1 where s1: "field_decode B (fm_decoder (sf_metadata field)) (ctx, s) = (Ok v, (ctx, s1))"
    "consumed B bits bs s s1" "bits_ahead bits s1 = bs' @ r"
    using field_consumed [OF laws ctx a_field(2), of s "bs' @ r"] a_field.prems by auto
  let ?e = "e\<lparr>en_fields := (en_fields e)(key \<mapsto> v)\<rparr>"
  have "decode_field B fp ((e, fps), (ctx, s)) = (Ok (), ((?e, fps), (ctx, s1)))"
    using a_field(1) a_field.prems(1) s1(1) by (intro decode_field_OkI) simp_all
  moreover obtain s2 where "decode_fields B ps ((?e, fps), (ctx, s1)) = (Ok (), ((updated kvs ?e, fps), (ctx, s2)))"
    "consumed B bits bs' s1 s2" "bits_ahead bits s2 = r"
    using a_field.IH [of ?e s1] a_field.prems(1) s1(3) by auto
  ultimately show ?case
    using consumed_trans [OF wire_lawsD(1) [OF laws] s1(2)] by (auto simp: bindM_def updated_Cons)
qed

lemma entity_parse_value:
  assumes laws: "wire_laws B bits" and ctx: "string_buf ctx = []"
    and "update_coded B bits (tick_interval ctx) (en_serializer e) bs kvs" "bits_ahead bits s = bs @ r" "length fps = 4096"
  obtains fps' s' where "entity_parse B ((e, fps), (ctx, s)) = (Ok (), ((updated kvs e, fps'), (ctx, s')))"
    "length fps' = 4096" "consumed B bits bs s s'" "bits_ahead bits s' = r"
proof -
  obtain cs ps vs where u: "path_stream bits B field_path_default cs ps" "fields_coded B (tick_interval ctx) (en_serializer e) ps vs kvs"
    "length ps \<le> 4096" "bs = cs @ vs" using assms(3) unfolding update_coded_def by blast
  obtain s1 where s1: "read_field_paths B (fps, s) = (Ok (length ps), (ps @ drop (length ps) fps, s1))"
    "consumed B bits cs s s1" "bits_ahead bits s1 = vs @ r"
    using paths_consumed [OF laws u(1), of s "vs @ r" fps] assms(4,5) u(3,4) by auto
  obtain s2 where s2: "decode_fields B ps ((e, ps @ drop (length ps) fps), (ctx, s1))
      = (Ok (), ((updated kvs e, ps @ drop (length ps) fps), (ctx, s2)))" "consumed B bits vs s1 s2" "bits_ahead bits s2 = r"
    using decode_fields_value [OF laws ctx u(2) refl s1(3)] by blast
  have "entity_parse B ((e, fps), (ctx, s)) = (Ok (), ((updated kvs e, ps @ drop (length ps) fps), (ctx, s2)))"
    by (rule entity_parse_OkI [OF s1(1)]) (simp_all add: s2(1))
  moreover have "consumed B bits bs s s2"
    unfolding u(4) by (rule consumed_trans [OF wire_lawsD(1) [OF laws] s1(2) s2(2)])
  ultimately show thesis using that s2(3) u(3) assms(5) by simp
qed

text \<open>What an update leaves of the container: all but the scratch slice, whose length stays.\<close>

lemma parse_with_value:
  assumes laws: "wire_laws B bits" and ctx: "string_buf ctx = []"
    and "update_coded B bits (tick_interval ctx) (en_serializer e) bs kvs" "bits_ahead bits s = bs @ r"
    and "length (ec_field_paths ec) = 4096"
  obtains fps s' where "parse_with B e (ec, (ctx, s)) = (Ok (), updated kvs e, (ec\<lparr>ec_field_paths := fps\<rparr>, (ctx, s')))"
    "length fps = 4096" "consumed B bits bs s s'" "bits_ahead bits s' = r"
  using entity_parse_value [OF assms] that unfolding parse_with_def by fastforce

lemma skip_with_value:
  assumes laws: "wire_laws B bits" and ctx: "string_buf ctx = []"
    and "update_coded B bits (tick_interval ctx) sz bs kvs" "bits_ahead bits s = bs @ r"
    and "length (ec_field_paths ec) = 4096"
  obtains fps s' where "skip_with B sz (ec, (ctx, s)) = (Ok (), (ec\<lparr>ec_field_paths := fps\<rparr>, (ctx, s')))"
    "length fps = 4096" "consumed B bits bs s s'" "bits_ahead bits s' = r"
proof -
  obtain fps s' where p: "entity_parse B ((new_entity 0 sz, ec_field_paths ec), (ctx, s))
      = (Ok (), ((updated kvs (new_entity 0 sz), fps), (ctx, s')))" "length fps = 4096" "consumed B bits bs s s'" "bits_ahead bits s' = r"
    using entity_parse_value [OF laws ctx, of "new_entity 0 sz" bs kvs s r "ec_field_paths ec"] assms(3-5)
    by (auto simp: new_entity_def)
  have "skip_entity_fields B sz (ec_field_paths ec, s) = (Ok (), (fps, s'))"
    using entity_parse_skip [OF wire_lawsD(1) [OF laws] p(1)] by (simp add: new_entity_def)
  with that p(2-4) show thesis by (simp add: skip_with_def zoomM_def)
qed

end
