(* ===== verification/Snapshots.thy ===== *)
theory Snapshots
  imports EntityUpdates
begin

text \<open>
  What a message of entity changes means: a snapshot says which indices are taken, by an entity that the visitor
  tracks, with its fields, or by one that it does not.  Changes are applied to snapshots; \<open>change_coded\<close> is their
  form on the wire.  The operations of the container do to the snapshot it stands for what the changes say.
\<close>

subsection \<open>Snapshots and changes\<close>

datatype presence = Tracked entity | Untracked serializer

type_synonym snapshot = "i32 \<rightharpoonup> presence"

fun presence_serializer :: "presence \<Rightarrow> serializer" where
  "presence_serializer (Tracked e) = en_serializer e"
| "presence_serializer (Untracked sz) = sz"

fun tracked :: "presence \<Rightarrow> entity option" where
  "tracked (Tracked e) = Some e"
| "tracked (Untracked sz) = None"

datatype change = Create i32 "(u64 \<times> field_value) list" | Update "(u64 \<times> field_value) list" | Delete | Leave

fun change_header :: "change \<Rightarrow> delta_header" where
  "change_header (Create c kvs) = CREATE"
| "change_header (Update kvs) = UPDATE"
| "change_header Delete = DELETE"
| "change_header Leave = LEAVE"

text \<open>What the changes depend on: the cursor and the bits it reads, the tick interval, the classes, the serializers,
  the baselines in their cells, the serializer and the default fields of each class, and the visitor's choice.\<close>

record 's scene =
  sc_cursor :: "'s bitbuf"
  sc_bits :: "'s \<Rightarrow> bool list"
  sc_interval :: f32
  sc_classes :: entity_classes
  sc_serializers :: serializer_map
  sc_cells :: cell_store
  sc_baseline :: instance_baseline
  sc_class :: "i32 \<Rightarrow> serializer \<times> (u64 \<rightharpoonup> field_value)"
  sc_track :: "u64 \<Rightarrow> bool"

definition class_entity :: "'s scene \<Rightarrow> i32 \<Rightarrow> i32 \<Rightarrow> entity" where
  "class_entity W i c = \<lparr>en_index = i, en_fields = snd (sc_class W c), en_serializer = fst (sc_class W c)\<rparr>"

definition class_tracked :: "'s scene \<Rightarrow> i32 \<Rightarrow> bool" where
  "class_tracked W c \<longleftrightarrow> sc_track W (fs_serializer_name (fst (sc_class W c)))"

text \<open>A created entity has the defaults of its class, overlaid by the fields of the message.\<close>

fun apply_change :: "'s scene \<Rightarrow> i32 \<Rightarrow> change \<Rightarrow> snapshot \<Rightarrow> snapshot" where
  "apply_change W i (Create c kvs) N =
     N(i \<mapsto> if class_tracked W c then Tracked (updated kvs (class_entity W i c)) else Untracked (fst (sc_class W c)))"
| "apply_change W i (Update kvs) N = (case N i of Some (Tracked e) \<Rightarrow> N(i \<mapsto> Tracked (updated kvs e)) | _ \<Rightarrow> N)"
| "apply_change W i Delete N = N(i := None)"
| "apply_change W i Leave N = N(i := None)"

text \<open>What the visitor is shown: the entity after a creation or an update, and the entity that goes.\<close>

definition shown :: "'s scene \<Rightarrow> i32 \<Rightarrow> change \<Rightarrow> snapshot \<Rightarrow> (delta_header \<times> entity) list" where
  "shown W i ch N =
     (case Option.bind ((if ch = Delete \<or> ch = Leave then N else apply_change W i ch N) i) tracked of
        Some e \<Rightarrow> [(change_header ch, e)] | None \<Rightarrow> [])"

subsection \<open>Changes on the wire\<close>

text \<open>A class whose serializer is known and whose baseline holds its default fields.\<close>

definition class_known :: "'s scene \<Rightarrow> i32 \<Rightarrow> bool" where
  "class_known W c \<longleftrightarrow>
     class_serializer (sc_classes W) (sc_serializers W) c = Ok (fst (sc_class W c)) \<and>
     (let data = baseline_by_id (sc_cells W) (sc_baseline W) c in
      8 * length data < 2 ^ 64 \<and>
      (\<exists>bs kvs r. string_bits data = bs @ r \<and> snd (sc_class W c) = overlay kvs Map.empty
        \<and> update_coded (sc_cursor W) (sc_bits W) (sc_interval W) (fst (sc_class W c)) bs kvs))"

abbreviation (input) coded_update :: "'s scene \<Rightarrow> serializer \<Rightarrow> bool list \<Rightarrow> (u64 \<times> field_value) list \<Rightarrow> bool" where
  "coded_update W sz bs kvs \<equiv> update_coded (sc_cursor W) (sc_bits W) (sc_interval W) sz bs kvs"

definition class_coded :: "'s scene \<Rightarrow> i32 \<Rightarrow> bool list \<Rightarrow> bool" where
  "class_coded W c bs \<longleftrightarrow> 0 < ec_bits (sc_classes W) \<and> ec_bits (sc_classes W) < 64
     \<and> c < 2 ^ 31 \<and> (ucast c :: u64) < 2 ^ ec_bits (sc_classes W)
     \<and> bs = bits_from_to (ucast c :: u64) 0 (ec_bits (sc_classes W))"

text \<open>A creation carries the class, the serial number and another number, which the parser ignores, and the update.
  An entity that is there may be created anew if the visitor's interest in it stays the same.\<close>

inductive change_coded :: "'s scene \<Rightarrow> snapshot \<Rightarrow> i32 \<Rightarrow> change \<Rightarrow> bool list \<Rightarrow> bool" for W N i where
  create: "class_known W c \<Longrightarrow> (\<And>pr. N i = Some pr \<Longrightarrow> tracked pr \<noteq> None \<longleftrightarrow> class_tracked W c) \<Longrightarrow>
    class_coded W c cs \<Longrightarrow> length serial = 17 \<Longrightarrow> coded_update W (fst (sc_class W c)) bs kvs \<Longrightarrow>
    change_coded W N i (Create c kvs) (cs @ serial @ string_bits (leb128 (unat (x :: u32))) @ bs)"
| update: "N i = Some pr \<Longrightarrow> coded_update W (presence_serializer pr) bs kvs \<Longrightarrow> change_coded W N i (Update kvs) bs"
| delete: "change_coded W N i Delete []"
| leave: "change_coded W N i Leave []"

inductive_cases change_codedE: "change_coded W N i ch bs"

subsection \<open>The container stands for a snapshot\<close>

definition snapshot_of :: "entity_container \<Rightarrow> snapshot" where
  "snapshot_of ec i = (case ec_skipped ec i of Some sz \<Rightarrow> Some (Untracked sz) | None \<Rightarrow> map_option Tracked (ec_entities ec i))"

definition stands_for :: "'s scene \<Rightarrow> entity_container \<Rightarrow> snapshot \<Rightarrow> bool" where
  "stands_for W ec N \<longleftrightarrow> snapshot_of ec = N \<and> (\<forall>i. ec_skipped ec i = None \<or> ec_entities ec i = None)
     \<and> length (ec_field_paths ec) = 4096
     \<and> (\<forall>c e. ec_baseline_entities ec c = Some e \<longrightarrow> (en_serializer e, en_fields e) = sc_class W c)"

lemma stands_for_new: "stands_for W entity_container_new Map.empty"
  by (auto simp: stands_for_def snapshot_of_def entity_container_new_def)

lemma stands_for_lookup:
  assumes "stands_for W ec N"
  shows "N i = Some (Tracked e) \<longleftrightarrow> ec_entities ec i = Some e" "N i = Some (Untracked sz) \<longleftrightarrow> ec_skipped ec i = Some sz"
    "Option.bind (N i) tracked = ec_entities ec i"
proof -
  have N: "N i = (case ec_skipped ec i of Some sz \<Rightarrow> Some (Untracked sz) | None \<Rightarrow> map_option Tracked (ec_entities ec i))"
    and one: "ec_skipped ec i = None \<or> ec_entities ec i = None"
    using assms by (auto simp: stands_for_def snapshot_of_def)
  show "N i = Some (Tracked e) \<longleftrightarrow> ec_entities ec i = Some e" "N i = Some (Untracked sz) \<longleftrightarrow> ec_skipped ec i = Some sz"
    "Option.bind (N i) tracked = ec_entities ec i"
    using one unfolding N by (auto split: option.splits) (cases "ec_entities ec i"; simp)
qed

lemma same_interest:
  assumes "stands_for W ec N" "\<And>pr. N i = Some pr \<Longrightarrow> tracked pr \<noteq> None \<longleftrightarrow> t"
  shows "t \<Longrightarrow> ec_skipped ec i = None" "\<not> t \<Longrightarrow> ec_entities ec i = None"
proof -
  show "ec_skipped ec i = None" if t
  proof (cases "ec_skipped ec i")
    case (Some sz)
    then have "N i = Some (Untracked sz)" using stands_for_lookup(2) [OF assms(1)] by blast
    from assms(2) [OF this] that show ?thesis by simp
  qed
  show "ec_entities ec i = None" if "\<not> t"
  proof (cases "ec_entities ec i")
    case (Some e)
    then have "N i = Some (Tracked e)" using stands_for_lookup(1) [OF assms(1)] by blast
    from assms(2) [OF this] that show ?thesis by simp
  qed
qed

lemma stands_for_scratch:
  "stands_for W ec N \<Longrightarrow> length fps = 4096 \<Longrightarrow> stands_for W (ec\<lparr>ec_field_paths := fps\<rparr>) N"
  by (auto simp: stands_for_def snapshot_of_def fun_eq_iff cong: option.case_cong)

lemma stands_for_live:
  assumes "stands_for W ec N" "ec_skipped ec i = None"
  shows "stands_for W (ec\<lparr>ec_entities := (ec_entities ec)(i \<mapsto> e)\<rparr>) (N(i \<mapsto> Tracked e))"
  using assms by (auto simp: stands_for_def snapshot_of_def fun_eq_iff cong: option.case_cong)

lemma stands_for_skipped:
  assumes "stands_for W ec N" "ec_entities ec i = None"
  shows "stands_for W (ec\<lparr>ec_skipped := (ec_skipped ec)(i \<mapsto> sz)\<rparr>) (N(i \<mapsto> Untracked sz))"
  using assms by (auto simp: stands_for_def snapshot_of_def fun_eq_iff cong: option.case_cong)

lemma stands_for_gone:
  assumes "stands_for W ec N"
  shows "stands_for W (ec\<lparr>ec_skipped := (ec_skipped ec)(i := None), ec_entities := (ec_entities ec)(i := None)\<rparr>) (N(i := None))"
  using assms by (auto simp: stands_for_def snapshot_of_def fun_eq_iff cong: option.case_cong)

lemma stands_for_cached:
  assumes "stands_for W ec N" "(en_serializer e, en_fields e) = sc_class W c"
  shows "stands_for W (ec\<lparr>ec_baseline_entities := (ec_baseline_entities ec)(c \<mapsto> e)\<rparr>) N"
  using assms by (auto simp: stands_for_def snapshot_of_def fun_eq_iff cong: option.case_cong)

subsection \<open>The operations of the container\<close>

text \<open>A scene that the code runs in: the crate's laws, and a decoding context between two fields.\<close>

definition scene_ok :: "'s scene \<Rightarrow> field_decode_context \<Rightarrow> bool" where
  "scene_ok W ctx \<longleftrightarrow> wire_laws (sc_cursor W) (sc_bits W) \<and> string_buf ctx = [] \<and> tick_interval ctx = sc_interval W"

lemma scene_okD:
  "scene_ok W ctx \<Longrightarrow> wire_laws (sc_cursor W) (sc_bits W)" "scene_ok W ctx \<Longrightarrow> cursor_laws (sc_cursor W)"
  "scene_ok W ctx \<Longrightarrow> value_laws (sc_cursor W) (sc_bits W)" "scene_ok W ctx \<Longrightarrow> string_buf ctx = []"
  "scene_ok W ctx \<Longrightarrow> tick_interval ctx = sc_interval W"
  by (auto simp: scene_ok_def dest: wire_lawsD)

abbreviation (input) eats :: "'s scene \<Rightarrow> bool list \<Rightarrow> 's bit_reader \<Rightarrow> 's bit_reader \<Rightarrow> bool" where
  "eats W bs s s' \<equiv> consumed (sc_cursor W) (sc_bits W) bs s s'"

lemma on_br_value:
  assumes "reads (sc_bits W) m bs x" "moves (sc_cursor W) m" "bits_ahead (sc_bits W) s = bs @ r"
  obtains s' where "on_br m (ec, (ctx, s)) = (Ok x, (ec, (ctx, s')))" "eats W bs s s'" "bits_ahead (sc_bits W) s' = r"
  using reads_consumed [OF assms] that by (fastforce simp: on_br_def zoomM_def)

lemma baseline_value:
  assumes ok: "scene_ok W ctx" and c: "class_known W c" and ec: "stands_for W ec N"
  obtains ec' where "entity_from_baseline (sc_cursor W) (sc_cells W) (sc_baseline W) i c (fst (sc_class W c)) (ec, (ctx, s))
      = (Ok (class_entity W i c), (ec', (ctx, s)))" "stands_for W ec' N" "ec_skipped ec' = ec_skipped ec"
proof (cases "ec_baseline_entities ec c")
  case (Some e)
  then have "(en_serializer e, en_fields e) = sc_class W c" using ec by (auto simp: stands_for_def)
  then have "e\<lparr>en_index := i\<rparr> = class_entity W i c" by (cases e) (auto simp: class_entity_def dest: sym)
  with Some ec that show thesis by (simp add: entity_from_baseline_def)
next
  case None
  let ?data = "baseline_by_id (sc_cells W) (sc_baseline W) c" and ?e = "class_entity W i c"
  let ?new = "new_entity i (fst (sc_class W c))" and ?br = "bit_reader_new (sc_cursor W) (baseline_by_id (sc_cells W) (sc_baseline W) c)"
  obtain bs kvs r where d: "8 * length ?data < 2 ^ 64" "string_bits ?data = bs @ r" "snd (sc_class W c) = overlay kvs Map.empty"
    "update_coded (sc_cursor W) (sc_bits W) (sc_interval W) (fst (sc_class W c)) bs kvs"
    using c by (auto simp: class_known_def Let_def)
  have new: "en_serializer ?new = fst (sc_class W c)" "updated kvs ?new = ?e"
    by (simp_all add: new_entity_def updated_def class_entity_def d(3))
  obtain fps s' where p: "parse_with (sc_cursor W) ?new (ec, (ctx, ?br)) = (Ok (), ?e, (ec\<lparr>ec_field_paths := fps\<rparr>, (ctx, s')))"
    "length fps = 4096" "eats W bs ?br s'"
  proof (rule parse_with_value [OF scene_okD(1) [OF ok] scene_okD(4) [OF ok], of ?new bs kvs ?br r ec, unfolded new scene_okD(5) [OF ok]])
    show "bits_ahead (sc_bits W) ?br = bs @ r" using bits_ahead_new [OF scene_okD(1) [OF ok] d(1)] d(2) by simp
    show "length (ec_field_paths ec) = 4096" using ec by (simp add: stands_for_def)
  qed (rule d(4))
  have "fst (is_overflowed (sc_cursor W) s') = Ok ()"
    using not_overflowed [OF scene_okD(1) [OF ok]] p(3) unfolding consumed_def by fastforce
  then have "entity_from_baseline (sc_cursor W) (sc_cells W) (sc_baseline W) i c (fst (sc_class W c)) (ec, (ctx, s))
      = (Ok ?e, (ec\<lparr>ec_field_paths := fps, ec_baseline_entities := (ec_baseline_entities ec)(c \<mapsto> ?e)\<rparr>, (ctx, s)))"
    by (simp add: entity_from_baseline_def None p(1))
  moreover have "stands_for W (ec\<lparr>ec_field_paths := fps, ec_baseline_entities := (ec_baseline_entities ec)(c \<mapsto> ?e)\<rparr>) N"
    using stands_for_cached [OF stands_for_scratch [OF ec p(2)], of ?e c] by (simp add: class_entity_def)
  ultimately show thesis using that by simp
qed

lemma create_value:
  assumes ok: "scene_ok W ctx" and c: "class_known W c" and ec: "stands_for W ec N" and i: "ec_skipped ec i = None"
    and u: "coded_update W (fst (sc_class W c)) bs kvs" "bits_ahead (sc_bits W) s = bs @ r"
  obtains ec' s' where "create_entity (sc_cursor W) (sc_cells W) (sc_baseline W) i c (fst (sc_class W c)) (ec, (ctx, s))
      = (Ok i, (ec', (ctx, s')))" "stands_for W ec' (N(i \<mapsto> Tracked (updated kvs (class_entity W i c))))"
    "ec_entities ec' i = Some (updated kvs (class_entity W i c))" "eats W bs s s'" "bits_ahead (sc_bits W) s' = r"
proof -
  let ?e = "class_entity W i c"
  obtain ec1 where b: "entity_from_baseline (sc_cursor W) (sc_cells W) (sc_baseline W) i c (fst (sc_class W c)) (ec, (ctx, s))
      = (Ok ?e, (ec1, (ctx, s)))" "stands_for W ec1 N" "ec_skipped ec1 i = None"
    using baseline_value [OF ok c ec] i by metis
  have sz: "en_serializer ?e = fst (sc_class W c)" by (simp add: class_entity_def)
  obtain fps s' where p: "parse_with (sc_cursor W) ?e (ec1, (ctx, s)) = (Ok (), updated kvs ?e, (ec1\<lparr>ec_field_paths := fps\<rparr>, (ctx, s')))"
    "length fps = 4096" "eats W bs s s'" "bits_ahead (sc_bits W) s' = r"
  proof (rule parse_with_value [OF scene_okD(1) [OF ok] scene_okD(4) [OF ok], of ?e bs kvs s r ec1, unfolded sz scene_okD(5) [OF ok]])
    show "length (ec_field_paths ec1) = 4096" using b(2) by (simp add: stands_for_def)
  qed (rule u)+
  let ?ec = "ec1\<lparr>ec_field_paths := fps, ec_entities := (ec_entities ec1)(i \<mapsto> updated kvs ?e)\<rparr>"
  have "create_entity (sc_cursor W) (sc_cells W) (sc_baseline W) i c (fst (sc_class W c)) (ec, (ctx, s)) = (Ok i, (?ec, (ctx, s')))"
    by (simp add: create_entity_def bindM_def b(1) p(1) retM_def)
  moreover have "stands_for W ?ec (N(i \<mapsto> Tracked (updated kvs ?e)))"
    using stands_for_live [OF stands_for_scratch [OF b(2) p(2)], of i] b(3) by simp
  ultimately show thesis using that p(3,4) by simp
qed

lemma create_header_value:
  assumes ok: "scene_ok W ctx" and c: "class_coded W c cs" "length serial = 17"
    and s: "bits_ahead (sc_bits W) s = cs @ serial @ string_bits (leb128 (unat (x :: u32))) @ r"
  obtains s' where "read_create_header (sc_cursor W) (sc_classes W) (ec, (ctx, s)) = (Ok c, (ec, (ctx, s')))"
    "eats W (cs @ serial @ string_bits (leb128 (unat x))) s s'" "bits_ahead (sc_bits W) s' = r"
proof -
  let ?B = "sc_cursor W" and ?n = "ec_bits (sc_classes W)"
  note laws = scene_okD(1) [OF ok] and B = scene_okD(2) [OF ok] and V = scene_okD(3) [OF ok]
  have cs: "cs = bits_from_to (ucast c :: u64) 0 ?n" and n: "0 < ?n" "?n < 64" "(ucast c :: u64) < 2 ^ ?n" and small: "c < 2 ^ 31"
    using c(1) by (simp_all add: class_coded_def)
  have "(ucast c :: u64) < 2 ^ 31" using small uint_bounded [of c] by (simp add: word_less_def unsigned_ucast_eq take_bit_int_eq_self)
  then have c_ok: "try_into_i32 (ucast c :: u64) = Ok c" by (simp add: try_into_i32_def ucast_up_ucast is_up ucast_id)
  obtain s1 where s1: "on_br (read_ubit64 ?B ?n) (ec, (ctx, s)) = (Ok (ucast c), (ec, (ctx, s1)))" "eats W cs s s1"
    "bits_ahead (sc_bits W) s1 = serial @ string_bits (leb128 (unat x)) @ r"
  proof (rule on_br_value [OF _ read_moves(1) [OF B] s])
    show "reads (sc_bits W) (read_ubit64 ?B ?n) cs (ucast c)" unfolding cs by (rule reads_ubit64_whole [OF V n(3,1,2)])
  qed
  obtain s2 where s2: "on_br (read_ubit64 ?B NUM_SERIAL_NUM_BITS) (ec, (ctx, s1)) = (Ok (word_of_bits serial), (ec, (ctx, s2)))"
    "eats W serial s1 s2" "bits_ahead (sc_bits W) s2 = string_bits (leb128 (unat x)) @ r"
  proof (rule on_br_value [OF _ read_moves(1) [OF B] s1(3)])
    show "reads (sc_bits W) (read_ubit64 ?B NUM_SERIAL_NUM_BITS) serial (word_of_bits serial)"
      by (rule reads_ubit64 [OF V]) (simp_all add: c(2) NUM_SERIAL_NUM_BITS_def NUM_ENT_ENTRY_BITS_def MAX_EDICT_BITS_def)
  qed
  obtain s3 where s3: "on_br (read_uvarint32 ?B) (ec, (ctx, s2)) = (Ok x, (ec, (ctx, s3)))"
    "eats W (string_bits (leb128 (unat x))) s2 s3" "bits_ahead (sc_bits W) s3 = r"
    by (rule on_br_value [OF reads_integers(1) [OF laws] read_moves'(3) [OF B] s2(3)])
  have "read_create_header ?B (sc_classes W) (ec, (ctx, s)) = (Ok c, (ec, (ctx, s3)))"
    by (simp add: read_create_header_def bindM_def ignoreM_def s1(1) s2(1) s3(1) c_ok retM_def)
  with that consumed_trans [OF B s1(2) consumed_trans [OF B s2(2) s3(2)]] s3(3) show thesis by simp
qed

lemma create_change_value:
  assumes ok: "scene_ok W ctx" and N: "stands_for W ec N"
    and ch: "change_coded W N i (Create c kvs) bs" and s: "bits_ahead (sc_bits W) s = bs @ r"
  obtains ec' s' where "handle_create_with_filter (sc_cursor W) i (sc_classes W) (sc_cells W) (sc_baseline W) (sc_serializers W)
      (sc_track W) (ec, (ctx, s)) = (Ok (if class_tracked W c then Some i else None), (ec', (ctx, s')))"
    "stands_for W ec' (apply_change W i (Create c kvs) N)" "eats W bs s s'" "bits_ahead (sc_bits W) s' = r"
proof -
  from ch obtain cs serial bs' x where create: "bs = cs @ serial @ string_bits (leb128 (unat (x :: u32))) @ bs'" "class_known W c"
    "\<And>pr. N i = Some pr \<Longrightarrow> tracked pr \<noteq> None \<longleftrightarrow> class_tracked W c" "class_coded W c cs" "length serial = 17"
    "coded_update W (fst (sc_class W c)) bs' kvs" by (cases rule: change_coded.cases) auto
  let ?sz = "fst (sc_class W c)"
  obtain s1 where h: "read_create_header (sc_cursor W) (sc_classes W) (ec, (ctx, s)) = (Ok c, (ec, (ctx, s1)))"
    "eats W (cs @ serial @ string_bits (leb128 (unat x))) s s1" "bits_ahead (sc_bits W) s1 = bs' @ r"
    by (rule create_header_value [OF ok create(4,5)]) (use s create(1) in simp)
  have sz: "class_serializer (sc_classes W) (sc_serializers W) c = Ok ?sz"
    using create(2) by (simp add: class_known_def)
  note run = handle_create_with_filter_def bindM_def h(1) sz class_tracked_def retM_def
    and whole = consumed_trans [OF scene_okD(2) [OF ok] h(2)]
  show thesis
  proof (cases "class_tracked W c")
    case True
    then have "ec_skipped ec i = None" using same_interest(1) [OF N, of i "class_tracked W c"] create(3) by blast
    then obtain ec' s2 where c: "create_entity (sc_cursor W) (sc_cells W) (sc_baseline W) i c ?sz (ec, (ctx, s1)) = (Ok i, (ec', (ctx, s2)))"
      "stands_for W ec' (N(i \<mapsto> Tracked (updated kvs (class_entity W i c))))" "eats W bs' s1 s2" "bits_ahead (sc_bits W) s2 = r"
      by (rule create_value [OF ok create(2) N _ create(6) h(3)])
    with True that [of ec' s2] whole [OF c(3)] show thesis by (simp add: run create(1))
  next
    case False
    then have gone: "ec_entities ec i = None" using same_interest(2) [OF N, of i "class_tracked W c"] create(3) by blast
    obtain fps s2 where k: "skip_with (sc_cursor W) ?sz (ec, (ctx, s1)) = (Ok (), (ec\<lparr>ec_field_paths := fps\<rparr>, (ctx, s2)))"
      "length fps = 4096" "eats W bs' s1 s2" "bits_ahead (sc_bits W) s2 = r"
    proof (rule skip_with_value [OF scene_okD(1) [OF ok] scene_okD(4) [OF ok], unfolded scene_okD(5) [OF ok], OF create(6) h(3)])
      show "length (ec_field_paths ec) = 4096" using N by (simp add: stands_for_def)
    qed
    have "stands_for W (ec\<lparr>ec_field_paths := fps, ec_skipped := (ec_skipped ec)(i \<mapsto> ?sz)\<rparr>) (N(i \<mapsto> Untracked ?sz))"
      using stands_for_skipped [OF stands_for_scratch [OF N k(2)], of i] gone by simp
    with False that [of _ s2] k(1,4) whole [OF k(3)] show thesis by (simp add: run create(1))
  qed
qed

lemma update_change_value:
  assumes ok: "scene_ok W ctx" and N: "stands_for W ec N"
    and ch: "change_coded W N i (Update kvs) bs" and s: "bits_ahead (sc_bits W) s = bs @ r"
  obtains x ec' s' where "handle_update (sc_cursor W) i (ec, (ctx, s)) = (Ok x, (ec', (ctx, s')))"
    "stands_for W ec' (apply_change W i (Update kvs) N)" "eats W bs s s'" "bits_ahead (sc_bits W) s' = r"
proof -
  from ch obtain pr where pr: "N i = Some pr" and u: "coded_update W (presence_serializer pr) bs kvs"
    by (cases rule: change_coded.cases) auto
  have len: "length (ec_field_paths ec) = 4096" and one: "ec_skipped ec i = None \<or> ec_entities ec i = None"
    using N by (auto simp: stands_for_def)
  note laws = scene_okD(1) [OF ok] scene_okD(4) [OF ok]
  show thesis
  proof (cases pr)
    case (Tracked e)
    then have e: "ec_entities ec i = Some e" "ec_skipped ec i = None"
      using pr stands_for_lookup(1) [OF N, of i e] one by auto
    have u': "update_coded (sc_cursor W) (sc_bits W) (tick_interval ctx) (en_serializer e) bs kvs"
      using u Tracked scene_okD(5) [OF ok] by simp
    obtain fps s' where k: "parse_with (sc_cursor W) e (ec, (ctx, s)) = (Ok (), updated kvs e, (ec\<lparr>ec_field_paths := fps\<rparr>, (ctx, s')))"
      "length fps = 4096" "eats W bs s s'" "bits_ahead (sc_bits W) s' = r"
      by (rule parse_with_value [OF laws u' s len])
    have "stands_for W (ec\<lparr>ec_field_paths := fps, ec_entities := (ec_entities ec)(i \<mapsto> updated kvs e)\<rparr>)
        (N(i \<mapsto> Tracked (updated kvs e)))"
      using stands_for_live [OF stands_for_scratch [OF N k(2)], of i] e(2) by simp
    with that [of _ _ s'] k(3,4) pr Tracked show thesis by (simp add: handle_update_def e k(1))
  next
    case (Untracked sz)
    then have e: "ec_skipped ec i = Some sz" using pr stands_for_lookup(2) [OF N, of i sz] by simp
    have u': "update_coded (sc_cursor W) (sc_bits W) (tick_interval ctx) sz bs kvs"
      using u Untracked scene_okD(5) [OF ok] by simp
    obtain fps s' where k: "skip_with (sc_cursor W) sz (ec, (ctx, s)) = (Ok (), (ec\<lparr>ec_field_paths := fps\<rparr>, (ctx, s')))"
      "length fps = 4096" "eats W bs s s'" "bits_ahead (sc_bits W) s' = r"
      by (rule skip_with_value [OF laws u' s len])
    with that [of _ _ s'] pr Untracked stands_for_scratch [OF N k(2)] show thesis
      by (simp add: handle_update_def e bindM_def retM_def)
  qed
qed

end
