(* ===== verification/SnapshotRuns.thy ===== *)
theory SnapshotRuns
  imports Snapshots ParserEnds
begin

text \<open>
  \<open>handle_svc_packet_entities\<close> refines the semantics of changes: a message that encodes a list of changes takes the
  parser's entities from one snapshot to the next and shows the visitor what the changes show.
\<close>

subsection \<open>One change\<close>

text \<open>The scene of a parser: what the handler of the message reads of its environment and context.\<close>

definition in_scene ::
    "'s scene \<Rightarrow> ('s, 'c) env \<Rightarrow> ('v, 'e) visitor \<Rightarrow> entity_classes \<Rightarrow> serializer_map \<Rightarrow> ('d, 'v) parser \<Rightarrow> bool" where
  "in_scene W E V classes sers p \<longleftrightarrow> scene_ok W (ps_field_decode_ctx p) \<and> sc_cursor W = e_bits E
     \<and> sc_classes W = classes \<and> sc_serializers W = sers \<and> sc_cells W = cx_cells (ps_ctx p)
     \<and> sc_baseline W = cx_instance_baseline (ps_ctx p) \<and> (\<forall>v. vi_should_track_entity V v = sc_track W)"

text \<open>A visitor that takes what it is shown.\<close>

definition jots :: "('v, 'e) visitor \<Rightarrow> (delta_header \<times> entity \<Rightarrow> 'v \<Rightarrow> 'v) \<Rightarrow> bool" where
  "jots V jot \<longleftrightarrow> (\<forall>ctx h e v. vi_on_entity V ctx h e v = (Ok (), jot (h, e) v))"

definition with_entities :: "entity_container \<Rightarrow> 'v \<Rightarrow> ('d, 'v) parser \<Rightarrow> ('d, 'v) parser" where
  "with_entities ec v p = p\<lparr>ps_ctx := (ps_ctx p)\<lparr>cx_entities := ec\<rparr>, ps_visitor := v\<rparr>"

lemma with_entities_simps [simp]:
  "cx_entities (ps_ctx (with_entities ec v p)) = ec" "ps_visitor (with_entities ec v p) = v"
  "with_entities ec' v' (with_entities ec v p) = with_entities ec' v' p"
  "with_entities (cx_entities (ps_ctx p)) (ps_visitor p) p = p"
  "ps_field_decode_ctx (with_entities ec v p) = ps_field_decode_ctx p"
  "in_scene W E V classes sers (with_entities ec v p) = in_scene W E V classes sers p"
  by (simp_all add: with_entities_def in_scene_def)

lemma visit_entity_value:
  "jots V jot \<Longrightarrow> visit_entity V h e (p, br) = (Ok (), (with_entities (cx_entities (ps_ctx p)) (jot (h, e) (ps_visitor p)) p, br))"
  by (simp add: visit_entity_def on_parser_def visit_def zoomM_def map_errM_def jots_def with_entities_def)

lemma on_entities_value:
  assumes "m (cx_entities (ps_ctx p), (ps_field_decode_ctx p, br)) = (Ok x, (ec, (ps_field_decode_ctx p, br')))"
  shows "on_entities m (p, br) = (Ok x, (with_entities ec (ps_visitor p) p, br'))"
  using assms by (simp add: on_entities_def zoomM_def map_errM_def with_entities_def)

lemma get_entity_value: "on_parser (get_ctx f) (p, br) = (Ok (f (ps_ctx p)), (p, br))"
  by (simp add: on_parser_def get_ctx_def zoomM_def)

lemmas header_eqs = CREATE_def UPDATE_def DELETE_def LEAVE_def

lemma change_value:
  fixes p :: "('d, 'v) parser" and V :: "('v, 'e) visitor"
  assumes W: "in_scene W E V classes sers p" and jot: "jots V jot" and N: "stands_for W (cx_entities (ps_ctx p)) N"
    and ch: "change_coded W N i ch bs" and s: "bits_ahead (sc_bits W) br = bs @ r"
  obtains ec br' where "packet_entity E V classes sers i (change_header ch) (p, br)
      = (Ok (), (with_entities ec (fold jot (shown W i ch N) (ps_visitor p)) p, br'))"
    "stands_for W ec (apply_change W i ch N)" "eats W bs br br'" "bits_ahead (sc_bits W) br' = r"
proof -
  let ?ec = "cx_entities (ps_ctx p)" and ?ctx = "ps_field_decode_ctx p"
  have ok: "scene_ok W ?ctx" using W by (simp add: in_scene_def)
  have W_eqs: "e_bits E = sc_cursor W" "classes = sc_classes W" "sers = sc_serializers W" "cx_cells (ps_ctx p) = sc_cells W"
    "cx_instance_baseline (ps_ctx p) = sc_baseline W" "vi_should_track_entity V v = sc_track W" for v
    using W by (simp_all add: in_scene_def)
  note simps = packet_entity_def header_eqs W_eqs bindM_def on_entities_value get_entity_value visit_entity_value [OF jot]
    entities_get_def shown_def
  show thesis
  proof (cases ch)
    case (Create c kvs)
    obtain ec br' where k: "handle_create_with_filter (sc_cursor W) i (sc_classes W) (sc_cells W) (sc_baseline W) (sc_serializers W)
        (sc_track W) (?ec, (?ctx, br)) = (Ok (if class_tracked W c then Some i else None), (ec, (?ctx, br')))"
      "stands_for W ec (apply_change W i ch N)" "eats W bs br br'" "bits_ahead (sc_bits W) br' = r"
      using create_change_value [OF ok N ch [unfolded Create] s] unfolding Create .
    have "packet_entity E V classes sers i (change_header ch) (p, br)
        = (Ok (), (with_entities ec (fold jot (shown W i ch N) (ps_visitor p)) p, br'))"
      using k(1) stands_for_lookup(3) [OF k(2), of i, symmetric] by (auto simp: simps Create retM_def)
    from that [OF this k(2-4)] show thesis .
  next
    case (Update kvs)
    obtain x ec br' where k: "handle_update (sc_cursor W) i (?ec, (?ctx, br)) = (Ok x, (ec, (?ctx, br')))"
      "stands_for W ec (apply_change W i ch N)" "eats W bs br br'" "bits_ahead (sc_bits W) br' = r"
      using update_change_value [OF ok N ch [unfolded Update] s] unfolding Update .
    have "packet_entity E V classes sers i (change_header ch) (p, br)
        = (Ok (), (with_entities ec (fold jot (shown W i ch N) (ps_visitor p)) p, br'))"
      using k(1) stands_for_lookup(3) [OF k(2), of i] by (simp add: simps Update retM_def split: option.split)
    from that [OF this k(2-4)] show thesis .
  next
    case Delete
    have "packet_entity E V classes sers i (change_header ch) (p, br)
        = (Ok (), (with_entities (snd (handle_delete i ?ec)) (fold jot (shown W i ch N) (ps_visitor p)) p, br))"
      by (simp add: simps Delete handle_delete_def retM_def stands_for_lookup(3) [OF N] split: option.split)
    moreover have "bs = []" using ch Delete by (cases rule: change_coded.cases) auto
    ultimately show thesis using that stands_for_gone [OF N] consumed_refl [OF scene_okD(2) [OF ok]] s
      by (simp add: Delete handle_delete_def)
  next
    case Leave
    have "packet_entity E V classes sers i (change_header ch) (p, br)
        = (Ok (), (with_entities (snd (handle_leave i ?ec)) (fold jot (shown W i ch N) (ps_visitor p)) p, br))"
      by (simp add: simps Leave handle_leave_def retM_def stands_for_lookup(3) [OF N] split: option.split)
    moreover have "bs = []" using ch Leave by (cases rule: change_coded.cases) auto
    ultimately show thesis using that stands_for_gone [OF N] consumed_refl [OF scene_okD(2) [OF ok]] s
      by (simp add: Leave handle_leave_def)
  qed
qed


subsection \<open>A message\<close>

text \<open>The changes of a message: the distance of the index from the last one, the header, and the rest.\<close>

inductive changes_coded :: "'s scene \<Rightarrow> snapshot \<Rightarrow> i32 \<Rightarrow> (i32 \<times> change) list \<Rightarrow> bool list \<Rightarrow> bool" for W where
  no_change: "changes_coded W N i [] []"
| a_change: "j = i + (d + 1) \<Longrightarrow> change_coded W N j ch bs \<Longrightarrow> changes_coded W (apply_change W j ch N) j chs bs' \<Longrightarrow>
    changes_coded W N i ((j, ch) # chs) (encode_ubitvar d @ bits_from_to (change_header ch) 0 2 @ bs @ bs')"

fun apply_changes :: "'s scene \<Rightarrow> (i32 \<times> change) list \<Rightarrow> snapshot \<Rightarrow> snapshot" where
  "apply_changes W [] N = N"
| "apply_changes W ((i, ch) # chs) N = apply_changes W chs (apply_change W i ch N)"

fun shown_changes :: "'s scene \<Rightarrow> (i32 \<times> change) list \<Rightarrow> snapshot \<Rightarrow> (delta_header \<times> entity) list" where
  "shown_changes W [] N = []"
| "shown_changes W ((i, ch) # chs) N = shown W i ch N @ shown_changes W chs (apply_change W i ch N)"

lemma delta_header_reads:
  assumes "wire_laws B bits"
  shows "reads bits (delta_header_from_bit_reader B) (bits_from_to (change_header ch) 0 2) (change_header ch)"
  unfolding delta_header_from_bit_reader_def
proof (rule reads_bindM_last [OF reads_buffers(1) [OF assms]])
  have small: "change_header ch < 2 ^ 2" by (cases ch) (simp_all add: header_eqs)
  have "word_of_bits (bits_from_to (change_header ch) 0 2) = change_header ch"
  proof (rule bit_word_eqI)
    show "n < LENGTH(8) \<Longrightarrow> bit (word_of_bits (bits_from_to (change_header ch) 0 2) :: u8) n \<longleftrightarrow> bit (change_header ch) n" for n
      using bit_ge_False [OF small, of n] by (cases "n < 2") (simp_all add: bit_word_of_bits_from_to)
  qed
  moreover have "bytes_of_bits ((2 + 7) div 8) (bits_from_to (change_header ch) 0 2) = [word_of_bits (bits_from_to (change_header ch) 0 2)]"
  proof -
    have "(2 + 7) div 8 = Suc 0" "length (bits_from_to (change_header ch) 0 2) \<le> 8" by (simp_all add: bits_from_to_def)
    then show ?thesis by (simp only: bytes_of_bits.simps take_all)
  qed
  ultimately show "liftO (index_slice (bytes_of_bits ((2 + 7) div 8) (bits_from_to (change_header ch) 0 2) @ drop ((2 + 7) div 8) [0]) 0)
      = retM (change_header ch)"
    by (simp only:) (simp add: index_slice_def)
qed simp_all

lemma delta_header_moves: "cursor_laws B \<Longrightarrow> moves B (delta_header_from_bit_reader B)"
  unfolding delta_header_from_bit_reader_def by (intro move_intros | assumption)+

lemma on_packet_bits_value:
  assumes "reads (sc_bits W) m bs x" "moves (sc_cursor W) m" "bits_ahead (sc_bits W) br = bs @ r"
  obtains br' where "on_packet_bits m (p, br) = (Ok x, (p, br'))" "eats W bs br br'" "bits_ahead (sc_bits W) br' = r"
  using reads_consumed [OF assms] that by (fastforce simp: on_packet_bits_def on_reader_def zoomM_def)

lemma changes_value:
  fixes p :: "('d, 'v) parser" and V :: "('v, 'e) visitor" and W :: "'s scene"
  assumes W: "in_scene W E V classes sers p" and jot: "jots V jot"
  shows "changes_coded W N i chs bs \<Longrightarrow> stands_for W ec N \<Longrightarrow> bits_ahead (sc_bits W) br = bs @ r \<Longrightarrow>
    \<exists>ec' br'. packet_entities_loop E V classes sers (length chs) i (with_entities ec v p, br)
        = (Ok (), (with_entities ec' (fold jot (shown_changes W chs N) v) p, br'))
      \<and> stands_for W ec' (apply_changes W chs N) \<and> eats W bs br br' \<and> bits_ahead (sc_bits W) br' = r"
proof (induction arbitrary: ec br v rule: changes_coded.induct)
  case (no_change N i)
  have "scene_ok W (ps_field_decode_ctx p)" using W by (simp add: in_scene_def)
  then have "cursor_laws (sc_cursor W)" by (rule scene_okD(2))
  with no_change consumed_refl [OF this] show ?case by (intro exI [of _ ec] exI [of _ br]) simp
next
  case (a_change j i d N ch bs chs bs')
  have ok: "scene_ok W (ps_field_decode_ctx p)" and E: "e_bits E = sc_cursor W" using W by (simp_all add: in_scene_def)
  note B = scene_okD(2) [OF ok] and laws = scene_okD(1) [OF ok]
  let ?h = "bits_from_to (change_header ch) 0 2" and ?p = "with_entities ec v p"
  obtain br1 where 1: "(on_packet_bits (read_ubitvar (sc_cursor W)) :: ('s, 'd, 'v, 'e, u32) packet_rm) (?p, br) = (Ok d, (?p, br1))"
    "eats W (encode_ubitvar d) br br1" "bits_ahead (sc_bits W) br1 = ?h @ bs @ bs' @ r"
    by (rule on_packet_bits_value [OF reads_ubitvar [OF scene_okD(3) [OF ok], of d] read_ubitvar_moves [OF B]])
      (use a_change.prems(2) in simp)
  obtain br2 where 2: "(on_packet_bits (delta_header_from_bit_reader (sc_cursor W)) :: ('s, 'd, 'v, 'e, u8) packet_rm) (?p, br1) = (Ok (change_header ch), (?p, br2))"
    "eats W ?h br1 br2" "bits_ahead (sc_bits W) br2 = bs @ bs' @ r"
    by (rule on_packet_bits_value [OF delta_header_reads [OF laws] delta_header_moves [OF B] 1(3)])
  have "in_scene W E V classes sers ?p" "stands_for W (cx_entities (ps_ctx ?p)) N" using W a_change.prems(1) by simp_all
  then obtain ec1 br3 where 3: "packet_entity E V classes sers j (change_header ch) (?p, br2)
      = (Ok (), (with_entities ec1 (fold jot (shown W j ch N) v) p, br3))"
    "stands_for W ec1 (apply_change W j ch N)" "eats W bs br2 br3" "bits_ahead (sc_bits W) br3 = bs' @ r"
    by (rule change_value [OF _ jot _ a_change(2) 2(3)]) simp
  from a_change.IH [OF 3(2,4)] obtain ec2 br4 where 4: "packet_entities_loop E V classes sers (length chs) j
      (with_entities ec1 (fold jot (shown W j ch N) v) p, br3)
      = (Ok (), (with_entities ec2 (fold jot (shown_changes W chs (apply_change W j ch N)) (fold jot (shown W j ch N) v)) p, br4))"
    "stands_for W ec2 (apply_changes W chs (apply_change W j ch N))" "eats W bs' br3 br4" "bits_ahead (sc_bits W) br4 = r" by blast
  have "eats W (encode_ubitvar d @ ?h @ bs @ bs') br br4"
    by (intro consumed_trans [OF B 1(2)] consumed_trans [OF B 2(2)] consumed_trans [OF B 3(3)] 4(3))
  moreover have "packet_entities_loop E V classes sers (length ((j, ch) # chs)) i (?p, br)
      = packet_entities_loop E V classes sers (length chs) j (with_entities ec1 (fold jot (shown W j ch N) v) p, br3)"
  proof -
    have "packet_entities_loop E V classes sers (Suc (length chs)) i (?p, br) = seqM
        (packet_entity E V classes sers j (change_header ch)) (packet_entities_loop E V classes sers (length chs) j) (?p, br2)"
      unfolding packet_entities_loop.simps Let_def E a_change(1)
      by (rule trans [OF bindM_run(1) [where m = "on_packet_bits (read_ubitvar (sc_cursor W))", OF 1(1)]])
        (rule bindM_run(1) [where m = "on_packet_bits (delta_header_from_bit_reader (sc_cursor W))", OF 2(1)])
    also have "\<dots> = packet_entities_loop E V classes sers (length chs) j (with_entities ec1 (fold jot (shown W j ch N) v) p, br3)"
      by (rule bindM_run(1) [where m = "packet_entity E V classes sers j (change_header ch)", OF 3(1)])
    finally show ?thesis by simp
  qed
  ultimately show ?case using 4 by auto
qed

text \<open>A message that encodes a list of changes, at ascending distances of their indices, takes the entities from the
  snapshot that they stand for to the one that the changes make of it.\<close>

lemma packet_entities_value:
  fixes p :: "('d, 'v) parser" and V :: "('v, 'e) visitor"
  assumes W: "in_scene W E V classes sers p" and jot: "jots V jot"
    and p: "cx_entity_classes (ps_ctx p) = Some classes" "cx_serializers (ps_ctx p) = Some sers"
    and N: "stands_for W (cx_entities (ps_ctx p)) N"
    and msg: "changes_coded W N (- 1) chs bs" "string_bits (mp_entity_data msg) = bs @ r"
      "8 * length (mp_entity_data msg) < 2 ^ 64" "sint (mp_updated_entries msg) = int (length chs)"
  shows "\<exists>ec. handle_svc_packet_entities E V msg p
      = (Ok (), with_entities ec (fold jot (shown_changes W chs N) (ps_visitor p)) p)
    \<and> stands_for W ec (apply_changes W chs N)"
proof -
  have ok: "scene_ok W (ps_field_decode_ctx p)" and E: "e_bits E = sc_cursor W" using W by (simp_all add: in_scene_def)
  let ?br = "bit_reader_new (sc_cursor W) (mp_entity_data msg)"
  have "bits_ahead (sc_bits W) ?br = bs @ r" using bits_ahead_new [OF scene_okD(1) [OF ok] msg(3)] msg(2) by simp
  from changes_value [OF W jot msg(1) N this, of "ps_visitor p"] obtain ec br' where
    run: "packet_entities_loop E V classes sers (length chs) (- 1) (p, ?br)
      = (Ok (), (with_entities ec (fold jot (shown_changes W chs N) (ps_visitor p)) p, br'))"
    and ec: "stands_for W ec (apply_changes W chs N)" and ate: "eats W bs ?br br'" by auto
  have "is_overflowed (sc_cursor W) br' = (Ok (), br'\<lparr>br_did_check_overflow := True\<rparr>)"
    using not_overflowed [OF scene_okD(1) [OF ok]] ate unfolding consumed_def by blast
  then have "handle_svc_packet_entities E V msg p = (Ok (), with_entities ec (fold jot (shown_changes W chs N) (ps_visitor p)) p)"
    by (simp add: handle_svc_packet_entities_def bindM_def get_ctx_def p msg(4) E run on_packet_bits_def on_reader_def
        zoomM_def map_errM_def)
  with ec show ?thesis by blast
qed

text \<open>Two creations of a class whose one field defaults to false: the first with the field set, the second without.\<close>

definition leaf_classes :: entity_classes where
  "leaf_classes = \<lparr>ec_classes = 1, ec_bits = 8, ec_class_infos = [7]\<rparr>"

definition leaf_scene :: "(bool list \<times> nat) scene" where
  "leaf_scene = \<lparr>sc_cursor = ref_bitbuf, sc_bits = ref_bits, sc_interval = f_zero, sc_classes = leaf_classes,
     sc_serializers = [7 \<mapsto> leaf_serializer], sc_cells = [[2]], sc_baseline = [Some 0],
     sc_class = \<lambda>c. (leaf_serializer, [5 \<mapsto> FvBool False]), sc_track = \<lambda>_. True\<rparr>"

definition leaf_message :: msg_packet_entities where
  "leaf_message = \<lparr>mp_entity_data = [128, 0, 0, 0, 0, 52, 16, 0, 0, 0, 64], mp_updated_entries = 2\<rparr>"

abbreviation leaf_changes :: "(i32 \<times> change) list" where
  "leaf_changes \<equiv> [(0, Create 0 [(5, FvBool True)]), (2, Create 0 [])]"

lemma leaf_updates:
  "update_coded ref_bitbuf ref_bits f_zero leaf_serializer [False, True, False, b] [(5, FvBool b)]"
  "update_coded ref_bitbuf ref_bits f_zero leaf_serializer [True, False] []"
proof -
  have "fields_coded ref_bitbuf f_zero leaf_serializer [example_path] ([b] @ []) [(5, FvBool b)]"
    by (rule a_field [OF example_field _ no_fields]) (simp add: example_leaf_def coded.bool)
  with example_stream show "update_coded ref_bitbuf ref_bits f_zero leaf_serializer [False, True, False, b] [(5, FvBool b)]"
    unfolding update_coded_def by (intro exI [of _ example_bits] exI [of _ "[example_path]"] exI [of _ "[b]"]) (simp add: example_bits_eq)
  have "op_code FieldPathEncodeFinish = [True, False]" by (simp add: op_code_eq [OF leaf_paths_value])
  with path_stream.finish [of ref_bits ref_bitbuf field_path_default] no_fields
  show "update_coded ref_bitbuf ref_bits f_zero leaf_serializer [True, False] []"
    unfolding update_coded_def by (intro exI [of _ "[True, False]"] exI [of _ "[]"]) simp
qed

lemma first_bits:
  "bits_from_to v 0 2 = [bit v 0, bit v 1]" "bits_from_to v 0 4 = [bit v 0, bit v 1, bit v 2, bit v 3]"
  "bits_from_to v 0 8 = [bit v 0, bit v 1, bit v 2, bit v 3, bit v 4, bit v 5, bit v 6, bit v 7]"
  "bits_from_to v 4 8 = [bit v 4, bit v 5, bit v 6, bit v 7]"
  by (simp_all add: bits_from_to_def upt_conv_Cons numeral_eq_Suc)

lemma replicate_low:
  "replicate 4 x = [x, x, x, x]" "replicate 5 x = [x, x, x, x, x]" "replicate 6 x = [x, x, x, x, x, x]"
  "replicate 8 x = [x, x, x, x, x, x, x, x]" "replicate 33 x = replicate 8 x @ replicate 17 x @ replicate 8 x"
  "replicate 17 x = replicate 8 x @ replicate 8 x @ [x]"
  by (simp_all add: numeral_eq_Suc)

lemma leaf_class: "class_known leaf_scene 0" "class_coded leaf_scene 0 (replicate 8 False)" "class_tracked leaf_scene c"
  "class_entity leaf_scene i c = \<lparr>en_index = i, en_fields = [5 \<mapsto> FvBool False], en_serializer = leaf_serializer\<rparr>"
proof -
  have data: "string_bits [2] = [False, True, False, False] @ replicate 4 False"
    by (simp add: string_bits_def first_bits replicate_low(1))
  have "class_serializer leaf_classes [7 \<mapsto> leaf_serializer] 0 = Ok leaf_serializer" "baseline_by_id [[2]] [Some 0] 0 = [2]"
    by (simp_all add: class_serializer_def class_by_id_def by_name_hash_def leaf_classes_def ok_or_def baseline_by_id_def as_usize_def)
  moreover have "[5 \<mapsto> FvBool False] = overlay [(5, FvBool False)] Map.empty" by simp
  ultimately show "class_known leaf_scene 0"
    using leaf_updates(1) [of False] data unfolding class_known_def leaf_scene_def Let_def
    by (simp only: scene.simps fst_conv snd_conv) (intro conjI exI; (assumption | simp))
  show "class_coded leaf_scene 0 (replicate 8 False)"
    by (simp add: class_coded_def leaf_scene_def leaf_classes_def first_bits replicate_low(1-4))
qed (simp_all add: class_tracked_def class_entity_def leaf_scene_def)

lemma leaf_create:
  assumes "N i = None" "update_coded ref_bitbuf ref_bits f_zero leaf_serializer bs kvs"
  shows "change_coded leaf_scene N i (Create 0 kvs) (replicate 33 False @ bs)"
proof -
  have "leb128 0 = [0]" by (simp add: leb128.simps)
  then have "string_bits (leb128 0) = replicate 8 False"
    by (simp add: string_bits_def first_bits replicate_low(1-4))
  moreover have "replicate 33 False = replicate 8 False @ replicate 17 False @ replicate 8 False"
    by (rule replicate_low(5))
  ultimately show ?thesis
    using create [OF leaf_class(1) _ leaf_class(2), of N i "replicate 17 False" bs kvs 0] assms by (simp add: leaf_scene_def)
qed

lemma leaf_message_coded:
  obtains bs where "changes_coded leaf_scene Map.empty (- 1) leaf_changes bs" "string_bits (mp_entity_data leaf_message) = bs @ []"
proof -
  let ?first = "[False, True] @ (replicate 33 False @ [False, True, False, True])" and ?second = "[False, True] @ (replicate 33 False @ [True, False])"
  have header: "bits_from_to CREATE 0 2 = [False, True]"
    by (simp add: CREATE_def first_bits replicate_low(1-4))
  have index: "encode_ubitvar 0 = replicate 6 False" "encode_ubitvar 1 = True # replicate 5 False"
    by (simp_all add: encode_ubitvar_def first_bits replicate_low(1-4))
  have "changes_coded leaf_scene Map.empty (- 1) leaf_changes (encode_ubitvar 0 @ ?first @ (encode_ubitvar 1 @ ?second @ []))"
    using a_change [OF _ leaf_create [OF _ leaf_updates(1)], of 0 "- 1" 0 Map.empty True]
      a_change [OF _ leaf_create [OF _ leaf_updates(2)] no_change, of 2 0 1] leaf_class(3)
    by (simp add: header)
  moreover have "string_bits (mp_entity_data leaf_message) = encode_ubitvar 0 @ ?first @ (encode_ubitvar 1 @ ?second @ [])"
    by (simp add: leaf_message_def index string_bits_def first_bits replicate_low)
  ultimately show thesis using that by simp
qed

end
