(* ===== verification/PacketSnapshots.thy ===== *)
theory PacketSnapshots
  imports SnapshotRuns
begin

text \<open>
  A packet is a sequence of messages.  \<open>handle_cmd_packet\<close> refines the semantics of changes for whole packets: the
  messages of entity changes act on the snapshot one after the other, and the others are left to the visitor.
\<close>

subsection \<open>Messages on the wire\<close>

datatype message = Entities "u8 list" "(i32 \<times> change) list" | Other u32 "u8 list"

fun message_command :: "('s, 'c) env \<Rightarrow> message \<Rightarrow> u32" where
  "message_command E (Entities buf chs) = e_svc_packet_entities E"
| "message_command E (Other c buf) = c"

fun message_body :: "message \<Rightarrow> u8 list" where
  "message_body (Entities buf chs) = buf"
| "message_body (Other c buf) = buf"

fun after_message :: "'s scene \<Rightarrow> message \<Rightarrow> snapshot \<Rightarrow> snapshot" where
  "after_message W (Entities buf chs) N = apply_changes W chs N"
| "after_message W (Other c buf) N = N"

fun changes_shown :: "'s scene \<Rightarrow> message \<Rightarrow> snapshot \<Rightarrow> (delta_header \<times> entity) list" where
  "changes_shown W (Entities buf chs) N = shown_changes W chs N"
| "changes_shown W (Other c buf) N = []"

text \<open>What a visitor is told.  A message is told as it is; if it changes entities, these follow.\<close>

datatype event = ToldCommand cmd_header "u8 list" | ToldMessage u32 "u8 list" | ToldEntity "delta_header \<times> entity" | TickEnded

definition message_events :: "('s, 'c) env \<Rightarrow> 's scene \<Rightarrow> message \<Rightarrow> snapshot \<Rightarrow> event list" where
  "message_events E W m N = ToldMessage (message_command E m) (message_body m) # map ToldEntity (changes_shown W m N)"

definition message_bits :: "('s, 'c) env \<Rightarrow> message \<Rightarrow> bool list" where
  "message_bits E m = encode_ubitvar (message_command E m) @ string_bits (leb128 (length (message_body m)))
     @ string_bits (message_body m)"

text \<open>What makes a message one of its kind: the bytes decode to a message that encodes the changes, or the command is
  one that the parser does not handle.\<close>

fun message_means :: "('s, 'c) env \<Rightarrow> 's scene \<Rightarrow> snapshot \<Rightarrow> message \<Rightarrow> bool" where
  "message_means E W N (Entities buf chs) \<longleftrightarrow> (\<exists>msg bs r. e_decode_packet_entities E buf = Some msg
     \<and> changes_coded W N (- 1) chs bs \<and> string_bits (mp_entity_data msg) = bs @ r
     \<and> 8 * length (mp_entity_data msg) < 2 ^ 64 \<and> sint (mp_updated_entries msg) = int (length chs))"
| "message_means E W N (Other c buf) \<longleftrightarrow> c \<notin> {e_svc_create_string_table E, e_svc_update_string_table E,
     e_svc_packet_entities E, e_svc_server_info E}"

text \<open>The messages of a packet, none of which is empty or longer than the parser's buffer.\<close>

inductive messages_coded :: "('s, 'c) env \<Rightarrow> 's scene \<Rightarrow> nat \<Rightarrow> snapshot \<Rightarrow> message list \<Rightarrow> bool list \<Rightarrow> bool" for E W n where
  no_message: "messages_coded E W n N [] []"
| a_message: "message_means E W N m \<Longrightarrow> 0 < length (message_body m) \<Longrightarrow> length (message_body m) \<le> n \<Longrightarrow>
    length (message_body m) < 2 ^ 32 \<Longrightarrow> messages_coded E W n (after_message W m N) ms bs \<Longrightarrow>
    messages_coded E W n N (m # ms) (message_bits E m @ bs)"

fun after_messages :: "'s scene \<Rightarrow> message list \<Rightarrow> snapshot \<Rightarrow> snapshot" where
  "after_messages W [] N = N"
| "after_messages W (m # ms) N = after_messages W ms (after_message W m N)"

fun messages_events :: "('s, 'c) env \<Rightarrow> 's scene \<Rightarrow> message list \<Rightarrow> snapshot \<Rightarrow> event list" where
  "messages_events E W [] N = []"
| "messages_events E W (m # ms) N = message_events E W m N @ messages_events E W ms (after_message W m N)"

text \<open>A visitor that never fails and takes each event into its state.\<close>

definition takes :: "('v, 'e) visitor \<Rightarrow> (event \<Rightarrow> 'v \<Rightarrow> 'v) \<Rightarrow> bool" where
  "takes V take_in \<longleftrightarrow> (\<forall>ctx v.
     (\<forall>h b. vi_on_cmd V ctx h b v = (Ok (), take_in (ToldCommand h b) v)) \<and>
     (\<forall>c b. vi_on_packet V ctx c b v = (Ok (), take_in (ToldMessage c b) v)) \<and>
     (\<forall>h e. vi_on_entity V ctx h e v = (Ok (), take_in (ToldEntity (h, e)) v)) \<and>
     vi_on_tick_end V ctx v = (Ok (), take_in TickEnded v))"

lemma takes_jots: "takes V take_in \<Longrightarrow> jots V (\<lambda>x. take_in (ToldEntity x))"
  by (simp add: takes_def jots_def)

subsection \<open>One message\<close>

text \<open>A parser that is ready for the messages: the scene it is in, and its buffer of \<open>n\<close> bytes.\<close>

definition ready ::
    "'s scene \<Rightarrow> ('s, 'c) env \<Rightarrow> ('v, 'e) visitor \<Rightarrow> nat \<Rightarrow> ('d, 'v) parser \<Rightarrow> bool" where
  "ready W E V n p \<longleftrightarrow> in_scene W E V (sc_classes W) (sc_serializers W) p
     \<and> cx_entity_classes (ps_ctx p) = Some (sc_classes W) \<and> cx_serializers (ps_ctx p) = Some (sc_serializers W)
     \<and> length (ps_buf p) = n \<and> \<not> ps_skip_entity_packets p
     \<and> e_svc_packet_entities E \<notin> {e_svc_create_string_table E, e_svc_update_string_table E}"

definition with_buf :: "u8 list \<Rightarrow> ('d, 'v) parser \<Rightarrow> ('d, 'v) parser" where
  "with_buf b p = p\<lparr>ps_buf := b\<rparr>"

lemma with_buf_simps [simp]:
  "ps_ctx (with_buf b p) = ps_ctx p" "ps_visitor (with_buf b p) = ps_visitor p" "with_buf b (with_buf b' p) = with_buf b p"
  "with_buf (ps_buf p) p = p" "ps_buf (with_buf b p) = b" "ps_buf (with_entities ec v p) = ps_buf p"
  "with_entities ec v (with_buf b p) = with_buf b (with_entities ec v p)"
  by (simp_all add: with_buf_def with_entities_def)

lemma ready_simps [simp]:
  "length b = length (ps_buf p) \<Longrightarrow> ready W E V n (with_buf b p) = ready W E V n p"
  "ready W E V n (with_entities ec v p) = ready W E V n p"
  by (auto simp: ready_def with_buf_def with_entities_def in_scene_def)

lemma readyD:
  assumes "ready W E V n p"
  shows "scene_ok W (ps_field_decode_ctx p)" "e_bits E = sc_cursor W" "length (ps_buf p) = n"
  using assms by (simp_all add: ready_def in_scene_def)

lemma visit_packet_value:
  "takes V take_in \<Longrightarrow> on_parser (visit (\<lambda>ctx. vi_on_packet V ctx c buf)) (p, br)
    = (Ok (), (with_entities (cx_entities (ps_ctx p)) (take_in (ToldMessage c buf) (ps_visitor p)) p, br))"
  by (simp add: on_parser_def visit_def zoomM_def map_errM_def takes_def with_entities_def)

lemma message_value:
  fixes p :: "('d, 'v) parser" and V :: "('v, 'e) visitor"
  assumes p: "ready W E V n p" and jot: "jots V jot" and N: "stands_for W (cx_entities (ps_ctx p)) N"
    and m: "message_means E W N m"
  obtains ec where "packet_message E V (message_command E m) (message_body m) p
      = (Ok (), with_entities ec (fold jot (changes_shown W m N) (ps_visitor p)) p)"
    "stands_for W ec (after_message W m N)"
proof (cases m)
  case (Entities buf chs)
  then obtain msg bs r where m: "e_decode_packet_entities E buf = Some msg" "changes_coded W N (- 1) chs bs"
    "string_bits (mp_entity_data msg) = bs @ r" "8 * length (mp_entity_data msg) < 2 ^ 64"
    "sint (mp_updated_entries msg) = int (length chs)" using m by auto
  from p have "in_scene W E V (sc_classes W) (sc_serializers W) p" "cx_entity_classes (ps_ctx p) = Some (sc_classes W)"
    "cx_serializers (ps_ctx p) = Some (sc_serializers W)" by (simp_all add: ready_def)
  from packet_entities_value [OF this(1) jot this(2,3) N m(2-5)] obtain ec where
    "handle_svc_packet_entities E V msg p = (Ok (), with_entities ec (fold jot (shown_changes W chs N) (ps_visitor p)) p)"
    "stands_for W ec (apply_changes W chs N)" by blast
  with that [of ec] p m(1) show thesis by (simp add: Entities packet_message_def ready_def decode_msg_def)
next
  case (Other c buf)
  with m that [of "cx_entities (ps_ctx p)"] N show thesis by (simp add: packet_message_def)
qed

lemma read_message_value:
  fixes p :: "('d, 'v) parser"
  assumes laws: "wire_laws (sc_cursor W) (sc_bits W)" and buf: "0 < length buf" "length buf \<le> length (ps_buf p)"
    and s: "bits_ahead (sc_bits W) br = string_bits buf @ r"
  obtains b br' where "(read_message (sc_cursor W) (length buf) :: ('s, 'd, 'v, 'e, u8 list) packet_rm) (p, br)
      = (Ok buf, (with_buf b p, br'))"
    "length b = length (ps_buf p)" "eats W (string_bits buf) br br'" "bits_ahead (sc_bits W) br' = r"
proof -
  have "reads (sc_bits W) (read_bytes (sc_cursor W) (take (length buf) (ps_buf p))) (string_bits buf) buf"
    using buf by (intro reads_buffers(2) [OF laws]) auto
  from on_packet_bits_value [OF this read_moves(5) [OF wire_lawsD(1) [OF laws]] s, of p] obtain br' where
    "(on_packet_bits (read_bytes (sc_cursor W) (take (length buf) (ps_buf p))) :: ('s, 'd, 'v, 'e, u8 list) packet_rm) (p, br)
      = (Ok buf, (p, br'))" "eats W (string_bits buf) br br'" "bits_ahead (sc_bits W) br' = r" by blast
  with that [of "buf @ drop (length buf) (ps_buf p)" br'] buf show thesis
    by (simp add: read_message_def slice_to_def bindM_def liftO_def with_buf_def)
qed

subsection \<open>A packet\<close>

lemma length_message_bits: "8 < length (message_bits E m)"
proof -
  have "4 \<le> length (encode_ubitvar v)" for v by (simp add: encode_ubitvar_def bits_from_to_def)
  moreover have "leb128 n \<noteq> []" for n by (subst leb128.simps) simp
  then have "8 \<le> length (string_bits (leb128 n))" for n by (simp add: Suc_le_eq)
  ultimately have "4 + 8 \<le> length (encode_ubitvar v) + length (string_bits (leb128 n))" for v n by (rule add_mono)
  from this [of "message_command E m" "length (message_body m)"] show ?thesis unfolding message_bits_def length_append by linarith
qed

lemma packet_step:
  fixes p :: "('d, 'v) parser" and V :: "('v, 'e) visitor" and W :: "'s scene"
  assumes p: "ready W E V n p" and V: "takes V take_in" and N: "stands_for W (cx_entities (ps_ctx p)) N"
    and m: "message_means E W N m" "0 < length (message_body m)" "length (message_body m) \<le> n" "length (message_body m) < 2 ^ 32"
    and s: "bits_ahead (sc_bits W) br = message_bits E m @ r"
  obtains ec b br' where "packet_loop E V (Suc fuel) (p, br) = packet_loop E V fuel
      (with_buf b (with_entities ec (fold take_in (message_events E W m N) (ps_visitor p)) p), br')"
    "length b = n" "stands_for W ec (after_message W m N)" "eats W (message_bits E m) br br'" "bits_ahead (sc_bits W) br' = r"
proof -
  let ?B = "sc_cursor W" and ?c = "message_command E m" and ?buf = "message_body m"
  note ok = readyD(1) [OF p] and E = readyD(2) [OF p] and n = readyD(3) [OF p]
  note laws = scene_okD(1) [OF ok] and B = scene_okD(2) [OF ok]
  have more: "8 < num_bits_left ?B br" using bits_left [OF laws, of br] s length_message_bits [of E m] by simp
  obtain br1 where 1: "(on_packet_bits (read_ubitvar ?B) :: ('s, 'd, 'v, 'e, u32) packet_rm) (p, br) = (Ok ?c, (p, br1))"
    "eats W (encode_ubitvar ?c) br br1" "bits_ahead (sc_bits W) br1 = string_bits (leb128 (length ?buf)) @ string_bits ?buf @ r"
    by (rule on_packet_bits_value [OF reads_ubitvar [OF scene_okD(3) [OF ok]] read_ubitvar_moves [OF B]])
      (use s in \<open>simp add: message_bits_def\<close>)
  have size: "unat (of_nat (length ?buf) :: u32) = length ?buf" using m(4) by (simp add: unat_of_nat)
  obtain br2 where 2: "(on_packet_bits (read_uvarint32 ?B) :: ('s, 'd, 'v, 'e, u32) packet_rm) (p, br1) = (Ok (of_nat (length ?buf)), (p, br2))"
    "eats W (string_bits (leb128 (length ?buf))) br1 br2" "bits_ahead (sc_bits W) br2 = string_bits ?buf @ r"
    by (rule on_packet_bits_value [OF reads_integers(1) [OF laws, where v = "of_nat (length ?buf)"] read_moves'(3) [OF B]])
      (use 1(3) in \<open>simp_all add: size\<close>)
  obtain b br3 where 3: "(read_message ?B (length ?buf) :: ('s, 'd, 'v, 'e, u8 list) packet_rm) (p, br2) = (Ok ?buf, (with_buf b p, br3))"
    "length b = n" "eats W (string_bits ?buf) br2 br3" "bits_ahead (sc_bits W) br3 = r"
    using read_message_value [OF laws m(2) _ 2(3), of p] m(3) n by auto
  let ?p = "with_buf b (with_entities (cx_entities (ps_ctx p)) (take_in (ToldMessage ?c ?buf) (ps_visitor p)) p)"
  have 4: "on_parser (visit (\<lambda>ctx. vi_on_packet V ctx ?c ?buf)) (with_buf b p, br3) = (Ok (), (?p, br3))"
    using visit_packet_value [OF V, of ?c ?buf "with_buf b p" br3] by simp
  have "ready W E V n ?p" "stands_for W (cx_entities (ps_ctx ?p)) N" using p N 3(2) n by simp_all
  from message_value [OF this(1) takes_jots [OF V] this(2) m(1)] obtain ec where 5: "packet_message E V ?c ?buf ?p
      = (Ok (), with_entities ec (fold (\<lambda>x. take_in (ToldEntity x)) (changes_shown W m N) (ps_visitor ?p)) ?p)" "stands_for W ec (after_message W m N)" .
  have "packet_loop E V (Suc fuel) (p, br) = packet_loop E V fuel
      (with_buf b (with_entities ec (fold take_in (message_events E W m N) (ps_visitor p)) p), br3)"
    using more 5(1) by (simp add: message_events_def fold_map o_def E bindM_def 1(1) 2(1) size 3(1) 4) (simp add: on_parser_def zoomM_def)
  moreover have "eats W (message_bits E m) br br3"
    unfolding message_bits_def by (intro consumed_trans [OF B 1(2)] consumed_trans [OF B 2(2)] 3(3))
  ultimately show thesis using that 3(2,4) 5(2) by blast
qed

lemma packet_value:
  fixes p :: "('d, 'v) parser" and V :: "('v, 'e) visitor" and W :: "'s scene"
  assumes V: "takes V take_in"
  shows "messages_coded E W n N ms bs \<Longrightarrow> ready W E V n p \<Longrightarrow> stands_for W (cx_entities (ps_ctx p)) N \<Longrightarrow>
    bits_ahead (sc_bits W) br = bs @ r \<Longrightarrow> length r \<le> 8 \<Longrightarrow> length ms < fuel \<Longrightarrow>
    \<exists>ec b br'. packet_loop E V fuel (p, br) = (Ok (), (with_buf b (with_entities ec (fold take_in (messages_events E W ms N) (ps_visitor p)) p), br'))
      \<and> stands_for W ec (after_messages W ms N) \<and> length b = n \<and> eats W bs br br'"
proof (induction arbitrary: p br fuel rule: messages_coded.induct)
  case (no_message N)
  note laws = readyD(1) [OF no_message(1)] and E = readyD(2) [OF no_message(1)] and n = readyD(3) [OF no_message(1)]
  from no_message bits_left [OF scene_okD(1) [OF laws], of br] have "\<not> 8 < num_bits_left (sc_cursor W) br" by simp
  with no_message consumed_refl [OF scene_okD(2) [OF laws]] n show ?case
    by (cases fuel) (auto simp: E intro!: exI [of _ "cx_entities (ps_ctx p)"] exI [of _ "ps_buf p"])
next
  case (a_message N m ms bs)
  obtain k where k: "fuel = Suc k" "length ms < k" using a_message.prems(5) by (cases fuel) auto
  have "bits_ahead (sc_bits W) br = message_bits E m @ bs @ r" using a_message.prems(3) by simp
  from packet_step [OF a_message.prems(1) V a_message.prems(2) a_message.hyps(1-4) this, of k] obtain ec b br1 where
    step: "packet_loop E V (Suc k) (p, br) = packet_loop E V k
      (with_buf b (with_entities ec (fold take_in (message_events E W m N) (ps_visitor p)) p), br1)"
    and 1: "length b = n" "stands_for W ec (after_message W m N)" "eats W (message_bits E m) br br1" "bits_ahead (sc_bits W) br1 = bs @ r" .
  let ?p = "with_buf b (with_entities ec (fold take_in (message_events E W m N) (ps_visitor p)) p)"
  have "ready W E V n ?p" "stands_for W (cx_entities (ps_ctx ?p)) (after_message W m N)"
    using a_message.prems(1) 1(1,2) readyD(3) [OF a_message.prems(1)] by simp_all
  from a_message.IH [OF this 1(4) a_message.prems(4) k(2)] obtain ec2 b2 br2 where
    "packet_loop E V k (?p, br1) = (Ok (), (with_buf b2 (with_entities ec2
      (fold take_in (messages_events E W ms (after_message W m N)) (ps_visitor ?p)) ?p), br2))"
    "stands_for W ec2 (after_messages W ms (after_message W m N))" "length b2 = n" "eats W bs br1 br2" by blast
  moreover from consumed_trans [OF scene_okD(2) [OF readyD(1) [OF a_message.prems(1)]] 1(3)] have "eats W bs br1 br2 \<Longrightarrow> eats W (message_bits E m @ bs) br br2" .
  ultimately show ?case using step k(1) by (intro exI [of _ ec2] exI [of _ b2] exI [of _ br2]) simp
qed

lemma length_messages: "messages_coded E W n N ms bs \<Longrightarrow> length ms \<le> length bs"
proof (induction rule: messages_coded.induct)
  case (a_message N m ms bs)
  with length_message_bits [of E m] show ?case by simp
qed simp

text \<open>The packet of a list of messages takes the entities through the changes of its messages, one after the other.  Apart
  from that only the parser's buffer changes; the padding behind the last message is at most a byte and is not read.\<close>

lemma cmd_packet_value:
  fixes p :: "('d, 'v) parser" and V :: "('v, 'e) visitor" and W :: "'s scene"
  assumes V: "takes V take_in" and p: "ready W E V n p" "stands_for W (cx_entities (ps_ctx p)) N"
    and "messages_coded E W n N ms bs" "string_bits data = bs @ r" "length r \<le> 8" "8 * length data < 2 ^ 64"
  shows "\<exists>ec b. handle_cmd_packet E V (Some data) p
      = (Ok (), with_buf b (with_entities ec (fold take_in (messages_events E W ms N) (ps_visitor p)) p))
    \<and> stands_for W ec (after_messages W ms N) \<and> length b = n"
proof -
  note laws = scene_okD(1) [OF readyD(1) [OF assms(2)]] and E = readyD(2) [OF assms(2)]
  let ?br = "bit_reader_new (sc_cursor W) data"
  have ahead: "bits_ahead (sc_bits W) ?br = bs @ r" using bits_ahead_new [OF laws assms(7)] assms(5) by simp
  then have "length ms < Suc (num_bits_left (sc_cursor W) ?br)"
    using length_messages [OF assms(4)] bits_left [OF laws, of ?br] by simp
  from packet_value [OF assms(1,4,2,3) ahead assms(6) this] obtain ec b br' where
    run: "packet_loop E V (Suc (num_bits_left (sc_cursor W) ?br)) (p, ?br)
      = (Ok (), (with_buf b (with_entities ec (fold take_in (messages_events E W ms N) (ps_visitor p)) p), br'))"
    and result: "stands_for W ec (after_messages W ms N)" "length b = n" and ate: "eats W bs ?br br'" by blast
  have "is_overflowed (sc_cursor W) br' = (Ok (), br'\<lparr>br_did_check_overflow := True\<rparr>)"
    using not_overflowed [OF laws] ate unfolding consumed_def by blast
  then have "handle_cmd_packet E V (Some data) p = (Ok (), with_buf b (with_entities ec (fold take_in (messages_events E W ms N) (ps_visitor p)) p))"
    unfolding handle_cmd_packet_def Let_def E option.case bindM_run(1) [where m = "packet_loop E V _", OF run]
    by (simp add: on_packet_bits_def on_reader_def zoomM_def map_errM_def)
  with result show ?thesis by blast
qed

end
