(* ===== verification/DemoSnapshots.thy ===== *)
theory DemoSnapshots
  imports PacketSnapshots PacketChannelLaws
begin

text \<open>
  A demo is a sequence of commands, some of which are packets.  A run of the parser to the end tells the visitor the
  story of the demo: its commands, their messages, the entities that these change and the ends of the ticks.  The
  story is read off the abstract commands; \<open>file_holds\<close> says how these lie in the bytes of a demo file.
\<close>

subsection \<open>Commands\<close>

text \<open>A command: its header, its body as it is stored, the body itself and the messages of its packet.\<close>

record command =
  co_header :: cmd_header
  co_stored :: "u8 list"
  co_body :: "u8 list"
  co_messages :: "message list"

definition is_packet :: "demo_commands \<Rightarrow> command \<Rightarrow> bool" where
  "is_packet C c \<longleftrightarrow> ch_cmd (co_header c) \<in> {dc_packet C, dc_signon_packet C}"

text \<open>What makes a command a packet of its messages.  The tables and classes are known already, so that their
  commands are passed over; a full packet is not.\<close>

definition command_means ::
    "('s, 'c) env \<Rightarrow> 's scene \<Rightarrow> ('d, 'x) demo_stream_scheme \<Rightarrow> nat \<Rightarrow> snapshot \<Rightarrow> command \<Rightarrow> bool" where
  "command_means E W D n N c \<longleftrightarrow>
     (if is_packet (e_cmds E) c then \<exists>data bs r. ds_decode_cmd_packet D (co_body c) = Ok (Some data)
        \<and> messages_coded E W n N (co_messages c) bs \<and> string_bits data = bs @ r \<and> length r \<le> 8 \<and> 8 * length data < 2 ^ 64
      else ch_cmd (co_header c) \<noteq> dc_full_packet (e_cmds E) \<and> co_messages c = [])"

fun demo_means ::
    "('s, 'c) env \<Rightarrow> 's scene \<Rightarrow> ('d, 'x) demo_stream_scheme \<Rightarrow> nat \<Rightarrow> snapshot \<Rightarrow> command list \<Rightarrow> bool" where
  "demo_means E W D n N [] \<longleftrightarrow> True"
| "demo_means E W D n N (c # cs) \<longleftrightarrow> command_means E W D n N c \<and> demo_means E W D n (after_messages W (co_messages c) N) cs"

fun after_commands :: "'s scene \<Rightarrow> command list \<Rightarrow> snapshot \<Rightarrow> snapshot" where
  "after_commands W [] N = N"
| "after_commands W (c # cs) N = after_commands W cs (after_messages W (co_messages c) N)"

text \<open>A tick ends behind the command that changes it.\<close>

fun story :: "('s, 'c) env \<Rightarrow> 's scene \<Rightarrow> i32 \<Rightarrow> command list \<Rightarrow> snapshot \<Rightarrow> event list" where
  "story E W t [] N = []"
| "story E W t (c # cs) N = ToldCommand (co_header c) (co_body c) # messages_events E W (co_messages c) N
     @ (if ch_tick (co_header c) \<noteq> t then [TickEnded] else [])
     @ story E W (ch_tick (co_header c)) cs (after_messages W (co_messages c) N)"

text \<open>A stream that gives the commands one after the other and then ends.\<close>

inductive plays :: "('d, 'x) demo_stream_scheme \<Rightarrow> 'd \<Rightarrow> command list \<Rightarrow> bool" for D where
  at_end: "ds_read_cmd_header D d = (Err err, d1) \<Longrightarrow> at_eof_or_default D d1 = (Ok True, d2) \<Longrightarrow> plays D d []"
| a_command: "ds_read_cmd_header D d = (Ok (co_header c), d1) \<Longrightarrow> ds_read_cmd D (co_header c) d1 = (Ok (co_body c), d2) \<Longrightarrow>
    plays D d2 cs \<Longrightarrow> plays D d (c # cs)"

inductive_cases plays_NilE: "plays D d []"
inductive_cases plays_ConsE: "plays D d (c # cs)"

subsection \<open>Runs\<close>

lemma ready_stream: "ready W E V n (ticked t p) = ready W E V n p" "ready W E V n (p\<lparr>ps_demo_stream := d\<rparr>) = ready W E V n p"
  "ready W E V n (p\<lparr>ps_visitor := v\<rparr>) = ready W E V n p" "ps_buf (ticked t p) = ps_buf p"
  by (simp_all add: ready_def in_scene_def ticked_def)

lemma visit_value:
  assumes "takes V take_in"
  shows "visit (\<lambda>ctx. vi_on_cmd V ctx h b) p = (Ok (), p\<lparr>ps_visitor := take_in (ToldCommand h b) (ps_visitor p)\<rparr>)"
    "visit (vi_on_tick_end V) p = (Ok (), p\<lparr>ps_visitor := take_in TickEnded (ps_visitor p)\<rparr>)"
  using assms by (simp_all add: visit_def zoomM_def map_errM_def takes_def)

lemma match_cmd_value:
  fixes p :: "('d, 'v) parser" and V :: "('v, 'e) visitor" and W :: "'s scene"
  assumes V: "takes V take_in" and p: "ready W E V n p" and N: "stands_for W (cx_entities (ps_ctx p)) N"
    and c: "command_means E W D n N c"
  obtains ec b where "match_cmd E D V (ch_cmd (co_header c)) (co_body c) p
      = (Ok (), with_buf b (with_entities ec (fold take_in (messages_events E W (co_messages c) N) (ps_visitor p)) p))"
    "stands_for W ec (after_messages W (co_messages c) N)" "length b = n"
proof (cases "is_packet (e_cmds E) c")
  case True
  then obtain data bs r where d: "ds_decode_cmd_packet D (co_body c) = Ok (Some data)"
    "messages_coded E W n N (co_messages c) bs" "string_bits data = bs @ r" "length r \<le> 8" "8 * length data < 2 ^ 64"
    using c by (auto simp: command_means_def)
  obtain ec b where "handle_cmd_packet E V (Some data) p
      = (Ok (), with_buf b (with_entities ec (fold take_in (messages_events E W (co_messages c) N) (ps_visitor p)) p))"
    "stands_for W ec (after_messages W (co_messages c) N)" "length b = n"
    using cmd_packet_value [OF V p N d(2-5)] by blast
  with that True d(1) show thesis by (auto simp: match_cmd_def is_packet_def Let_def)
next
  case False
  then have "match_cmd E D V (ch_cmd (co_header c)) (co_body c) p = (Ok (), p)"
    using c p by (simp add: match_cmd_def is_packet_def command_means_def Let_def bindM_def get_ctx_def retM_def ready_def)
  with that [of "ps_buf p" "cx_entities (ps_ctx p)"] N c False readyD(3) [OF p] show thesis by (simp add: command_means_def)
qed

lemma command_value:
  fixes p :: "('d, 'v) parser" and V :: "('v, 'e) visitor" and W :: "'s scene"
  assumes V: "takes V take_in" and p: "ready W E V n p" and N: "stands_for W (cx_entities (ps_ctx p)) N"
    and c: "command_means E W D n N c" and d: "ds_read_cmd D (co_header c) (ps_demo_stream p) = (Ok (co_body c), d)"
  obtains p' where "dispatch E D V CfHandle (co_header c) (ticked (ch_tick (co_header c)) p) = (Ok (), p')"
    "ready W E V n p'" "stands_for W (cx_entities (ps_ctx p')) (after_messages W (co_messages c) N)"
    "ps_demo_stream p' = d" "cx_tick (ps_ctx p') = ch_tick (co_header c)"
    "ps_visitor p' = fold take_in (ToldCommand (co_header c) (co_body c) # messages_events E W (co_messages c) N
       @ (if ch_tick (co_header c) \<noteq> cx_tick (ps_ctx p) then [TickEnded] else [])) (ps_visitor p)"
proof -
  let ?h = "co_header c" and ?t = "ch_tick (co_header c)"
  let ?p1 = "(ticked ?t p)\<lparr>ps_demo_stream := d\<rparr>"
  let ?p2 = "?p1\<lparr>ps_visitor := take_in (ToldCommand ?h (co_body c)) (ps_visitor p)\<rparr>"
  have "ready W E V n ?p2" "stands_for W (cx_entities (ps_ctx ?p2)) N"
    using p N by (simp_all add: ready_stream) (simp add: ticked_def)
  from match_cmd_value [OF V this c] obtain ec b where m: "match_cmd E D V (ch_cmd ?h) (co_body c) ?p2
      = (Ok (), with_buf b (with_entities ec (fold take_in (messages_events E W (co_messages c) N) (ps_visitor ?p2)) ?p2))"
    "stands_for W ec (after_messages W (co_messages c) N)" "length b = n" .
  define p3 where "p3 = with_buf b (with_entities ec (fold take_in (messages_events E W (co_messages c) N) (ps_visitor ?p2)) ?p2)"
  have p3: "ready W E V n p3" "cx_entities (ps_ctx p3) = ec" "ps_demo_stream p3 = d" "cx_tick (ps_ctx p3) = ?t"
    "cx_prev_tick (ps_ctx p3) = cx_tick (ps_ctx p)"
    "ps_visitor p3 = fold take_in (messages_events E W (co_messages c) N) (take_in (ToldCommand ?h (co_body c)) (ps_visitor p))"
    using p m(3) readyD(3) [OF p] by (simp_all add: p3_def ready_stream) (simp_all add: with_entities_def with_buf_def)
  have read: "(on_stream PeCmd (ds_read_cmd D ?h) :: ('d, 'v, 'e, u8 list) parser_rm) (ticked ?t p) = (Ok (co_body c), ?p1)"
    using d by (simp add: on_stream_Ok_iff)
  have "handle_cmd E D V ?h (ticked ?t p) = (Ok (), p3)"
    by (simp add: handle_cmd_def bindM_def read visit_value [OF V] m(1) p3_def)
  then have run: "dispatch E D V CfHandle ?h (ticked ?t p)
      = (Ok (), if ?t \<noteq> cx_tick (ps_ctx p) then p3\<lparr>ps_visitor := take_in TickEnded (ps_visitor p3)\<rparr> else p3)"
    using p3(4,5) by (auto simp: dispatch_def bindM_def get_ctx_def visit_value [OF V] retM_def)
  show thesis
  proof (cases "?t = cx_tick (ps_ctx p)")
    case True
    with that [of p3] run p3 m(2) show thesis by simp
  next
    case False
    with that [of "p3\<lparr>ps_visitor := take_in TickEnded (ps_visitor p3)\<rparr>"] run p3 m(2) show thesis by (simp add: ready_stream)
  qed
qed

text \<open>A run to the end of a stream that plays commands.\<close>

lemma run_value:
  fixes p :: "('d, 'v) parser" and V :: "('v, 'e) visitor" and W :: "'s scene"
  assumes V: "takes V take_in"
  shows "plays D d cs \<Longrightarrow> ps_demo_stream p = d \<Longrightarrow> ready W E V n p \<Longrightarrow> stands_for W (cx_entities (ps_ctx p)) N \<Longrightarrow>
    demo_means E W D n N cs \<Longrightarrow> length cs < fuel \<Longrightarrow>
    \<exists>p'. run_to_end E D V fuel p = (Ok (), p') \<and> ready W E V n p'
      \<and> ps_visitor p' = fold take_in (story E W (cx_tick (ps_ctx p)) cs N) (ps_visitor p)
      \<and> stands_for W (cx_entities (ps_ctx p')) (after_commands W cs N)"
proof (induction arbitrary: p N fuel rule: plays.induct)
  case (at_end d err d1 d2)
  obtain k where k: "fuel = Suc k" using at_end.prems(5) by (cases fuel) auto
  let ?p1 = "p\<lparr>ps_demo_stream := d1\<rparr>"
  have "(zoomM ps_demo_stream (\<lambda>d p. p\<lparr>ps_demo_stream := d\<rparr>) (ds_read_cmd_header D) p) = (Err err, ?p1)"
    using at_end(1,3) by (simp add: zoom_stream_iff)
  moreover have "(end_of_run D err :: ('d, 'v, 'e, unit) parser_rm) ?p1 = (Ok (), ?p1\<lparr>ps_demo_stream := d2\<rparr>)"
    using at_end(2) by (simp add: end_of_run_Ok_iff)
  ultimately have "run_to_end E D V fuel p = (Ok (), ?p1\<lparr>ps_demo_stream := d2\<rparr>)" by (simp add: run_to_end_def k)
  with at_end.prems(2,3) show ?case by (simp add: ready_stream)
next
  case (a_command d c d1 d2 cs)
  obtain k where k: "fuel = Suc k" "length cs < k" using a_command.prems(5) by (cases fuel) auto
  let ?p1 = "p\<lparr>ps_demo_stream := d1\<rparr>"
  have header: "(zoomM ps_demo_stream (\<lambda>d p. p\<lparr>ps_demo_stream := d\<rparr>) (ds_read_cmd_header D) p) = (Ok (co_header c), ?p1)"
    using a_command(1) a_command.prems(1) by (simp add: zoom_stream_iff)
  have "ready W E V n ?p1" "stands_for W (cx_entities (ps_ctx ?p1)) N" "command_means E W D n N c"
    "ds_read_cmd D (co_header c) (ps_demo_stream ?p1) = (Ok (co_body c), d2)"
    using a_command(2) a_command.prems(2-4) by (simp_all add: ready_stream)
  from command_value [OF V this] obtain p2 where
    step: "dispatch E D V CfHandle (co_header c) (ticked (ch_tick (co_header c)) ?p1) = (Ok (), p2)"
    and p2: "ready W E V n p2" "stands_for W (cx_entities (ps_ctx p2)) (after_messages W (co_messages c) N)"
      "ps_demo_stream p2 = d2" "cx_tick (ps_ctx p2) = ch_tick (co_header c)"
    and v: "ps_visitor p2 = fold take_in (ToldCommand (co_header c) (co_body c) # messages_events E W (co_messages c) N
       @ (if ch_tick (co_header c) \<noteq> cx_tick (ps_ctx ?p1) then [TickEnded] else [])) (ps_visitor ?p1)" by blast
  have "run_to_end E D V fuel p = run_to_end E D V k p2"
    by (simp add: run_to_end_def k(1) header) (simp add: bindM_def set_tick_run retM_def step)
  moreover from a_command.IH [OF p2(3,1,2) _ k(2)] a_command.prems(4) obtain p' where
    "run_to_end E D V k p2 = (Ok (), p')" "ready W E V n p'"
    "ps_visitor p' = fold take_in (story E W (cx_tick (ps_ctx p2)) cs (after_messages W (co_messages c) N)) (ps_visitor p2)"
    "stands_for W (cx_entities (ps_ctx p')) (after_commands W cs (after_messages W (co_messages c) N))" by auto
  ultimately show ?case by (simp add: p2(4) v)
qed

subsection \<open>Demo files\<close>

text \<open>The body as it is stored: as it is, or compressed so that it comes back into any buffer that has room for it.\<close>

definition stored_body :: "snap \<Rightarrow> bool \<Rightarrow> u8 list \<Rightarrow> u8 list \<Rightarrow> bool" where
  "stored_body Z compressed stored body \<longleftrightarrow>
     (if compressed then snap_decompress_len Z stored = Some (length body)
        \<and> (\<forall>buf. length body \<le> length buf \<longrightarrow> snap_decompress Z stored buf = Some (body @ drop (length body) buf))
      else stored = body)"

text \<open>A command that a file of the generated enumeration can hold and that fits a buffer of \<open>m\<close> bytes.\<close>

definition command_stored :: "demo_commands \<Rightarrow> snap \<Rightarrow> nat \<Rightarrow> command \<Rightarrow> bool" where
  "command_stored C Z m c \<longleftrightarrow> (let h = co_header c in
     dc_known C (ch_cmd h) \<and> ch_cmd h AND dc_is_compressed C = 0 \<and> ch_size h = of_nat (length (encode_header C h))
     \<and> unat (ch_body_size h) = length (co_stored c) \<and> stored_body Z (ch_body_compressed h) (co_stored c) (co_body c)
     \<and> length (co_stored c) + length (co_body c) \<le> m)"

definition command_bytes :: "demo_commands \<Rightarrow> command \<Rightarrow> u8 list" where
  "command_bytes C c = encode_header C (co_header c) @ co_stored c"

definition file_holds :: "demo_commands \<Rightarrow> snap \<Rightarrow> 'i demo_file \<Rightarrow> command list \<Rightarrow> bool" where
  "file_holds C Z f cs \<longleftrightarrow> dc_is_compressed C \<noteq> 0 \<and> (\<forall>c\<in>set cs. command_stored C Z (length (df_buf f)) c)
     \<and> rd_pos (df_rdr f) \<le> length (rd_data (df_rdr f))
     \<and> drop (rd_pos (df_rdr f)) (rd_data (df_rdr f)) = concat (map (command_bytes C) cs)"

lemma read_body_value:
  assumes "stored_body Z (ch_body_compressed h) stored body" "unat (ch_body_size h) = length stored"
    and "length stored + length body \<le> length buf" "drop (rd_pos r) (rd_data r) = stored @ bytes"
  obtains buf' where "read_cmd_body Z h (r, buf) = (Ok body, (r\<lparr>rd_pos := rd_pos r + length stored\<rparr>, buf'))" "length buf' = length buf"
proof -
  have "read_exact (length stored) r = (Ok stored, r\<lparr>rd_pos := rd_pos r + length stored\<rparr>)"
  proof -
    have "length stored \<le> length (rd_data r) - rd_pos r" using arg_cong [OF assms(4), of length] by simp
    with assms(4) show ?thesis by (auto simp: read_exact_def)
  qed
  with that [of "stored @ (if ch_body_compressed h then body @ drop (length body) (drop (length stored) buf) else drop (length stored) buf)"]
    assms(1-3) show thesis
    by (cases "ch_body_compressed h") (auto simp: read_cmd_body_def Let_def stored_body_def slice_to_def)
qed

text \<open>A file whose reader is in front of the commands plays them.\<close>

lemma read_uvarint_at_end:
  "rd_pos r = length (rd_data r) \<Longrightarrow> read_uvarint_async leb r = (Err (VeIo UnexpectedEof), r)"
  by (cases r) (simp add: read_uvarint_async_def read_exact_def leb_def bindM_def map_errM_def)

lemma demofile_plays:
  "file_holds C Z f cs \<Longrightarrow> plays (demofile_stream C (read_uvarint_async leb) Z P) f cs"
proof (induction cs arbitrary: f)
  case Nil
  then have past: "rd_pos (df_rdr f) = length (rd_data (df_rdr f))" by (simp add: file_holds_def)
  have "demofile_read_cmd_header C (read_uvarint_async leb) f = (Err (RchVarint (VeIo UnexpectedEof)), f)"
    by (simp add: demofile_read_cmd_header_def zoom_rdr varint_cmd_header_def bindM_def map_errM_def read_uvarint_at_end [OF past])
  moreover have "at_eof_or_default (demofile_stream C (read_uvarint_async leb) Z P) f = (Ok True, f)"
    using past by (simp add: at_eof_or_default_def stream_simps demofile_is_at_eof_def on_rdr_def zoomM_def rdr_is_at_eof_ok rdr_at_end_def)
  ultimately show ?case by (intro at_end) (simp_all add: stream_simps)
next
  case (Cons c cs)
  let ?D = "demofile_stream C (read_uvarint_async leb) Z P" and ?h = "co_header c" and ?r = "df_rdr f"
  have c: "dc_known C (ch_cmd ?h)" "ch_cmd ?h AND dc_is_compressed C = 0" "ch_size ?h = of_nat (length (encode_header C ?h))"
    "unat (ch_body_size ?h) = length (co_stored c)" "stored_body Z (ch_body_compressed ?h) (co_stored c) (co_body c)"
    "length (co_stored c) + length (co_body c) \<le> length (df_buf f)" "dc_is_compressed C \<noteq> 0"
    using Cons.prems by (simp_all add: file_holds_def command_stored_def Let_def)
  have bytes: "drop (rd_pos ?r) (rd_data ?r) = encode_header C ?h @ (co_stored c @ concat (map (command_bytes C) cs))"
    using Cons.prems command_bytes_def [of C c] by (simp add: file_holds_def)
  let ?r1 = "?r\<lparr>rd_pos := rd_pos ?r + length (encode_header C ?h)\<rparr>"
  have 1: "ds_read_cmd_header ?D f = (Ok ?h, f\<lparr>df_rdr := ?r1\<rparr>)"
    using read_encoded_header [OF bytes c(1,2,7,3)] by (simp add: stream_simps demofile_read_cmd_header_def zoom_rdr)
  have bytes1: "drop (rd_pos ?r1) (rd_data ?r1) = co_stored c @ concat (map (command_bytes C) cs)"
    using arg_cong [OF bytes, of "drop (length (encode_header C ?h))"] by (simp add: add.commute)
  obtain buf where 2: "read_cmd_body Z ?h (?r1, df_buf f) = (Ok (co_body c), (?r1\<lparr>rd_pos := rd_pos ?r1 + length (co_stored c)\<rparr>, buf))"
    "length buf = length (df_buf f)" by (rule read_body_value [OF c(5,4,6) bytes1])
  let ?r2 = "?r1\<lparr>rd_pos := rd_pos ?r1 + length (co_stored c)\<rparr>"
  let ?f = "f\<lparr>df_rdr := ?r2, df_buf := buf\<rparr>"
  have read: "ds_read_cmd ?D ?h (f\<lparr>df_rdr := ?r1\<rparr>) = (Ok (co_body c), ?f)"
    using 2(1) by (simp add: stream_simps demofile_read_cmd_def zoomM_def)
  have "drop (rd_pos ?r2) (rd_data ?r2) = concat (map (command_bytes C) cs)"
    using arg_cong [OF bytes1, of "drop (length (co_stored c))"] by (simp add: add.commute)
  moreover have "rd_pos ?r2 \<le> length (rd_data ?r2)"
  proof -
    have "rd_pos ?r \<le> length (rd_data ?r)" using Cons.prems by (simp add: file_holds_def)
    with arg_cong [OF bytes, of length] show ?thesis unfolding length_append length_drop by simp
  qed
  ultimately have "plays ?D ?f cs" using Cons.prems 2(2) by (intro Cons.IH) (simp add: file_holds_def)
  from a_command [OF 1 read this] show ?case .
qed

text \<open>C1: the parser tells its visitor exactly the story of a demo.  Take a demo file whose bytes, from the reader's
  position on, are the commands: their headers as varints and their bodies, compressed or not.  The packets among them
  hold messages in variable-length forms, and these hold changes of entities, whose fields are addressed by coded paths
  and written in the formats of their decoders.  A run to the end succeeds; the visitor is told every command, every
  message, every entity that is created, updated or goes, with the fields that the changes give it, and the end of every
  tick, each once and in order; and the entities that are left are those of the snapshot that all changes make.\<close>

theorem demo_refine:
  fixes p :: "('i demo_file, 'v) parser" and V :: "('v, 'e) visitor" and W :: "'s scene"
  assumes "takes V take_in" "ready W E V n p" "stands_for W (cx_entities (ps_ctx p)) N"
    and "file_holds (e_cmds E) Z (ps_demo_stream p) cs"
    and "demo_means E W (demofile_stream (e_cmds E) (read_uvarint_async leb) Z P) n N cs" "length cs < fuel"
  shows "\<exists>p'. run_to_end E (demofile_stream (e_cmds E) (read_uvarint_async leb) Z P) V fuel p = (Ok (), p')
    \<and> ps_visitor p' = fold take_in (story E W (cx_tick (ps_ctx p)) cs N) (ps_visitor p)
    \<and> stands_for W (cx_entities (ps_ctx p')) (after_commands W cs N)"
  using run_value [OF assms(1) demofile_plays [OF assms(4)] refl assms(2,3,5,6)] by blast

subsection \<open>An example\<close>

text \<open>A demo of two commands: the packet of a message that the parser does not handle and of \<open>leaf_message\<close>, and a
  command of the same tick that is passed over.\<close>

definition leaf_env where
  "leaf_env = example_env\<lparr>e_decode_packet_entities := \<lambda>buf. if buf = [1] then Some leaf_message else None\<rparr>"

definition teller :: "(event list, unit) visitor" where
  "teller = \<lparr>vi_should_track_entity = \<lambda>_ _. True, vi_set_collecting = \<lambda>_ v. v,
     vi_on_entity = \<lambda>ctx h e v. (Ok (), v @ [ToldEntity (h, e)]), vi_on_cmd = \<lambda>ctx h b v. (Ok (), v @ [ToldCommand h b]),
     vi_on_packet = \<lambda>ctx c b v. (Ok (), v @ [ToldMessage c b]), vi_on_tick_end = \<lambda>ctx v. (Ok (), v @ [TickEnded])\<rparr>"

definition leaf_demo :: "nat demo_file" where
  "leaf_demo = example_demo\<lparr>df_rdr := \<lparr>rd_data = [7, 5, 6, 68, 64, 194, 53, 1, 1, 1, 5, 0], rd_pos = 0\<rparr>,
     df_buf := replicate 12 0\<rparr>"

definition leaf_stream :: "nat demo_file seekable_stream" where
  "leaf_stream = demofile_stream (e_cmds leaf_env) (read_uvarint_async leb) (e_snap leaf_env)
     (example_protos\<lparr>pr_packet := \<lambda>b. Some (Some b)\<rparr>)"

definition leaf_parser :: "(nat demo_file, event list) parser" where
  "leaf_parser = (parser_from_stream leaf_demo [])\<lparr>ps_ctx := context_new\<lparr>cx_cells := [[2]], cx_instance_baseline := [Some 0],
     cx_serializers := Some [7 \<mapsto> leaf_serializer], cx_entity_classes := Some leaf_classes\<rparr>\<rparr>"

definition leaf_packet :: command where
  "leaf_packet = \<lparr>co_header = \<lparr>ch_cmd = 7, ch_body_compressed = False, ch_tick = 5, ch_body_size = 6, ch_size = 3\<rparr>,
     co_stored = [68, 64, 194, 53, 1, 1], co_body = [68, 64, 194, 53, 1, 1],
     co_messages = [Other 4 [9], Entities [1] leaf_changes]\<rparr>"

definition leaf_passed :: command where
  "leaf_passed = \<lparr>co_header = \<lparr>ch_cmd = 1, ch_body_compressed = False, ch_tick = 5, ch_body_size = 0, ch_size = 3\<rparr>,
     co_stored = [], co_body = [], co_messages = []\<rparr>"

lemma leaf_ready:
  "ready leaf_scene leaf_env teller DEMO_RECORD_BUFFER_SIZE leaf_parser" "takes teller (\<lambda>x v. v @ [x])"
  by (simp_all add: ready_def in_scene_def leaf_scene_def scene_ok_def ref_wire_laws leaf_parser_def parser_from_stream_def
      field_decode_context_default_def leaf_env_def example_env_def teller_def takes_def)

lemma leaf_packet_coded:
  obtains bs where "messages_coded leaf_env leaf_scene DEMO_RECORD_BUFFER_SIZE Map.empty (co_messages leaf_packet) bs"
    "string_bits (co_body leaf_packet) = bs @ []"
proof -
  obtain cs where cs: "changes_coded leaf_scene Map.empty (- 1) leaf_changes cs" "string_bits (mp_entity_data leaf_message) = cs @ []"
    by (rule leaf_message_coded)
  have size: "length (mp_entity_data leaf_message) = 11" "sint (mp_updated_entries leaf_message) = 2"
    by (simp_all add: leaf_message_def)
  have means: "message_means leaf_env leaf_scene Map.empty (Entities [1] leaf_changes)"
    "message_means leaf_env leaf_scene Map.empty (Other 4 [9])"
    using cs size by (auto simp: leaf_env_def example_env_def)
  have "messages_coded leaf_env leaf_scene DEMO_RECORD_BUFFER_SIZE Map.empty (co_messages leaf_packet)
      (message_bits leaf_env (Other 4 [9]) @ message_bits leaf_env (Entities [1] leaf_changes) @ [])"
    unfolding leaf_packet_def command.simps
    by (intro messages_coded.a_message messages_coded.no_message) (use means in \<open>simp_all add: DEMO_RECORD_BUFFER_SIZE_def\<close>)
  moreover have "encode_ubitvar 4 = [False, False, True, False, False, False]"
    "encode_ubitvar 55 = [True, True, True, False, True, False, True, True, False, False]"
    by (simp_all add: encode_ubitvar_def first_bits)
  then have "string_bits (co_body leaf_packet) = message_bits leaf_env (Other 4 [9]) @ message_bits leaf_env (Entities [1] leaf_changes)"
    by (simp add: leaf_packet_def message_bits_def leaf_env_def example_env_def leb128.simps string_bits_def first_bits)
  ultimately show thesis using that by simp
qed

lemma leaf_demo_means:
  "file_holds (e_cmds leaf_env) (e_snap leaf_env) leaf_demo [leaf_packet, leaf_passed]"
  "demo_means leaf_env leaf_scene leaf_stream DEMO_RECORD_BUFFER_SIZE Map.empty [leaf_packet, leaf_passed]"
proof -
  show "file_holds (e_cmds leaf_env) (e_snap leaf_env) leaf_demo [leaf_packet, leaf_passed]"
    by (simp add: file_holds_def command_stored_def stored_body_def command_bytes_def encode_header_def raw_cmd_def
        encode_uvarint.simps leaf_packet_def leaf_passed_def leaf_demo_def leaf_env_def example_env_def example_cmds_def)
  obtain bs where bs: "messages_coded leaf_env leaf_scene DEMO_RECORD_BUFFER_SIZE Map.empty (co_messages leaf_packet) bs"
    "string_bits (co_body leaf_packet) = bs @ []" by (rule leaf_packet_coded)
  have "is_packet (e_cmds leaf_env) leaf_packet" "\<not> is_packet (e_cmds leaf_env) leaf_passed" "length (co_body leaf_packet) = 6"
    "ch_cmd (co_header leaf_passed) \<noteq> dc_full_packet (e_cmds leaf_env)" "co_messages leaf_passed = []"
    by (simp_all add: is_packet_def leaf_packet_def leaf_passed_def leaf_env_def example_env_def example_cmds_def)
  moreover have "ds_decode_cmd_packet leaf_stream b = Ok (Some b)" for b
    by (simp add: leaf_stream_def demofile_stream_def demofile_decode_cmd_packet_def ok_or_def)
  ultimately show "demo_means leaf_env leaf_scene leaf_stream DEMO_RECORD_BUFFER_SIZE Map.empty [leaf_packet, leaf_passed]"
    using bs by (auto simp: command_means_def)
qed

theorem demo_refine_witness:
  "ps_visitor (snd (run_to_end leaf_env leaf_stream teller 3 leaf_parser)) =
    [ToldCommand (co_header leaf_packet) (co_body leaf_packet), ToldMessage 4 [9], ToldMessage 55 [1],
     ToldEntity (CREATE, \<lparr>en_index = 0, en_fields = [5 \<mapsto> FvBool True], en_serializer = leaf_serializer\<rparr>),
     ToldEntity (CREATE, \<lparr>en_index = 2, en_fields = [5 \<mapsto> FvBool False], en_serializer = leaf_serializer\<rparr>),
     TickEnded, ToldCommand (co_header leaf_passed) []]"
proof -
  have p: "ps_demo_stream leaf_parser = leaf_demo" "cx_entities (ps_ctx leaf_parser) = entity_container_new"
    "ps_visitor leaf_parser = []" "cx_tick (ps_ctx leaf_parser) = - 1"
    by (simp_all add: leaf_parser_def parser_from_stream_def context_new_def)
  obtain p' where "run_to_end leaf_env leaf_stream teller 3 leaf_parser = (Ok (), p')"
    "ps_visitor p' = fold (\<lambda>x v. v @ [x]) (story leaf_env leaf_scene (- 1) [leaf_packet, leaf_passed] Map.empty) []"
    using demo_refine [OF leaf_ready(2,1) _ _ leaf_demo_means(2) [unfolded leaf_stream_def], of 3] stands_for_new [of leaf_scene]
      leaf_demo_means(1) unfolding p leaf_stream_def by auto
  then show ?thesis
    by (simp add: message_events_def shown_def leaf_class(3,4) updated_def)
      (simp add: leaf_packet_def leaf_passed_def message_events_def shown_def leaf_class(3,4) updated_def leaf_env_def example_env_def)
qed

end
