(* ===== verification/Spec2Isabelle.thy ===== *)
theory Spec2Isabelle
  imports FxHash BitReaderLaws FieldOpTreeLaws FieldDecoderLaws VartypeLaws FieldMetadataLaws
    FlattenedSerializersLaws InstanceBaselineLaws EntityContainerLaws PacketChannelLaws AsyncParserLaws HttpRuns DemoSnapshots
begin

text \<open>
  A model of \<open>haste\<close>, a parser of Source 2 demo files and broadcasts.  Paths are relative to \<open>src/crates\<close>.

  A demo is a stream of commands.  The parser (\<open>haste_core/src/parser.rs\<close>) reads a command header, tracks the
  tick, and handles the command's body: flattened serializers describe the classes' fields, string tables carry
  the instance baselines, and packets carry bit streams of entity updates.  An update lists the changed fields
  as Huffman coded field paths and then the fields' values, each read by the decoder that the field's C++ type
  selects.

  The theories, from the bottom up:

  \<^item> \<open>Prelude\<close>: machine integers as words, outcomes \<open>Ok\<close>, \<open>Err\<close>, \<open>Panic\<close>, \<open>OutOfFuel\<close>, and the monad of
    functions that return an outcome and the new state; slices with Rust's panics.
  \<^item> \<open>Floats\<close>: IEEE-754 numbers of 32 and 64 bits with rounding to nearest, as bit patterns.
  \<^item> \<open>FxHash\<close>: \<open>fxhash.rs\<close> and \<open>fkey_from_path\<close> of \<open>entities.rs\<close>.
  \<^item> \<open>Bitbuf\<close>: the interface of the external bit cursor, laws and a reference implementation of it;
    \<open>BitReader\<close>, \<open>BitReaderLaws\<close>: \<open>bitreader.rs\<close> over that interface.
  \<^item> \<open>FieldPath\<close>, \<open>FieldOpTree\<close> and their laws: \<open>fieldpath.rs\<close>.  The forty operations on paths, the Huffman
    tree built with a binary heap, and \<open>read_field_paths\<close>.  The laws are stated for every priority queue that
    meets an interface, and give the round trip for coded paths.
  \<^item> \<open>QuantizedFloat\<close>, \<open>FieldValue\<close>, \<open>FieldDecoder\<close>: \<open>quantizedfloat.rs\<close>, \<open>fieldvalue.rs\<close> and
    \<open>fielddecoder.rs\<close>.  Trait objects of decoders are a datatype.
  \<^item> \<open>Vartype\<close>: the crate \<open>haste_vartype\<close>; \<open>FieldMetadata\<close>: \<open>fieldmetadata.rs\<close>; \<open>FlattenedSerializers\<close>:
    \<open>flattenedserializers.rs\<close>.
  \<^item> \<open>StringTables\<close>: \<open>stringtables.rs\<close>.  Cells shared by reference counting are addresses of an explicit store.
    \<open>InstanceBaseline\<close>: \<open>instancebaseline.rs\<close> and \<open>entityclasses.rs\<close>, which share those cells.
  \<^item> \<open>Entities\<close>: \<open>entities.rs\<close>; \<open>EntitiesLaws\<close> and \<open>EntityContainerLaws\<close> prove that skipping follows
    parsing, which keys fields get, and the invariant of the container over a step relation.
  \<^item> \<open>DemoStream\<close>: the traits of \<open>demostream.rs\<close> as records of operations, and \<open>async_demostream.rs\<close>;
    \<open>DemoFile\<close>: \<open>demofile.rs\<close> and \<open>async_demofile.rs\<close>; \<open>BroadcastStream\<close>: the readers of the broadcast format
    (\<open>haste_broadcast/src/demostream.rs\<close>, \<open>broadcastfile.rs\<close> and the two asynchronous ones);
    \<open>PacketChannel\<close>: \<open>packet_channel_demo_stream.rs\<close>.
  \<^item> \<open>StreamContract\<close>: the interface \<open>stream_contract\<close> between a parser and the stream it reads, in terms of the
    commands between two positions, interpreted on demo files and on broadcast files.
  \<^item> \<open>PacketChannelLaws\<close>: a demo cut into packets is read as the demo in a file is, short of its last bytes; and
    the round trip of command headers.
  \<^item> \<open>Parser\<close>: \<open>Parser\<close> of \<open>parser.rs\<close>; \<open>AsyncParser\<close>: \<open>AsyncStreamingParser\<close> of the same file.
    \<open>ParserLaws\<close>: the frame of the handlers and the runs of the parser over any stream that meets the contract;
    \<open>ParserRuns\<close>: what this gives for demo files (full packets, scans, runs to a tick) and an example demo;
    \<open>ParserEnds\<close>: no run and no handler runs out of fuel, so that parsing ends on all bytes.
    \<open>AsyncParserLaws\<close>: the streaming parser does what the parser does, and where it does not.
  \<^item> \<open>WireFormat\<close>, \<open>EntityUpdates\<close>, \<open>Snapshots\<close>, \<open>SnapshotRuns\<close>, \<open>PacketSnapshots\<close>, \<open>DemoSnapshots\<close>: what a demo
    means, and that the parser implements this abstract specification.  The format of the value of every decoder;
    an update as the overlay of fields; snapshots of entities and the changes that act on them, each with its form
    on the wire; packets as messages; demo files as commands; the story that a run tells its visitor.  The scene of
    a story is fixed: tables, classes and serializers are known, and the classes have the baselines that they had
    when they were first created, because the container caches these.  String tables and full packets change the
    scene and are not part of a story.
  \<^item> \<open>BroadcastHttp\<close>: \<open>haste_broadcast/src/broadcasthttp.rs\<close>.  The retrying client and the state machine of the
    stream, over a record of what the world does (clock, sleep, HTTP).  \<open>BroadcastHttpLaws\<close>: retries, the order
    and the end of the packets, fragments that come late, and what is buffered.  \<open>HttpRuns\<close>: it meets the
    interface, so a parser run over the buffered packets reads their commands.

  External code (the crate \<open>dungers\<close>, snappy, protobuf, the numbers of the generated enumerations, the order of
  iteration of hash maps) is a parameter of the definitions that use it; where a property needs its documented
  behaviour this is a named hypothesis, with a reference instance that meets it.

  Loops whose length the input decides take fuel.  Where a bound is known the caller passes it (one more than the
  bits that are left, for example) and it is proved to be enough; the runs of the parser take it as an argument.

  Not modelled: formatting (\<open>Debug\<close>, \<open>Display\<close>), unit tests, the implementation of the HTTP client and the channels behind a packet
  source, and re-exports.
\<close>

end
